(* ===== verification/Prelude.thy ===== *)
theory Prelude
  imports Main "HOL-Library.Word" "HOL-Library.Sublist"
begin

text \<open>
  Shared vocabulary of the development: machine integers, C strings in char buffers, bounded
  copies into memory blocks, and the generic list lemmas the component theories use.
\<close>

unbundle bit_operations_syntax

type_synonym u8 = "8 word"
type_synonym u16 = "16 word"
type_synonym u32 = "32 word"
type_synonym u64 = "64 word"

named_theorems cstr_simps \<open>facts on C strings and memory blocks\<close>

section \<open>C strings\<close>

text \<open>The terminator, and the string that starts at the head of a memory block.\<close>

abbreviation NUL :: char where
  "NUL \<equiv> CHR 0x00"

definition c_str :: "char list \<Rightarrow> string" where
  "c_str m = takeWhile (\<lambda>c. c \<noteq> NUL) m"

definition no_nul :: "string \<Rightarrow> bool" where
  "no_nul s \<longleftrightarrow> NUL \<notin> set s"

lemma no_nul_Nil [simp]: "no_nul []"
  by (simp add: no_nul_def)

lemma no_nul_Cons [simp]: "no_nul (c # s) \<longleftrightarrow> c \<noteq> NUL \<and> no_nul s"
  by (auto simp: no_nul_def)

lemma no_nul_append [simp]: "no_nul (s @ t) \<longleftrightarrow> no_nul s \<and> no_nul t"
  by (auto simp: no_nul_def)

lemma c_str_no_nul [cstr_simps]: "no_nul s \<Longrightarrow> c_str s = s"
  by (auto simp: c_str_def no_nul_def takeWhile_eq_all_conv)

lemma c_str_append_nul [cstr_simps]: "no_nul s \<Longrightarrow> c_str (s @ NUL # r) = s"
  by (induction s) (auto simp: c_str_def)

lemma no_nul_c_str [simp]: "no_nul (c_str m)"
  by (auto simp: c_str_def no_nul_def dest: set_takeWhileD)

text \<open>\<open>strncmp (a, b, n) == 0\<close> compares at most \<open>n\<close> characters and stops at a terminator.\<close>

definition strneq :: "nat \<Rightarrow> char list \<Rightarrow> char list \<Rightarrow> bool" where
  "strneq n a b \<longleftrightarrow> c_str (take n a) = c_str (take n b)"

lemma strneq_refl [simp]: "strneq n a a"
  by (simp add: strneq_def)

section \<open>Memory blocks\<close>

text \<open>
  A block is the list of its cells. \<open>mem_put\<close> is an assignment through an index,
  \<open>mem_copy\<close> a memcpy into the block: outside of the block there is no result.
\<close>

definition mem_put :: "'a list \<Rightarrow> nat \<Rightarrow> 'a \<Rightarrow> 'a list option" where
  "mem_put m i x = (if i < length m then Some (m[i := x]) else None)"

definition mem_copy :: "'a list \<Rightarrow> nat \<Rightarrow> 'a list \<Rightarrow> 'a list option" where
  "mem_copy m i xs =
     (if i + length xs \<le> length m then Some (take i m @ xs @ drop (i + length xs) m) else None)"

lemma mem_put_Some [simp]: "i < length m \<Longrightarrow> mem_put m i x = Some (m[i := x])"
  by (simp add: mem_put_def)

lemma mem_put_length: "mem_put m i x = Some m' \<Longrightarrow> length m' = length m"
  by (auto simp: mem_put_def split: if_splits)

lemma mem_copy_length: "mem_copy m i xs = Some m' \<Longrightarrow> length m' = length m"
  by (auto simp: mem_copy_def split: if_splits)

section \<open>Lists\<close>

lemma take_list_update_last: "i < length m \<Longrightarrow> take (Suc i) (m[i := x]) = take i m @ [x]"
  by (simp add: take_Suc_conv_app_nth)

lemma drop_append_exact [simp]: "drop (length xs) (xs @ ys) = ys"
  by simp

lemma take_append_exact [simp]: "take (length xs) (xs @ ys) = xs"
  by simp

lemma list_update_append_exact [simp]: "(xs @ y # ys)[length xs := z] = xs @ z # ys"
  by (induction xs) auto

section \<open>Bytes and characters\<close>

definition byte_of_char :: "char \<Rightarrow> u8" where
  "byte_of_char c = word_of_nat (of_char c)"

definition char_of_byte :: "u8 \<Rightarrow> char" where
  "char_of_byte b = char_of (unat b)"

lemma char_of_byte_of_char [simp]: "char_of_byte (byte_of_char c) = c"
proof -
  have "unat (byte_of_char c) = (of_char c :: nat)"
    using nat_of_char_less_256 [of c]
    by (simp add: byte_of_char_def unat_of_nat)
  then show ?thesis by (simp add: char_of_byte_def)
qed

lemma byte_of_char_of_byte [simp]: "byte_of_char (char_of_byte b) = b"
proof -
  have "(of_char (char_of (unat b) :: char) :: nat) = unat b" using unsigned_less [of b, where 'a = nat] by simp
  then show ?thesis by (simp add: byte_of_char_def char_of_byte_def)
qed

lemma map_char_of_byte_of_char [simp]: "map char_of_byte (map byte_of_char s) = s"
  by (induction s) auto

lemma char_of_byte_comp [simp]: "char_of_byte \<circ> byte_of_char = id"
  by (simp add: fun_eq_iff)

text \<open>Little-endian byte images of a word: \<open>n\<close> bytes, least significant first.\<close>

primrec le_bytes :: "nat \<Rightarrow> 'a::len word \<Rightarrow> u8 list" where
  "le_bytes 0 w = []"
| "le_bytes (Suc n) w = ucast w # le_bytes n (drop_bit 8 w)"

primrec of_le :: "u8 list \<Rightarrow> 'a::len word" where
  "of_le [] = 0"
| "of_le (b # bs) = ucast b OR push_bit 8 (of_le bs)"

lemma length_le_bytes [simp]: "length (le_bytes n w) = n"
  by (induction n arbitrary: w) auto

lemma of_le_bytes: "of_le (le_bytes n w) = take_bit (8 * n) w"
proof (induction n arbitrary: w)
  case 0
  then show ?case by simp
next
  case (Suc n)
  show ?case
  proof (rule bit_word_eqI)
    fix k assume k: "k < LENGTH('a)"
    show "bit (of_le (le_bytes (Suc n) w) :: 'a word) k = bit (take_bit (8 * Suc n) w) k"
      using k by (cases "k < 8")
        (auto simp: Suc bit_or_iff bit_push_bit_iff bit_ucast_iff bit_take_bit_iff bit_drop_bit_eq)
  qed
qed

lemma of_le_bytes_2 [simp]: "of_le (le_bytes 2 (w :: u16)) = w"
  by (simp add: of_le_bytes take_bit_word_eq_self)

lemma of_le_bytes_8 [simp]: "of_le (le_bytes 8 (w :: u64)) = w"
  by (simp add: of_le_bytes take_bit_word_eq_self)

end
