(* ===== verification/KvsNode.thy ===== *)
theory KvsNode
  imports Prelude
begin

text \<open>
  The node header of the host key-value store (kvs/host/kvs_templates.hh, struct line_info) and
  its image in the file.

  The struct is laid out as the 64-bit host ABI does: magic (2 bytes), kvs_type, xx, 4 bytes of
  padding, the 8 bytes of the union nval, 15 bytes of key, one byte of padding: 32 bytes, little
  endian. The union is its 64 bits; its members are the views \<open>nval_blob_len\<close> (bits 0 to 15),
  \<open>nval_blob_size\<close> (bits 16 to 31) and the low bits for the integer members. Padding is
  written as zeros.
\<close>

named_theorems kvs_simps \<open>facts on nodes of the key-value store\<close>

section \<open>Constants\<close>

definition MAX_KEY_LEN :: nat where "MAX_KEY_LEN = 14"
definition COOKIE :: u16 where "COOKIE = 0xbeef"
definition HANDLE_COUNT :: nat where "HANDLE_COUNT = 4"

text \<open>kvs_type_t of kvs/kvs_wrapper.h.\<close>

definition KVS_TYPE_none :: u8 where "KVS_TYPE_none = 0x00"
definition KVS_TYPE_u8 :: u8 where "KVS_TYPE_u8 = 0x01"
definition KVS_TYPE_i8 :: u8 where "KVS_TYPE_i8 = 0x11"
definition KVS_TYPE_u16 :: u8 where "KVS_TYPE_u16 = 0x02"
definition KVS_TYPE_i16 :: u8 where "KVS_TYPE_i16 = 0x12"
definition KVS_TYPE_u32 :: u8 where "KVS_TYPE_u32 = 0x04"
definition KVS_TYPE_i32 :: u8 where "KVS_TYPE_i32 = 0x14"
definition KVS_TYPE_u64 :: u8 where "KVS_TYPE_u64 = 0x08"
definition KVS_TYPE_i64 :: u8 where "KVS_TYPE_i64 = 0x18"
definition KVS_TYPE_STR :: u8 where "KVS_TYPE_STR = 0x21"
definition KVS_TYPE_BLOB :: u8 where "KVS_TYPE_BLOB = 0x42"
definition KVS_TYPE_ANY :: u8 where "KVS_TYPE_ANY = 0xff"

lemmas kvs_type_defs = KVS_TYPE_none_def KVS_TYPE_u8_def KVS_TYPE_i8_def KVS_TYPE_u16_def
  KVS_TYPE_i16_def KVS_TYPE_u32_def KVS_TYPE_i32_def KVS_TYPE_u64_def KVS_TYPE_i64_def
  KVS_TYPE_STR_def KVS_TYPE_BLOB_def KVS_TYPE_ANY_def

section \<open>struct line_info\<close>

record line_info =
  li_magic :: u16
  li_kvs_type :: u8
  li_xx :: u8
  li_nval :: u64
  li_key :: "char list"

definition sizeof_li :: nat where
  "sizeof_li = 32"

definition nval_blob_len :: "u64 \<Rightarrow> u16" where
  "nval_blob_len v = ucast v"

definition nval_blob_size :: "u64 \<Rightarrow> u16" where
  "nval_blob_size v = ucast (drop_bit 16 v)"

definition nval_of_len :: "u16 \<Rightarrow> u16 \<Rightarrow> u64" where
  "nval_of_len l sz = ucast l OR push_bit 16 (ucast sz)"

text \<open>The macros li_typeInt, li_isUsed, li_size and li_matchKey.\<close>

definition li_hasSize :: "u8 \<Rightarrow> bool" where
  "li_hasSize t \<longleftrightarrow> t AND 0x60 \<noteq> 0"

definition li_typeInt :: "line_info \<Rightarrow> bool" where
  "li_typeInt li \<longleftrightarrow> li_kvs_type li AND 0x60 = 0 \<and> li_kvs_type li AND 0x07 \<noteq> 0"

definition li_isUsed :: "line_info \<Rightarrow> bool" where
  "li_isUsed li \<longleftrightarrow> li_kvs_type li AND 0x80 = 0 \<and> li_kvs_type li \<noteq> 0"

definition li_size :: "line_info \<Rightarrow> nat" where
  "li_size li = sizeof_li +
     (if li_hasSize (li_kvs_type li) then unat (nval_blob_size (li_nval li)) else 0)"

definition li_matchKey :: "line_info \<Rightarrow> string \<Rightarrow> bool" where
  "li_matchKey li key \<longleftrightarrow> li_isUsed li \<and> strneq MAX_KEY_LEN (li_key li) key"

text \<open>\<open>SET_BIT(lip->kvs_type, 7)\<close> marks a node as deleted.\<close>

definition li_set_deleted :: "line_info \<Rightarrow> line_info" where
  "li_set_deleted li = li\<lparr>li_kvs_type := li_kvs_type li OR 0x80\<rparr>"

section \<open>The image in the file\<close>

definition enc_li :: "line_info \<Rightarrow> u8 list" where
  "enc_li li = le_bytes 2 (li_magic li) @ [li_kvs_type li, li_xx li, 0, 0, 0, 0] @
     le_bytes 8 (li_nval li) @ map byte_of_char (li_key li) @ [0]"

definition dec_li :: "u8 list \<Rightarrow> line_info" where
  "dec_li bs = \<lparr>li_magic = of_le (take 2 bs), li_kvs_type = bs ! 2, li_xx = bs ! 3,
     li_nval = of_le (take 8 (drop 8 bs)), li_key = map char_of_byte (take 15 (drop 16 bs))\<rparr>"

lemma length_enc_li [simp]: "length (li_key li) = 15 \<Longrightarrow> length (enc_li li) = sizeof_li"
  by (simp add: enc_li_def sizeof_li_def)

lemma sizeof_li_pos [simp]: "0 < sizeof_li"
  by (simp add: sizeof_li_def)

lemma dec_enc_li [simp]:
  assumes "length (li_key li) = 15"
  shows "dec_li (enc_li li) = li"
proof -
  have two: "le_bytes 2 w = [ucast w, ucast (drop_bit 8 w)]" for w :: u16
    by (simp add: numeral_2_eq_2)
  let ?a = "le_bytes 2 (li_magic li)" and ?m = "[li_kvs_type li, li_xx li, 0, 0, 0, 0 :: u8]"
  let ?v = "le_bytes 8 (li_nval li)" and ?k = "map byte_of_char (li_key li)"
  have e: "enc_li li = (?a @ ?m) @ ?v @ ?k @ [0]"
    by (simp add: enc_li_def)
  have "take 2 (enc_li li) = ?a"
    by (simp add: enc_li_def)
  moreover have "enc_li li ! 2 = li_kvs_type li" "enc_li li ! 3 = li_xx li"
    by (simp_all add: enc_li_def nth_append)
  moreover have "take 8 (drop 8 (enc_li li)) = ?v"
    unfolding e by (simp del: append_assoc)
  moreover have "take 15 (drop 16 (enc_li li)) = ?k"
  proof -
    have "drop 16 (enc_li li) = ?k @ [0]"
      unfolding e by simp
    then show ?thesis using assms by simp
  qed
  ultimately show ?thesis
    by (simp add: dec_li_def del: le_bytes.simps map_map)
qed

section \<open>Views of the union\<close>

lemma nval_blob_len_of_len [simp]: "nval_blob_len (nval_of_len l s) = l"
  by (rule bit_word_eqI)
    (simp add: nval_blob_len_def nval_of_len_def bit_ucast_iff bit_or_iff bit_push_bit_iff)

lemma nval_blob_size_of_len [simp]: "nval_blob_size (nval_of_len l s) = s"
  by (rule bit_word_eqI)
    (auto simp: nval_blob_size_def nval_of_len_def bit_ucast_iff bit_or_iff bit_push_bit_iff
      bit_drop_bit_eq dest: bit_imp_le_length)

section \<open>Deleting keeps size and kind\<close>

lemma and_or_disjoint: "(b :: u8) AND m = 0 \<Longrightarrow> (a OR b) AND m = a AND m"
  by (rule bit_word_eqI) (metis bit_and_iff bit_or_iff bit_0_eq bot_apply bot_bool_def)

lemma set_deleted_simps [simp]:
  "li_key (li_set_deleted li) = li_key li"
  "li_nval (li_set_deleted li) = li_nval li"
  "li_magic (li_set_deleted li) = li_magic li"
  "li_typeInt (li_set_deleted li) = li_typeInt li"
  "li_size (li_set_deleted li) = li_size li"
  "\<not> li_isUsed (li_set_deleted li)"
proof -
  have m: "(0x80 :: u8) AND 0x60 = 0" "(0x80 :: u8) AND 0x07 = 0" by simp_all
  show "li_typeInt (li_set_deleted li) = li_typeInt li"
    by (simp add: li_typeInt_def li_set_deleted_def and_or_disjoint m)
  show "li_size (li_set_deleted li) = li_size li"
    by (simp add: li_size_def li_hasSize_def li_set_deleted_def and_or_disjoint m)
  have "bit ((li_kvs_type li OR 0x80) AND 0x80) 7"
    by (simp add: bit_and_iff bit_or_iff)
  then have "(li_kvs_type li OR 0x80) AND 0x80 \<noteq> 0" by (metis bit_0_eq bot_apply bot_bool_def)
  then show "\<not> li_isUsed (li_set_deleted li)"
    by (simp add: li_isUsed_def li_set_deleted_def)
qed (simp_all add: li_set_deleted_def)

lemma set_deleted_hasSize [simp]: "li_hasSize (li_kvs_type (li_set_deleted li)) = li_hasSize (li_kvs_type li)"
proof -
  have m: "(0x80 :: u8) AND 0x60 = 0" by simp
  show ?thesis by (simp add: li_hasSize_def li_set_deleted_def and_or_disjoint m)
qed

lemma set_deleted_type_nonzero [simp]: "li_kvs_type (li_set_deleted li) \<noteq> 0"
proof
  assume "li_kvs_type (li_set_deleted li) = 0"
  then have "bit (li_kvs_type li OR 0x80) 7 = bit (0 :: u8) 7"
    by (simp add: li_set_deleted_def)
  then show False by (simp add: bit_or_iff)
qed

lemma used_type_nonzero: "li_isUsed li \<Longrightarrow> li_kvs_type li \<noteq> 0"
  by (simp add: li_isUsed_def)

lemma li_size_ge: "sizeof_li \<le> li_size li"
  by (simp add: li_size_def)

end
