(* ===== verification/KvsStore.thy ===== *)
theory KvsStore
  imports KvsNode
begin

text \<open>
  The operations of the host key-value store on one open file (kvs/host/kvs_posix.cc).

  An open file is its bytes, the offset of the descriptor and whether it was opened for
  writing. lseek, read and write are the POSIX calls on a regular file: a read returns what is
  left, a write on a writable descriptor succeeds and extends the file. A program abort (the bad
  cookie check of the host build, an assertion, the string copy guard), an access outside of a table and
  a loop that never returns are values of \<open>kvs_fail\<close>.
\<close>

datatype kvs_fail = BadCookie | AssertFailed | StrcpyError | NoReturn | BadAccess

record kfile =
  kf_data :: "u8 list"
  kf_off :: nat
  kf_wr :: bool

section \<open>POSIX file access\<close>

definition f_read :: "kfile \<Rightarrow> nat \<Rightarrow> u8 list \<times> kfile" where
  "f_read h n = (let bs = take n (drop (kf_off h) (kf_data h))
     in (bs, h\<lparr>kf_off := kf_off h + length bs\<rparr>))"

definition f_seek :: "nat \<Rightarrow> kfile \<Rightarrow> kfile" where
  "f_seek pos h = h\<lparr>kf_off := pos\<rparr>"

definition pwrite :: "u8 list \<Rightarrow> nat \<Rightarrow> u8 list \<Rightarrow> u8 list" where
  "pwrite f off bs = take off f @ replicate (off - length f) 0 @ bs @ drop (off + length bs) f"

definition f_write :: "kfile \<Rightarrow> u8 list \<Rightarrow> int \<times> kfile" where
  "f_write h bs = (if kf_wr h
     then (int (length bs), h\<lparr>kf_data := pwrite (kf_data h) (kf_off h) bs, kf_off := kf_off h + length bs\<rparr>)
     else (-1, h))"

section \<open>Reading nodes\<close>

definition kvs_checkMagicCookie :: "line_info \<Rightarrow> kvs_fail + bool" where
  "kvs_checkMagicCookie li = (if li_magic li = COOKIE then Inr True else Inl BadCookie)"

definition kvs_read :: "kfile \<Rightarrow> nat \<Rightarrow> kvs_fail + line_info option \<times> kfile" where
  "kvs_read h pos = (case f_read (f_seek pos h) sizeof_li of (bs, h') \<Rightarrow>
     if length bs = sizeof_li then
       (case kvs_checkMagicCookie (dec_li bs) of
          Inl e \<Rightarrow> Inl e
        | Inr _ \<Rightarrow> Inr (Some (dec_li bs), h'))
     else Inr (None, h'))"

text \<open>The loop of kvs_find_next: skip nodes that do not match, advancing by their size.\<close>

definition find_mismatch :: "line_info \<Rightarrow> string option \<Rightarrow> u8 \<Rightarrow> bool" where
  "find_mismatch li key ty \<longleftrightarrow>
     (case key of None \<Rightarrow> False | Some k \<Rightarrow> \<not> li_matchKey li k) \<or>
     (ty \<noteq> KVS_TYPE_ANY \<and> li_kvs_type li \<noteq> ty)"

lemma kvs_read_Some_bound:
  "kvs_read h pos = Inr (Some li, h') \<Longrightarrow> pos + sizeof_li \<le> length (kf_data h) \<and> kf_data h' = kf_data h"
  by (auto simp: kvs_read_def f_read_def f_seek_def sizeof_li_def Let_def split: if_splits sum.splits)

function kvs_find_loop ::
  "kfile \<Rightarrow> nat \<Rightarrow> string option \<Rightarrow> u8 \<Rightarrow> kvs_fail + (nat \<times> line_info) option \<times> kfile" where
  "kvs_find_loop h pos key ty =
     (case kvs_read h pos of
        Inl e \<Rightarrow> Inl e
      | Inr (None, h') \<Rightarrow> Inr (None, h')
      | Inr (Some li, h') \<Rightarrow>
          if find_mismatch li key ty then kvs_find_loop h' (pos + li_size li) key ty
          else Inr (Some (pos, li), h'))"
  by pat_completeness auto
termination
proof (relation "measure (\<lambda>(h, pos, key, ty). length (kf_data h) - pos)", goal_cases)
  case 1
  then show ?case by simp
next
  case (2 h pos key ty r x y li)
  then have "kvs_read h pos = Inr (Some li, y)" by simp
  from kvs_read_Some_bound [OF this] show ?case
    using li_size_ge [of li] by (auto simp: sizeof_li_def)
qed

declare kvs_find_loop.simps [simp del]

text \<open>
  The header passed in is the node the last call stopped at; a type other than 0 makes the
  search start behind it. The result is the position and header found, None for -1.
\<close>

definition kvs_find_next ::
  "kfile \<Rightarrow> line_info \<Rightarrow> nat \<Rightarrow> string option \<Rightarrow> u8 \<Rightarrow> kvs_fail + (nat \<times> line_info) option \<times> kfile" where
  "kvs_find_next h li pos key ty =
     kvs_find_loop h (if li_kvs_type li \<noteq> 0 then pos + li_size li else pos) key ty"

text \<open>\<open>struct line_info li = { COOKIE }\<close>: every other member is zero.\<close>

definition li_init :: line_info where
  "li_init = \<lparr>li_magic = COOKIE, li_kvs_type = 0, li_xx = 0, li_nval = 0, li_key = replicate 15 NUL\<rparr>"

section \<open>Writing nodes\<close>

text \<open>kvs_write: position None stands for a negative one (append); the result is -1 on error.\<close>

definition kvs_write :: "kfile \<Rightarrow> line_info \<Rightarrow> nat option \<Rightarrow> kvs_fail + int \<times> kfile" where
  "kvs_write h li pos =
     (if \<not> (li_typeInt li \<or> nval_blob_len (li_nval li) \<le> nval_blob_size (li_nval li))
      then Inl AssertFailed
      else let p = (case pos of Some p \<Rightarrow> p | None \<Rightarrow> length (kf_data h));
               (n, h') = f_write (f_seek p h) (enc_li li)
           in if n \<noteq> int sizeof_li then Inr (-1, h') else Inr (int (p + sizeof_li), h'))"

definition kvs_deleteNode :: "kfile \<Rightarrow> nat \<Rightarrow> kvs_fail + kfile" where
  "kvs_deleteNode h pos =
     (case f_read (f_seek pos h) sizeof_li of (bs, h') \<Rightarrow>
        (case kvs_write (f_seek pos h') (li_set_deleted (dec_li bs)) (Some pos) of
           Inl e \<Rightarrow> Inl e
         | Inr (_, h'') \<Rightarrow> Inr h''))"

definition kvs_erase_key :: "kfile \<Rightarrow> string \<Rightarrow> kvs_fail + bool \<times> kfile" where
  "kvs_erase_key h key =
     (case kvs_find_next h li_init 0 (Some key) KVS_TYPE_ANY of
        Inl e \<Rightarrow> Inl e
      | Inr (None, h') \<Rightarrow> Inr (False, h')
      | Inr (Some (pos, li), h') \<Rightarrow>
          (case kvs_write h' ((li_set_deleted li)\<lparr>li_key := (li_key li)[0 := NUL]\<rparr>) (Some pos) of
             Inl e \<Rightarrow> Inl e
           | Inr (_, h'') \<Rightarrow> Inr (True, h'')))"

section \<open>Searching a place to write\<close>

text \<open>
  find_key_int_w: the loop visits every node; a node whose type is 0 would never be passed,
  which is the outcome \<open>NoReturn\<close>. The fuel is the number of iterations: each one moves on by
  at least a header, so the length of the file is more than enough.
\<close>

fun find_key_int_loop ::
  "nat \<Rightarrow> kfile \<Rightarrow> line_info \<Rightarrow> nat \<Rightarrow> string \<Rightarrow> bool \<Rightarrow> nat option \<Rightarrow> kvs_fail + nat option \<times> kfile" where
  "find_key_int_loop 0 h li pos key ign best = Inl NoReturn"
| "find_key_int_loop (Suc fuel) h li pos key ign best =
     (case kvs_find_next h li pos None KVS_TYPE_ANY of
        Inl e \<Rightarrow> Inl e
      | Inr (None, h') \<Rightarrow> Inr (best, h')
      | Inr (Some (p, l), h') \<Rightarrow>
          if li_matchKey l key then
            (if \<not> li_typeInt l then
               (case kvs_deleteNode h' p of
                  Inl e \<Rightarrow> Inl e
                | Inr h'' \<Rightarrow> find_key_int_loop fuel h'' l p key True best)
             else Inr (Some p, h'))
          else if best \<noteq> None \<or> li_isUsed l \<or> \<not> li_typeInt l then
            find_key_int_loop fuel h' l p key ign best
          else if ign then Inr (Some p, h')
          else find_key_int_loop fuel h' l p key ign (Some p))"

definition find_key_int_w :: "kfile \<Rightarrow> string \<Rightarrow> kvs_fail + nat option \<times> kfile" where
  "find_key_int_w h key = find_key_int_loop (Suc (length (kf_data h))) h li_init 0 key False None"

text \<open>
  find_key_blob_w: \<open>best\<close> is the best match so far with its end position, \<open>bw\<close> what it
  would waste (1000 at the start).
\<close>

fun find_key_blob_loop ::
  "nat \<Rightarrow> kfile \<Rightarrow> line_info \<Rightarrow> nat \<Rightarrow> string \<Rightarrow> nat \<Rightarrow> bool \<Rightarrow> int \<Rightarrow> (nat \<times> nat) option
     \<Rightarrow> kvs_fail + (nat \<times> nat) option \<times> kfile" where
  "find_key_blob_loop 0 h li pos key req ign bw best = Inl NoReturn"
| "find_key_blob_loop (Suc fuel) h li pos key req ign bw best =
     (case kvs_find_next h li pos None KVS_TYPE_ANY of
        Inl e \<Rightarrow> Inl e
      | Inr (None, h') \<Rightarrow> Inr (best, h')
      | Inr (Some (p, l), h') \<Rightarrow>
          (let found = li_matchKey l key;
               wrong = li_typeInt l;
               wasted = int (unat (nval_blob_size (li_nval l))) - int req;
               ep = p + li_size l
           in if found \<and> \<not> wrong \<and> wasted = 0 then Inr (Some (p, ep), h')
              else (case (if found then kvs_deleteNode h' p else Inr h') of
                 Inl e \<Rightarrow> Inl e
               | Inr h'' \<Rightarrow>
                   (let ign' = (ign \<or> found); unused = (found \<or> \<not> li_isUsed l)
                    in if wrong \<or> \<not> unused \<or> wasted < 0 then
                         find_key_blob_loop fuel h'' l p key req ign' bw best
                       else if wasted = 0 \<and> ign' then Inr (Some (p, ep), h'')
                       else if bw < wasted then
                         find_key_blob_loop fuel h'' l p key req ign' bw best
                       else find_key_blob_loop fuel h'' l p key req ign' wasted (Some (p, ep))))))"

definition find_key_blob_w :: "kfile \<Rightarrow> string \<Rightarrow> nat \<Rightarrow> kvs_fail + (nat \<times> nat) option \<times> kfile" where
  "find_key_blob_w h key req =
     find_key_blob_loop (Suc (length (kf_data h))) h li_init 0 key req False 1000 None"

section \<open>Setting and getting integers\<close>

text \<open>
  The macros SET_DT_FUN and GET_DT_FUN for a type code and the value's image in the union.
  \<open>key_array\<close> is STRLCPY into the zeroed key array: a key that does not fit stops the program.
\<close>

definition key_array :: "string \<Rightarrow> kvs_fail + char list" where
  "key_array key = (if length key \<ge> MAX_KEY_LEN + 1 then Inl StrcpyError
     else Inr (key @ replicate (MAX_KEY_LEN + 1 - length key) NUL))"

definition kvs_set_dt :: "u8 \<Rightarrow> kfile \<Rightarrow> string \<Rightarrow> u64 \<Rightarrow> kvs_fail + bool \<times> kfile" where
  "kvs_set_dt ty h key val =
     (case find_key_int_w h key of
        Inl e \<Rightarrow> Inl e
      | Inr (pos, h') \<Rightarrow>
          (case key_array key of
             Inl e \<Rightarrow> Inl e
           | Inr k \<Rightarrow>
               (case kvs_write h' (li_init\<lparr>li_kvs_type := ty, li_nval := val, li_key := k\<rparr>) pos of
                  Inl e \<Rightarrow> Inl e
                | Inr (res, h'') \<Rightarrow> Inr (res > 0, h''))))"

definition kvs_get_dt :: "u8 \<Rightarrow> kfile \<Rightarrow> string \<Rightarrow> u64 \<Rightarrow> kvs_fail + (u64 \<times> bool) \<times> kfile" where
  "kvs_get_dt ty h key def =
     (case kvs_find_next h li_init 0 (Some key) ty of
        Inl e \<Rightarrow> Inl e
      | Inr (None, h') \<Rightarrow> Inr ((def, False), h')
      | Inr (Some (pos, li), h') \<Rightarrow> Inr ((li_nval li, True), h'))"

text \<open>
  The instances. Writing a member of the union sets its low bytes in a zeroed union; reading a
  member takes them. Signed and unsigned members of one width share their bits.
\<close>

definition kvs_set_8 :: "u8 \<Rightarrow> kfile \<Rightarrow> string \<Rightarrow> u8 \<Rightarrow> kvs_fail + bool \<times> kfile" where
  "kvs_set_8 ty h key v = kvs_set_dt ty h key (ucast v)"

definition kvs_set_16 :: "u8 \<Rightarrow> kfile \<Rightarrow> string \<Rightarrow> u16 \<Rightarrow> kvs_fail + bool \<times> kfile" where
  "kvs_set_16 ty h key v = kvs_set_dt ty h key (ucast v)"

definition kvs_set_32 :: "u8 \<Rightarrow> kfile \<Rightarrow> string \<Rightarrow> u32 \<Rightarrow> kvs_fail + bool \<times> kfile" where
  "kvs_set_32 ty h key v = kvs_set_dt ty h key (ucast v)"

definition kvs_get_8 :: "u8 \<Rightarrow> kfile \<Rightarrow> string \<Rightarrow> u8 \<Rightarrow> kvs_fail + (u8 \<times> bool) \<times> kfile" where
  "kvs_get_8 ty h key def = map_sum id (map_prod (map_prod ucast id) id) (kvs_get_dt ty h key (ucast def))"

definition kvs_get_16 :: "u8 \<Rightarrow> kfile \<Rightarrow> string \<Rightarrow> u16 \<Rightarrow> kvs_fail + (u16 \<times> bool) \<times> kfile" where
  "kvs_get_16 ty h key def = map_sum id (map_prod (map_prod ucast id) id) (kvs_get_dt ty h key (ucast def))"

definition kvs_get_32 :: "u8 \<Rightarrow> kfile \<Rightarrow> string \<Rightarrow> u32 \<Rightarrow> kvs_fail + (u32 \<times> bool) \<times> kfile" where
  "kvs_get_32 ty h key def = map_sum id (map_prod (map_prod ucast id) id) (kvs_get_dt ty h key (ucast def))"

definition kvs_set_i8 :: "kfile \<Rightarrow> string \<Rightarrow> u8 \<Rightarrow> kvs_fail + bool \<times> kfile" where
  "kvs_set_i8 = kvs_set_8 KVS_TYPE_i8"

definition kvs_set_u32 :: "kfile \<Rightarrow> string \<Rightarrow> u32 \<Rightarrow> kvs_fail + bool \<times> kfile" where
  "kvs_set_u32 = kvs_set_32 KVS_TYPE_u32"

definition kvs_set_u64 :: "kfile \<Rightarrow> string \<Rightarrow> u64 \<Rightarrow> kvs_fail + bool \<times> kfile" where
  "kvs_set_u64 = kvs_set_dt KVS_TYPE_u64"

definition kvs_get_i8 :: "kfile \<Rightarrow> string \<Rightarrow> u8 \<Rightarrow> kvs_fail + (u8 \<times> bool) \<times> kfile" where
  "kvs_get_i8 = kvs_get_8 KVS_TYPE_i8"

definition kvs_get_u32 :: "kfile \<Rightarrow> string \<Rightarrow> u32 \<Rightarrow> kvs_fail + (u32 \<times> bool) \<times> kfile" where
  "kvs_get_u32 = kvs_get_32 KVS_TYPE_u32"

definition kvs_get_u64 :: "kfile \<Rightarrow> string \<Rightarrow> u64 \<Rightarrow> kvs_fail + (u64 \<times> bool) \<times> kfile" where
  "kvs_get_u64 = kvs_get_dt KVS_TYPE_u64"

section \<open>Strings and blobs\<close>

text \<open>
  kvs_read_str_or_blob: the bytes read (None when the destination was not written) and the
  returned length; kvs_write_str_or_blob: the bytes written, read back as an unsigned.
\<close>

definition kvs_read_str_or_blob ::
  "kfile \<Rightarrow> string \<Rightarrow> nat \<Rightarrow> u8 \<Rightarrow> kvs_fail + (nat \<times> u8 list option) \<times> kfile" where
  "kvs_read_str_or_blob h key len ty =
     (case kvs_find_next h li_init 0 (Some key) ty of
        Inl e \<Rightarrow> Inl e
      | Inr (None, h') \<Rightarrow> Inr ((0, None), h')
      | Inr (Some (pos, li), h') \<Rightarrow>
          (let n = unat (nval_blob_len (li_nval li)) in
           if n > len then Inr ((n, None), h')
           else (case f_read h' n of (bs, h'') \<Rightarrow>
                   if length bs \<noteq> n then Inr ((0, Some bs), h'') else Inr ((n, Some bs), h''))))"

definition kvs_write_str_or_blob ::
  "kfile \<Rightarrow> string \<Rightarrow> u8 list \<Rightarrow> u8 \<Rightarrow> kvs_fail + u32 \<times> kfile" where
  "kvs_write_str_or_blob h key src ty =
     (case find_key_blob_w h key (length src) of
        Inl e \<Rightarrow> Inl e
      | Inr (found, h1) \<Rightarrow>
          (let sz = (case found of Some (p, ep) \<Rightarrow> ep - p - sizeof_li | None \<Rightarrow> length src)
           in (case (case found of
                       Some (p, ep) \<Rightarrow> if sz < length src then map_sum id (Pair None) (kvs_deleteNode h1 p)
                                      else Inr (Some p, h1)
                     | None \<Rightarrow> Inr (None, h1)) of
                 Inl e \<Rightarrow> Inl e
               | Inr (pos, h2) \<Rightarrow>
                   (case key_array key of
                      Inl e \<Rightarrow> Inl e
                    | Inr k \<Rightarrow>
                        (case kvs_write h2 (li_init\<lparr>li_kvs_type := ty, li_key := k,
                                li_nval := nval_of_len (word_of_nat (length src)) (word_of_nat sz)\<rparr>) pos of
                           Inl e \<Rightarrow> Inl e
                         | Inr (_, h3) \<Rightarrow>
                             (case f_write h3 src of (n, h4) \<Rightarrow> Inr (word_of_int n, h4)))))))"

definition kvs_write_str :: "kfile \<Rightarrow> string \<Rightarrow> string \<Rightarrow> kvs_fail + bool \<times> kfile" where
  "kvs_write_str h key s =
     (case kvs_write_str_or_blob h key (map byte_of_char s) KVS_TYPE_STR of
        Inl e \<Rightarrow> Inl e
      | Inr (res, h') \<Rightarrow> Inr (res = word_of_nat (length s), h'))"

text \<open>
  kvs_read_str: the destination of \<open>len\<close> bytes is a memory block; a terminator goes to index
  MIN (res, length - 1).
\<close>

definition kvs_read_str ::
  "kfile \<Rightarrow> string \<Rightarrow> char list \<Rightarrow> kvs_fail + (nat \<times> char list) \<times> kfile" where
  "kvs_read_str h key dst =
     (case kvs_read_str_or_blob h key (length dst) KVS_TYPE_STR of
        Inl e \<Rightarrow> Inl e
      | Inr ((res, bs), h') \<Rightarrow>
          (let d1 = (case bs of None \<Rightarrow> dst | Some b \<Rightarrow> map char_of_byte b @ drop (length b) dst);
               d2 = (if res > 0 then d1[min res (length dst - 1) := NUL] else d1)
           in Inr ((res, d2), h')))"

definition kvs_write_blob :: "kfile \<Rightarrow> string \<Rightarrow> u8 list \<Rightarrow> kvs_fail + bool \<times> kfile" where
  "kvs_write_blob h key src =
     map_sum id (map_prod (\<lambda>r. r \<noteq> 0) id) (kvs_write_str_or_blob h key src KVS_TYPE_BLOB)"

definition kvs_read_blob :: "kfile \<Rightarrow> string \<Rightarrow> nat \<Rightarrow> kvs_fail + (nat \<times> u8 list option) \<times> kfile" where
  "kvs_read_blob h key len = kvs_read_str_or_blob h key len KVS_TYPE_BLOB"

definition kvs_set_blob :: "kfile \<Rightarrow> string \<Rightarrow> u8 list \<Rightarrow> kvs_fail + bool \<times> kfile" where
  "kvs_set_blob = kvs_write_blob"

definition kvs_get_blob ::
  "kfile \<Rightarrow> string \<Rightarrow> u8 list \<Rightarrow> kvs_fail + (bool \<times> u8 list) \<times> kfile" where
  "kvs_get_blob h key dst =
     (case kvs_read_blob h key (length dst) of
        Inl e \<Rightarrow> Inl e
      | Inr ((n, bs), h') \<Rightarrow>
          Inr ((length dst = n, case bs of None \<Rightarrow> dst | Some b \<Rightarrow> b @ drop (length b) dst), h'))"

definition kvs_set_str :: "kfile \<Rightarrow> string \<Rightarrow> string \<Rightarrow> kvs_fail + bool \<times> kfile" where
  "kvs_set_str = kvs_write_str"

definition kvs_get_str ::
  "kfile \<Rightarrow> string \<Rightarrow> char list \<Rightarrow> kvs_fail + (bool \<times> char list) \<times> kfile" where
  "kvs_get_str h key dst =
     (case kvs_read_str h key dst of
        Inl e \<Rightarrow> Inl e
      | Inr ((n, d), h') \<Rightarrow> Inr ((n \<noteq> 0 \<and> n < length dst, d), h'))"

section \<open>Visiting the nodes\<close>

text \<open>
  kvs_foreach with a key prefix and a callback (kvs_posix.cc), and the template versions with
  a comparison function (host/kvs_templates.hh): \<open>cmp\<close> decides on the key string, \<open>cb\<close> is
  the callback, whose state is threaded through. ERR_CORRUPT_FILE cannot be returned, since the
  cookie check of the read came first.
\<close>

datatype kvs_cbr = kvsCb_noMatch | kvsCb_match | kvsCb_done

fun kvs_foreach_loop ::
  "nat \<Rightarrow> kfile \<Rightarrow> line_info \<Rightarrow> nat \<Rightarrow> u8 \<Rightarrow> (string \<Rightarrow> bool)
     \<Rightarrow> (string \<Rightarrow> u8 \<Rightarrow> 's \<Rightarrow> kvs_cbr \<times> 's) \<Rightarrow> 's \<Rightarrow> nat \<Rightarrow> kvs_fail + nat \<times> 's" where
  "kvs_foreach_loop 0 h li pos ty cmp cb s n = Inl NoReturn"
| "kvs_foreach_loop (Suc fuel) h li pos ty cmp cb s n =
     (case kvs_find_next h li pos None ty of
        Inl e \<Rightarrow> Inl e
      | Inr (None, h') \<Rightarrow> Inr (n, s)
      | Inr (Some (p, l), h') \<Rightarrow>
          if \<not> li_isUsed l then kvs_foreach_loop fuel h' l p ty cmp cb s n
          else if \<not> cmp (c_str (li_key l)) then kvs_foreach_loop fuel h' l p ty cmp cb s n
          else (case cb (c_str (li_key l)) (li_kvs_type l) s of
                  (kvsCb_match, s') \<Rightarrow> kvs_foreach_loop fuel h' l p ty cmp cb s' (Suc n)
                | (kvsCb_done, s') \<Rightarrow> Inr (Suc n, s')
                | (kvsCb_noMatch, s') \<Rightarrow> kvs_foreach_loop fuel h' l p ty cmp cb s' n))"

definition kvs_foreach ::
  "kfile \<Rightarrow> u8 \<Rightarrow> (string \<Rightarrow> bool) \<Rightarrow> (string \<Rightarrow> u8 \<Rightarrow> 's \<Rightarrow> kvs_cbr \<times> 's) \<Rightarrow> 's \<Rightarrow> kvs_fail + nat \<times> 's" where
  "kvs_foreach h ty cmp cb s = kvs_foreach_loop (Suc (length (kf_data h))) h li_init 0 ty cmp cb s 0"

definition kvs_foreach_prefix ::
  "kfile \<Rightarrow> u8 \<Rightarrow> string option \<Rightarrow> (string \<Rightarrow> u8 \<Rightarrow> 's \<Rightarrow> kvs_cbr \<times> 's) option \<Rightarrow> 's \<Rightarrow> kvs_fail + nat \<times> 's" where
  "kvs_foreach_prefix h ty key_match cb s =
     kvs_foreach h ty
       (\<lambda>k. case key_match of None \<Rightarrow> True
              | Some m \<Rightarrow> \<not> length k < length m \<and> strneq (length m) k m)
       (case cb of Some f \<Rightarrow> f | None \<Rightarrow> \<lambda>_ _ t. (kvsCb_match, t)) s"

definition kvs_count :: "kfile \<Rightarrow> u8 \<Rightarrow> (string \<Rightarrow> bool) \<Rightarrow> kvs_fail + nat" where
  "kvs_count h ty cmp = map_sum id fst (kvs_foreach h ty cmp (\<lambda>_ _ t. (kvsCb_match, t)) ())"

end
