(* ===== verification/KvsRefine.thy ===== *)
theory KvsRefine
  imports KvsStore
begin

text \<open>
  The file as a list of nodes, and the list-level reading of the search loops. A well-formed
  file is the concatenation of the images of its nodes; \<open>kvs_abs\<close> is the map a list of nodes
  stands for.
\<close>

section \<open>Nodes\<close>

type_synonym knode = "line_info \<times> u8 list"

definition enc_node :: "knode \<Rightarrow> u8 list" where
  "enc_node n = enc_li (fst n) @ snd n"

definition enc_file :: "knode list \<Rightarrow> u8 list" where
  "enc_file ns = concat (map enc_node ns)"

text \<open>
  A header: cookie, a key of 15 cells with a terminator, a type other than 0, which is either an
  integer type the code recognises (8, 16 or 32 bits) or a type with a size, in which case the
  length is at most the size. A node is a header and its payload; only a header with a size bit
  in its type has one. Headers of 64-bit integers are neither: the code writes them, but its
  assertion and its search for a free blob read them as blobs.
\<close>

definition wf_li :: "line_info \<Rightarrow> bool" where
  "wf_li li \<longleftrightarrow> li_magic li = COOKIE \<and> length (li_key li) = 15 \<and> li_kvs_type li \<noteq> 0 \<and>
     NUL \<in> set (li_key li) \<and>
     (li_typeInt li \<or>
      li_hasSize (li_kvs_type li) \<and> nval_blob_len (li_nval li) \<le> nval_blob_size (li_nval li))"

definition wf_node :: "knode \<Rightarrow> bool" where
  "wf_node n \<longleftrightarrow> wf_li (fst n) \<and> length (enc_node n) = li_size (fst n)"

definition node_key :: "knode \<Rightarrow> string" where
  "node_key n = c_str (li_key (fst n))"

definition used_nodes :: "knode list \<Rightarrow> knode list" where
  "used_nodes ns = filter (\<lambda>n. li_isUsed (fst n)) ns"

definition wf_nodes :: "knode list \<Rightarrow> bool" where
  "wf_nodes ns \<longleftrightarrow> (\<forall>n \<in> set ns. wf_node n) \<and> distinct (map node_key (used_nodes ns))"

text \<open>A usable key fits into the array and is a C string.\<close>

definition key_ok :: "string \<Rightarrow> bool" where
  "key_ok k \<longleftrightarrow> length k \<le> MAX_KEY_LEN \<and> no_nul k"

section \<open>The map\<close>

datatype kval = KInt u8 u64 | KBytes u8 "u8 list"

definition node_val :: "knode \<Rightarrow> kval" where
  "node_val n = (if li_hasSize (li_kvs_type (fst n))
     then KBytes (li_kvs_type (fst n)) (take (unat (nval_blob_len (li_nval (fst n)))) (snd n))
     else KInt (li_kvs_type (fst n)) (li_nval (fst n)))"

definition kvs_abs :: "knode list \<Rightarrow> string \<Rightarrow> kval option" where
  "kvs_abs ns = map_of (map (\<lambda>n. (node_key n, node_val n)) (used_nodes ns))"

section \<open>Basic facts\<close>

lemma used_nodes_simps [simp]:
  "used_nodes [] = []"
  "used_nodes (n # ns) = (if li_isUsed (fst n) then n # used_nodes ns else used_nodes ns)"
  "used_nodes (as @ bs) = used_nodes as @ used_nodes bs"
  by (simp_all add: used_nodes_def)

lemma enc_file_simps [simp]:
  "enc_file [] = []"
  "enc_file (n # ns) = enc_node n @ enc_file ns"
  "enc_file (as @ bs) = enc_file as @ enc_file bs"
  by (simp_all add: enc_file_def)

lemma wf_nodes_append:
  "wf_nodes (as @ bs) \<longleftrightarrow> wf_nodes as \<and> wf_nodes bs \<and>
     set (map node_key (used_nodes as)) \<inter> set (map node_key (used_nodes bs)) = {}"
  by (auto simp: wf_nodes_def)

lemma wf_node_li: "wf_node (li, pl) \<Longrightarrow> wf_li li"
  by (simp add: wf_node_def)

lemma wf_li_key_len: "wf_li li \<Longrightarrow> length (li_key li) = 15"
  by (simp add: wf_li_def)

lemma wf_node_length: "wf_node n \<Longrightarrow> length (enc_node n) = li_size (fst n)"
  by (simp add: wf_node_def)

lemma wf_node_payload:
  assumes "wf_node (li, pl)"
  shows "length pl = (if li_hasSize (li_kvs_type li) then unat (nval_blob_size (li_nval li)) else 0)"
  using assms by (auto simp: wf_node_def enc_node_def wf_li_def li_size_def)

lemma typeInt_not_hasSize: "li_typeInt li \<Longrightarrow> \<not> li_hasSize (li_kvs_type li)"
  by (simp add: li_typeInt_def li_hasSize_def)

lemma wf_li_writable: "wf_li li \<Longrightarrow> li_typeInt li \<or> nval_blob_len (li_nval li) \<le> nval_blob_size (li_nval li)"
  by (auto simp: wf_li_def)

lemma used_deleted [simp]: "\<not> li_isUsed (li_set_deleted li)"
  by simp

lemma wf_li_deleted: "wf_li li \<Longrightarrow> wf_li (li_set_deleted li)"
  by (auto simp: wf_li_def)

text \<open>Key matching on the array is equality of the key strings.\<close>

lemma c_str_take_14:
  assumes "length ks = 15" "NUL \<in> set ks"
  shows "c_str (take 14 ks) = c_str ks"
proof (cases "NUL \<in> set (take 14 ks)")
  case True
  then have "takeWhile (\<lambda>c. c \<noteq> NUL) (take 14 ks @ drop 14 ks) = takeWhile (\<lambda>c. c \<noteq> NUL) (take 14 ks)"
    by (intro takeWhile_append1) auto
  then show ?thesis by (simp add: c_str_def)
next
  case False
  then have pre: "takeWhile (\<lambda>c. c \<noteq> NUL) (take 14 ks) = take 14 ks"
    by (auto simp: takeWhile_eq_all_conv)
  have "length (drop 14 ks) = 1" using assms(1) by simp
  then obtain c where c: "drop 14 ks = [c]" by (cases "drop 14 ks") auto
  have "NUL \<in> set (take 14 ks @ drop 14 ks)" using assms(2) by simp
  with False c have "drop 14 ks = [NUL]" by auto
  then have "takeWhile (\<lambda>c. c \<noteq> NUL) (take 14 ks @ drop 14 ks) = take 14 ks"
    using False by (subst takeWhile_append2) auto
  then have "takeWhile (\<lambda>c. c \<noteq> NUL) ks = take 14 ks" by simp
  with pre show ?thesis by (simp only: c_str_def)
qed

lemma matchKey_iff:
  assumes "wf_li li" "key_ok k"
  shows "li_matchKey li k \<longleftrightarrow> li_isUsed li \<and> c_str (li_key li) = k"
proof -
  have "c_str (take 14 k) = k"
    using assms(2) by (simp add: key_ok_def MAX_KEY_LEN_def cstr_simps)
  moreover have "c_str (take 14 (li_key li)) = c_str (li_key li)"
    using assms(1) by (intro c_str_take_14) (auto simp: wf_li_def)
  ultimately show ?thesis
    by (simp add: li_matchKey_def strneq_def MAX_KEY_LEN_def)
qed

lemma key_array_ok:
  assumes "key_ok k"
  obtains ks where "key_array k = Inr ks" "length ks = 15" "NUL \<in> set ks" "c_str ks = k"
proof
  let ?ks = "k @ replicate (MAX_KEY_LEN + 1 - length k) NUL"
  obtain m where m: "MAX_KEY_LEN + 1 - length k = Suc m"
    using assms by (cases "MAX_KEY_LEN + 1 - length k") (auto simp: key_ok_def)
  show "key_array k = Inr ?ks"
    using assms by (simp add: key_array_def key_ok_def)
  show "length ?ks = 15"
    using assms by (simp add: key_ok_def MAX_KEY_LEN_def)
  show "NUL \<in> set ?ks" unfolding m by simp
  show "c_str ?ks = k"
    using assms unfolding m by (simp add: key_ok_def c_str_append_nul)
qed

section \<open>Reading a node of the file\<close>

lemma kvs_read_at:
  assumes "wf_node n" "kf_data h = a @ enc_node n @ b"
  shows "kvs_read h (length a) = Inr (Some (fst n), h\<lparr>kf_off := length a + sizeof_li\<rparr>)"
proof -
  have len: "length (enc_li (fst n)) = sizeof_li"
    using assms(1) by (simp add: wf_node_def wf_li_def)
  have "take sizeof_li (drop (length a) (kf_data h)) = enc_li (fst n)"
    using assms(2) len by (simp add: enc_node_def)
  moreover have "dec_li (enc_li (fst n)) = fst n"
    using assms(1) by (simp add: wf_node_def wf_li_def)
  moreover have "li_magic (fst n) = COOKIE"
    using assms(1) by (simp add: wf_node_def wf_li_def)
  ultimately show ?thesis
    using len by (simp add: kvs_read_def f_read_def f_seek_def Let_def kvs_checkMagicCookie_def)
qed

lemma kvs_read_end:
  "kvs_read h (length (kf_data h)) = Inr (None, h\<lparr>kf_off := length (kf_data h)\<rparr>)"
  by (simp add: kvs_read_def f_read_def f_seek_def Let_def sizeof_li_def)

text \<open>
  The search from the start of a node: the first node of the rest that matches, or nothing.
  \<open>h'\<close> is the file with some offset.
\<close>

lemma find_loop_skip:
  assumes "wf_node n" "kf_data h = a @ enc_node n @ b" "find_mismatch (fst n) key ty"
  shows "kvs_find_loop h (length a) key ty
      = kvs_find_loop (h\<lparr>kf_off := length a + sizeof_li\<rparr>) (length (a @ enc_node n)) key ty"
  using assms by (subst kvs_find_loop.simps) (simp add: kvs_read_at wf_node_length)

lemma find_loop_hit:
  assumes "wf_node n" "kf_data h = a @ enc_node n @ b" "\<not> find_mismatch (fst n) key ty"
  shows "kvs_find_loop h (length a) key ty = Inr (Some (length a, fst n), h\<lparr>kf_off := length a + sizeof_li\<rparr>)"
  using assms by (subst kvs_find_loop.simps) (simp add: kvs_read_at)

lemma find_loop_end:
  "kvs_find_loop h (length (kf_data h)) key ty = Inr (None, h\<lparr>kf_off := length (kf_data h)\<rparr>)"
  by (subst kvs_find_loop.simps) (simp add: kvs_read_end)

lemma find_loop_none:
  assumes "\<forall>n \<in> set bs. wf_node n \<and> find_mismatch (fst n) key ty" "kf_data h = a @ enc_file bs"
  shows "kvs_find_loop h (length a) key ty = Inr (None, h\<lparr>kf_off := length (kf_data h)\<rparr>)"
  using assms
proof (induction bs arbitrary: a h)
  case Nil
  then show ?case using find_loop_end [of h] by simp
next
  case (Cons n bs)
  let ?h = "h\<lparr>kf_off := length a + sizeof_li\<rparr>"
  have "kvs_find_loop h (length a) key ty = kvs_find_loop ?h (length (a @ enc_node n)) key ty"
    using Cons.prems by (intro find_loop_skip) auto
  also have "\<dots> = Inr (None, ?h\<lparr>kf_off := length (kf_data ?h)\<rparr>)"
    using Cons.prems by (intro Cons.IH) auto
  finally show ?case by simp
qed

lemma find_loop_some:
  assumes "\<forall>n \<in> set as. wf_node n \<and> find_mismatch (fst n) key ty"
    and "wf_node m" "\<not> find_mismatch (fst m) key ty"
    and "kf_data h = a @ enc_file as @ enc_node m @ b"
  shows "kvs_find_loop h (length a) key ty = Inr (Some (length (a @ enc_file as), fst m),
      h\<lparr>kf_off := length (a @ enc_file as) + sizeof_li\<rparr>)"
  using assms
proof (induction as arbitrary: a h)
  case Nil
  then show ?case using find_loop_hit [of m h a b] by simp
next
  case (Cons n as)
  let ?h = "h\<lparr>kf_off := length a + sizeof_li\<rparr>"
  have "kvs_find_loop h (length a) key ty = kvs_find_loop ?h (length (a @ enc_node n)) key ty"
    using Cons.prems by (intro find_loop_skip) auto
  also have "\<dots> = Inr (Some (length ((a @ enc_node n) @ enc_file as), fst m),
      ?h\<lparr>kf_off := length ((a @ enc_node n) @ enc_file as) + sizeof_li\<rparr>)"
    using Cons.prems by (intro Cons.IH) auto
  finally show ?case by (simp add: add.assoc)
qed

end
