(* ===== verification/KvsMap.thy ===== *)
theory KvsMap
  imports KvsRefine
begin

text \<open>
  The writing operations of the key-value store as updates of the map \<open>kvs_abs\<close>: what the
  searches for a place deliver, and that set, get and erase are update, lookup and removal.
\<close>

text \<open>A file opened for writing that holds the nodes \<open>ns\<close>.\<close>

definition kv_rep :: "kfile \<Rightarrow> knode list \<Rightarrow> bool" where
  "kv_rep h ns \<longleftrightarrow> kf_wr h \<and> kf_data h = enc_file ns \<and> wf_nodes ns"

lemma kv_rep_off [simp]: "kv_rep (h\<lparr>kf_off := x\<rparr>) ns = kv_rep h ns"
  by (simp add: kv_rep_def)

section \<open>The map of a list of nodes\<close>

definition no_key :: "string \<Rightarrow> knode list \<Rightarrow> bool" where
  "no_key k ns \<longleftrightarrow> k \<notin> node_key ` set (used_nodes ns)"

lemma no_key_simps [simp, kvs_simps]:
  "no_key k []"
  "no_key k (n # ns) \<longleftrightarrow> (li_isUsed (fst n) \<longrightarrow> node_key n \<noteq> k) \<and> no_key k ns"
  "no_key k (as @ bs) \<longleftrightarrow> no_key k as \<and> no_key k bs"
  by (auto simp: no_key_def)

lemma kvs_abs_Nil [simp]: "kvs_abs [] = Map.empty"
  by (simp add: kvs_abs_def)

lemma kvs_abs_append: "kvs_abs (as @ bs) = kvs_abs bs ++ kvs_abs as"
  by (simp add: kvs_abs_def)

lemma kvs_abs_Cons:
  "kvs_abs (n # ns) = (if li_isUsed (fst n) then (kvs_abs ns)(node_key n \<mapsto> node_val n) else kvs_abs ns)"
  by (simp add: kvs_abs_def)

lemma kvs_abs_no_key: "no_key k ns \<longleftrightarrow> kvs_abs ns k = None"
  by (auto simp: kvs_abs_def no_key_def map_of_eq_None_iff image_image)

lemma kvs_abs_mid_unused [kvs_simps]:
  "\<not> li_isUsed (fst m) \<Longrightarrow> kvs_abs (xs @ m # ys) = kvs_abs (xs @ ys)"
  by (simp add: kvs_abs_append kvs_abs_Cons)

lemma kvs_abs_mid_used:
  assumes "li_isUsed (fst m)" "no_key (node_key m) xs"
  shows "kvs_abs (xs @ m # ys) = (kvs_abs (xs @ ys))(node_key m \<mapsto> node_val m)"
  using assms by (auto simp: kvs_abs_append kvs_abs_Cons kvs_abs_no_key map_add_def fun_eq_iff split: option.splits)

lemma kvs_abs_drop_used:
  assumes "li_isUsed (fst m)" "no_key (node_key m) (xs @ ys)"
  shows "kvs_abs (xs @ ys) = (kvs_abs (xs @ m # ys))(node_key m := None)"
proof -
  from assms(2) have "no_key (node_key m) xs" by simp
  with assms(1) have "kvs_abs (xs @ m # ys) = (kvs_abs (xs @ ys))(node_key m \<mapsto> node_val m)"
    by (rule kvs_abs_mid_used)
  moreover have "kvs_abs (xs @ ys) (node_key m) = None"
    using assms(2) by (simp only: kvs_abs_no_key)
  ultimately show ?thesis by (simp add: fun_upd_idem)
qed

lemma wf_nodes_used_other:
  assumes "wf_nodes (xs @ m # ys)" "li_isUsed (fst m)"
  shows "no_key (node_key m) (xs @ ys)"
  using assms by (auto simp: wf_nodes_def no_key_def)

lemma wf_nodes_drop: "wf_nodes (xs @ m # ys) \<Longrightarrow> wf_nodes (xs @ ys)"
  by (auto simp: wf_nodes_def split: if_splits)

lemma wf_nodes_mid:
  assumes "wf_nodes (xs @ ys)" "wf_node m" "li_isUsed (fst m) \<longrightarrow> no_key (node_key m) (xs @ ys)"
  shows "wf_nodes (xs @ m # ys)"
  using assms by (auto simp: wf_nodes_def no_key_def)

lemma kvs_abs_lookup:
  assumes "wf_nodes (xs @ m # ys)" "li_isUsed (fst m)"
  shows "kvs_abs (xs @ m # ys) (node_key m) = Some (node_val m)"
proof -
  from wf_nodes_used_other [OF assms] have "no_key (node_key m) xs" by simp
  with assms(2) show ?thesis by (simp add: kvs_abs_mid_used)
qed

lemma wf_node_key_len: "wf_node n \<Longrightarrow> length (li_key (fst n)) = 15"
  by (simp add: wf_node_def wf_li_def)

lemma wf_node_type: "wf_node n \<Longrightarrow> li_kvs_type (fst n) \<noteq> 0"
  by (simp add: wf_node_def wf_li_def)

section \<open>Writing in place and at the end\<close>

definition node_deleted :: "knode \<Rightarrow> knode" where
  "node_deleted n = (li_set_deleted (fst n), snd n)"

lemma node_deleted_simps [simp]:
  "fst (node_deleted n) = li_set_deleted (fst n)" "snd (node_deleted n) = snd n"
  "node_key (node_deleted n) = node_key n"
  by (simp_all add: node_deleted_def node_key_def)

lemma wf_node_deleted: "wf_node n \<Longrightarrow> wf_node (node_deleted n)"
  by (auto simp: wf_node_def wf_li_deleted enc_node_def wf_li_key_len node_deleted_def)

lemma wf_nodes_deleted: "wf_nodes (xs @ m # ys) \<Longrightarrow> wf_nodes (xs @ node_deleted m # ys)"
proof (rule wf_nodes_mid)
  assume wf: "wf_nodes (xs @ m # ys)"
  then show "wf_nodes (xs @ ys)" by (rule wf_nodes_drop)
  from wf have "wf_node m" by (simp add: wf_nodes_def)
  then show "wf_node (node_deleted m)" by (rule wf_node_deleted)
qed simp

lemma pwrite_mid: "length x = length y \<Longrightarrow> pwrite (a @ x @ b) (length a) y = a @ y @ b"
  by (simp add: pwrite_def)

lemma pwrite_end: "pwrite a (length a) y = a @ y"
  by (simp add: pwrite_def)

lemma kvs_write_in_place:
  assumes "kf_wr h" "kf_data h = a @ enc_li old @ b" "length (li_key old) = 15" "wf_li li"
  shows "kvs_write h li (Some (length a)) = Inr (int (length a + sizeof_li),
    h\<lparr>kf_data := a @ enc_li li @ b, kf_off := length a + sizeof_li\<rparr>)"
  using assms wf_li_writable [of li]
  by (auto simp: kvs_write_def f_write_def f_seek_def Let_def wf_li_key_len pwrite_mid)

lemma kvs_write_append:
  assumes "kf_wr h" "wf_li li"
  shows "kvs_write h li None = Inr (int (length (kf_data h) + sizeof_li),
    h\<lparr>kf_data := kf_data h @ enc_li li, kf_off := length (kf_data h) + sizeof_li\<rparr>)"
  using assms wf_li_writable [of li]
  by (auto simp: kvs_write_def f_write_def f_seek_def Let_def wf_li_key_len pwrite_end)

lemma deleteNode_mid:
  assumes "kv_rep h (xs @ m # ys)"
  shows "\<exists>h'. kvs_deleteNode h (length (enc_file xs)) = Inr h' \<and> kv_rep h' (xs @ node_deleted m # ys)"
proof -
  let ?a = "enc_file xs" and ?b = "snd m @ enc_file ys"
  have wf: "wf_node m" using assms by (simp add: kv_rep_def wf_nodes_def)
  then have len: "length (li_key (fst m)) = 15" by (rule wf_node_key_len)
  have dat: "kf_data h = ?a @ enc_li (fst m) @ ?b"
    using assms by (simp add: kv_rep_def enc_node_def)
  let ?h = "f_seek (length ?a) (h\<lparr>kf_off := length ?a + sizeof_li\<rparr>)"
  have rd: "f_read (f_seek (length ?a) h) sizeof_li = (enc_li (fst m), h\<lparr>kf_off := length ?a + sizeof_li\<rparr>)"
    using dat len by (simp add: f_read_def f_seek_def Let_def)
  have "wf_li (li_set_deleted (fst m))" using wf by (simp add: wf_node_def wf_li_deleted)
  then have "kvs_write ?h (li_set_deleted (fst m)) (Some (length ?a)) = Inr (int (length ?a + sizeof_li),
      ?h\<lparr>kf_data := ?a @ enc_li (li_set_deleted (fst m)) @ ?b, kf_off := length ?a + sizeof_li\<rparr>)"
    using assms dat len by (intro kvs_write_in_place) (auto simp: kv_rep_def f_seek_def)
  with rd len assms show ?thesis
    by (auto simp: kvs_deleteNode_def kv_rep_def f_seek_def enc_node_def intro: wf_nodes_deleted)
qed

lemma kvs_abs_deleted:
  assumes "wf_nodes (xs @ m # ys)" "li_isUsed (fst m)"
  shows "kvs_abs (xs @ node_deleted m # ys) = (kvs_abs (xs @ m # ys))(node_key m := None)"
  using kvs_abs_drop_used [OF assms(2) wf_nodes_used_other [OF assms]] by (simp add: kvs_simps)

end
