(* ===== verification/KvsPlace.thy ===== *)
theory KvsPlace
  imports KvsMap
begin

text \<open>
  What the two searches for a place deliver: the file split at the place, where the key occurs
  nowhere else, a found node is of the right kind, and enough iterations are available.
\<close>

section \<open>One step of a search over all nodes\<close>

definition cursor :: "line_info \<Rightarrow> nat \<Rightarrow> knode list \<Rightarrow> bool" where
  "cursor li pos as \<longleftrightarrow> (if li_kvs_type li \<noteq> 0 then pos + li_size li else pos) = length (enc_file as)"

lemma cursor_init [simp]: "cursor li_init 0 []"
  by (simp add: cursor_def li_init_def)

lemma find_mismatch_any [simp]: "\<not> find_mismatch li None KVS_TYPE_ANY"
  by (simp add: find_mismatch_def)

lemma find_next_end:
  assumes "kv_rep h as" "cursor li pos as"
  shows "kvs_find_next h li pos key ty = Inr (None, h\<lparr>kf_off := length (kf_data h)\<rparr>)"
  using assms find_loop_end [of h] by (simp add: kvs_find_next_def cursor_def kv_rep_def)

lemma find_next_node:
  assumes "kv_rep h (as @ n # bs)" "cursor li pos as"
  shows "kvs_find_next h li pos None KVS_TYPE_ANY =
    Inr (Some (length (enc_file as), fst n), h\<lparr>kf_off := length (enc_file as) + sizeof_li\<rparr>)"
  using assms find_loop_hit [of n h "enc_file as" "enc_file bs" None KVS_TYPE_ANY]
  by (simp add: kvs_find_next_def cursor_def kv_rep_def wf_nodes_def)

lemma cursor_next:
  assumes "wf_node n"
  shows "cursor (fst n) (length (enc_file as)) (as @ [n])"
    and "cursor (fst n) (length (enc_file as)) (as @ [node_deleted n])"
  using assms wf_node_length [OF wf_node_deleted [OF assms]]
  by (simp_all add: cursor_def wf_node_type wf_node_length)

lemma kv_rep_wf: "kv_rep h (as @ n # bs) \<Longrightarrow> wf_node n"
  by (simp add: kv_rep_def wf_nodes_def)

lemma match_node:
  assumes "wf_node n" "key_ok key"
  shows "li_matchKey (fst n) key \<longleftrightarrow> li_isUsed (fst n) \<and> node_key n = key"
  using matchKey_iff [of "fst n" key] assms by (simp add: wf_node_def node_key_def)

section \<open>The split of the file\<close>

definition placed :: "string \<Rightarrow> (string \<Rightarrow> kval option) \<Rightarrow> kfile \<Rightarrow> knode list \<Rightarrow> knode list \<Rightarrow> knode list \<Rightarrow> bool" where
  "placed key M h xs ms ys \<longleftrightarrow>
     kv_rep h (xs @ ms @ ys) \<and> no_key key (xs @ ys) \<and> kvs_abs (xs @ ys) = M(key := None)"

lemma placed_upd [simp]: "placed key (M(key := None)) h xs ms ys = placed key M h xs ms ys"
  by (simp add: placed_def)

lemma placed_off [simp]: "placed key M (h\<lparr>kf_off := x\<rparr>) xs ms ys = placed key M h xs ms ys"
  by (simp add: placed_def)

lemma abs_no_key_idem: "no_key key ns \<Longrightarrow> (kvs_abs ns)(key := None) = kvs_abs ns"
  by (simp add: kvs_abs_no_key fun_upd_idem)

lemma placed_none: "kv_rep h as \<Longrightarrow> no_key key as \<Longrightarrow> placed key (kvs_abs as) h as [] []"
  by (simp add: placed_def abs_no_key_idem)

lemma placed_unused:
  assumes "kv_rep h (xs @ m # ys)" "\<not> li_isUsed (fst m)" "no_key key (xs @ ys)"
  shows "placed key (kvs_abs (xs @ m # ys)) h xs [m] ys"
  using assms abs_no_key_idem [of key "xs @ ys"] by (simp add: placed_def kvs_abs_mid_unused)

lemma placed_match:
  assumes "kv_rep h (xs @ m # ys)" "li_isUsed (fst m)" "node_key m = key"
  shows "placed key (kvs_abs (xs @ m # ys)) h xs [m] ys"
proof -
  have wf: "wf_nodes (xs @ m # ys)" using assms(1) by (simp add: kv_rep_def)
  from kvs_abs_drop_used [OF assms(2) wf_nodes_used_other [OF wf assms(2)]]
    wf_nodes_used_other [OF wf assms(2)] assms show ?thesis by (simp add: placed_def)
qed

lemma match_no_key:
  assumes "kv_rep h (as @ n # bs)" "li_isUsed (fst n)" "node_key n = key"
  shows "no_key key (as @ bs)"
  using wf_nodes_used_other [of as n bs] assms by (simp add: kv_rep_def)

lemma match_deleted:
  assumes "kv_rep h (as @ n # bs)" "li_isUsed (fst n)" "node_key n = key"
  shows "kvs_abs (as @ node_deleted n # bs) = (kvs_abs (as @ n # bs))(key := None)"
  using kvs_abs_deleted [of as n bs] assms by (simp add: kv_rep_def)

definition best_ok :: "knode list \<Rightarrow> (knode \<Rightarrow> bool) \<Rightarrow> nat option \<Rightarrow> bool" where
  "best_ok as P best \<longleftrightarrow> (\<forall>p. best = Some p \<longrightarrow>
     (\<exists>xs m ys. as = xs @ m # ys \<and> p = length (enc_file xs) \<and> P m \<and> \<not> li_isUsed (fst m)))"

lemma best_ok_None [simp]: "best_ok as P None"
  by (simp add: best_ok_def)

lemma best_ok_snoc: "best_ok as P best \<Longrightarrow> best_ok (as @ [n]) P best"
  unfolding best_ok_def by (metis append_assoc append_Cons)

lemma best_ok_new: "P m \<Longrightarrow> \<not> li_isUsed (fst m) \<Longrightarrow> best_ok (as @ [m]) P (Some (length (enc_file as)))"
  unfolding best_ok_def by blast

definition int_place :: "string \<Rightarrow> (string \<Rightarrow> kval option) \<Rightarrow> kvs_fail + nat option \<times> kfile \<Rightarrow> bool" where
  "int_place key M r \<longleftrightarrow> (\<exists>h' xs ms ys. placed key M h' xs ms ys \<and>
     (r = Inr (None, h') \<and> ms = [] \<and> ys = [] \<or>
      (\<exists>m. r = Inr (Some (length (enc_file xs)), h') \<and> ms = [m] \<and> li_typeInt (fst m))))"

lemma int_placeI:
  "placed key M h' xs [] [] \<Longrightarrow> int_place key M (Inr (None, h'))"
  "placed key M h' xs [m] ys \<Longrightarrow> li_typeInt (fst m) \<Longrightarrow> int_place key M (Inr (Some (length (enc_file xs)), h'))"
  by (unfold int_place_def) blast+

lemma int_place_upd [simp]: "int_place key (M(key := None)) r = int_place key M r"
  by (simp add: int_place_def)

lemma int_place_best:
  assumes "kv_rep h as" "no_key key as" "best_ok as (\<lambda>m. li_typeInt (fst m)) best"
  shows "int_place key (kvs_abs as) (Inr (best, h))"
proof (cases best)
  case None
  then show ?thesis using assms placed_none by (auto intro: int_placeI)
next
  case (Some p)
  with assms(3) obtain xs m ys where "as = xs @ m # ys" "p = length (enc_file xs)"
    "li_typeInt (fst m)" "\<not> li_isUsed (fst m)" by (auto simp: best_ok_def)
  with assms Some placed_unused [of h xs m ys key] show ?thesis by (auto intro: int_placeI)
qed

lemma find_key_int_loop_place:
  assumes "length bs < fuel" "kv_rep h (as @ bs)" "cursor li pos as" "key_ok key"
    and "no_key key as" "ign \<longrightarrow> no_key key bs" "best_ok as (\<lambda>m. li_typeInt (fst m)) best"
  shows "int_place key (kvs_abs (as @ bs)) (find_key_int_loop fuel h li pos key ign best)"
  using assms
proof (induction fuel arbitrary: h li pos ign best as bs)
  case 0
  then show ?case by simp
next
  case (Suc fuel)
  show ?case
  proof (cases bs)
    case Nil
    then have "kvs_find_next h li pos None KVS_TYPE_ANY = Inr (None, h\<lparr>kf_off := length (kf_data h)\<rparr>)"
      using Suc.prems by (intro find_next_end) auto
    then show ?thesis using Suc.prems Nil by (simp add: int_place_best)
  next
    case (Cons n bs')
    let ?p = "length (enc_file as)"
    let ?h = "h\<lparr>kf_off := ?p + sizeof_li\<rparr>"
    have rep: "kv_rep ?h (as @ n # bs')" using Suc.prems(2) Cons by simp
    have wf: "wf_node n" by (rule kv_rep_wf [OF rep])
    note step = find_next_node [OF Suc.prems(2) [unfolded Cons] Suc.prems(3)]
    note m = match_node [OF wf Suc.prems(4)]
    have IH: "int_place key (kvs_abs (as @ n' # bs')) (find_key_int_loop fuel h' (fst n) ?p key ign' best')"
      if "kv_rep h' (as @ n' # bs')" "n' = n \<or> n' = node_deleted n" "no_key key (as @ [n'])"
        "ign' \<longrightarrow> no_key key bs'" "best_ok (as @ [n']) (\<lambda>m. li_typeInt (fst m)) best'" for h' n' ign' best'
      using Suc.IH [of bs' h' "as @ [n']" "fst n" ?p ign' best'] that Suc.prems(1,4) Cons cursor_next [OF wf, of as]
      by auto
    consider (del) "li_matchKey (fst n) key" "\<not> li_typeInt (fst n)"
      | (hit) "li_matchKey (fst n) key" "li_typeInt (fst n)"
      | (skip) "\<not> li_matchKey (fst n) key" "best \<noteq> None \<or> li_isUsed (fst n) \<or> \<not> li_typeInt (fst n)"
      | (free) "\<not> li_matchKey (fst n) key" "best = None" "\<not> li_isUsed (fst n)" "li_typeInt (fst n)"
      by blast
    then show ?thesis
    proof cases
      case del
      then have u: "li_isUsed (fst n)" "node_key n = key" by (simp_all add: m)
      from deleteNode_mid [OF rep] obtain h' where
        h': "kvs_deleteNode ?h ?p = Inr h'" "kv_rep h' (as @ node_deleted n # bs')" by blast
      have "no_key key (as @ bs')" by (rule match_no_key [OF rep u])
      then have "int_place key (kvs_abs (as @ node_deleted n # bs'))
          (find_key_int_loop fuel h' (fst n) ?p key True best)"
        using h' Suc.prems(7) by (intro IH) (auto intro: best_ok_snoc)
      with h' del match_deleted [OF rep u] show ?thesis by (simp add: step Cons)
    next
      case hit
      then have "placed key (kvs_abs (as @ n # bs')) ?h as [n] bs'"
        by (intro placed_match rep) (simp_all add: m)
      with hit show ?thesis by (simp add: step Cons int_placeI)
    next
      case skip
      have "int_place key (kvs_abs (as @ n # bs')) (find_key_int_loop fuel ?h (fst n) ?p key ign best)"
        using rep skip(1) Suc.prems Cons by (intro IH) (auto simp: m intro: best_ok_snoc)
      with skip show ?thesis by (simp add: step Cons)
    next
      case free
      show ?thesis
      proof (cases ign)
        case True
        then have "placed key (kvs_abs (as @ n # bs')) ?h as [n] bs'"
          using free Suc.prems Cons by (intro placed_unused rep) auto
        with free True show ?thesis by (simp add: step Cons int_placeI)
      next
        case False
        have "int_place key (kvs_abs (as @ n # bs')) (find_key_int_loop fuel ?h (fst n) ?p key ign (Some ?p))"
          using rep free Suc.prems Cons False
            best_ok_new [of "\<lambda>m. li_typeInt (fst m)" n as] by (intro IH) auto
        with free False show ?thesis by (simp add: step Cons)
      qed
    qed
  qed
qed

lemma enc_file_length: "wf_nodes ns \<Longrightarrow> length ns \<le> length (enc_file ns)"
proof (induction ns)
  case (Cons n ns)
  have "wf_nodes ns" using wf_nodes_drop [of "[]" n ns] Cons.prems by simp
  moreover have "1 \<le> length (enc_node n)"
    using Cons.prems li_size_ge [of "fst n"] by (simp add: wf_nodes_def wf_node_length sizeof_li_def)
  ultimately show ?case using Cons.IH by simp
qed simp

lemma find_key_int_w_place:
  assumes "kv_rep h ns" "key_ok key"
  shows "int_place key (kvs_abs ns) (find_key_int_w h key)"
  using find_key_int_loop_place [of ns _ h "[]" li_init 0 key False None] assms enc_file_length [of ns]
  by (simp add: find_key_int_w_def kv_rep_def del: find_key_int_loop.simps)

section \<open>The search for a string or blob\<close>

text \<open>A header that takes \<open>req\<close> bytes of payload.\<close>

definition blob_fits :: "nat \<Rightarrow> line_info \<Rightarrow> bool" where
  "blob_fits req li \<longleftrightarrow> \<not> li_typeInt li \<and> int req \<le> int (unat (nval_blob_size (li_nval li)))"

lemma blob_fits_size: "blob_fits req li \<Longrightarrow> req \<le> unat (nval_blob_size (li_nval li))"
  unfolding blob_fits_def by linarith

lemma blob_fits_deleted [simp]: "blob_fits req (li_set_deleted li) = blob_fits req li"
  by (simp add: blob_fits_def)

definition blob_best_ok :: "nat \<Rightarrow> knode list \<Rightarrow> (nat \<times> nat) option \<Rightarrow> bool" where
  "blob_best_ok req as best \<longleftrightarrow> (\<forall>p ep. best = Some (p, ep) \<longrightarrow>
     best_ok as (\<lambda>m. blob_fits req (fst m) \<and> ep = p + li_size (fst m)) (Some p))"

lemma blob_best_None [simp]: "blob_best_ok req as None"
  by (simp add: blob_best_ok_def)

lemma blob_best_snoc: "blob_best_ok req as best \<Longrightarrow> blob_best_ok req (as @ [n]) best"
  by (simp add: blob_best_ok_def best_ok_snoc)

lemma blob_best_new:
  "blob_fits req (fst m) \<Longrightarrow> \<not> li_isUsed (fst m) \<Longrightarrow>
     blob_best_ok req (as @ [m]) (Some (length (enc_file as), length (enc_file as) + li_size (fst m)))"
  by (simp add: blob_best_ok_def best_ok_new)

definition blob_place ::
  "nat \<Rightarrow> string \<Rightarrow> (string \<Rightarrow> kval option) \<Rightarrow> kvs_fail + (nat \<times> nat) option \<times> kfile \<Rightarrow> bool" where
  "blob_place req key M r \<longleftrightarrow> (\<exists>h' xs ms ys. placed key M h' xs ms ys \<and>
     (r = Inr (None, h') \<and> ms = [] \<and> ys = [] \<or>
      (\<exists>m. r = Inr (Some (length (enc_file xs), length (enc_file xs) + li_size (fst m)), h') \<and>
        ms = [m] \<and> blob_fits req (fst m))))"

lemma blob_placeI:
  "placed key M h' xs [] [] \<Longrightarrow> blob_place req key M (Inr (None, h'))"
  "placed key M h' xs [m] ys \<Longrightarrow> blob_fits req (fst m) \<Longrightarrow>
     blob_place req key M (Inr (Some (length (enc_file xs), length (enc_file xs) + li_size (fst m)), h'))"
  by (unfold blob_place_def) blast+

lemma blob_place_upd [simp]: "blob_place req key (M(key := None)) r = blob_place req key M r"
  by (simp add: blob_place_def)

lemma blob_place_best:
  assumes "kv_rep h as" "no_key key as" "blob_best_ok req as best"
  shows "blob_place req key (kvs_abs as) (Inr (best, h))"
proof (cases best)
  case None
  then show ?thesis using assms placed_none by (auto intro: blob_placeI)
next
  case (Some pe)
  obtain p ep where pe: "pe = (p, ep)" by (cases pe)
  with assms(3) Some obtain xs m ys where "as = xs @ m # ys" "p = length (enc_file xs)"
    "blob_fits req (fst m)" "ep = p + li_size (fst m)" "\<not> li_isUsed (fst m)"
    unfolding blob_best_ok_def best_ok_def by blast
  with assms Some pe placed_unused [of h xs m ys key] show ?thesis by (auto intro: blob_placeI)
qed

lemma find_key_blob_loop_place:
  assumes "length bs < fuel" "kv_rep h (as @ bs)" "cursor li pos as" "key_ok key"
    and "no_key key as" "ign \<longrightarrow> no_key key bs" "blob_best_ok req as best"
  shows "blob_place req key (kvs_abs (as @ bs)) (find_key_blob_loop fuel h li pos key req ign bw best)"
  using assms
proof (induction fuel arbitrary: h li pos ign bw best as bs)
  case 0
  then show ?case by simp
next
  case (Suc fuel)
  show ?case
  proof (cases bs)
    case Nil
    then have "kvs_find_next h li pos None KVS_TYPE_ANY = Inr (None, h\<lparr>kf_off := length (kf_data h)\<rparr>)"
      using Suc.prems by (intro find_next_end) auto
    then show ?thesis using Suc.prems Nil by (simp add: blob_place_best)
  next
    case (Cons n bs')
    let ?p = "length (enc_file as)"
    let ?h = "h\<lparr>kf_off := ?p + sizeof_li\<rparr>"
    let ?w = "int (unat (nval_blob_size (li_nval (fst n)))) - int req"
    have rep: "kv_rep ?h (as @ n # bs')" using Suc.prems(2) Cons by simp
    have wf: "wf_node n" by (rule kv_rep_wf [OF rep])
    note step = find_next_node [OF Suc.prems(2) [unfolded Cons] Suc.prems(3)]
    note m = match_node [OF wf Suc.prems(4)]
    have IH: "blob_place req key (kvs_abs (as @ n' # bs')) (find_key_blob_loop fuel h' (fst n) ?p key req ign' bw' best')"
      if "kv_rep h' (as @ n' # bs')" "n' = n \<or> n' = node_deleted n" "no_key key (as @ [n'])"
        "ign' \<longrightarrow> no_key key bs'" "blob_best_ok req (as @ [n']) best'" for h' n' ign' bw' best'
      using Suc.IH [of bs' h' "as @ [n']" "fst n" ?p ign' best' bw'] that Suc.prems(1,4) Cons cursor_next [OF wf, of as]
      by auto
    show ?thesis
    proof (cases "li_matchKey (fst n) key")
      case True
      then have u: "li_isUsed (fst n)" "node_key n = key" by (simp_all add: m)
      have nk: "no_key key (as @ bs')" by (rule match_no_key [OF rep u])
      show ?thesis
      proof (cases "\<not> li_typeInt (fst n) \<and> ?w = 0")
        case hit: True
        have "placed key (kvs_abs (as @ n # bs')) ?h as [n] bs'"
          by (rule placed_match [OF rep u])
        with hit True show ?thesis by (simp add: step Cons blob_placeI blob_fits_def)
      next
        case False
        let ?d = "node_deleted n"
        from deleteNode_mid [OF rep] obtain h' where
          h': "kvs_deleteNode ?h ?p = Inr h'" "kv_rep h' (as @ ?d # bs')" by blast
        note absd = match_deleted [OF rep u]
        have same: "blob_place req key (kvs_abs (as @ ?d # bs'))
            (find_key_blob_loop fuel h' (fst n) ?p key req True bw best)"
          using h' nk Suc.prems(7) by (intro IH) (auto intro: blob_best_snoc)
        have new: "blob_place req key (kvs_abs (as @ ?d # bs'))
            (find_key_blob_loop fuel h' (fst n) ?p key req True w (Some (?p, ?p + li_size (fst n))))"
          if "blob_fits req (fst n)" for w
          using h' nk that blob_best_new [of req ?d as] by (intro IH) auto
        from h' True False same new show ?thesis
          by (auto simp: step Cons absd Let_def blob_fits_def)
      qed
    next
      case False
      have nk: "no_key key (as @ [n])" using Suc.prems False m by auto
      have same: "blob_place req key (kvs_abs (as @ n # bs'))
          (find_key_blob_loop fuel ?h (fst n) ?p key req ign bw best)"
        using rep nk Suc.prems Cons by (intro IH) (auto intro: blob_best_snoc)
      have new: "blob_place req key (kvs_abs (as @ n # bs'))
          (find_key_blob_loop fuel ?h (fst n) ?p key req ign w (Some (?p, ?p + li_size (fst n))))"
        if "blob_fits req (fst n)" "\<not> li_isUsed (fst n)" for w
        using rep nk that Suc.prems Cons blob_best_new [of req n as] by (intro IH) auto
      have hit: "blob_place req key (kvs_abs (as @ n # bs')) (Inr (Some (?p, ?p + li_size (fst n)), ?h))"
        if "blob_fits req (fst n)" "\<not> li_isUsed (fst n)" ign
        using that Suc.prems Cons rep placed_unused [of ?h as n bs' key]
        by (intro blob_placeI(2)) (auto simp del: placed_off)
      from False same new hit show ?thesis by (auto simp: step Cons Let_def blob_fits_def)
    qed
  qed
qed

lemma find_key_blob_w_place:
  assumes "kv_rep h ns" "key_ok key"
  shows "blob_place req key (kvs_abs ns) (find_key_blob_w h key req)"
  using find_key_blob_loop_place [of ns _ h "[]" li_init 0 key False req None] assms enc_file_length [of ns]
  by (simp add: find_key_blob_w_def kv_rep_def del: find_key_blob_loop.simps)

end
