(* ===== verification/KvsOps.thy ===== *)
theory KvsOps
  imports KvsPlace
begin

text \<open>
  The operations of the key-value store against the map: set is an update, get a lookup, erase a
  removal. \<open>kv_read h M\<close> says that the open file \<open>h\<close> holds the map \<open>M\<close>, \<open>kv_map h M\<close> that
  it is also writable.
\<close>

definition kv_file :: "kfile \<Rightarrow> knode list \<Rightarrow> bool" where
  "kv_file h ns \<longleftrightarrow> kf_data h = enc_file ns \<and> wf_nodes ns"

definition kv_read :: "kfile \<Rightarrow> (string \<Rightarrow> kval option) \<Rightarrow> bool" where
  "kv_read h M \<longleftrightarrow> (\<exists>ns. kv_file h ns \<and> kvs_abs ns = M)"

lemma kv_rep_file: "kv_rep h ns \<longleftrightarrow> kf_wr h \<and> kv_file h ns"
  by (simp add: kv_rep_def kv_file_def)

lemma kv_file_off [simp]: "kv_file (h\<lparr>kf_off := x\<rparr>) ns = kv_file h ns"
  by (simp add: kv_file_def)

definition kv_map :: "kfile \<Rightarrow> (string \<Rightarrow> kval option) \<Rightarrow> bool" where
  "kv_map h M \<longleftrightarrow> (\<exists>ns. kv_rep h ns \<and> kvs_abs ns = M)"

lemma kv_mapI: "kv_rep h ns \<Longrightarrow> kvs_abs ns = M \<Longrightarrow> kv_map h M"
  by (auto simp: kv_map_def)

lemma kv_map_off [simp]: "kv_map (h\<lparr>kf_off := x\<rparr>) M = kv_map h M"
  by (simp add: kv_map_def)

lemma kv_map_read: "kv_map h M \<longleftrightarrow> kf_wr h \<and> kv_read h M"
  by (auto simp: kv_map_def kv_read_def kv_rep_file)

lemma kv_map_empty: "kf_wr h \<Longrightarrow> kf_data h = [] \<Longrightarrow> kv_map h Map.empty"
  by (rule kv_mapI [of _ "[]"]) (simp_all add: kv_rep_def wf_nodes_def)

section \<open>Replacing the node at a place\<close>

lemma placed_rep:
  assumes "placed key M h xs ms ys" "wf_node n" "li_isUsed (fst n)" "node_key n = key"
  shows "wf_nodes (xs @ n # ys)" and "kvs_abs (xs @ n # ys) = M(key \<mapsto> node_val n)"
proof -
  from assms(1) have nk: "no_key key (xs @ ys)" and abs: "kvs_abs (xs @ ys) = M(key := None)"
    and wf: "wf_nodes (xs @ ms @ ys)" by (auto simp: placed_def kv_rep_def)
  then have "wf_nodes (xs @ ys)" by (auto simp: wf_nodes_append)
  then show "wf_nodes (xs @ n # ys)" using assms nk by (intro wf_nodes_mid) auto
  show "kvs_abs (xs @ n # ys) = M(key \<mapsto> node_val n)"
    using kvs_abs_mid_used [of n xs ys] assms nk abs by simp
qed

section \<open>Integers\<close>

text \<open>
  The integer types: a width bit in the low four, neither a size bit nor the deleted bit. The
  setters work for the types of 8, 16 and 32 bits, whose width bit the macro li_typeInt tests.
\<close>

definition int_type :: "u8 \<Rightarrow> bool" where
  "int_type ty \<longleftrightarrow> ty AND 0x60 = 0 \<and> ty AND 0x80 = 0 \<and> ty \<noteq> 0"

definition storable :: "u8 \<Rightarrow> bool" where
  "storable ty \<longleftrightarrow> int_type ty \<and> ty AND 0x07 \<noteq> 0"

lemma storable_simps [simp]:
  "storable KVS_TYPE_u8" "storable KVS_TYPE_i8" "storable KVS_TYPE_u16" "storable KVS_TYPE_i16"
  "storable KVS_TYPE_u32" "storable KVS_TYPE_i32"
  by (simp_all add: storable_def int_type_def kvs_type_defs)

lemma int_type_simps [simp]: "storable ty \<Longrightarrow> int_type ty"
  "int_type KVS_TYPE_u64" "int_type KVS_TYPE_i64"
  by (simp_all add: storable_def int_type_def kvs_type_defs)

lemma int_node:
  fixes v :: u64
  assumes "storable ty" "key_array key = Inr ks" "length ks = 15" "NUL \<in> set ks" "c_str ks = key"
  defines "n \<equiv> (li_init\<lparr>li_kvs_type := ty, li_nval := v, li_key := ks\<rparr>, [])"
  shows "wf_node n" "li_isUsed (fst n)" "node_key n = key" "node_val n = KInt ty v"
    "\<not> li_hasSize (li_kvs_type (fst n))"
  using assms by (auto simp: wf_node_def wf_li_def enc_node_def li_size_def li_hasSize_def storable_def
    int_type_def li_typeInt_def li_isUsed_def node_key_def node_val_def li_init_def)

lemma typeInt_payload: "wf_node m \<Longrightarrow> li_typeInt (fst m) \<Longrightarrow> snd m = []"
  using wf_node_payload [of "fst m" "snd m"] typeInt_not_hasSize [of "fst m"] by simp

lemma set_dt_map:
  assumes "kv_map h M" "key_ok key" "storable ty"
  shows "\<exists>h'. kvs_set_dt ty h key v = Inr (True, h') \<and> kv_map h' (M(key \<mapsto> KInt ty v))"
proof -
  obtain ns where ns: "kv_rep h ns" "kvs_abs ns = M" using assms(1) by (auto simp: kv_map_def)
  obtain ks where ks: "key_array key = Inr ks" "length ks = 15" "NUL \<in> set ks" "c_str ks = key"
    using key_array_ok [OF assms(2)] .
  let ?li = "li_init\<lparr>li_kvs_type := ty, li_nval := v, li_key := ks\<rparr>" let ?n = "(?li, [] :: u8 list)"
  note n = int_node [OF assms(3) ks]
  have wli: "wf_li ?li" using n(1) by (simp add: wf_node_def)
  from find_key_int_w_place [OF ns(1) assms(2)] ns(2)
  obtain h1 xs ms ys where pl: "placed key M h1 xs ms ys"
    and r: "find_key_int_w h key = Inr (None, h1) \<and> ms = [] \<and> ys = [] \<or>
      (\<exists>m. find_key_int_w h key = Inr (Some (length (enc_file xs)), h1) \<and> ms = [m] \<and> li_typeInt (fst m))"
    by (auto simp: int_place_def)
  note new = placed_rep [OF pl n(1,2,3)]
  have rep: "kf_wr h1" "kf_data h1 = enc_file (xs @ ms @ ys)" "wf_nodes (xs @ ms @ ys)"
    using pl by (simp_all add: placed_def kv_rep_def)
  from r show ?thesis
  proof (elim disjE exE conjE)
    assume c: "find_key_int_w h key = Inr (None, h1)" "ms = []" "ys = []"
    from kvs_write_append [OF rep(1) wli] c ks new n rep show ?thesis
      by (auto simp: kvs_set_dt_def kv_map_def kv_rep_def enc_node_def sizeof_li_def
        intro!: exI [of _ "xs @ [?n]"])
  next
    fix m assume c: "find_key_int_w h key = Inr (Some (length (enc_file xs)), h1)" "ms = [m]" "li_typeInt (fst m)"
    then have m: "wf_node m" using rep by (simp add: wf_nodes_def)
    have dat: "kf_data h1 = enc_file xs @ enc_li (fst m) @ enc_file ys"
      using rep c typeInt_payload [OF m c(3)] by (simp add: enc_node_def)
    from kvs_write_in_place [OF rep(1) dat wf_node_key_len [OF m] wli] c ks new n rep show ?thesis
      by (auto simp: kvs_set_dt_def kv_map_def kv_rep_def enc_node_def sizeof_li_def
        intro!: exI [of _ "xs @ ?n # ys"])
  qed
qed

section \<open>Lookup\<close>

text \<open>A search by key finds the used node of the key, when its type is asked for.\<close>

lemma mismatch_key:
  assumes "wf_node n" "key_ok key"
  shows "find_mismatch (fst n) (Some key) ty \<longleftrightarrow>
    \<not> (li_isUsed (fst n) \<and> node_key n = key \<and> (ty = KVS_TYPE_ANY \<or> li_kvs_type (fst n) = ty))"
  by (auto simp: find_mismatch_def match_node [OF assms])

lemma find_key_none:
  assumes "kv_file h ns" "key_ok key" "\<forall>n \<in> set ns. find_mismatch (fst n) (Some key) ty"
  shows "kvs_find_next h li_init 0 (Some key) ty = Inr (None, h\<lparr>kf_off := length (kf_data h)\<rparr>)"
  using find_loop_none [of ns "Some key" ty h "[]"] assms
  by (simp add: kvs_find_next_def li_init_def kv_file_def wf_nodes_def)

lemma find_key_some:
  assumes "kv_file h (xs @ m # ys)" "key_ok key" "li_isUsed (fst m)" "node_key m = key"
    "ty = KVS_TYPE_ANY \<or> li_kvs_type (fst m) = ty"
  shows "kvs_find_next h li_init 0 (Some key) ty = Inr (Some (length (enc_file xs), fst m),
    h\<lparr>kf_off := length (enc_file xs) + sizeof_li\<rparr>)"
proof -
  have wf: "wf_nodes (xs @ m # ys)" using assms(1) by (simp add: kv_file_def)
  have "no_key key xs" using wf_nodes_used_other [OF wf assms(3)] assms(4) by simp
  then have "\<forall>n \<in> set xs. wf_node n \<and> find_mismatch (fst n) (Some key) ty"
    using wf assms(2) by (auto simp: wf_nodes_def mismatch_key no_key_def used_nodes_def)
  then show ?thesis
    using find_loop_some [of xs "Some key" ty m h "[]" "enc_file ys"] assms wf
    by (simp add: kvs_find_next_def li_init_def kv_file_def wf_nodes_def mismatch_key)
qed

lemma abs_node:
  assumes "wf_nodes ns" "kvs_abs ns key = Some v"
  obtains xs m ys where "ns = xs @ m # ys" "wf_node m" "li_isUsed (fst m)" "node_key m = key" "node_val m = v"
proof -
  from assms(2) have "(key, v) \<in> set (map (\<lambda>n. (node_key n, node_val n)) (used_nodes ns))"
    unfolding kvs_abs_def by (rule map_of_SomeD)
  then obtain m where m: "m \<in> set ns" "li_isUsed (fst m)" "node_key m = key" "node_val m = v"
    by (auto simp: used_nodes_def)
  then obtain xs ys where ns: "ns = xs @ m # ys" by (auto simp: in_set_conv_decomp)
  have "wf_node m" using assms(1) ns by (simp add: wf_nodes_def)
  with that ns m show ?thesis by blast
qed

lemma no_node_mismatch:
  assumes "kv_file h ns" "key_ok key"
    "\<forall>n \<in> set (used_nodes ns). node_key n = key \<longrightarrow> ty \<noteq> KVS_TYPE_ANY \<and> li_kvs_type (fst n) \<noteq> ty"
  shows "\<forall>n \<in> set ns. find_mismatch (fst n) (Some key) ty"
proof
  fix n assume n: "n \<in> set ns"
  then have "wf_node n" using assms(1) by (simp add: kv_file_def wf_nodes_def)
  moreover have "\<not> (li_isUsed (fst n) \<and> node_key n = key \<and> (ty = KVS_TYPE_ANY \<or> li_kvs_type (fst n) = ty))"
    using assms(3) n by (auto simp only: used_nodes_def set_filter mem_Collect_eq)
  ultimately show "find_mismatch (fst n) (Some key) ty" by (simp add: mismatch_key assms(2))
qed

definition kval_type :: "kval \<Rightarrow> u8" where
  "kval_type v = (case v of KInt ty _ \<Rightarrow> ty | KBytes ty _ \<Rightarrow> ty)"

lemma kval_type_node [simp]: "kval_type (node_val n) = li_kvs_type (fst n)"
  by (simp add: kval_type_def node_val_def)

lemma used_unique:
  assumes "wf_nodes (xs @ m # ys)" "li_isUsed (fst m)" "n \<in> set (used_nodes (xs @ m # ys))"
    "node_key n = node_key m"
  shows "n = m"
proof -
  have "m \<in> set (used_nodes (xs @ m # ys))" using assms(2) by simp
  moreover have "inj_on node_key (set (used_nodes (xs @ m # ys)))"
    using assms(1) by (simp only: wf_nodes_def distinct_map)
  ultimately show ?thesis using assms(3,4) by (blast dest: inj_onD)
qed

lemma find_key_result:
  assumes "kv_file h ns" "key_ok key" "kvs_abs ns = M" "ty \<noteq> KVS_TYPE_ANY"
  shows "(case M key of
      Some v \<Rightarrow> if kval_type v = ty
        then (\<exists>xs m ys. ns = xs @ m # ys \<and> wf_node m \<and> node_val m = v \<and>
          kvs_find_next h li_init 0 (Some key) ty = Inr (Some (length (enc_file xs), fst m),
            h\<lparr>kf_off := length (enc_file xs) + sizeof_li\<rparr>))
        else kvs_find_next h li_init 0 (Some key) ty = Inr (None, h\<lparr>kf_off := length (kf_data h)\<rparr>)
    | None \<Rightarrow> kvs_find_next h li_init 0 (Some key) ty = Inr (None, h\<lparr>kf_off := length (kf_data h)\<rparr>))"
proof (cases "M key")
  case None
  then have "no_key key ns" using assms(3) by (simp add: kvs_abs_no_key)
  then have "\<forall>n \<in> set ns. find_mismatch (fst n) (Some key) ty"
    by (intro no_node_mismatch [OF assms(1,2)]) (auto simp: no_key_def)
  from find_key_none [OF assms(1,2) this] None show ?thesis by simp
next
  case (Some v)
  have wf: "wf_nodes ns" using assms(1) by (simp add: kv_file_def)
  from abs_node [of ns key v] wf Some assms(3) obtain xs m ys where
    m: "ns = xs @ m # ys" "wf_node m" "li_isUsed (fst m)" "node_key m = key" "node_val m = v" by metis
  then have ty: "kval_type v = li_kvs_type (fst m)" by auto
  show ?thesis
  proof (cases "kval_type v = ty")
    case True
    then have "kvs_find_next h li_init 0 (Some key) ty = Inr (Some (length (enc_file xs), fst m),
        h\<lparr>kf_off := length (enc_file xs) + sizeof_li\<rparr>)"
      using assms m ty by (intro find_key_some) auto
    with m(1,2,5) True Some show ?thesis by (simp only: option.case simp_thms if_True) blast
  next
    case False
    have "\<forall>n \<in> set (used_nodes ns). node_key n = key \<longrightarrow> ty \<noteq> KVS_TYPE_ANY \<and> li_kvs_type (fst n) \<noteq> ty"
      using used_unique [of xs m ys] wf m False ty assms(4) by metis
    then have "\<forall>n \<in> set ns. find_mismatch (fst n) (Some key) ty"
      by (rule no_node_mismatch [OF assms(1,2)])
    from find_key_none [OF assms(1,2) this] Some False show ?thesis by simp
  qed
qed

lemma get_dt_map:
  assumes "kv_read h M" "key_ok key" "int_type ty"
  shows "\<exists>off. kvs_get_dt ty h key def =
    Inr ((case M key of Some (KInt t v) \<Rightarrow> if t = ty then (v, True) else (def, False) | _ \<Rightarrow> (def, False)),
         h\<lparr>kf_off := off\<rparr>)"
proof -
  obtain ns where ns: "kv_file h ns" "kvs_abs ns = M" using assms(1) by (auto simp: kv_read_def)
  have ty: "ty \<noteq> KVS_TYPE_ANY" "\<not> li_hasSize ty"
    using assms(3) by (auto simp: int_type_def kvs_type_defs li_hasSize_def)
  note f = find_key_result [OF ns(1) assms(2) ns(2) ty(1)]
  show ?thesis
  proof (cases "\<exists>v. M key = Some v \<and> kval_type v = ty")
    case True
    then obtain m xs where m: "M key = Some (node_val m)" "kval_type (node_val m) = ty"
      and fn: "kvs_find_next h li_init 0 (Some key) ty = Inr (Some (length (enc_file xs), fst m),
            h\<lparr>kf_off := length (enc_file xs) + sizeof_li\<rparr>)"
      using f by (auto split: if_splits)
    from m(2) have "li_kvs_type (fst m) = ty" by simp
    then have "node_val m = KInt ty (li_nval (fst m))" using ty(2) by (simp add: node_val_def)
    with m fn show ?thesis by (auto simp: kvs_get_dt_def)
  next
    case False
    then have "kvs_find_next h li_init 0 (Some key) ty = Inr (None, h\<lparr>kf_off := length (kf_data h)\<rparr>)"
      using f by (auto split: option.splits if_splits)
    with False show ?thesis by (auto simp: kvs_get_dt_def kval_type_def split: option.splits kval.splits)
  qed
qed

section \<open>Strings and blobs\<close>

text \<open>The types with a payload that setters use: STR and BLOB.\<close>

definition bytes_type :: "u8 \<Rightarrow> bool" where
  "bytes_type ty \<longleftrightarrow> li_hasSize ty \<and> ty AND 0x80 = 0"

lemma bytes_type_simps [simp]: "bytes_type KVS_TYPE_STR" "bytes_type KVS_TYPE_BLOB"
  by (simp_all add: bytes_type_def li_hasSize_def kvs_type_defs)

lemma unat_u16_bound: "unat (w :: u16) < 65536"
  using unsigned_less [of w] by simp

lemma unat_u16: "n < 65536 \<Longrightarrow> unat (word_of_nat n :: u16) = n"
  by (simp add: unat_of_nat)

lemma bytes_node:
  assumes "bytes_type ty" "key_array key = Inr ks" "length ks = 15" "NUL \<in> set ks" "c_str ks = key"
    and "length src + length rest = sz" "sz < 65536"
  defines "n \<equiv> (li_init\<lparr>li_kvs_type := ty, li_key := ks,
      li_nval := nval_of_len (word_of_nat (length src)) (word_of_nat sz)\<rparr>, src @ rest)"
  shows "wf_node n" "li_isUsed (fst n)" "node_key n = key" "node_val n = KBytes ty src"
proof -
  have "length src < 65536" using assms(6,7) by simp
  then have u: "unat (word_of_nat (length src) :: u16) = length src" "unat (word_of_nat sz :: u16) = sz"
    using assms(7) by (simp_all add: unat_u16)
  then have "(word_of_nat (length src) :: u16) \<le> word_of_nat sz"
    using assms(6) by (simp add: word_le_nat_alt)
  moreover have "ty \<noteq> 0" using assms(1) by (auto simp: bytes_type_def li_hasSize_def)
  ultimately show "wf_node n" "li_isUsed (fst n)" "node_key n = key" "node_val n = KBytes ty src"
    using assms u by (auto simp: wf_node_def wf_li_def enc_node_def li_size_def bytes_type_def
      li_isUsed_def node_key_def node_val_def li_init_def)
qed

lemma pwrite_prefix:
  "length y \<le> length x \<Longrightarrow> pwrite (a @ x @ b) (length a) y = a @ y @ drop (length y) x @ b"
  by (simp add: pwrite_def)

lemma write_bytes_map:
  assumes "kv_map h M" "key_ok key" "bytes_type ty" "length src < 65536"
  shows "\<exists>h'. kvs_write_str_or_blob h key src ty = Inr (word_of_nat (length src), h') \<and>
    kv_map h' (M(key \<mapsto> KBytes ty src))"
proof -
  obtain ns where ns: "kv_rep h ns" "kvs_abs ns = M" using assms(1) by (auto simp: kv_map_def)
  obtain ks where ks: "key_array key = Inr ks" "length ks = 15" "NUL \<in> set ks" "c_str ks = key"
    using key_array_ok [OF assms(2)] .
  let ?li = "\<lambda>sz. li_init\<lparr>li_kvs_type := ty, li_key := ks,
      li_nval := nval_of_len (word_of_nat (length src)) (word_of_nat sz)\<rparr>"
  note node = bytes_node [OF assms(3) ks]
  have wli: "wf_li (?li sz)" if "length src + length rest = sz" "sz < 65536" for sz and rest :: "u8 list"
    using node(1) [OF that] by (simp add: wf_node_def)
  have append: "\<exists>h'. (case kvs_write h2 (?li (length src)) None of Inl e \<Rightarrow> Inl e
        | Inr (x, h3) \<Rightarrow> (case f_write h3 src of (i, h4) \<Rightarrow> Inr (word_of_int i, h4)))
      = Inr (word_of_nat (length src) :: u32, h') \<and> kv_map h' (M(key \<mapsto> KBytes ty src))"
    if pl: "placed key M h2 xs [] []" for h2 xs
  proof -
    have rep: "kf_wr h2" "kf_data h2 = enc_file xs" using pl by (simp_all add: placed_def kv_rep_def)
    have "wf_nodes (xs @ [(?li (length src), src)])" "kvs_abs (xs @ [(?li (length src), src)]) = M(key \<mapsto> KBytes ty src)"
      using placed_rep [OF pl, of "(?li (length src), src)"] node [of src "[]" "length src"] assms(4) by simp_all
    moreover have "length (enc_li (?li (length src))) = sizeof_li" using ks by simp
    ultimately show ?thesis
      using kvs_write_append [OF rep(1) wli [of "[]" "length src"]] assms(4) rep
        pwrite_end [of "enc_file xs @ enc_li (?li (length src))" src]
      by (auto simp: f_write_def kv_map_def kv_rep_def enc_node_def
        intro!: exI [of _ "xs @ [(?li (length src), src)]"])
  qed
  from find_key_blob_w_place [OF ns(1) assms(2), of "length src", unfolded ns(2)]
  obtain h1 xs ms ys where pl: "placed key M h1 xs ms ys"
    and r: "find_key_blob_w h key (length src) = Inr (None, h1) \<and> ms = [] \<and> ys = [] \<or>
      (\<exists>m. find_key_blob_w h key (length src)
          = Inr (Some (length (enc_file xs), length (enc_file xs) + li_size (fst m)), h1)
        \<and> ms = [m] \<and> blob_fits (length src) (fst m))"
    unfolding blob_place_def by blast
  from r show ?thesis
  proof (elim disjE exE conjE)
    assume c: "find_key_blob_w h key (length src) = Inr (None, h1)" "ms = []" "ys = []"
    with append [of h1 xs] pl ks show ?thesis by (simp add: kvs_write_str_or_blob_def)
  next
    fix m assume c: "find_key_blob_w h key (length src)
        = Inr (Some (length (enc_file xs), length (enc_file xs) + li_size (fst m)), h1)"
      "ms = [m]" "blob_fits (length src) (fst m)"
    have rep: "kv_rep h1 (xs @ m # ys)" using pl c(2) by (simp add: placed_def)
    have m: "wf_node m" by (rule kv_rep_wf [OF rep])
    define sz where "sz = length (snd m)"
    have sz: "li_size (fst m) - sizeof_li = sz" "sz < 65536"
      using wf_node_payload [of "fst m" "snd m"] m unat_u16_bound [of "nval_blob_size (li_nval (fst m))"]
      by (simp_all add: sz_def li_size_def)
    show ?thesis
    proof (cases "sz < length src")
      case True
      have "li_hasSize (li_kvs_type (fst m))"
        using m c(3) by (auto simp: wf_node_def wf_li_def blob_fits_def)
      then have "length src \<le> sz"
        using wf_node_payload [of "fst m" "snd m"] m blob_fits_size [OF c(3)] by (simp add: sz_def)
      with True show ?thesis by simp
    next
      case False
      let ?rest = "drop (length src) (snd m)"
      have len: "length src + length ?rest = sz" using False by (simp add: sz_def)
      let ?n = "(?li sz, src @ ?rest)"
      note n = node [OF len sz(2)] and new = placed_rep [OF pl, of ?n]
      have dat: "kf_data h1 = enc_file xs @ enc_li (fst m) @ snd m @ enc_file ys"
        and wr: "kf_wr h1" using rep by (simp_all add: kv_rep_def enc_node_def)
      have "length (enc_li (?li sz)) = sizeof_li" using ks by simp
      then have "pwrite (enc_file xs @ enc_li (?li sz) @ snd m @ enc_file ys) (length (enc_file xs) + sizeof_li) src
          = enc_file xs @ enc_li (?li sz) @ src @ ?rest @ enc_file ys"
        using pwrite_prefix [of src "snd m" "enc_file xs @ enc_li (?li sz)" "enc_file ys"] False by (simp add: sz_def)
      with kvs_write_in_place [OF wr dat wf_node_key_len [OF m] wli [OF len sz(2)]] wr c(1) ks sz False new n
      show ?thesis
        by (auto simp: kvs_write_str_or_blob_def Let_def f_write_def kv_map_def kv_rep_def enc_node_def
          intro!: exI [of _ "xs @ ?n # ys"])
    qed
  qed
qed


text \<open>What is read: the bytes of the value when they fit, and their number in any case.\<close>

definition bytes_of :: "kval option \<Rightarrow> u8 \<Rightarrow> u8 list option" where
  "bytes_of v ty = (case v of Some (KBytes t bs) \<Rightarrow> if t = ty then Some bs else None | _ \<Rightarrow> None)"

lemma read_bytes_map:
  assumes "kv_read h M" "key_ok key" "bytes_type ty"
  shows "\<exists>off. kvs_read_str_or_blob h key len ty =
    Inr ((case bytes_of (M key) ty of
            Some bs \<Rightarrow> (length bs, if len < length bs then None else Some bs)
          | None \<Rightarrow> (0, None)), h\<lparr>kf_off := off\<rparr>)"
proof -
  obtain ns where ns: "kv_file h ns" "kvs_abs ns = M" using assms(1) by (auto simp: kv_read_def)
  have ty: "ty \<noteq> KVS_TYPE_ANY" "li_hasSize ty"
    using assms(3) by (auto simp: bytes_type_def kvs_type_defs)
  note f = find_key_result [OF ns(1) assms(2) ns(2) ty(1)]
  show ?thesis
  proof (cases "\<exists>v. M key = Some v \<and> kval_type v = ty")
    case True
    then obtain m xs ys where m: "M key = Some (node_val m)" "kval_type (node_val m) = ty"
        "ns = xs @ m # ys" "wf_node m"
      and fn: "kvs_find_next h li_init 0 (Some key) ty = Inr (Some (length (enc_file xs), fst m),
            h\<lparr>kf_off := length (enc_file xs) + sizeof_li\<rparr>)"
      using f by (auto split: if_splits)
    from m(2) have t: "li_kvs_type (fst m) = ty" by simp
    let ?n = "unat (nval_blob_len (li_nval (fst m)))"
    have v: "node_val m = KBytes ty (take ?n (snd m))" using t ty(2) by (simp add: node_val_def)
    have n: "?n \<le> length (snd m)"
      using wf_node_payload [of "fst m" "snd m"] m(4) t ty(2) typeInt_not_hasSize [of "fst m"]
      by (auto simp: wf_node_def wf_li_def word_le_nat_alt)
    have len: "length (enc_li (fst m)) = sizeof_li" using m(4) by (simp add: wf_node_key_len)
    have "kf_data h = (enc_file xs @ enc_li (fst m)) @ snd m @ enc_file ys"
      using ns(1) m(3) by (simp add: kv_file_def enc_node_def)
    moreover have "length (enc_file xs @ enc_li (fst m)) = length (enc_file xs) + sizeof_li"
      using len by simp
    ultimately have "drop (length (enc_file xs) + sizeof_li) (kf_data h) = snd m @ enc_file ys"
      by (metis append_eq_conv_conj)
    then have "f_read (h\<lparr>kf_off := length (enc_file xs) + sizeof_li\<rparr>) ?n =
        (take ?n (snd m), h\<lparr>kf_off := length (enc_file xs) + sizeof_li + ?n\<rparr>)"
      using n by (simp add: f_read_def)
    with fn m(1) v n show ?thesis
      by (auto simp: kvs_read_str_or_blob_def Let_def bytes_of_def)
  next
    case False
    then have "kvs_find_next h li_init 0 (Some key) ty = Inr (None, h\<lparr>kf_off := length (kf_data h)\<rparr>)"
      using f by (auto split: option.splits if_splits)
    moreover have "bytes_of (M key) ty = None"
      using False by (auto simp: bytes_of_def kval_type_def split: option.splits kval.splits)
    ultimately show ?thesis by (auto simp: kvs_read_str_or_blob_def)
  qed
qed

section \<open>Removal\<close>

lemma erase_map:
  assumes "kv_map h M" "key_ok key"
  shows "\<exists>h'. kvs_erase_key h key = Inr (M key \<noteq> None, h') \<and> kv_map h' (M(key := None))"
proof -
  obtain ns where rep: "kv_rep h ns" "kvs_abs ns = M" using assms(1) by (auto simp: kv_map_def)
  have wf: "wf_nodes ns" and wr: "kf_wr h" and ns: "kv_file h ns" "kvs_abs ns = M"
    using rep by (simp_all add: kv_rep_def kv_file_def)
  show ?thesis
  proof (cases "M key")
    case None
    then have "no_key key ns" using ns(2) by (simp add: kvs_abs_no_key)
    then have "\<forall>n \<in> set ns. find_mismatch (fst n) (Some key) KVS_TYPE_ANY"
      by (intro no_node_mismatch [OF ns(1) assms(2)]) (auto simp: no_key_def)
    from find_key_none [OF ns(1) assms(2) this] None assms(1) show ?thesis
      by (simp add: kvs_erase_key_def fun_upd_idem)
  next
    case (Some v)
    from abs_node [OF wf] Some ns(2) obtain xs m ys where
      m: "ns = xs @ m # ys" "wf_node m" "li_isUsed (fst m)" "node_key m = key" "node_val m = v" by metis
    let ?li = "(li_set_deleted (fst m))\<lparr>li_key := (li_key (fst m))[0 := NUL]\<rparr>" let ?n = "(?li, snd m)"
    have len: "length (li_key (fst m)) = 15" using m(2) by (rule wf_node_key_len)
    have sz: "li_size ?li = li_size (fst m)" "\<not> li_isUsed ?li" "li_typeInt ?li = li_typeInt (fst m)"
      using set_deleted_simps [of "fst m"] by (simp_all add: li_size_def li_isUsed_def li_typeInt_def)
    have wli: "wf_li ?li"
      using wf_li_deleted [of "fst m"] m(2) len set_update_memI [of 0 "li_key (fst m)" NUL] sz(3)
      by (auto simp: wf_node_def wf_li_def)
    have wn: "wf_node ?n"
      using wli m(2) len sz(1) by (simp add: wf_node_def enc_node_def)
    note fn = find_key_some [OF ns(1) [unfolded m(1)] assms(2) m(3,4), of KVS_TYPE_ANY]
    let ?h = "h\<lparr>kf_off := length (enc_file xs) + sizeof_li\<rparr>"
    have dat: "kf_data ?h = enc_file xs @ enc_li (fst m) @ snd m @ enc_file ys"
      using ns(1) m(1) by (simp add: kv_file_def enc_node_def)
    have "wf_nodes (xs @ ?n # ys)"
      using wf m(1) wn sz(2) by (intro wf_nodes_mid) (auto dest: wf_nodes_drop)
    moreover have "kvs_abs (xs @ ?n # ys) = M(key := None)"
      using kvs_abs_drop_used [OF m(3) wf_nodes_used_other [OF wf [unfolded m(1)] m(3)]] m ns(2) sz(2)
      by (simp add: kvs_abs_mid_unused)
    ultimately show ?thesis
      using kvs_write_in_place [of ?h "enc_file xs" "fst m" _ ?li, OF _ dat len wli] wr fn Some
      by (auto simp: kvs_erase_key_def kv_map_def kv_rep_def enc_node_def intro!: exI [of _ "xs @ ?n # ys"])
  qed
qed

section \<open>Visiting\<close>

text \<open>The nodes a visit of type \<open>ty\<close> reaches, and the visit as a recursion over them.\<close>

definition typed_nodes :: "u8 \<Rightarrow> knode list \<Rightarrow> knode list" where
  "typed_nodes ty ns = filter (\<lambda>n. ty = KVS_TYPE_ANY \<or> li_kvs_type (fst n) = ty) ns"

fun visit :: "(string \<Rightarrow> bool) \<Rightarrow> (string \<Rightarrow> u8 \<Rightarrow> 's \<Rightarrow> kvs_cbr \<times> 's) \<Rightarrow> (string \<times> u8) list \<Rightarrow> 's \<Rightarrow> nat \<Rightarrow> nat \<times> 's" where
  "visit cmp cb [] s n = (n, s)"
| "visit cmp cb ((k, ty) # es) s n =
     (if \<not> cmp k then visit cmp cb es s n
      else (case cb k ty s of
              (kvsCb_match, s') \<Rightarrow> visit cmp cb es s' (Suc n)
            | (kvsCb_done, s') \<Rightarrow> (Suc n, s')
            | (kvsCb_noMatch, s') \<Rightarrow> visit cmp cb es s' n))"

definition entries :: "u8 \<Rightarrow> knode list \<Rightarrow> (string \<times> u8) list" where
  "entries ty ns = map (\<lambda>n. (node_key n, li_kvs_type (fst n))) (used_nodes (typed_nodes ty ns))"

lemma find_next_typed:
  assumes "kv_file h (as @ bs)" "cursor li pos as"
  shows "(typed_nodes ty bs = [] \<and> (\<exists>h'. kvs_find_next h li pos None ty = Inr (None, h'))) \<or>
    (\<exists>bs1 n bs2. bs = bs1 @ n # bs2 \<and> typed_nodes ty bs = n # typed_nodes ty bs2 \<and>
      kvs_find_next h li pos None ty = Inr (Some (length (enc_file (as @ bs1)), fst n),
        h\<lparr>kf_off := length (enc_file (as @ bs1)) + sizeof_li\<rparr>))"
proof (cases "typed_nodes ty bs")
  case Nil
  then have "\<forall>n \<in> set bs. wf_node n \<and> find_mismatch (fst n) None ty"
    using assms(1) by (auto simp: typed_nodes_def filter_empty_conv find_mismatch_def kv_file_def wf_nodes_def)
  from find_loop_none [OF this, of h "enc_file as"] Nil assms show ?thesis
    by (simp add: kvs_find_next_def cursor_def kv_file_def)
next
  case (Cons n ns)
  then obtain bs1 bs2 where bs: "bs = bs1 @ n # bs2" "\<forall>x \<in> set bs1. find_mismatch (fst x) None ty"
      "\<not> find_mismatch (fst n) None ty" "ns = typed_nodes ty bs2"
    unfolding typed_nodes_def filter_eq_Cons_iff by (auto simp: find_mismatch_def)
  moreover have "\<forall>x \<in> set bs1. wf_node x" "wf_node n"
    using assms(1) bs(1) by (auto simp: kv_file_def wf_nodes_def)
  ultimately show ?thesis
    using find_loop_some [of bs1 None ty n h "enc_file as" "enc_file bs2"] assms Cons
    by (fastforce simp: kvs_find_next_def cursor_def kv_file_def)
qed

lemma kv_file_node_wf: "kv_file h (as @ n # bs) \<Longrightarrow> wf_node n"
  by (simp add: kv_file_def wf_nodes_def)

lemma foreach_loop_visit:
  assumes "length bs < fuel" "kv_file h (as @ bs)" "cursor li pos as"
  shows "kvs_foreach_loop fuel h li pos ty cmp cb s n = Inr (visit cmp cb (entries ty bs) s n)"
  using assms
proof (induction fuel arbitrary: h li pos as bs s n)
  case 0
  then show ?case by simp
next
  case (Suc fuel)
  from find_next_typed [OF Suc.prems(2,3), of ty] show ?case
  proof (elim disjE exE conjE)
    fix h' assume "typed_nodes ty bs = []" "kvs_find_next h li pos None ty = Inr (None, h')"
    then show ?thesis by (simp add: entries_def)
  next
    fix bs1 m bs2
    assume bs: "bs = bs1 @ m # bs2" "typed_nodes ty bs = m # typed_nodes ty bs2"
      and fn: "kvs_find_next h li pos None ty = Inr (Some (length (enc_file (as @ bs1)), fst m),
        h\<lparr>kf_off := length (enc_file (as @ bs1)) + sizeof_li\<rparr>)"
    have rep: "kv_file h ((as @ bs1) @ m # bs2)" using Suc.prems(2) bs(1) by simp
    have "kvs_foreach_loop fuel (h\<lparr>kf_off := off\<rparr>) (fst m) (length (enc_file (as @ bs1))) ty cmp cb s' n'
        = Inr (visit cmp cb (entries ty bs2) s' n')" for s' n' off
      using Suc.prems(1) bs(1) rep cursor_next(1) [OF kv_file_node_wf [OF rep], of "as @ bs1"]
      by (intro Suc.IH [of bs2 _ "(as @ bs1) @ [m]"]) auto
    then show ?thesis using bs(2) fn
      by (auto simp: entries_def node_key_def split: kvs_cbr.split prod.split)
  qed
qed

lemma foreach_visit:
  assumes "kv_file h ns"
  shows "kvs_foreach h ty cmp cb s = Inr (visit cmp cb (entries ty ns) s 0)"
  using foreach_loop_visit [of ns _ h "[]" li_init 0 ty cmp cb s 0] assms enc_file_length [of ns]
  by (simp add: kvs_foreach_def kv_file_def del: kvs_foreach_loop.simps)

lemma visit_match:
  "visit cmp (\<lambda>_ _ t. (kvsCb_match, t)) es s n = (n + length (filter (\<lambda>e. cmp (fst e)) es), s)"
  by (induction es arbitrary: n) auto

lemma entries_count:
  assumes "wf_nodes ns"
  shows "length (filter (\<lambda>e. cmp (fst e)) (entries ty ns)) =
    card {k. cmp k \<and> (\<exists>v. kvs_abs ns k = Some v \<and> (ty = KVS_TYPE_ANY \<or> kval_type v = ty))}"
proof -
  let ?P = "\<lambda>n. cmp (node_key n) \<and> (ty = KVS_TYPE_ANY \<or> li_kvs_type (fst n) = ty)"
  have d: "distinct (map node_key (used_nodes ns))" using assms by (simp add: wf_nodes_def)
  have "length (filter (\<lambda>e. cmp (fst e)) (entries ty ns)) = length (filter ?P (used_nodes ns))"
    unfolding entries_def typed_nodes_def used_nodes_def
    by (simp add: filter_map filter_filter o_def) (rule arg_cong [where f = length], rule filter_cong, auto)
  also have "\<dots> = card (set (map node_key (filter ?P (used_nodes ns))))"
    using distinct_card [of "map node_key (filter ?P (used_nodes ns))"] d by (simp add: distinct_map_filter)
  also have "set (map node_key (filter ?P (used_nodes ns))) =
      {k. cmp k \<and> (\<exists>v. kvs_abs ns k = Some v \<and> (ty = KVS_TYPE_ANY \<or> kval_type v = ty))}"
  proof -
    have "kvs_abs ns k = Some v \<longleftrightarrow> (\<exists>n \<in> set (used_nodes ns). node_key n = k \<and> node_val n = v)" for k v
      using d by (simp add: kvs_abs_def map_of_eq_Some_iff o_def) force
    then show ?thesis by (auto simp: image_iff)
  qed
  finally show ?thesis .
qed

lemma count_map:
  assumes "kv_read h M"
  shows "kvs_count h ty cmp =
    Inr (card {k. cmp k \<and> (\<exists>v. M k = Some v \<and> (ty = KVS_TYPE_ANY \<or> kval_type v = ty))})"
proof -
  obtain ns where ns: "kv_file h ns" "kvs_abs ns = M" using assms by (auto simp: kv_read_def)
  then have "wf_nodes ns" by (simp add: kv_file_def)
  from entries_count [OF this, of cmp ty] ns(2) show ?thesis
    by (simp add: kvs_count_def visit_match foreach_visit [OF ns(1)])
qed

end
