(* ===== verification/KvsHandles.thy ===== *)
theory KvsHandles
  imports KvsOps
begin

text \<open>
  The handle table and the files of the host store (kvs/host/kvs_posix.cc: kvs_callocHandle to
  kvs_close), and the operations of kvs/kvs_wrapper.h through a handle.

  A slot of the table has the flag, the file size field of 14 bits and what its descriptor is
  open on: the name, the offset and whether writing is allowed. Opening a missing file for
  reading fails, any other open succeeds.
\<close>

definition kvs_flag_READ :: nat where "kvs_flag_READ = 1"
definition kvs_flag_WRITE :: nat where "kvs_flag_WRITE = 2"

record kslot =
  ks_in_use :: bool
  ks_file_size :: nat
  ks_fd :: "(string \<times> nat \<times> bool) option"

record kworld =
  kw_files :: "string \<Rightarrow> u8 list option"
  kw_slots :: "kslot list"

definition kworld_init :: kworld where
  "kworld_init = \<lparr>kw_files = Map.empty,
     kw_slots = replicate HANDLE_COUNT \<lparr>ks_in_use = False, ks_file_size = 0, ks_fd = None\<rparr>\<rparr>"

section \<open>The table\<close>

definition calloc_step :: "nat \<Rightarrow> nat option \<times> kslot list \<Rightarrow> nat option \<times> kslot list" where
  "calloc_step i hs = (case hs of (h, sl) \<Rightarrow>
     if ks_in_use (sl ! i) then (h, sl)
     else (Some i, sl[i := (sl ! i)\<lparr>ks_in_use := True, ks_file_size := 0\<rparr>]))"

definition kvs_callocHandle :: "kworld \<Rightarrow> nat option \<times> kworld" where
  "kvs_callocHandle w = (case fold calloc_step [0..<HANDLE_COUNT] (None, kw_slots w) of
     (h, sl) \<Rightarrow> (h, w\<lparr>kw_slots := sl\<rparr>))"

definition kvs_freeHandle :: "nat \<Rightarrow> kworld \<Rightarrow> kworld" where
  "kvs_freeHandle h w = w\<lparr>kw_slots := (kw_slots w)[h := (kw_slots w ! h)\<lparr>ks_in_use := False\<rparr>]\<rparr>"

definition kvs_destroyHandle :: "nat option \<Rightarrow> kworld \<Rightarrow> kworld" where
  "kvs_destroyHandle ho w = (case ho of
     None \<Rightarrow> w
   | Some h \<Rightarrow> kvs_freeHandle h (w\<lparr>kw_slots := (kw_slots w)[h := (kw_slots w ! h)\<lparr>ks_fd := None\<rparr>]\<rparr>))"

definition kvs_open :: "string \<Rightarrow> nat \<Rightarrow> kworld \<Rightarrow> nat option \<times> kworld" where
  "kvs_open name flags w = (case kvs_callocHandle w of
     (None, w1) \<Rightarrow> (None, w1)
   | (Some h, w1) \<Rightarrow>
       (let ro = (flags = kvs_flag_READ) in
        if ro \<and> kw_files w1 name = None then (None, kvs_destroyHandle (Some h) w1)
        else (let d = (case kw_files w1 name of Some d \<Rightarrow> d | None \<Rightarrow> []);
                  sl = (kw_slots w1 ! h)\<lparr>ks_fd := Some (name, length d, \<not> ro),
                         ks_file_size := length d mod 2 ^ 14\<rparr>
              in (Some h, w1\<lparr>kw_files := (kw_files w1)(name \<mapsto> d), kw_slots := (kw_slots w1)[h := sl]\<rparr>))))"

definition kvs_commit :: "nat \<Rightarrow> kworld \<Rightarrow> bool \<times> kworld" where
  "kvs_commit h w = (True, w)"

definition kvs_close :: "nat \<Rightarrow> kworld \<Rightarrow> kworld" where
  "kvs_close h w = kvs_destroyHandle (Some h) w"

text \<open>An operation on the open file of a handle.\<close>

definition with_file :: "nat \<Rightarrow> (kfile \<Rightarrow> kvs_fail + 'r \<times> kfile) \<Rightarrow> kworld \<Rightarrow> kvs_fail + 'r \<times> kworld" where
  "with_file h f w = (case ks_fd (kw_slots w ! h) of
     None \<Rightarrow> map_sum id (\<lambda>(r, _). (r, w)) (f \<lparr>kf_data = [], kf_off = 0, kf_wr = False\<rparr>)
   | Some (name, off, wr) \<Rightarrow>
       (case f \<lparr>kf_data = (case kw_files w name of Some d \<Rightarrow> d | None \<Rightarrow> []), kf_off = off, kf_wr = wr\<rparr> of
          Inl e \<Rightarrow> Inl e
        | Inr (r, k) \<Rightarrow> Inr (r, w\<lparr>kw_files := (kw_files w)(name \<mapsto> kf_data k),
            kw_slots := (kw_slots w)[h := (kw_slots w ! h)\<lparr>ks_fd := Some (name, kf_off k, wr)\<rparr>]\<rparr>)))"

text \<open>kvs_foreach by name space: a session of its own, 0 when the file cannot be opened.\<close>

definition kvs_foreach_ns :: "string \<Rightarrow> u8 \<Rightarrow> string option
    \<Rightarrow> (string \<Rightarrow> u8 \<Rightarrow> 's \<Rightarrow> kvs_cbr \<times> 's) option \<Rightarrow> 's \<Rightarrow> kworld \<Rightarrow> kvs_fail + (nat \<times> 's) \<times> kworld" where
  "kvs_foreach_ns name ty key_match cb s w = (case kvs_open name kvs_flag_READ w of
     (None, w1) \<Rightarrow> Inr ((0, s), w1)
   | (Some h, w1) \<Rightarrow>
       (case with_file h (\<lambda>k. map_sum id (\<lambda>r. (r, k)) (kvs_foreach_prefix k ty key_match cb s)) w1 of
          Inl e \<Rightarrow> Inl e
        | Inr (r, w2) \<Rightarrow> Inr (r, kvs_close h w2)))"

section \<open>Idle and open\<close>

text \<open>
  \<open>C\<close> is the content of all name spaces. A world is idle when a slot is free; it is open on a
  handle when that slot is, and no other one is free.
\<close>

type_synonym kcontent = "string \<Rightarrow> string \<Rightarrow> kval option"

definition kw_holds :: "kworld \<Rightarrow> kcontent \<Rightarrow> bool" where
  "kw_holds w C \<longleftrightarrow> (\<forall>n. case kw_files w n of
     None \<Rightarrow> C n = Map.empty
   | Some d \<Rightarrow> kv_read \<lparr>kf_data = d, kf_off = 0, kf_wr = False\<rparr> (C n))"

definition kw_idle :: "kworld \<Rightarrow> kcontent \<Rightarrow> bool" where
  "kw_idle w C \<longleftrightarrow> length (kw_slots w) = HANDLE_COUNT \<and> (\<exists>s \<in> set (kw_slots w). \<not> ks_in_use s) \<and> kw_holds w C"

definition kw_opened :: "kworld \<Rightarrow> nat \<Rightarrow> string \<Rightarrow> bool \<Rightarrow> kcontent \<Rightarrow> bool" where
  "kw_opened w h n wr C \<longleftrightarrow> length (kw_slots w) = HANDLE_COUNT \<and> h < HANDLE_COUNT \<and>
     (\<forall>s \<in> set (kw_slots w). ks_in_use s) \<and>
     (\<exists>off. ks_fd (kw_slots w ! h) = Some (n, off, wr)) \<and> kw_files w n \<noteq> None \<and> kw_holds w C"

lemma kw_holds_file:
  assumes "kw_holds w C" "kw_files w n = Some d"
  shows "kv_read \<lparr>kf_data = d, kf_off = off, kf_wr = wr\<rparr> (C n)"
proof -
  have "kv_read \<lparr>kf_data = d, kf_off = 0, kf_wr = False\<rparr> (C n)"
    using assms(1) [unfolded kw_holds_def, THEN spec, of n] assms(2) by simp
  then show ?thesis by (simp add: kv_read_def kv_file_def)
qed

lemma kw_holds_none: "kw_holds w C \<Longrightarrow> kw_files w n = None \<Longrightarrow> C n = Map.empty"
  by (drule kw_holds_def [THEN iffD1, THEN spec, of _ _ n]) simp

lemma kw_holds_update:
  assumes "kw_holds w C" "kv_read \<lparr>kf_data = d, kf_off = 0, kf_wr = False\<rparr> M"
    "kw_files w' = (kw_files w)(n \<mapsto> d)"
  shows "kw_holds w' (C(n := M))"
  unfolding kw_holds_def
proof
  fix m show "case kw_files w' m of None \<Rightarrow> (C(n := M)) m = Map.empty
      | Some d \<Rightarrow> kv_read \<lparr>kf_data = d, kf_off = 0, kf_wr = False\<rparr> ((C(n := M)) m)"
    using assms by (cases "m = n") (auto split: option.split intro: kw_holds_file kw_holds_none)
qed

lemma kw_holds_same:
  assumes "kw_holds w C" "kw_files w n = Some d" "kw_files w' = (kw_files w)(n \<mapsto> d)"
  shows "kw_holds w' C"
  using kw_holds_update [OF assms(1) kw_holds_file [OF assms(1,2)] assms(3)] by simp

lemma kw_opened_upd:
  assumes "length (kw_slots w) = HANDLE_COUNT" "h < HANDLE_COUNT" "\<forall>s \<in> set (kw_slots w). ks_in_use s"
    and "kw_slots w' = (kw_slots w)[h := s]" "ks_in_use s" "ks_fd s = Some (n, off, wr)"
    and "kw_files w' n \<noteq> None" "kw_holds w' C"
  shows "kw_opened w' h n wr C"
proof -
  have "\<forall>s \<in> set (kw_slots w'). ks_in_use s"
    using assms(3,4,5) set_update_subset_insert [of "kw_slots w" h s] by auto
  with assms show ?thesis by (simp add: kw_opened_def)
qed

lemma opened_slots:
  assumes "kw_opened w h n wr C"
  shows "length (kw_slots w) = HANDLE_COUNT" "h < HANDLE_COUNT" "\<forall>s \<in> set (kw_slots w). ks_in_use s"
  using assms by (auto simp: kw_opened_def)

lemma opened_holds: "kw_opened w h n wr C \<Longrightarrow> kw_holds w C"
  by (simp add: kw_opened_def)

lemma kw_idle_init: "kw_idle kworld_init (\<lambda>_. Map.empty)"
  by (simp add: kw_idle_def kworld_init_def kw_holds_def HANDLE_COUNT_def)

lemma list4: "length xs = HANDLE_COUNT \<longleftrightarrow> (\<exists>a b c d. xs = [a, b, c, d])"
  by (auto simp: HANDLE_COUNT_def numeral_eq_Suc length_Suc_conv)

lemma calloc_idle:
  assumes "length (kw_slots w) = HANDLE_COUNT" "\<exists>s \<in> set (kw_slots w). \<not> ks_in_use s"
  shows "\<exists>h w'. kvs_callocHandle w = (Some h, w') \<and> h < HANDLE_COUNT \<and> kw_files w' = kw_files w \<and>
    length (kw_slots w') = HANDLE_COUNT \<and> (\<forall>s \<in> set (kw_slots w'). ks_in_use s)"
proof -
  obtain a b c d where "kw_slots w = [a, b, c, d]" using assms(1) by (auto simp: list4)
  with assms(2) show ?thesis
    by (cases "ks_in_use a"; cases "ks_in_use b"; cases "ks_in_use c"; cases "ks_in_use d")
      (simp_all add: kvs_callocHandle_def calloc_step_def HANDLE_COUNT_def upt_rec numeral_eq_Suc nth_append)
qed

lemma calloc_busy:
  assumes "length (kw_slots w) = HANDLE_COUNT" "\<forall>s \<in> set (kw_slots w). ks_in_use s"
  shows "kvs_callocHandle w = (None, w)"
proof -
  obtain a b c d where "kw_slots w = [a, b, c, d]" using assms(1) by (auto simp: list4)
  with assms(2) show ?thesis
    by (simp add: kvs_callocHandle_def calloc_step_def HANDLE_COUNT_def upt_rec numeral_eq_Suc)
qed

lemma destroy_idle:
  assumes "length (kw_slots w) = HANDLE_COUNT" "h < HANDLE_COUNT" "kw_holds w C"
  shows "kw_idle (kvs_destroyHandle (Some h) w) C"
proof -
  let ?w = "kvs_destroyHandle (Some h) w"
  have "kw_slots ?w ! h \<in> set (kw_slots ?w)" "\<not> ks_in_use (kw_slots ?w ! h)"
    using assms by (simp_all add: kvs_destroyHandle_def kvs_freeHandle_def set_update_memI)
  moreover have "kw_holds ?w C" "length (kw_slots ?w) = HANDLE_COUNT"
    using assms by (simp_all add: kvs_destroyHandle_def kvs_freeHandle_def kw_holds_def)
  ultimately show ?thesis unfolding kw_idle_def by blast
qed

lemma kw_open_write:
  assumes "kw_idle w C"
  shows "\<exists>h w'. kvs_open n kvs_flag_WRITE w = (Some h, w') \<and> kw_opened w' h n True C"
proof -
  from assms obtain h w1 where c: "kvs_callocHandle w = (Some h, w1)" "h < HANDLE_COUNT"
    "kw_files w1 = kw_files w" "length (kw_slots w1) = HANDLE_COUNT" "\<forall>s \<in> set (kw_slots w1). ks_in_use s"
    using calloc_idle [of w] unfolding kw_idle_def by metis
  have holds: "kw_holds w1 C" using assms c(3) by (simp add: kw_idle_def kw_holds_def)
  have use: "ks_in_use (kw_slots w1 ! h)" using c by simp
  show ?thesis
  proof (cases "kw_files w1 n")
    case None
    have "kv_read \<lparr>kf_data = [], kf_off = 0, kf_wr = False\<rparr> Map.empty"
      by (auto simp: kv_read_def kv_file_def wf_nodes_def intro!: exI [of _ "[]"])
    then have "kw_holds (w1\<lparr>kw_files := (kw_files w1)(n \<mapsto> []), kw_slots := sl\<rparr>) (C(n := Map.empty))" for sl
      by (intro kw_holds_update [OF holds]) simp_all
    then have "kw_holds (w1\<lparr>kw_files := (kw_files w1)(n \<mapsto> []), kw_slots := sl\<rparr>) C" for sl
      using kw_holds_none [OF holds None] by (simp add: fun_upd_idem)
    with None use c show ?thesis
      by (auto simp: kvs_open_def Let_def kvs_flag_READ_def kvs_flag_WRITE_def intro!: kw_opened_upd [of w1])
  next
    case (Some d)
    then have "kw_holds (w1\<lparr>kw_files := (kw_files w1)(n \<mapsto> d), kw_slots := sl\<rparr>) C" for sl
      by (intro kw_holds_same [OF holds]) simp_all
    with Some use c show ?thesis
      by (auto simp: kvs_open_def Let_def kvs_flag_READ_def kvs_flag_WRITE_def intro!: kw_opened_upd [of w1])
  qed
qed

lemma kw_open_read:
  assumes "kw_idle w C"
  shows "(\<exists>w'. kvs_open n kvs_flag_READ w = (None, w') \<and> kw_idle w' C \<and> C n = Map.empty) \<or>
    (\<exists>h w'. kvs_open n kvs_flag_READ w = (Some h, w') \<and> kw_opened w' h n False C)"
proof -
  from assms obtain h w1 where c: "kvs_callocHandle w = (Some h, w1)" "h < HANDLE_COUNT"
    "kw_files w1 = kw_files w" "length (kw_slots w1) = HANDLE_COUNT" "\<forall>s \<in> set (kw_slots w1). ks_in_use s"
    using calloc_idle [of w] unfolding kw_idle_def by metis
  have holds: "kw_holds w1 C" using assms c(3) by (simp add: kw_idle_def kw_holds_def)
  show ?thesis
  proof (cases "kw_files w1 n")
    case None
    then have "C n = Map.empty" using holds by (simp add: kw_holds_none)
    with None c destroy_idle [OF c(4,2) holds] show ?thesis by (simp add: kvs_open_def Let_def)
  next
    case (Some d)
    have "ks_in_use (kw_slots w1 ! h)" using c by simp
    moreover have "kw_holds (w1\<lparr>kw_files := (kw_files w1)(n \<mapsto> d), kw_slots := sl\<rparr>) C" for sl
      using Some by (intro kw_holds_same [OF holds]) simp_all
    ultimately show ?thesis
      using c Some by (auto simp: kvs_open_def Let_def intro!: kw_opened_upd [of w1])
  qed
qed

lemma kw_close:
  assumes "kw_opened w h n wr C"
  shows "kw_idle (kvs_close h w) C"
  using assms by (auto simp: kvs_close_def kw_opened_def intro: destroy_idle)

text \<open>What an operation does to a writable file, it does to the content through the handle.\<close>

lemma with_file_write:
  assumes "kw_opened w h n True C"
    and "\<And>k. kv_map k (C n) \<Longrightarrow> \<exists>k'. f k = Inr (r, k') \<and> kv_map k' M"
  shows "\<exists>w'. with_file h f w = Inr (r, w') \<and> kw_opened w' h n True (C(n := M))"
proof -
  from assms(1) obtain off d where fd: "ks_fd (kw_slots w ! h) = Some (n, off, True)" "kw_files w n = Some d"
    by (auto simp: kw_opened_def)
  let ?k = "\<lparr>kf_data = d, kf_off = off, kf_wr = True\<rparr>"
  have "kv_map ?k (C n)" using assms(1) fd by (auto simp: kv_map_read kw_opened_def intro: kw_holds_file)
  from assms(2) [OF this] obtain k where k: "f ?k = Inr (r, k)" "kv_map k M" by blast
  have "kv_read \<lparr>kf_data = kf_data k, kf_off = 0, kf_wr = False\<rparr> M"
    using k(2) by (simp add: kv_map_read kv_read_def kv_file_def)
  then have "kw_holds (w\<lparr>kw_files := (kw_files w)(n \<mapsto> kf_data k), kw_slots := sl\<rparr>) (C(n := M))" for sl
    by (intro kw_holds_update [OF opened_holds [OF assms(1)]]) simp_all
  moreover have "ks_in_use (kw_slots w ! h)" using assms(1) by (simp add: kw_opened_def)
  ultimately show ?thesis
    using k(1) fd assms(1) by (auto simp: with_file_def opened_slots intro!: kw_opened_upd [of w])
qed

lemma with_file_read:
  assumes "kw_opened w h n wr C"
    and "\<And>k. kv_read k (C n) \<Longrightarrow> \<exists>off. f k = Inr (r, k\<lparr>kf_off := off\<rparr>)"
  shows "\<exists>w'. with_file h f w = Inr (r, w') \<and> kw_opened w' h n wr C"
proof -
  from assms(1) obtain off d where fd: "ks_fd (kw_slots w ! h) = Some (n, off, wr)" "kw_files w n = Some d"
    by (auto simp: kw_opened_def)
  let ?k = "\<lparr>kf_data = d, kf_off = off, kf_wr = wr\<rparr>"
  have "kv_read ?k (C n)" using assms(1) fd by (auto simp: kw_opened_def intro: kw_holds_file)
  from assms(2) [OF this] obtain off' where k: "f ?k = Inr (r, ?k\<lparr>kf_off := off'\<rparr>)" by blast
  have "kw_holds (w\<lparr>kw_files := (kw_files w)(n \<mapsto> d), kw_slots := sl\<rparr>) C" for sl
    by (rule kw_holds_same [OF opened_holds [OF assms(1)] fd(2)]) simp
  moreover have "ks_in_use (kw_slots w ! h)" using assms(1) by (simp add: kw_opened_def)
  ultimately show ?thesis
    using k(1) fd assms(1) by (auto simp: with_file_def opened_slots intro!: kw_opened_upd [of w])
qed

end
