(* ===== verification/KvsContract.thy ===== *)
theory KvsContract
  imports KvsHandles
begin

text \<open>
  The interface of the key-value store (kvs/kvs_wrapper.h) as a record of its operations, the
  contract its clients rely on, and the host store as a provider of it.

  A client sees an abstract world; \<open>idle w C\<close> and \<open>opened w h n wr C\<close> relate it to the
  content of all name spaces, without and with a session open on name space \<open>n\<close>. A provider takes the names of name spaces it can
  open, the keys and the length of values it can store: the host store every name, every key that fits, and 65535 bytes.
\<close>

record ('w, 'h) kvs_ops =
  op_open :: "string \<Rightarrow> nat \<Rightarrow> 'w \<Rightarrow> 'h option \<times> 'w"
  op_commit :: "'h \<Rightarrow> 'w \<Rightarrow> bool \<times> 'w"
  op_close :: "'h \<Rightarrow> 'w \<Rightarrow> 'w"
  op_erase_key :: "'h \<Rightarrow> string \<Rightarrow> 'w \<Rightarrow> kvs_fail + bool \<times> 'w"
  op_set_str :: "'h \<Rightarrow> string \<Rightarrow> string \<Rightarrow> 'w \<Rightarrow> kvs_fail + bool \<times> 'w"
  op_get_str :: "'h \<Rightarrow> string \<Rightarrow> char list \<Rightarrow> 'w \<Rightarrow> kvs_fail + (bool \<times> char list) \<times> 'w"
  op_set_blob :: "'h \<Rightarrow> string \<Rightarrow> u8 list \<Rightarrow> 'w \<Rightarrow> kvs_fail + bool \<times> 'w"
  op_get_blob :: "'h \<Rightarrow> string \<Rightarrow> u8 list \<Rightarrow> 'w \<Rightarrow> kvs_fail + (bool \<times> u8 list) \<times> 'w"
  op_set_i8 :: "'h \<Rightarrow> string \<Rightarrow> u8 \<Rightarrow> 'w \<Rightarrow> kvs_fail + bool \<times> 'w"
  op_get_i8 :: "'h \<Rightarrow> string \<Rightarrow> u8 \<Rightarrow> 'w \<Rightarrow> kvs_fail + (u8 \<times> bool) \<times> 'w"
  op_set_u32 :: "'h \<Rightarrow> string \<Rightarrow> u32 \<Rightarrow> 'w \<Rightarrow> kvs_fail + bool \<times> 'w"
  op_get_u32 :: "'h \<Rightarrow> string \<Rightarrow> u32 \<Rightarrow> 'w \<Rightarrow> kvs_fail + (u32 \<times> bool) \<times> 'w"

definition host_kvs :: "(kworld, nat) kvs_ops" where
  "host_kvs = \<lparr>
     op_open = kvs_open, op_commit = kvs_commit, op_close = kvs_close,
     op_erase_key = \<lambda>h key. with_file h (\<lambda>f. kvs_erase_key f key),
     op_set_str = \<lambda>h key s. with_file h (\<lambda>f. kvs_set_str f key s),
     op_get_str = \<lambda>h key d. with_file h (\<lambda>f. kvs_get_str f key d),
     op_set_blob = \<lambda>h key b. with_file h (\<lambda>f. kvs_set_blob f key b),
     op_get_blob = \<lambda>h key d. with_file h (\<lambda>f. kvs_get_blob f key d),
     op_set_i8 = \<lambda>h key v. with_file h (\<lambda>f. kvs_set_i8 f key v),
     op_get_i8 = \<lambda>h key v. with_file h (\<lambda>f. kvs_get_i8 f key v),
     op_set_u32 = \<lambda>h key v. with_file h (\<lambda>f. kvs_set_u32 f key v),
     op_get_u32 = \<lambda>h key v. with_file h (\<lambda>f. kvs_get_u32 f key v)\<rparr>"

text \<open>What a value of the map means to the typed readers.\<close>

definition int_of :: "kval option \<Rightarrow> u8 \<Rightarrow> u64 option" where
  "int_of v ty = (case v of Some (KInt t x) \<Rightarrow> if t = ty then Some x else None | _ \<Rightarrow> None)"

lemma int_of_simps [simp]:
  "int_of None ty = None" "int_of (Some (KInt ty x)) ty = Some x" "int_of (Some (KBytes t b)) ty = None"
  by (simp_all add: int_of_def)

lemma bytes_of_simps [simp]:
  "bytes_of None ty = None" "bytes_of (Some (KBytes ty b)) ty = Some b" "bytes_of (Some (KInt t x)) ty = None"
  by (simp_all add: bytes_of_def)

definition kstr :: "string \<Rightarrow> kval" where
  "kstr s = KBytes KVS_TYPE_STR (map byte_of_char s)"

definition kblob :: "u8 list \<Rightarrow> kval" where
  "kblob b = KBytes KVS_TYPE_BLOB b"

section \<open>The contract\<close>

locale kvs_contract =
  fixes ops :: "('w, 'h) kvs_ops"
    and idle :: "'w \<Rightarrow> kcontent \<Rightarrow> bool"
    and opened :: "'w \<Rightarrow> 'h \<Rightarrow> string \<Rightarrow> bool \<Rightarrow> kcontent \<Rightarrow> bool"
    and names :: "string \<Rightarrow> bool"
    and keys :: "string \<Rightarrow> bool"
    and cap :: nat
  assumes keys: "key_ok k \<Longrightarrow> k \<noteq> [] \<Longrightarrow> keys k"
    and open_write: "idle w C \<Longrightarrow> names n \<Longrightarrow> \<exists>h w'. op_open ops n kvs_flag_WRITE w = (Some h, w') \<and> opened w' h n True C"
    and open_read: "idle w C \<Longrightarrow> names n \<Longrightarrow>
      (\<exists>w'. op_open ops n kvs_flag_READ w = (None, w') \<and> idle w' C \<and> C n = Map.empty) \<or>
      (\<exists>h w'. op_open ops n kvs_flag_READ w = (Some h, w') \<and> opened w' h n False C)"
    and commit: "opened w h n wr C \<Longrightarrow> \<exists>w'. op_commit ops h w = (True, w') \<and> opened w' h n wr C"
    and close: "opened w h n wr C \<Longrightarrow> idle (op_close ops h w) C"
    and erase: "opened w h n True C \<Longrightarrow> keys k \<Longrightarrow>
      \<exists>w'. op_erase_key ops h k w = Inr (C n k \<noteq> None, w') \<and> opened w' h n True (C(n := (C n)(k := None)))"
    and set_i8: "opened w h n True C \<Longrightarrow> keys k \<Longrightarrow>
      \<exists>w'. op_set_i8 ops h k v8 w = Inr (True, w') \<and>
        opened w' h n True (C(n := (C n)(k \<mapsto> KInt KVS_TYPE_i8 (ucast v8))))"
    and set_u32: "opened w h n True C \<Longrightarrow> keys k \<Longrightarrow>
      \<exists>w'. op_set_u32 ops h k v32 w = Inr (True, w') \<and>
        opened w' h n True (C(n := (C n)(k \<mapsto> KInt KVS_TYPE_u32 (ucast v32))))"
    and get_i8: "opened w h n wr C \<Longrightarrow> keys k \<Longrightarrow>
      \<exists>w' ok. op_get_i8 ops h k v8 w = Inr ((case int_of (C n k) KVS_TYPE_i8 of
        Some x \<Rightarrow> ucast x | None \<Rightarrow> v8, ok), w') \<and> opened w' h n wr C"
    and get_u32: "opened w h n wr C \<Longrightarrow> keys k \<Longrightarrow>
      \<exists>w' ok. op_get_u32 ops h k v32 w = Inr ((case int_of (C n k) KVS_TYPE_u32 of
        Some x \<Rightarrow> ucast x | None \<Rightarrow> v32, ok), w') \<and> opened w' h n wr C"
    and set_str: "opened w h n True C \<Longrightarrow> keys k \<Longrightarrow> no_nul s \<Longrightarrow> length s < cap \<Longrightarrow>
      \<exists>w'. op_set_str ops h k s w = Inr (True, w') \<and> opened w' h n True (C(n := (C n)(k \<mapsto> kstr s)))"
    and get_str: "opened w h n wr C \<Longrightarrow> keys k \<Longrightarrow> C n k = Some (kstr s) \<Longrightarrow> no_nul s \<Longrightarrow> s \<noteq> [] \<Longrightarrow>
      length s < length d \<Longrightarrow>
      \<exists>w'. op_get_str ops h k d w = Inr ((True, s @ NUL # drop (Suc (length s)) d), w') \<and> opened w' h n wr C"
    and get_str_none: "opened w h n wr C \<Longrightarrow> keys k \<Longrightarrow> bytes_of (C n k) KVS_TYPE_STR = None \<Longrightarrow>
      \<exists>w'. op_get_str ops h k d w = Inr ((False, d), w') \<and> opened w' h n wr C"
    and set_blob: "opened w h n True C \<Longrightarrow> keys k \<Longrightarrow> b \<noteq> [] \<Longrightarrow> length b < cap \<Longrightarrow>
      \<exists>w'. op_set_blob ops h k b w = Inr (True, w') \<and> opened w' h n True (C(n := (C n)(k \<mapsto> kblob b)))"
    and get_blob: "opened w h n wr C \<Longrightarrow> keys k \<Longrightarrow> C n k = Some (kblob b) \<Longrightarrow> length b = length db \<Longrightarrow>
      \<exists>w'. op_get_blob ops h k db w = Inr ((True, b), w') \<and> opened w' h n wr C"
    and get_blob_any: "opened w h n wr C \<Longrightarrow> keys k \<Longrightarrow> db \<noteq> [] \<Longrightarrow>
      \<exists>r db' w'. op_get_blob ops h k db w = Inr ((r, db'), w') \<and> opened w' h n wr C \<and> length db' = length db \<and>
        (r \<longrightarrow> C n k = Some (kblob db'))"

section \<open>The host store keeps the contract\<close>

lemma read_str_map:
  assumes "kv_read h M" "key_ok key"
  shows "\<exists>off. kvs_get_str h key dst = Inr ((case bytes_of (M key) KVS_TYPE_STR of
      None \<Rightarrow> (False, dst)
    | Some bs \<Rightarrow> if length dst < length bs then (False, dst[length dst - 1 := NUL])
        else (bs \<noteq> [] \<and> length bs < length dst,
          if bs = [] then dst else (map char_of_byte bs @ drop (length bs) dst)[min (length bs) (length dst - 1) := NUL])),
    h\<lparr>kf_off := off\<rparr>)"
proof -
  from read_bytes_map [OF assms, of KVS_TYPE_STR "length dst"] obtain off where
    r: "kvs_read_str_or_blob h key (length dst) KVS_TYPE_STR =
      Inr ((case bytes_of (M key) KVS_TYPE_STR of
            Some bs \<Rightarrow> (length bs, if length dst < length bs then None else Some bs)
          | None \<Rightarrow> (0, None)), h\<lparr>kf_off := off\<rparr>)" by auto
  show ?thesis
    by (cases "bytes_of (M key) KVS_TYPE_STR") (auto simp: kvs_get_str_def kvs_read_str_def r Let_def)
qed

lemma get_str_stored:
  assumes "kv_read h M" "key_ok key" "M key = Some (kstr s)" "no_nul s" "s \<noteq> []" "length s < length dst"
  shows "\<exists>off. kvs_get_str h key dst = Inr ((True, s @ NUL # drop (Suc (length s)) dst), h\<lparr>kf_off := off\<rparr>)"
proof -
  obtain x xs where d: "drop (length s) dst = x # xs" "xs = drop (Suc (length s)) dst"
    using assms(6) by (metis Cons_nth_drop_Suc)
  from read_str_map [OF assms(1,2), of dst] assms d(1) show ?thesis
    by (auto simp: kstr_def min_def d(2) list_update_append)
qed

lemma host_set_int:
  assumes "kw_opened w h n True C" "key_ok k" "storable ty"
  shows "\<exists>w'. with_file h (\<lambda>f. kvs_set_dt ty f k v) w = Inr (True, w') \<and>
    kw_opened w' h n True (C(n := (C n)(k \<mapsto> KInt ty v)))"
  using set_dt_map [OF _ assms(2,3)] by (intro with_file_write assms(1)) blast

lemma host_set_bytes:
  assumes "kw_opened w h n True C" "key_ok k" "bytes_type ty" "length b < 65536"
  shows "\<exists>w'. with_file h (\<lambda>f. kvs_write_str_or_blob f k b ty) w = Inr (word_of_nat (length b), w') \<and>
    kw_opened w' h n True (C(n := (C n)(k \<mapsto> KBytes ty b)))"
  using write_bytes_map [OF _ assms(2,3,4)] by (intro with_file_write assms(1)) blast

lemma set_str_map:
  assumes "kv_map h M" "key_ok key" "length s < 65536"
  shows "\<exists>h'. kvs_set_str h key s = Inr (True, h') \<and> kv_map h' (M(key \<mapsto> kstr s))"
  using write_bytes_map [OF assms(1,2), of KVS_TYPE_STR "map byte_of_char s"] assms(3)
  by (auto simp: kvs_set_str_def kvs_write_str_def kstr_def)

lemma u32_nonzero: "0 < n \<Longrightarrow> n < 65536 \<Longrightarrow> (word_of_nat n :: u32) \<noteq> 0"
proof
  assume n: "0 < n" "n < 65536" "(word_of_nat n :: u32) = 0"
  then have "unat (word_of_nat n :: u32) = 0" by simp
  moreover have "unat (word_of_nat n :: u32) = n" using n(2) by (simp add: unat_of_nat)
  ultimately show False using n(1) by simp
qed

lemma set_blob_map:
  assumes "kv_map h M" "key_ok key" "b \<noteq> []" "length b < 65536"
  shows "\<exists>h'. kvs_set_blob h key b = Inr (True, h') \<and> kv_map h' (M(key \<mapsto> kblob b))"
  using write_bytes_map [OF assms(1,2), of KVS_TYPE_BLOB b] assms(3,4) u32_nonzero [of "length b"]
  by (auto simp: kvs_set_blob_def kvs_write_blob_def kblob_def)

lemma get_blob_map:
  assumes "kv_read h M" "key_ok key" "M key = Some (kblob b)" "length b = length dst"
  shows "\<exists>off. kvs_get_blob h key dst = Inr ((True, b), h\<lparr>kf_off := off\<rparr>)"
  using read_bytes_map [OF assms(1,2), of KVS_TYPE_BLOB "length dst"] assms(3,4)
  by (auto simp: kvs_get_blob_def kvs_read_blob_def kblob_def)

definition blob_read :: "kval option \<Rightarrow> u8 list \<Rightarrow> bool \<times> u8 list" where
  "blob_read v dst = (case bytes_of v KVS_TYPE_BLOB of
     None \<Rightarrow> (False, dst)
   | Some b \<Rightarrow> if length dst < length b then (False, dst) else (length b = length dst, b @ drop (length b) dst))"

lemma blob_read_result:
  "length (snd (blob_read v dst)) = length dst \<and> (fst (blob_read v dst) \<longrightarrow> v = Some (kblob (snd (blob_read v dst))))"
proof -
  have "bytes_of v KVS_TYPE_BLOB = Some b \<Longrightarrow> v = Some (kblob b)" for b
    by (auto simp: bytes_of_def kblob_def split: option.splits kval.splits if_splits)
  then show ?thesis by (cases "bytes_of v KVS_TYPE_BLOB") (auto simp: blob_read_def)
qed

lemma get_blob_any_map:
  assumes "kv_read h M" "key_ok key" "dst \<noteq> []"
  shows "\<exists>off. kvs_get_blob h key dst = Inr (blob_read (M key) dst, h\<lparr>kf_off := off\<rparr>)"
  using read_bytes_map [OF assms(1,2), of KVS_TYPE_BLOB "length dst"] assms(3)
  by (cases "bytes_of (M key) KVS_TYPE_BLOB") (auto simp: kvs_get_blob_def kvs_read_blob_def blob_read_def)

lemma get_int_map:
  assumes "kv_read h M" "key_ok key" "int_type ty"
  shows "\<exists>off. kvs_get_dt ty h key def = Inr ((case int_of (M key) ty of Some x \<Rightarrow> x | None \<Rightarrow> def,
      int_of (M key) ty \<noteq> None), h\<lparr>kf_off := off\<rparr>)"
  using get_dt_map [OF assms, of "def"] by (auto simp: int_of_def split: option.splits kval.splits if_splits)

lemma ucast_ucast_up:
  "(ucast (ucast (v :: u8) :: u64) :: u8) = v" "(ucast (ucast (v' :: u32) :: u64) :: u32) = v'"
  by (rule bit_word_eqI, simp add: bit_ucast_iff)+

lemma get_i8_map:
  assumes "kv_read h M" "key_ok key"
  shows "\<exists>off. kvs_get_i8 h key v = Inr ((case int_of (M key) KVS_TYPE_i8 of Some x \<Rightarrow> ucast x | None \<Rightarrow> v,
      int_of (M key) KVS_TYPE_i8 \<noteq> None), h\<lparr>kf_off := off\<rparr>)"
proof -
  have "int_type KVS_TYPE_i8" by simp
  from get_int_map [OF assms this, of "ucast v"] show ?thesis
    by (auto simp: kvs_get_i8_def kvs_get_8_def ucast_ucast_up split: option.splits)
qed

lemma get_u32_map:
  assumes "kv_read h M" "key_ok key"
  shows "\<exists>off. kvs_get_u32 h key v = Inr ((case int_of (M key) KVS_TYPE_u32 of Some x \<Rightarrow> ucast x | None \<Rightarrow> v,
      int_of (M key) KVS_TYPE_u32 \<noteq> None), h\<lparr>kf_off := off\<rparr>)"
proof -
  have "int_type KVS_TYPE_u32" by simp
  from get_int_map [OF assms this, of "ucast v"] show ?thesis
    by (auto simp: kvs_get_u32_def kvs_get_32_def ucast_ucast_up split: option.splits)
qed


interpretation host: kvs_contract host_kvs kw_idle kw_opened "\<lambda>_. True" key_ok 65536
proof (unfold_locales, goal_cases)
  case (1 k)
  then show ?case by simp
next
  case (2 w C n)
  then show ?case by (simp add: host_kvs_def kw_open_write)
next
  case (3 w C n)
  then show ?case using kw_open_read [of w C n] by (simp add: host_kvs_def)
next
  case (4 w h n wr C)
  then show ?case by (simp add: host_kvs_def kvs_commit_def)
next
  case (5 w h n wr C)
  then show ?case by (simp add: host_kvs_def kw_close)
next
  case (6 w h n C k)
  show ?case unfolding host_kvs_def kvs_ops.simps
    using erase_map [OF _ 6(2)] by (intro with_file_write [OF 6(1)]) blast
next
  case (7 w h n C k v8)
  then show ?case using host_set_int [of w h n C k KVS_TYPE_i8 "ucast v8"]
    by (simp add: host_kvs_def kvs_set_i8_def kvs_set_8_def)
next
  case (8 w h n C k v32)
  then show ?case using host_set_int [of w h n C k KVS_TYPE_u32 "ucast v32"]
    by (simp add: host_kvs_def kvs_set_u32_def kvs_set_32_def)
next
  case (9 w h n wr C k v8)
  have "\<exists>w'. with_file h (\<lambda>f. kvs_get_i8 f k v8) w = Inr ((case int_of (C n k) KVS_TYPE_i8 of
      Some x \<Rightarrow> ucast x | None \<Rightarrow> v8, int_of (C n k) KVS_TYPE_i8 \<noteq> None), w') \<and> kw_opened w' h n wr C"
    using get_i8_map [OF _ 9(2)] by (intro with_file_read [OF 9(1)]) blast
  then show ?case unfolding host_kvs_def kvs_ops.simps by blast
next
  case (10 w h n wr C k v32)
  have "\<exists>w'. with_file h (\<lambda>f. kvs_get_u32 f k v32) w = Inr ((case int_of (C n k) KVS_TYPE_u32 of
      Some x \<Rightarrow> ucast x | None \<Rightarrow> v32, int_of (C n k) KVS_TYPE_u32 \<noteq> None), w') \<and> kw_opened w' h n wr C"
    using get_u32_map [OF _ 10(2)] by (intro with_file_read [OF 10(1)]) blast
  then show ?case unfolding host_kvs_def kvs_ops.simps by blast
next
  case (11 w h n C k s)
  show ?case unfolding host_kvs_def kvs_ops.simps
    using set_str_map [OF _ 11(2,4)] by (intro with_file_write [OF 11(1)]) blast
next
  case (12 w h n wr C k s d)
  let ?d = "s @ NUL # drop (Suc (length s)) d"
  have "\<exists>w'. with_file h (\<lambda>f. kvs_get_str f k d) w = Inr ((True, ?d), w') \<and> kw_opened w' h n wr C"
    using get_str_stored [where M = "C n", OF _ 12(2,3,4,5,6)] by (intro with_file_read [OF 12(1)]) blast
  then show ?case unfolding host_kvs_def kvs_ops.simps by blast
next
  case (13 w h n wr C k d)
  have "\<exists>w'. with_file h (\<lambda>f. kvs_get_str f k d) w = Inr ((False, d), w') \<and> kw_opened w' h n wr C"
    using read_str_map [OF _ 13(2), of _ "C n" d] 13(3) by (intro with_file_read [OF 13(1)]) auto
  then show ?case unfolding host_kvs_def kvs_ops.simps by blast
next
  case (14 w h n C k b)
  show ?case unfolding host_kvs_def kvs_ops.simps
    using set_blob_map [OF _ 14(2,3,4)] by (intro with_file_write [OF 14(1)]) blast
next
  case (15 w h n wr C k b db)
  show ?case unfolding host_kvs_def kvs_ops.simps
    using get_blob_map [where M = "C n", OF _ 15(2,3,4)] by (intro with_file_read [OF 15(1)]) blast
next
  case (16 w h n wr C k db)
  have "\<exists>w'. with_file h (\<lambda>f. kvs_get_blob f k db) w = Inr (blob_read (C n k) db, w') \<and> kw_opened w' h n wr C"
    using get_blob_any_map [where M = "C n", OF _ 16(2,3)] by (intro with_file_read [OF 16(1)]) blast
  then show ?case unfolding host_kvs_def kvs_ops.simps using blob_read_result [of "C n k" db] by (metis prod.collapse)
qed

end
