(* ===== verification/CStd.thy ===== *)
theory CStd
  imports Prelude
begin

text \<open>
  The conversions of the C library that the program calls: atoi, strtoul, and the decimal and
  hexadecimal printing of unsigned numbers.
\<close>

definition is_space :: "char \<Rightarrow> bool" where
  "is_space c \<longleftrightarrow> c \<in> {CHR '' '', CHR 0x09, CHR 0x0A, CHR 0x0B, CHR 0x0C, CHR 0x0D}"

definition digit_val :: "char \<Rightarrow> nat option" where
  "digit_val c = (let n = of_char c :: nat in
     if 48 \<le> n \<and> n \<le> 57 then Some (n - 48)
     else if 97 \<le> n \<and> n \<le> 122 then Some (n - 87)
     else if 65 \<le> n \<and> n \<le> 90 then Some (n - 55) else None)"

definition is_digit :: "char \<Rightarrow> bool" where
  "is_digit c \<longleftrightarrow> (let n = of_char c :: nat in 48 \<le> n \<and> n \<le> 57)"

fun digits_val :: "nat \<Rightarrow> nat \<Rightarrow> string \<Rightarrow> nat" where
  "digits_val base acc [] = acc"
| "digits_val base acc (c # cs) = (case digit_val c of
     Some d \<Rightarrow> if d < base then digits_val base (acc * base + d) cs else acc
   | None \<Rightarrow> acc)"

definition split_sign :: "string \<Rightarrow> bool \<times> string" where
  "split_sign s = (case dropWhile is_space s of
     c # cs \<Rightarrow> if c = CHR ''-'' then (True, cs) else if c = CHR ''+'' then (False, cs) else (False, c # cs)
   | [] \<Rightarrow> (False, []))"

text \<open>The value is the mathematical one; callers truncate it to their type.\<close>

definition atoi :: "string \<Rightarrow> int" where
  "atoi s = (case split_sign s of (neg, r) \<Rightarrow>
     let v = int (digits_val 10 0 r) in if neg then - v else v)"

definition has_hex_prefix :: "string \<Rightarrow> bool" where
  "has_hex_prefix r = (case r of a # b # c # _ \<Rightarrow>
      a = CHR ''0'' \<and> (b = CHR ''x'' \<or> b = CHR ''X'') \<and> (case digit_val c of Some d \<Rightarrow> d < 16 | None \<Rightarrow> False)
    | _ \<Rightarrow> False)"

text \<open>strtoul for an unsigned long of 64 bits: saturated, then negated modulo 2^64.\<close>

definition strtoul :: "string \<Rightarrow> nat \<Rightarrow> u64" where
  "strtoul s base = (case split_sign s of (neg, r) \<Rightarrow>
     let b = (if base = 0 then (if has_hex_prefix r then 16 else if r \<noteq> [] \<and> hd r = CHR ''0'' then 8 else 10) else base);
         r' = (if b = 16 \<and> has_hex_prefix r then drop 2 r else r);
         v = digits_val b 0 r'
     in if v \<ge> 2 ^ 64 then - 1 else if neg then - (word_of_nat v) else word_of_nat v)"

section \<open>Printing\<close>

definition digit_char :: "nat \<Rightarrow> char" where
  "digit_char d = (if d < 10 then char_of (48 + d) else char_of (87 + d))"

fun print_nat :: "nat \<Rightarrow> string" where
  "print_nat n = (if n < 10 then [digit_char n] else print_nat (n div 10) @ [digit_char (n mod 10)])"

declare print_nat.simps [simp del]

fun print_hex :: "nat \<Rightarrow> string" where
  "print_hex n = (if n < 16 then [digit_char n] else print_hex (n div 16) @ [digit_char (n mod 16)])"

declare print_hex.simps [simp del]

definition print_int :: "int \<Rightarrow> string" where
  "print_int i = (if i < 0 then CHR ''-'' # print_nat (nat (- i)) else print_nat (nat i))"

lemma digit_val_char [simp]: "d < 16 \<Longrightarrow> digit_val (digit_char d) = Some d"
  by (auto simp: digit_val_def digit_char_def Let_def)

lemma digit_chars:
  "digit_char 0 = CHR ''0''" "digit_char 1 = CHR ''1''" "digit_char 2 = CHR ''2''" "digit_char 3 = CHR ''3''" "digit_char 4 = CHR ''4''"
  "digit_char 5 = CHR ''5''" "digit_char 6 = CHR ''6''" "digit_char 7 = CHR ''7''" "digit_char 8 = CHR ''8''" "digit_char 9 = CHR ''9''"
  by code_simp+

lemma digit_char_digit: "d < 10 \<Longrightarrow> is_digit (digit_char d)"
  by (simp add: is_digit_def digit_char_def Let_def)

lemma digit_not: "is_digit c \<Longrightarrow> c \<noteq> NUL \<and> \<not> is_space c \<and> c \<noteq> CHR ''-'' \<and> c \<noteq> CHR ''+''"
  by (auto simp: is_digit_def is_space_def Let_def)

lemma digit_val_digit: "is_digit c \<Longrightarrow> \<exists>d<10. digit_val c = Some d"
  by (auto simp: is_digit_def digit_val_def Let_def)

lemma print_nat_digits: "list_all is_digit (print_nat n)"
  by (induction n rule: print_nat.induct) (subst print_nat.simps, auto simp: digit_char_digit)

lemma print_nat_nonempty [simp]: "print_nat n \<noteq> []"
  by (subst print_nat.simps) auto

lemma digits_val_append:
  "list_all is_digit s \<Longrightarrow> digits_val 10 acc (s @ t) = digits_val 10 (digits_val 10 acc s) t"
proof (induction s arbitrary: acc)
  case (Cons c s)
  then obtain d where "digit_val c = Some d" "d < 10" using digit_val_digit by auto
  with Cons show ?case by simp
qed simp

lemma digits_print_nat: "digits_val 10 0 (print_nat n) = n"
proof (induction n rule: print_nat.induct)
  case (1 n)
  show ?case
  proof (cases "n < 10")
    case True
    then show ?thesis by (subst print_nat.simps) simp
  next
    case False
    then have "digits_val 10 0 (print_nat n) = digits_val 10 (n div 10) [digit_char (n mod 10)]"
      using 1 digits_val_append [OF print_nat_digits] by (subst print_nat.simps) simp
    also have "\<dots> = n" by simp
    finally show ?thesis .
  qed
qed

lemma atoi_print_nat: "atoi (print_nat n) = int n"
proof -
  obtain c cs where c: "print_nat n = c # cs" by (cases "print_nat n") auto
  with print_nat_digits [of n] have "is_digit c" by simp
  then have "split_sign (print_nat n) = (False, print_nat n)"
    using c digit_not [of c] by (simp add: split_sign_def)
  then show ?thesis by (simp add: atoi_def digits_print_nat)
qed

end
