(* ===== verification/ConfigKvs.thy ===== *)
theory ConfigKvs
  imports KvsContract CStd
begin

text \<open>
  Reading and saving configuration items (config_kvs/config_kvs.cc) over any provider of the
  key-value store. Each call is a session of its own on the name space of the application,
  \<open>CONFIG_APP_CFG_NAMESPACE\<close>, the parameter \<open>ns\<close>. A float is its four bytes; the
  conversion of a text to a float is the parameter \<open>stof\<close>.
\<close>

definition config_read_item_s ::
  "('w, 'h) kvs_ops \<Rightarrow> string \<Rightarrow> string \<Rightarrow> char list \<Rightarrow> string option \<Rightarrow> 'w \<Rightarrow> kvs_fail + string option \<times> 'w" where
  "config_read_item_s ops ns key d def w =
     (case op_open ops ns kvs_flag_READ w of
        (None, w1) \<Rightarrow> Inr (def, w1)
      | (Some h, w1) \<Rightarrow>
          (case op_get_str ops h key d w1 of
             Inl e \<Rightarrow> Inl e
           | Inr ((ok, d'), w2) \<Rightarrow> Inr (if ok then Some (c_str d') else def, op_close ops h w2)))"

definition config_read_item_b ::
  "('w, 'h) kvs_ops \<Rightarrow> string \<Rightarrow> string \<Rightarrow> u8 list \<Rightarrow> u8 list option \<Rightarrow> 'w \<Rightarrow> kvs_fail + u8 list option \<times> 'w" where
  "config_read_item_b ops ns key d def w =
     (case op_open ops ns kvs_flag_READ w of
        (None, w1) \<Rightarrow> Inr (def, w1)
      | (Some h, w1) \<Rightarrow>
          (case op_get_blob ops h key d w1 of
             Inl e \<Rightarrow> Inl e
           | Inr ((ok, d'), w2) \<Rightarrow> Inr (if ok then Some d' else def, op_close ops h w2)))"

definition config_read_item_u32 ::
  "('w, 'h) kvs_ops \<Rightarrow> string \<Rightarrow> string \<Rightarrow> u32 \<Rightarrow> 'w \<Rightarrow> kvs_fail + u32 \<times> 'w" where
  "config_read_item_u32 ops ns key def w =
     (case op_open ops ns kvs_flag_READ w of
        (None, w1) \<Rightarrow> Inr (def, w1)
      | (Some h, w1) \<Rightarrow>
          (case op_get_u32 ops h key def w1 of
             Inl e \<Rightarrow> Inl e
           | Inr ((v, ok), w2) \<Rightarrow> Inr (v, op_close ops h w2)))"

definition config_read_item_i8 ::
  "('w, 'h) kvs_ops \<Rightarrow> string \<Rightarrow> string \<Rightarrow> u8 \<Rightarrow> 'w \<Rightarrow> kvs_fail + u8 \<times> 'w" where
  "config_read_item_i8 ops ns key def w =
     (case op_open ops ns kvs_flag_READ w of
        (None, w1) \<Rightarrow> Inr (def, w1)
      | (Some h, w1) \<Rightarrow>
          (case op_get_i8 ops h key def w1 of
             Inl e \<Rightarrow> Inl e
           | Inr ((v, ok), w2) \<Rightarrow> Inr (v, op_close ops h w2)))"

text \<open>kvs_get_object reads into the default itself.\<close>

definition config_read_item_f ::
  "('w, 'h) kvs_ops \<Rightarrow> string \<Rightarrow> string \<Rightarrow> u8 list \<Rightarrow> 'w \<Rightarrow> kvs_fail + u8 list \<times> 'w" where
  "config_read_item_f ops ns key def w =
     (case op_open ops ns kvs_flag_READ w of
        (None, w1) \<Rightarrow> Inr (def, w1)
      | (Some h, w1) \<Rightarrow>
          (case op_get_blob ops h key def w1 of
             Inl e \<Rightarrow> Inl e
           | Inr ((ok, d'), w2) \<Rightarrow> Inr (d', op_close ops h w2)))"

text \<open>The common shape of the savers: a session, a setter, a commit.\<close>

definition save_session ::
  "('w, 'h) kvs_ops \<Rightarrow> string \<Rightarrow> ('h \<Rightarrow> 'w \<Rightarrow> kvs_fail + bool \<times> 'w) \<Rightarrow> bool \<Rightarrow> 'w \<Rightarrow> kvs_fail + bool \<times> 'w" where
  "save_session ops ns f closed w =
     (case op_open ops ns kvs_flag_WRITE w of
        (None, w1) \<Rightarrow> Inr (closed, w1)
      | (Some h, w1) \<Rightarrow>
          (case f h w1 of
             Inl e \<Rightarrow> Inl e
           | Inr (r, w2) \<Rightarrow> (case op_commit ops h w2 of (_, w3) \<Rightarrow> Inr (r, op_close ops h w3))))"

definition config_save_item_s ::
  "('w, 'h) kvs_ops \<Rightarrow> string \<Rightarrow> string \<Rightarrow> string \<Rightarrow> 'w \<Rightarrow> kvs_fail + bool \<times> 'w" where
  "config_save_item_s ops ns key val = save_session ops ns (\<lambda>h. op_set_str ops h key val) False"

text \<open>The comparison is of the size with the boolean result of kvs_set_blob.\<close>

definition config_save_item_b ::
  "('w, 'h) kvs_ops \<Rightarrow> string \<Rightarrow> string \<Rightarrow> u8 list \<Rightarrow> 'w \<Rightarrow> kvs_fail + bool \<times> 'w" where
  "config_save_item_b ops ns key val = save_session ops ns
     (\<lambda>h w. map_sum id (map_prod (\<lambda>r. length val = (of_bool r :: nat)) id) (op_set_blob ops h key val w)) False"

definition config_save_item_n_u32 ::
  "('w, 'h) kvs_ops \<Rightarrow> string \<Rightarrow> string \<Rightarrow> u32 \<Rightarrow> 'w \<Rightarrow> kvs_fail + bool \<times> 'w" where
  "config_save_item_n_u32 ops ns key val = save_session ops ns
     (\<lambda>h w. map_sum id (map_prod (\<lambda>_. True) id) (op_set_u32 ops h key val w)) True"

definition config_save_item_n_i8 ::
  "('w, 'h) kvs_ops \<Rightarrow> string \<Rightarrow> string \<Rightarrow> u8 \<Rightarrow> 'w \<Rightarrow> kvs_fail + bool \<times> 'w" where
  "config_save_item_n_i8 ops ns key val = save_session ops ns
     (\<lambda>h w. map_sum id (map_prod (\<lambda>_. True) id) (op_set_i8 ops h key val w)) True"

definition config_save_item_n_f ::
  "('w, 'h) kvs_ops \<Rightarrow> string \<Rightarrow> string \<Rightarrow> u8 list \<Rightarrow> 'w \<Rightarrow> kvs_fail + bool \<times> 'w" where
  "config_save_item_n_f ops ns key val = save_session ops ns
     (\<lambda>h w. map_sum id (map_prod (\<lambda>_. True) id) (op_set_blob ops h key val w)) True"

definition config_save_item_u32 ::
  "('w, 'h) kvs_ops \<Rightarrow> string \<Rightarrow> string \<Rightarrow> string \<Rightarrow> nat \<Rightarrow> 'w \<Rightarrow> kvs_fail + bool \<times> 'w" where
  "config_save_item_u32 ops ns key val base = config_save_item_n_u32 ops ns key (ucast (strtoul val base))"

definition config_save_item_i8 ::
  "('w, 'h) kvs_ops \<Rightarrow> string \<Rightarrow> string \<Rightarrow> string \<Rightarrow> 'w \<Rightarrow> kvs_fail + bool \<times> 'w" where
  "config_save_item_i8 ops ns key val = config_save_item_n_i8 ops ns key (word_of_int (atoi val))"

definition config_save_item_f ::
  "('w, 'h) kvs_ops \<Rightarrow> (string \<Rightarrow> u8 list) \<Rightarrow> string \<Rightarrow> string \<Rightarrow> string \<Rightarrow> 'w \<Rightarrow> kvs_fail + bool \<times> 'w" where
  "config_save_item_f ops stof ns key val = config_save_item_n_f ops ns key (stof val)"

section \<open>What the clients get from the contract\<close>

lemma ucast_i8_u64 [simp]: "(ucast (ucast (v :: u8) :: u64) :: u8) = v"
  by (rule ucast_ucast_up)

lemma ucast_u32_u64 [simp]: "(ucast (ucast (v :: u32) :: u64) :: u32) = v"
  by (rule ucast_ucast_up)

context kvs_contract
begin

text \<open>A saving session: what the setter does is what the content becomes.\<close>

lemma session:
  assumes "idle w C" "names n"
    and "\<And>h w1. opened w1 h n True C \<Longrightarrow> \<exists>w2. f h w1 = Inr (r, w2) \<and> opened w2 h n True C'"
  shows "\<exists>w'. save_session ops n f b w = Inr (r, w') \<and> idle w' C'"
proof -
  from open_write [OF assms(1,2)] obtain h w1 where
    o1: "op_open ops n kvs_flag_WRITE w = (Some h, w1)" "opened w1 h n True C" by blast
  from assms(3) [OF o1(2)] obtain w2 where w2: "f h w1 = Inr (r, w2)" "opened w2 h n True C'" by blast
  from commit [OF w2(2)] obtain w3 where "op_commit ops h w2 = (True, w3)" "opened w3 h n True C'" by blast
  with o1 w2 close show ?thesis by (auto simp: save_session_def)
qed

lemma save_u32:
  assumes "idle w C" "keys k" "names n"
  shows "\<exists>w'. config_save_item_n_u32 ops n k v w = Inr (True, w') \<and>
    idle w' (C(n := (C n)(k \<mapsto> KInt KVS_TYPE_u32 (ucast v))))"
  unfolding config_save_item_n_u32_def by (rule session [OF assms(1,3)]) (drule set_u32 [OF _ assms(2), where ?v32.0 = v], auto)

lemma save_i8:
  assumes "idle w C" "keys k" "names n"
  shows "\<exists>w'. config_save_item_n_i8 ops n k v w = Inr (True, w') \<and>
    idle w' (C(n := (C n)(k \<mapsto> KInt KVS_TYPE_i8 (ucast v))))"
  unfolding config_save_item_n_i8_def by (rule session [OF assms(1,3)]) (drule set_i8 [OF _ assms(2), where ?v8.0 = v], auto)

lemma save_s:
  assumes "idle w C" "keys k" "no_nul s" "length s < cap" "names n"
  shows "\<exists>w'. config_save_item_s ops n k s w = Inr (True, w') \<and> idle w' (C(n := (C n)(k \<mapsto> kstr s)))"
  unfolding config_save_item_s_def by (rule session [OF assms(1,5)]) (use set_str assms(2,3,4) in blast)

lemma save_b:
  assumes "idle w C" "keys k" "b \<noteq> []" "length b < cap" "names n"
  shows "\<exists>w'. config_save_item_b ops n k b w = Inr (length b = 1, w') \<and> idle w' (C(n := (C n)(k \<mapsto> kblob b)))"
  unfolding config_save_item_b_def by (rule session [OF assms(1,5)]) (use set_blob assms(2,3,4) in fastforce)

lemma save_f:
  assumes "idle w C" "keys k" "b \<noteq> []" "length b < cap" "names n"
  shows "\<exists>w'. config_save_item_n_f ops n k b w = Inr (True, w') \<and> idle w' (C(n := (C n)(k \<mapsto> kblob b)))"
  unfolding config_save_item_n_f_def by (rule session [OF assms(1,5)]) (use set_blob assms(2,3,4) in fastforce)

lemma read_u32:
  assumes "idle w C" "keys k" "names n"
  shows "\<exists>w'. config_read_item_u32 ops n k d w =
    Inr (case int_of (C n k) KVS_TYPE_u32 of Some x \<Rightarrow> ucast x | None \<Rightarrow> d, w') \<and> idle w' C"
  using open_read [OF assms(1) assms(3)]
proof (elim disjE exE conjE)
  fix w1 assume "op_open ops n kvs_flag_READ w = (None, w1)" "idle w1 C" "C n = Map.empty"
  then show ?thesis by (simp add: config_read_item_u32_def)
next
  fix h w1 assume o1: "op_open ops n kvs_flag_READ w = (Some h, w1)" "opened w1 h n False C"
  from get_u32 [OF o1(2) assms(2), of d] o1(1) close show ?thesis
    by (auto simp: config_read_item_u32_def)
qed

lemma read_i8:
  assumes "idle w C" "keys k" "names n"
  shows "\<exists>w'. config_read_item_i8 ops n k d w =
    Inr (case int_of (C n k) KVS_TYPE_i8 of Some x \<Rightarrow> ucast x | None \<Rightarrow> d, w') \<and> idle w' C"
  using open_read [OF assms(1) assms(3)]
proof (elim disjE exE conjE)
  fix w1 assume "op_open ops n kvs_flag_READ w = (None, w1)" "idle w1 C" "C n = Map.empty"
  then show ?thesis by (simp add: config_read_item_i8_def)
next
  fix h w1 assume o1: "op_open ops n kvs_flag_READ w = (Some h, w1)" "opened w1 h n False C"
  from get_i8 [OF o1(2) assms(2), of d] o1(1) close show ?thesis
    by (auto simp: config_read_item_i8_def)
qed

lemma read_s:
  assumes "idle w C" "keys k" "C n k = Some (kstr s)" "no_nul s" "s \<noteq> []" "length s < length d" "names n"
  shows "\<exists>w'. config_read_item_s ops n k d def w = Inr (Some s, w') \<and> idle w' C"
  using open_read [OF assms(1) assms(7)]
proof (elim disjE exE conjE)
  fix w1 assume "C n = Map.empty"
  then show ?thesis using assms(3) by simp
next
  fix h w1 assume o1: "op_open ops n kvs_flag_READ w = (Some h, w1)" "opened w1 h n False C"
  from get_str [OF o1(2) assms(2-6)] o1(1) close c_str_append_nul [OF assms(4)] show ?thesis
    by (auto simp: config_read_item_s_def)
qed

lemma read_s_default:
  assumes "idle w C" "keys k" "bytes_of (C n k) KVS_TYPE_STR = None" "names n"
  shows "\<exists>w'. config_read_item_s ops n k d def w = Inr (def, w') \<and> idle w' C"
  using open_read [OF assms(1) assms(4)]
proof (elim disjE exE conjE)
  fix w1 assume "op_open ops n kvs_flag_READ w = (None, w1)" "idle w1 C" "C n = Map.empty"
  then show ?thesis by (simp add: config_read_item_s_def)
next
  fix h w1 assume o1: "op_open ops n kvs_flag_READ w = (Some h, w1)" "opened w1 h n False C"
  from get_str_none [OF o1(2) assms(2,3), of d] o1(1) close show ?thesis
    by (auto simp: config_read_item_s_def)
qed

lemma save_read_u32:
  assumes "idle w C" "keys k" "names n"
  shows "\<exists>w1 w2. config_save_item_n_u32 ops n k v w = Inr (True, w1) \<and>
    config_read_item_u32 ops n k d w1 = Inr (v, w2) \<and> idle w2 (C(n := (C n)(k \<mapsto> KInt KVS_TYPE_u32 (ucast v))))"
proof -
  from save_u32 [OF assms] obtain w1 where w1: "config_save_item_n_u32 ops n k v w = Inr (True, w1)"
    "idle w1 (C(n := (C n)(k \<mapsto> KInt KVS_TYPE_u32 (ucast v))))" by blast
  from read_u32 [OF w1(2) assms(2,3), of d] w1(1) show ?thesis by auto
qed

lemma save_read_s:
  assumes "idle w C" "keys k" "no_nul s" "s \<noteq> []" "length s < cap" "length s < length d" "names n"
  shows "\<exists>w1 w2. config_save_item_s ops n k s w = Inr (True, w1) \<and>
    config_read_item_s ops n k d def w1 = Inr (Some s, w2) \<and> idle w2 (C(n := (C n)(k \<mapsto> kstr s)))"
proof -
  from save_s [OF assms(1,2,3,5,7)] obtain w1 where w1: "config_save_item_s ops n k s w = Inr (True, w1)"
    "idle w1 (C(n := (C n)(k \<mapsto> kstr s)))" by blast
  from read_s [OF w1(2) assms(2) _ assms(3,4,6,7), of "def"] w1(1) show ?thesis by auto
qed

end

end
