(* ===== verification/KvsProps.thy ===== *)
theory KvsProps
  imports ConfigKvs
begin

text \<open>The properties of the key-value store and of the configuration items kept in it.\<close>

text \<open>An empty file that is open for writing, as the concrete input of the witnesses.\<close>

definition empty_kfile :: kfile where
  "empty_kfile = \<lparr>kf_data = [], kf_off = 0, kf_wr = True\<rparr>"

lemma empty_kfile_map: "kv_map empty_kfile Map.empty" "kv_read empty_kfile Map.empty"
  using kv_map_empty [of empty_kfile] by (auto simp: empty_kfile_def kv_map_read)

lemma key_ok_k [simp]: "key_ok ''k''"
  by (simp add: key_ok_def MAX_KEY_LEN_def)

text \<open>The setter of an integer whose type the macro li_typeInt does not recognise: the assertion of kvs_write reads its value as the length and the size of a
  blob.\<close>

lemma write_not_int:
  assumes "\<not> li_typeInt li"
  shows "if nval_blob_size (li_nval li) < nval_blob_len (li_nval li) then kvs_write h li pos = Inl AssertFailed
    else kf_wr h \<longrightarrow> length (li_key li) = 15 \<longrightarrow> (\<exists>r h'. 0 < r \<and> kvs_write h li pos = Inr (r, h'))"
  using assms by (auto simp: kvs_write_def f_write_def f_seek_def Let_def sizeof_li_def)

lemma wide_setter:
  assumes "kv_map h M" "key_ok key" "int_type ty" "\<not> storable ty"
  shows "if nval_blob_size v < nval_blob_len v then kvs_set_dt ty h key v = Inl AssertFailed
    else \<exists>h'. kvs_set_dt ty h key v = Inr (True, h')"
proof -
  obtain ns where ns: "kv_rep h ns" using assms(1) by (auto simp: kv_map_def)
  obtain ks where ks: "key_array key = Inr ks" "length ks = 15" by (rule key_array_ok [OF assms(2)])
  obtain pos h1 where f: "find_key_int_w h key = Inr (pos, h1)" and w: "kf_wr h1"
    using find_key_int_w_place [OF ns assms(2)] by (auto simp: int_place_def placed_def kv_rep_def)
  let ?li = "li_init\<lparr>li_kvs_type := ty, li_nval := v, li_key := ks\<rparr>"
  have "\<not> li_typeInt ?li" using assms(3,4) by (auto simp: li_typeInt_def storable_def int_type_def)
  from write_not_int [OF this, of h1 pos] show ?thesis using f w ks by (auto simp: kvs_set_dt_def split: if_splits)
qed

text \<open>C1: Storing an integer of 8, 16 or 32 bits in the host store is a map update: on every well-formed writable file the setter succeeds, whatever nodes the file
  holds (deleted ones, ones of another type under the same key, ones of other keys), the file stays well-formed, and it then stands for the old map with the key
  bound to the value. For the two 64-bit types, which the same macro generates setters for, it is not: the setter stops at the assertion of kvs_write when the
  lowest 16 bits of the value are greater than the next 16; otherwise it returns true, but nothing is claimed of the file then.\<close>
theorem kvs_set_int_updates:
  assumes "kv_map h M" "key_ok key"
  shows "(ty \<in> {KVS_TYPE_i8, KVS_TYPE_u8, KVS_TYPE_i16, KVS_TYPE_u16, KVS_TYPE_i32, KVS_TYPE_u32} \<longrightarrow>
      (\<exists>h'. kvs_set_dt ty h key v = Inr (True, h') \<and> kv_map h' (M(key \<mapsto> KInt ty v)))) \<and>
    (ty \<in> {KVS_TYPE_i64, KVS_TYPE_u64} \<longrightarrow>
      (if nval_blob_size v < nval_blob_len v then kvs_set_dt ty h key v = Inl AssertFailed
       else \<exists>h'. kvs_set_dt ty h key v = Inr (True, h')))"
proof (intro conjI impI)
  assume "ty \<in> {KVS_TYPE_i8, KVS_TYPE_u8, KVS_TYPE_i16, KVS_TYPE_u16, KVS_TYPE_i32, KVS_TYPE_u32}"
  then have "storable ty" by auto
  then show "\<exists>h'. kvs_set_dt ty h key v = Inr (True, h') \<and> kv_map h' (M(key \<mapsto> KInt ty v))" by (rule set_dt_map [OF assms])
next
  assume "ty \<in> {KVS_TYPE_i64, KVS_TYPE_u64}"
  then have "int_type ty" "\<not> storable ty" by (auto simp: storable_def kvs_type_defs int_type_def)
  then show "if nval_blob_size v < nval_blob_len v then kvs_set_dt ty h key v = Inl AssertFailed else \<exists>h'. kvs_set_dt ty h key v = Inr (True, h')"
    by (rule wide_setter [OF assms])
qed

theorem kvs_set_int_updates_witness:
  "\<exists>h'. kvs_set_dt KVS_TYPE_u32 empty_kfile ''k'' 7 = Inr (True, h') \<and> kv_map h' [''k'' \<mapsto> KInt KVS_TYPE_u32 7]"
  using kvs_set_int_updates [OF empty_kfile_map(1) key_ok_k, of KVS_TYPE_u32 7] by simp

text \<open>C2: storing a string or a blob in the host store is a map update, also when an old node is
  reused in place, when it is too small, or when a node of an integer has to give way.\<close>
theorem kvs_set_bytes_updates:
  assumes "kv_map h M" "key_ok key" "ty = KVS_TYPE_STR \<or> ty = KVS_TYPE_BLOB" "length src < 65536"
  shows "\<exists>h'. kvs_write_str_or_blob h key src ty = Inr (word_of_nat (length src), h') \<and>
    kv_map h' (M(key \<mapsto> KBytes ty src))"
  using write_bytes_map [OF assms(1,2)] assms(3,4) by auto

theorem kvs_set_bytes_updates_witness:
  "\<exists>h'. kvs_write_str_or_blob empty_kfile ''k'' [1, 2, 3] KVS_TYPE_BLOB = Inr (3, h') \<and>
    kv_map h' [''k'' \<mapsto> KBytes KVS_TYPE_BLOB [1, 2, 3]]"
  using kvs_set_bytes_updates [OF empty_kfile_map(1) key_ok_k, of KVS_TYPE_BLOB "[1, 2, 3]"] by simp

text \<open>reading is lookup: a typed integer read of any width returns the value the map has for the
  key and success, when it has one of exactly that type, otherwise the default and failure; the
  file is not changed.\<close>
lemma kvs_get_int_looks_up:
  assumes "kv_read h M" "key_ok key" "int_type ty"
  shows "\<exists>off. kvs_get_dt ty h key def =
    Inr ((case int_of (M key) ty of Some x \<Rightarrow> x | None \<Rightarrow> def, int_of (M key) ty \<noteq> None), h\<lparr>kf_off := off\<rparr>)"
  by (rule get_int_map [OF assms])

lemma kvs_get_int_looks_up_witness:
  "\<exists>off. kvs_get_dt KVS_TYPE_u64 empty_kfile ''k'' 5 = Inr ((5, False), empty_kfile\<lparr>kf_off := off\<rparr>)"
  using kvs_get_int_looks_up [OF empty_kfile_map(2) key_ok_k, of KVS_TYPE_u64 5] by simp

text \<open>C3: Storing a string shorter than 65536 characters, the width of the length field, succeeds, and reading it back into a buffer of at least one byte
  gives: the string with its terminator and success, the rest of the buffer left alone, when it is not empty and there is room for both; the string cut by one
  character for the terminator and failure when it fits without its terminator; failure with the last byte of the buffer set to the terminator when it is longer
  than that; and for the empty string failure, as if nothing had been stored, with the buffer as it was.\<close>
theorem kvs_str_roundtrip:
  assumes "kv_map h M" "key_ok key" "no_nul s" "length s < 65536" "dst \<noteq> []"
  shows "\<exists>h1 off. kvs_set_str h key s = Inr (True, h1) \<and>
    kvs_get_str h1 key dst = Inr ((if s = [] then (False, dst)
       else if length s < length dst then (True, s @ NUL # drop (Suc (length s)) dst)
       else if length s = length dst then (False, butlast s @ [NUL])
       else (False, butlast dst @ [NUL])), h1\<lparr>kf_off := off\<rparr>)"
proof -
  from set_str_map [OF assms(1,2,4)] obtain h1 where h1: "kvs_set_str h key s = Inr (True, h1)"
    "kv_map h1 (M(key \<mapsto> kstr s))" by blast
  then have m: "kv_read h1 (M(key \<mapsto> kstr s))" by (simp add: kv_map_read)
  have cut: "xs[length xs - Suc 0 := NUL] = butlast xs @ [NUL]" if "xs \<noteq> []" for xs :: string
    using that by (metis One_nat_def append_butlast_last_id length_append_singleton diff_Suc_1 list_update_length)
  show ?thesis
  proof (cases "s \<noteq> [] \<and> length s < length dst")
    case True
    with get_str_stored [OF m assms(2) _ assms(3)] h1(1) show ?thesis by simp
  next
    case False
    have "min (length dst) (length dst - Suc 0) = length dst - Suc 0" by simp
    with False read_str_map [OF m assms(2), of dst] h1(1) cut [of s] cut [OF assms(5)] show ?thesis by (auto simp: kstr_def)
  qed
qed

theorem kvs_str_roundtrip_witness:
  "\<exists>h1 off. kvs_set_str empty_kfile ''k'' ''ab'' = Inr (True, h1) \<and>
    kvs_get_str h1 ''k'' ''xxxx'' = Inr ((True, CHR ''a'' # CHR ''b'' # NUL # ''x''), h1\<lparr>kf_off := off\<rparr>)"
  using kvs_str_roundtrip [OF empty_kfile_map(1) key_ok_k, of "''ab''" "''xxxx''"] by simp

text \<open>C4: erasing a key removes exactly it from the map, and says whether it was there.\<close>
theorem kvs_erase_removes:
  assumes "kv_map h M" "key_ok key"
  shows "\<exists>h'. kvs_erase_key h key = Inr (M key \<noteq> None, h') \<and> kv_map h' (M(key := None))"
  by (rule erase_map [OF assms])

theorem kvs_erase_removes_witness:
  "\<exists>h'. kvs_erase_key empty_kfile ''k'' = Inr (False, h') \<and> kv_map h' Map.empty"
  using kvs_erase_removes [OF empty_kfile_map(1) key_ok_k] by simp

text \<open>the counting visit of a name space returns the number of keys of the map whose value has
  the type asked for and whose key the comparison accepts.\<close>
lemma kvs_count_counts:
  assumes "kv_read h M"
  shows "kvs_count h ty cmp =
    Inr (card {k. cmp k \<and> (\<exists>v. M k = Some v \<and> (ty = KVS_TYPE_ANY \<or> kval_type v = ty))})"
  by (rule count_map [OF assms])

lemma kvs_count_counts_witness: "kvs_count empty_kfile KVS_TYPE_ANY (\<lambda>_. True) = Inr 0"
  using kvs_count_counts [OF empty_kfile_map(2), of KVS_TYPE_ANY "\<lambda>_. True"] by simp

text \<open>C5: kvs_callocHandle claims every free slot of the table at once: once a name space is open, no
  other open succeeds, of any name and in any mode, until the handle is closed.\<close>
theorem kvs_one_session_at_a_time:
  assumes "kw_idle w C"
  shows "\<exists>h w1. kvs_open n kvs_flag_WRITE w = (Some h, w1) \<and>
    (\<forall>m flags. kvs_open m flags w1 = (None, w1)) \<and>
    (\<exists>h2 w2. kvs_open m2 kvs_flag_WRITE (kvs_close h w1) = (Some h2, w2))"
proof -
  from kw_open_write [OF assms] obtain h w1 where o1: "kvs_open n kvs_flag_WRITE w = (Some h, w1)"
    "kw_opened w1 h n True C" by blast
  from calloc_busy [OF opened_slots(1,3) [OF o1(2)]] have "\<forall>m flags. kvs_open m flags w1 = (None, w1)"
    by (simp add: kvs_open_def)
  with o1 kw_open_write [OF kw_close [OF o1(2)], of m2] show ?thesis by blast
qed

theorem kvs_one_session_at_a_time_witness:
  "\<exists>h w1. kvs_open ''a'' kvs_flag_WRITE kworld_init = (Some h, w1) \<and> (\<forall>m flags. kvs_open m flags w1 = (None, w1))"
  using kvs_one_session_at_a_time [OF kw_idle_init, of "''a''"] by blast

text \<open>a 32-bit configuration item that is saved is read back, whatever the default, and only
  its key in its name space changes; this holds through the whole host store, its handle table,
  the opening and closing of the file and the byte format.\<close>
lemma config_u32_roundtrip:
  assumes "kw_idle w C" "key_ok k"
  shows "\<exists>w1 w2. config_save_item_n_u32 host_kvs n k v w = Inr (True, w1) \<and>
    config_read_item_u32 host_kvs n k d w1 = Inr (v, w2) \<and>
    kw_idle w2 (C(n := (C n)(k \<mapsto> KInt KVS_TYPE_u32 (ucast v))))"
  by (rule host.save_read_u32 [OF assms TrueI])

lemma config_u32_roundtrip_witness:
  "\<exists>w1 w2. config_save_item_n_u32 host_kvs ''cfg'' ''k'' 9 kworld_init = Inr (True, w1) \<and>
    config_read_item_u32 host_kvs ''cfg'' ''k'' 0 w1 = Inr (9, w2)"
  using config_u32_roundtrip [OF kw_idle_init key_ok_k, of "''cfg''" 9 0] by blast

text \<open>a text configuration item that is saved is read back in place of the default.\<close>
lemma config_s_roundtrip:
  assumes "kw_idle w C" "key_ok k" "no_nul s" "s \<noteq> []" "length s < 65536" "length s < length d"
  shows "\<exists>w1 w2. config_save_item_s host_kvs n k s w = Inr (True, w1) \<and>
    config_read_item_s host_kvs n k d def w1 = Inr (Some s, w2) \<and>
    kw_idle w2 (C(n := (C n)(k \<mapsto> kstr s)))"
  by (rule host.save_read_s [OF assms TrueI])

lemma config_s_roundtrip_witness:
  "\<exists>w1 w2. config_save_item_s host_kvs ''cfg'' ''k'' ''v'' kworld_init = Inr (True, w1) \<and>
    config_read_item_s host_kvs ''cfg'' ''k'' ''xxxx'' None w1 = Inr (Some ''v'', w2)"
  using config_s_roundtrip [OF kw_idle_init key_ok_k, of "''v''" "''xxxx''" "''cfg''" None] by auto

text \<open>config_save_item_b stores the blob but compares its size with the truth value of the
  store's answer: it reports success only for blobs of one byte.\<close>
lemma config_save_b_reports_failure:
  assumes "kw_idle w C" "key_ok k" "b \<noteq> []" "length b < 65536"
  shows "\<exists>w'. config_save_item_b host_kvs n k b w = Inr (length b = 1, w') \<and>
    kw_idle w' (C(n := (C n)(k \<mapsto> kblob b)))"
  by (rule host.save_b [OF assms TrueI])

lemma config_save_b_reports_failure_witness:
  "\<exists>w'. config_save_item_b host_kvs ''cfg'' ''k'' [1, 2] kworld_init = Inr (False, w')"
  using config_save_b_reports_failure [OF kw_idle_init key_ok_k, of "[1, 2]" "''cfg''"] by auto

text \<open>The assertion of kvs_write takes a 64-bit integer for a blob: storing one whose lowest
  half-word is greater than the next one stops the program.\<close>
lemma kvs_set_u64_aborts:
  assumes "kv_map h M" "key_ok key" "nval_blob_size v < nval_blob_len v"
  shows "kvs_set_u64 h key v = Inl AssertFailed"
proof -
  obtain ns where "kv_rep h ns" using assms(1) by (auto simp: kv_map_def)
  from find_key_int_w_place [OF this assms(2)] obtain pos h1 where
    f: "find_key_int_w h key = Inr (pos, h1)" by (auto simp: int_place_def)
  obtain ks where "key_array key = Inr ks" by (rule key_array_ok [OF assms(2)])
  moreover have "\<not> nval_blob_len v \<le> nval_blob_size v" using assms(3) by simp
  ultimately show ?thesis using f
    by (simp add: kvs_set_u64_def kvs_set_dt_def kvs_write_def li_typeInt_def kvs_type_defs)
qed

lemma kvs_set_u64_aborts_witness: "kvs_set_u64 empty_kfile ''k'' 1 = Inl AssertFailed"
  using kvs_set_u64_aborts [OF empty_kfile_map(1) key_ok_k, of 1]
  by (simp add: nval_blob_len_def nval_blob_size_def)

end
