(* ===== verification/CliLine.thy ===== *)
theory CliLine
  imports Prelude
begin

text \<open>
  Reading a command line character by character (cli/cmdline_get.cc, cli/cmdline_set.cc).

  The input is the sequence of results of the getc function, None for -1 (nothing there yet); its
  end stands for -1 for ever. \<open>lf\<close> is the build option CONFIG_CLI_CMDLINE_ALLOW_LF. A store
  or a load outside of the buffer is the outcome None. realloc is the parameter \<open>alloc\<close>, which
  says whether a block of that size can be had; the new cells of a block are zero here.
\<close>

datatype cli_get_commline_ret = CMDL_DONE | CMDL_ERROR | CMDL_INCOMPLETE | CMDL_LINE_BUF_FULL

record cli_buf =
  cb_buf :: "char list"
  cb_size :: nat
  cb_idx :: nat
  cb_quotes :: int

definition cli_buf_init :: cli_buf where
  "cli_buf_init = \<lparr>cb_buf = [], cb_size = 0, cb_idx = 0, cb_quotes = 0\<rparr>"

definition is_crlf :: "char \<Rightarrow> bool" where
  "is_crlf c \<longleftrightarrow> c = CHR 0x0D \<or> c = CHR 0x0A"

definition cl_terminator :: "bool \<Rightarrow> char \<Rightarrow> bool" where
  "cl_terminator lf c \<longleftrightarrow> c = CHR '';'' \<or> (lf \<and> is_crlf c)"

section \<open>The model\<close>

text \<open>One turn of the loop: either the function returns, or it goes on with the flag and buffer.\<close>

definition cg_char ::
  "bool \<Rightarrow> bool \<Rightarrow> cli_buf \<Rightarrow> char \<Rightarrow> ((cli_get_commline_ret \<times> cli_buf) + (bool \<times> cli_buf)) option" where
  "cg_char lf err b c =
     (if \<not> lf \<and> is_crlf c then Some (Inr (err, b\<lparr>cb_quotes := 0, cb_idx := 0\<rparr>))
      else if c = CHR 0x08 then
        (if cb_idx b = 0 then Some (Inr (err, b))
         else let i = cb_idx b - 1 in
           if i < length (cb_buf b) then
             Some (Inr (err, b\<lparr>cb_idx := i,
               cb_quotes := (if cb_buf b ! i = CHR 0x22 then cb_quotes b - 1 else cb_quotes b)\<rparr>))
           else None)
      else let b1 = (if c = CHR 0x22 then b\<lparr>cb_quotes := cb_quotes b + 1\<rparr> else b) in
        if err then Some (Inr (if cl_terminator lf c then False else err, b1))
        else if even (cb_quotes b1) \<and> cl_terminator lf c then
          (case mem_put (cb_buf b1) (cb_idx b1) NUL of
             None \<Rightarrow> None
           | Some m \<Rightarrow> Some (Inl (if err then CMDL_ERROR else CMDL_DONE, b1\<lparr>cb_buf := m, cb_idx := 0, cb_quotes := 0\<rparr>)))
        else
          (case mem_put (cb_buf b1) (cb_idx b1) c of
             None \<Rightarrow> None
           | Some m \<Rightarrow> Some (Inr (err, b1\<lparr>cb_buf := m, cb_idx := cb_idx b1 + 1\<rparr>))))"

fun cg_loop ::
  "bool \<Rightarrow> bool \<Rightarrow> cli_buf \<Rightarrow> char option list \<Rightarrow> (cli_get_commline_ret \<times> cli_buf \<times> char option list) option" where
  "cg_loop lf err b [] = Some (if err then CMDL_ERROR else CMDL_INCOMPLETE, b, [])"
| "cg_loop lf err b (None # r) = Some (if err then CMDL_ERROR else CMDL_INCOMPLETE, b, r)"
| "cg_loop lf err b (Some c # r) =
     (case cg_char lf err b c of
        None \<Rightarrow> None
      | Some (Inl (ret, b')) \<Rightarrow> Some (ret, b', r)
      | Some (Inr (err', b')) \<Rightarrow>
          if \<not> cb_idx b' + 1 < cb_size b' then Some (CMDL_LINE_BUF_FULL, b', r) else cg_loop lf err' b' r)"

definition cli_get_commandline ::
  "bool \<Rightarrow> cli_buf \<Rightarrow> char option list \<Rightarrow> (cli_get_commline_ret \<times> cli_buf \<times> char option list) option" where
  "cli_get_commandline lf b inp =
     (if \<not> cb_idx b + 1 < cb_size b then Some (CMDL_LINE_BUF_FULL, b, inp) else cg_loop lf False b inp)"

definition cliBuf_enlarge :: "(nat \<Rightarrow> bool) \<Rightarrow> cli_buf \<Rightarrow> bool \<times> cli_buf" where
  "cliBuf_enlarge alloc b =
     (let new_size = (if cb_size b \<noteq> 0 then cb_size b + 32 else 64) in
      if \<not> alloc new_size then (False, b)
      else (True, b\<lparr>cb_buf := cb_buf b @ replicate (new_size - length (cb_buf b)) NUL, cb_size := new_size\<rparr>))"

text \<open>The loop of get_commandline; every second turn at least reads a character, hence the fuel.\<close>

fun gcl_loop ::
  "nat \<Rightarrow> bool \<Rightarrow> (nat \<Rightarrow> bool) \<Rightarrow> cli_buf \<Rightarrow> char option list \<Rightarrow> (string option \<times> cli_buf \<times> char option list) option" where
  "gcl_loop 0 lf alloc b inp = None"
| "gcl_loop (Suc fuel) lf alloc b inp =
     (case cli_get_commandline lf b inp of
        None \<Rightarrow> None
      | Some (CMDL_DONE, b', r) \<Rightarrow>
          (if cb_buf b' ! 0 = NUL \<or> is_crlf (cb_buf b' ! 0) then Some (None, b', r)
           else Some (Some (c_str (cb_buf b')), b', r))
      | Some (CMDL_LINE_BUF_FULL, b', r) \<Rightarrow>
          (case cliBuf_enlarge alloc b' of
             (True, b'') \<Rightarrow> gcl_loop fuel lf alloc b'' r
           | (False, b'') \<Rightarrow> Some (None, b'', r))
      | Some (_, b', r) \<Rightarrow> Some (None, b', r))"

definition get_commandline ::
  "bool \<Rightarrow> (nat \<Rightarrow> bool) \<Rightarrow> cli_buf \<Rightarrow> char option list \<Rightarrow> (string option \<times> cli_buf \<times> char option list) option" where
  "get_commandline lf alloc b inp =
     (if cb_buf b = [] then
        (case cliBuf_enlarge alloc b of
           (True, b') \<Rightarrow> gcl_loop (2 * length inp + 2) lf alloc b' inp
         | (False, b') \<Rightarrow> Some (None, b', inp))
      else gcl_loop (2 * length inp + 2) lf alloc b inp)"

section \<open>The line editor it implements\<close>

text \<open>
  The state is the line typed so far; a chunk of input ends at a pause. The result is the line
  that was completed, if any, the line typed so far and the rest of the input.
\<close>

definition in_quote :: "string \<Rightarrow> bool" where
  "in_quote l \<longleftrightarrow> odd (count_list l (CHR 0x22))"

fun edit :: "bool \<Rightarrow> string \<Rightarrow> char option list \<Rightarrow> string option \<times> string \<times> char option list" where
  "edit lf l [] = (None, l, [])"
| "edit lf l (None # r) = (None, l, r)"
| "edit lf l (Some c # r) =
     (if \<not> lf \<and> is_crlf c then edit lf [] r
      else if c = CHR 0x08 then edit lf (butlast l) r
      else if cl_terminator lf c \<and> \<not> in_quote l then (Some l, [], r)
      else edit lf (l @ [c]) r)"

definition line_result :: "string option \<Rightarrow> string option" where
  "line_result lo = (case lo of None \<Rightarrow> None
     | Some l \<Rightarrow> if l = [] \<or> hd l = NUL \<or> is_crlf (hd l) then None else Some (c_str l))"

text \<open>The buffer holds the line.\<close>

definition cb_rep :: "cli_buf \<Rightarrow> string \<Rightarrow> bool" where
  "cb_rep b l \<longleftrightarrow> length (cb_buf b) = cb_size b \<and> cb_idx b = length l \<and> length l \<le> cb_size b \<and>
     take (length l) (cb_buf b) = l \<and> cb_quotes b = int (count_list l (CHR 0x22))"

lemma cb_rep_init [simp]: "cb_rep cli_buf_init []"
  by (simp add: cb_rep_def cli_buf_init_def)

lemma count_list_butlast:
  "l \<noteq> [] \<Longrightarrow> int (count_list (butlast l) c) = int (count_list l c) - (if last l = c then 1 else 0)"
  by (induction l rule: rev_induct) auto

lemma terminator_not_quote: "cl_terminator lf c \<Longrightarrow> c \<noteq> CHR 0x22"
  by (auto simp: cl_terminator_def is_crlf_def)

text \<open>One character: the buffer follows the editor, and stays inside of its memory.\<close>

lemma cg_char_edit:
  assumes "cb_rep b l" "cb_idx b + 1 < cb_size b"
  shows "(\<not> lf \<and> is_crlf c \<longrightarrow> (\<exists>b'. cg_char lf False b c = Some (Inr (False, b')) \<and> cb_rep b' [] \<and> cb_size b' = cb_size b)) \<and>
    (\<not> (\<not> lf \<and> is_crlf c) \<and> c = CHR 0x08 \<longrightarrow>
       (\<exists>b'. cg_char lf False b c = Some (Inr (False, b')) \<and> cb_rep b' (butlast l) \<and> cb_size b' = cb_size b)) \<and>
    (\<not> (\<not> lf \<and> is_crlf c) \<and> c \<noteq> CHR 0x08 \<and> cl_terminator lf c \<and> \<not> in_quote l \<longrightarrow>
       (\<exists>b'. cg_char lf False b c = Some (Inl (CMDL_DONE, b')) \<and> cb_rep b' [] \<and> cb_size b' = cb_size b \<and>
         (\<exists>m. cb_buf b' = l @ NUL # m))) \<and>
    (\<not> (\<not> lf \<and> is_crlf c) \<and> c \<noteq> CHR 0x08 \<and> \<not> (cl_terminator lf c \<and> \<not> in_quote l) \<longrightarrow>
       (\<exists>b'. cg_char lf False b c = Some (Inr (False, b')) \<and> cb_rep b' (l @ [c]) \<and> cb_size b' = cb_size b))"
proof (intro conjI impI)
  have rep: "length (cb_buf b) = cb_size b" "cb_idx b = length l" "take (length l) (cb_buf b) = l"
    "cb_quotes b = int (count_list l (CHR 0x22))" and idx: "length l < length (cb_buf b)"
    using assms by (auto simp: cb_rep_def)
  {
    assume "\<not> lf \<and> is_crlf c"
    then show "\<exists>b'. cg_char lf False b c = Some (Inr (False, b')) \<and> cb_rep b' [] \<and> cb_size b' = cb_size b"
      using rep by (simp add: cg_char_def cb_rep_def)
  next
    assume c: "\<not> (\<not> lf \<and> is_crlf c) \<and> c = CHR 0x08"
    show "\<exists>b'. cg_char lf False b c = Some (Inr (False, b')) \<and> cb_rep b' (butlast l) \<and> cb_size b' = cb_size b"
    proof (cases "l = []")
      case True
      then show ?thesis using c assms(1) rep by (auto simp: cg_char_def is_crlf_def)
    next
      case False
      then have "cb_buf b ! (length l - 1) = last l"
        using rep(3) by (metis diff_less last_conv_nth length_greater_0_conv less_numeral_extra(1) nth_take)
      moreover have "take (length l - 1) (cb_buf b) = butlast l"
        using rep(3) by (metis butlast_conv_take diff_le_self min.absorb1 take_take)
      ultimately show ?thesis
        using c False rep idx count_list_butlast [OF False, of "CHR 0x22"] by (auto simp: cg_char_def cb_rep_def Let_def)
    qed
  next
    assume c: "\<not> (\<not> lf \<and> is_crlf c) \<and> c \<noteq> CHR 0x08 \<and> cl_terminator lf c \<and> \<not> in_quote l"
    then have "c \<noteq> CHR 0x22" by (auto dest: terminator_not_quote)
    moreover have "(cb_buf b)[length l := NUL] = l @ NUL # drop (Suc (length l)) (cb_buf b)"
      using rep(3) idx by (simp add: upd_conv_take_nth_drop)
    ultimately show "\<exists>b'. cg_char lf False b c = Some (Inl (CMDL_DONE, b')) \<and> cb_rep b' [] \<and>
        cb_size b' = cb_size b \<and> (\<exists>m. cb_buf b' = l @ NUL # m)"
      using c rep idx by (simp add: cg_char_def cb_rep_def Let_def in_quote_def)
  next
    assume c: "\<not> (\<not> lf \<and> is_crlf c) \<and> c \<noteq> CHR 0x08 \<and> \<not> (cl_terminator lf c \<and> \<not> in_quote l)"
    have t: "take (Suc (length l)) ((cb_buf b)[length l := c]) = l @ [c]"
      using rep(3) idx by (simp add: take_list_update_last)
    have "cl_terminator lf c \<Longrightarrow> c \<noteq> CHR 0x22 \<and> odd (cb_quotes b)"
      using c rep(4) by (auto simp: in_quote_def dest: terminator_not_quote)
    then have go: "cg_char lf False b c = Some (Inr (False,
        b\<lparr>cb_quotes := (if c = CHR 0x22 then cb_quotes b + 1 else cb_quotes b),
          cb_buf := (cb_buf b)[length l := c], cb_idx := length l + 1\<rparr>))"
      using c rep(1,2) idx by (cases lf; cases "is_crlf c"; cases "c = CHR 0x22"; cases "cl_terminator lf c") (simp_all add: cg_char_def)
    show "\<exists>b'. cg_char lf False b c = Some (Inr (False, b')) \<and> cb_rep b' (l @ [c]) \<and> cb_size b' = cb_size b"
      unfolding go using rep idx t by (cases "c = CHR 0x22") (simp_all add: cb_rep_def)
  }
qed

text \<open>
  A call either stops at a full buffer after some of the input, from where the editor goes on, or
  it does what the editor does.
\<close>

lemma cg_loop_edit:
  assumes "cb_rep b l" "cb_idx b + 1 < cb_size b"
  shows "\<exists>ret b' r. cg_loop lf False b inp = Some (ret, b', r) \<and> cb_size b' = cb_size b \<and>
    ((ret = CMDL_LINE_BUF_FULL \<and> length r < length inp \<and> (\<exists>l'. cb_rep b' l' \<and> edit lf l inp = edit lf l' r)) \<or>
     (ret = CMDL_INCOMPLETE \<and> (\<exists>l'. cb_rep b' l' \<and> edit lf l inp = (None, l', r))) \<or>
     (ret = CMDL_DONE \<and> (\<exists>s m. cb_rep b' [] \<and> cb_buf b' = s @ NUL # m \<and> edit lf l inp = (Some s, [], r))))"
  using assms
proof (induction inp arbitrary: b l)
  case Nil
  then show ?case by auto
next
  case (Cons x inp)
  show ?case
  proof (cases x)
    case None
    then show ?thesis using Cons.prems by auto
  next
    case (Some c)
    have go: ?thesis
      if ch: "cg_char lf False b c = Some (Inr (False, b1))" "cb_rep b1 l1" "cb_size b1 = cb_size b"
        and ed: "edit lf l (Some c # inp) = edit lf l1 inp" for b1 l1
    proof (cases "cb_idx b1 + 1 < cb_size b1")
      case True
      from Cons.IH [OF ch(2) True] ch ed Some True show ?thesis by (auto simp del: edit.simps)
    next
      case False
      then show ?thesis using ch ed Some by (auto simp del: edit.simps)
    qed
    note st = cg_char_edit [OF Cons.prems, of lf c]
    consider (nl) "\<not> lf \<and> is_crlf c" | (bs) "\<not> (\<not> lf \<and> is_crlf c) \<and> c = CHR 0x08"
      | (fin) "\<not> (\<not> lf \<and> is_crlf c) \<and> c \<noteq> CHR 0x08 \<and> cl_terminator lf c \<and> \<not> in_quote l"
      | (put) "\<not> (\<not> lf \<and> is_crlf c) \<and> c \<noteq> CHR 0x08 \<and> \<not> (cl_terminator lf c \<and> \<not> in_quote l)" by blast
    then show ?thesis
    proof cases
      case nl
      with st obtain b1 where "cg_char lf False b c = Some (Inr (False, b1))" "cb_rep b1 []" "cb_size b1 = cb_size b" by blast
      then show ?thesis using nl by (intro go [where ?b1.0 = b1 and ?l1.0 = "[]"]) auto
    next
      case bs
      with st obtain b1 where "cg_char lf False b c = Some (Inr (False, b1))" "cb_rep b1 (butlast l)" "cb_size b1 = cb_size b" by blast
      then show ?thesis using bs by (intro go [where ?b1.0 = b1 and ?l1.0 = "butlast l"]) auto
    next
      case fin
      with st obtain b1 m where "cg_char lf False b c = Some (Inl (CMDL_DONE, b1))" "cb_rep b1 []" "cb_size b1 = cb_size b"
        "cb_buf b1 = l @ NUL # m" by blast
      then show ?thesis using fin Some by auto
    next
      case put
      with st obtain b1 where "cg_char lf False b c = Some (Inr (False, b1))" "cb_rep b1 (l @ [c])" "cb_size b1 = cb_size b" by blast
      then show ?thesis using put by (intro go [where ?b1.0 = b1 and ?l1.0 = "l @ [c]"]) auto
    qed
  qed
qed

lemma enlarge_rep:
  assumes "cb_rep b l" "cliBuf_enlarge alloc b = (ok, b')"
  shows "cb_rep b' l" "ok \<Longrightarrow> cb_idx b' + 1 < cb_size b'" "ok \<Longrightarrow> cb_buf b' \<noteq> []"
  using assms by (auto simp: cliBuf_enlarge_def cb_rep_def Let_def split: if_splits)

text \<open>The whole: memory safe for every allocator, and the editor when memory can be had.\<close>

definition line_outcome ::
  "bool \<Rightarrow> (nat \<Rightarrow> bool) \<Rightarrow> string \<Rightarrow> char option list \<Rightarrow> (string option \<times> cli_buf \<times> char option list) option \<Rightarrow> bool" where
  "line_outcome lf alloc l inp res \<longleftrightarrow> (\<exists>out b' l' r. res = Some (out, b', r) \<and> cb_rep b' l' \<and>
     ((\<forall>n. alloc n) \<longrightarrow> (\<exists>lo. edit lf l inp = (lo, l', r) \<and> out = line_result lo)))"

lemma c_str_at_nul: "c_str (s @ NUL # m) = c_str s"
  by (induction s) (auto simp: c_str_def)

lemma done_result:
  assumes "cb_buf b = s @ NUL # m"
  shows "(if cb_buf b ! 0 = NUL \<or> is_crlf (cb_buf b ! 0) then None else Some (c_str (cb_buf b))) = line_result (Some s)"
proof (cases s)
  case Nil
  then show ?thesis using assms by (simp add: line_result_def)
next
  case (Cons c cs)
  then have "cb_buf b ! 0 = c" using assms by simp
  moreover have "c_str (cb_buf b) = c_str s" unfolding assms by (rule c_str_at_nul)
  ultimately show ?thesis using Cons by (simp add: line_result_def)
qed

lemma gcl_loop_edit:
  assumes "cb_rep b l" "2 * length inp + (if cb_idx b + 1 < cb_size b then 1 else 2) \<le> fuel"
  shows "line_outcome lf alloc l inp (gcl_loop fuel lf alloc b inp)"
  using assms
proof (induction fuel arbitrary: b l inp)
  case 0
  then show ?case by (auto split: if_splits)
next
  case (Suc fuel)
  have full: "line_outcome lf alloc l inp (case cliBuf_enlarge alloc b1 of
        (True, b'') \<Rightarrow> gcl_loop fuel lf alloc b'' r | (False, b'') \<Rightarrow> Some (None, b'', r))"
    if b1: "cb_rep b1 l1" "edit lf l inp = edit lf l1 r" "2 * length r + 1 \<le> fuel" for b1 l1 r
  proof -
    obtain ok b2 where e: "cliBuf_enlarge alloc b1 = (ok, b2)" by (cases "cliBuf_enlarge alloc b1")
    note er = enlarge_rep [OF b1(1) e]
    show ?thesis
    proof (cases ok)
      case True
      with Suc.IH [OF er(1), of r] er b1 e show ?thesis by (simp add: line_outcome_def)
    next
      case False
      then have "\<not> (\<forall>n. alloc n)" using e by (auto simp: cliBuf_enlarge_def Let_def split: if_splits)
      with False e er(1) show ?thesis by (auto simp: line_outcome_def)
    qed
  qed
  show ?case
  proof (cases "cb_idx b + 1 < cb_size b")
    case False
    then show ?thesis using full [OF Suc.prems(1), of inp] Suc.prems(2) by (simp add: cli_get_commandline_def)
  next
    case True
    from cg_loop_edit [OF Suc.prems(1) True, of lf inp] obtain ret b' r where
      c: "cg_loop lf False b inp = Some (ret, b', r)" and
      cases: "(ret = CMDL_LINE_BUF_FULL \<and> length r < length inp \<and> (\<exists>l'. cb_rep b' l' \<and> edit lf l inp = edit lf l' r)) \<or>
       (ret = CMDL_INCOMPLETE \<and> (\<exists>l'. cb_rep b' l' \<and> edit lf l inp = (None, l', r))) \<or>
       (ret = CMDL_DONE \<and> (\<exists>s m. cb_rep b' [] \<and> cb_buf b' = s @ NUL # m \<and> edit lf l inp = (Some s, [], r)))"
      by blast
    from cases show ?thesis
    proof (elim disjE conjE exE)
      fix l' assume "ret = CMDL_LINE_BUF_FULL" "length r < length inp" "cb_rep b' l'" "edit lf l inp = edit lf l' r"
      then show ?thesis using full [of b' l' r] Suc.prems(2) True c by (simp add: cli_get_commandline_def)
    next
      fix l' assume "ret = CMDL_INCOMPLETE" "cb_rep b' l'" "edit lf l inp = (None, l', r)"
      then show ?thesis using True c by (auto simp: cli_get_commandline_def line_outcome_def line_result_def)
    next
      fix s m assume "ret = CMDL_DONE" "cb_rep b' []" "cb_buf b' = s @ NUL # m" "edit lf l inp = (Some s, [], r)"
      then show ?thesis using True c done_result [of b' s m]
        by (auto simp: cli_get_commandline_def line_outcome_def split: if_splits)
    qed
  qed
qed

lemma get_commandline_edit:
  assumes "cb_rep b l"
  shows "line_outcome lf alloc l inp (get_commandline lf alloc b inp)"
proof (cases "cb_buf b = []")
  case False
  then show ?thesis using gcl_loop_edit [OF assms] by (simp add: get_commandline_def del: gcl_loop.simps)
next
  case True
  obtain ok b2 where e: "cliBuf_enlarge alloc b = (ok, b2)" by (cases "cliBuf_enlarge alloc b")
  note er = enlarge_rep [OF assms e]
  show ?thesis
  proof (cases ok)
    case True
    then show ?thesis using gcl_loop_edit [OF er(1)] e \<open>cb_buf b = []\<close>
      by (simp add: get_commandline_def del: gcl_loop.simps)
  next
    case False
    then have "\<not> (\<forall>n. alloc n)" using e by (auto simp: cliBuf_enlarge_def Let_def split: if_splits)
    with False e er(1) True show ?thesis by (auto simp: line_outcome_def get_commandline_def)
  qed
qed

end
