(* ===== verification/CliParse.thy ===== *)
theory CliParse
  imports CStd
begin

text \<open>
  The in-place tokenizer of command lines (cli/cmdline_parse.cc). The line is a memory block,
  pointers into it are indexes; an access outside of the block is the outcome None. The
  terminators are written into the line, the parameters point into it.
\<close>

record clpar =
  par_key :: nat
  par_val :: "nat option"

section \<open>The model\<close>

function skip_leading_whitespace :: "char list \<Rightarrow> nat \<Rightarrow> (char list \<times> nat) option" where
  "skip_leading_whitespace m i =
     (if \<not> i < length m then None
      else if m ! i = CHR '' '' then skip_leading_whitespace (m[i := NUL]) (Suc i) else Some (m, i))"
  by pat_completeness auto
termination by (relation "measure (\<lambda>(m, i). length m - i)") auto

function find_next_space_eq_eol :: "char list \<Rightarrow> nat \<Rightarrow> nat option" where
  "find_next_space_eq_eol m i =
     (if \<not> i < length m then None
      else if m ! i \<noteq> NUL \<and> m ! i \<noteq> CHR '' '' \<and> m ! i \<noteq> CHR ''='' then find_next_space_eq_eol m (Suc i)
      else Some i)"
  by pat_completeness auto
termination by (relation "measure (\<lambda>(m, i). length m - i)") auto

text \<open>The second scanner of the file has the same body.\<close>

definition find_next_whitespace_or_eol :: "char list \<Rightarrow> nat \<Rightarrow> nat option" where
  "find_next_whitespace_or_eol = find_next_space_eq_eol"

function strchr_at :: "char list \<Rightarrow> nat \<Rightarrow> char \<Rightarrow> nat option option" where
  "strchr_at m i c =
     (if \<not> i < length m then None
      else if m ! i = c then Some (Some i)
      else if m ! i = NUL then Some None else strchr_at m (Suc i) c)"
  by pat_completeness auto
termination by (relation "measure (\<lambda>(m, i, c). length m - i)") auto

declare skip_leading_whitespace.simps [simp del] find_next_space_eq_eol.simps [simp del] strchr_at.simps [simp del]

text \<open>
  From behind the = of a key: None for \<open>return -1\<close>, else the line, the start of the value and
  where to go on.
\<close>

definition parse_value :: "char list \<Rightarrow> nat \<Rightarrow> (char list \<times> nat \<times> nat) option option" where
  "parse_value m i =
     (if \<not> i < length m then None
      else if m ! i = CHR '';'' \<or> m ! i = CHR '' '' then Some None
      else let quoted = (m ! i = CHR 0x22); j = (if quoted then Suc i else i) in
        if \<not> j < length m then None
        else if m ! j = NUL then Some None
        else (case (if quoted then strchr_at m j (CHR 0x22) else map_option Some (find_next_whitespace_or_eol m j)) of
            None \<Rightarrow> None
          | Some None \<Rightarrow> Some None
          | Some (Some e) \<Rightarrow>
              if \<not> e < length m then None
              else if m ! e \<noteq> NUL then Some (Some (m[e := NUL], j, Suc e)) else Some (Some (m, j, e))))"

text \<open>
  The loop. \<open>p\<close> is the number of parameters kept so far, \<open>mid\<close> is cli_msgid. Every
  iteration consumes a character of the line, so its length bounds them. The result is the return
  value, the line, the parameter array and cli_msgid.
\<close>

fun parse_loop ::
  "nat \<Rightarrow> char list \<Rightarrow> nat \<Rightarrow> clpar list \<Rightarrow> nat \<Rightarrow> u16 \<Rightarrow> (int \<times> char list \<times> clpar list \<times> u16) option" where
  "parse_loop 0 m cl ps p mid = None"
| "parse_loop (Suc fuel) m cl ps p mid =
     (if \<not> p < length ps then Some (-1, m, ps, mid)
      else (case skip_leading_whitespace m cl of
        None \<Rightarrow> None
      | Some (m1, k) \<Rightarrow>
          if m1 ! k = NUL then Some (int p, m1, ps, mid)
          else (case find_next_space_eq_eol m1 k of
            None \<Rightarrow> None
          | Some e \<Rightarrow>
              if m1 ! e \<noteq> CHR ''='' then
                parse_loop fuel m1 e (ps[p := \<lparr>par_key = k, par_val = None\<rparr>]) (Suc p) mid
              else (case parse_value (m1[e := NUL]) (Suc e) of
                None \<Rightarrow> None
              | Some None \<Rightarrow> Some (-1, m1[e := NUL], ps[p := (ps ! p)\<lparr>par_key := k\<rparr>], mid)
              | Some (Some (m2, v, cl')) \<Rightarrow>
                  (let ps' = ps[p := \<lparr>par_key = k, par_val = Some v\<rparr>] in
                   if c_str (drop k m2) = ''mid'' then
                     parse_loop fuel m2 cl' ps' p (word_of_int (atoi (c_str (drop v m2))))
                   else parse_loop fuel m2 cl' ps' (Suc p) mid)))))"

definition cli_parseCommandline :: "char list \<Rightarrow> clpar list \<Rightarrow> (int \<times> char list \<times> clpar list \<times> u16) option" where
  "cli_parseCommandline m ps = parse_loop (Suc (length m)) m 0 ps 0 0"

section \<open>The grammar\<close>

text \<open>
  What a line means: words separated by blanks, each a key or key=value; a value may be quoted,
  and an unquoted one ends at a blank or at another =.
\<close>

definition word_char :: "char \<Rightarrow> bool" where
  "word_char c \<longleftrightarrow> c \<noteq> CHR '' '' \<and> c \<noteq> CHR ''=''"

definition value_of :: "string \<Rightarrow> (string \<times> string) option" where
  "value_of s = (case s of
     [] \<Rightarrow> None
   | c # cs \<Rightarrow>
       if c = CHR '';'' \<or> c = CHR '' '' then None
       else if c = CHR 0x22 then
         (if CHR 0x22 \<in> set cs then Some (takeWhile (\<lambda>x. x \<noteq> CHR 0x22) cs, tl (dropWhile (\<lambda>x. x \<noteq> CHR 0x22) cs))
          else None)
       else Some (takeWhile word_char s, tl (dropWhile word_char s)))"

datatype token = TEnd | TError | Tok string "string option" string

definition skip_blanks :: "string \<Rightarrow> string" where
  "skip_blanks s = dropWhile (\<lambda>c. c = CHR '' '') s"

definition next_token :: "string \<Rightarrow> token" where
  "next_token s = (case skip_blanks s of
     [] \<Rightarrow> TEnd
   | c # cs \<Rightarrow>
       (case dropWhile word_char (c # cs) of
          [] \<Rightarrow> Tok (takeWhile word_char (c # cs)) None []
        | d # r \<Rightarrow>
            if d = CHR ''='' then
              (case value_of r of None \<Rightarrow> TError | Some (v, r') \<Rightarrow> Tok (takeWhile word_char (c # cs)) (Some v) r')
            else Tok (takeWhile word_char (c # cs)) None (d # r)))"

lemma dropWhile_ConsD: "dropWhile P xs = c # cs \<Longrightarrow> \<not> P c \<and> Suc (length cs) \<le> length xs"
  by (induction xs) (auto split: if_splits)

lemma tl_dropWhile_length: "length (tl (dropWhile P xs)) \<le> length xs"
  by (induction xs) auto

lemma tl_dropWhile_shorter: "xs \<noteq> [] \<Longrightarrow> length (tl (dropWhile P xs)) < length xs"
  using tl_dropWhile_length [of P "tl xs"] by (cases xs) auto

lemma skip_blanks_Cons: "skip_blanks s = c # cs \<Longrightarrow> c \<noteq> CHR '' '' \<and> Suc (length cs) \<le> length s"
  unfolding skip_blanks_def by (drule dropWhile_ConsD) auto

lemma value_of_shorter: "value_of s = Some (v, r) \<Longrightarrow> length r < length s"
  using tl_dropWhile_length [of "\<lambda>x. x \<noteq> CHR 0x22" "tl s"] tl_dropWhile_shorter [of s word_char]
  by (auto simp: value_of_def split: list.splits if_splits)

lemma next_token_shorter:
  assumes "next_token s = Tok k v r"
  shows "length r < length s"
proof (cases "skip_blanks s")
  case Nil
  then show ?thesis using assms by (simp add: next_token_def)
next
  case c: (Cons c cs)
  note l1 = skip_blanks_Cons [OF c]
  show ?thesis
  proof (cases "dropWhile word_char (c # cs)")
    case Nil
    then show ?thesis using assms c l1 by (auto simp: next_token_def split: if_splits)
  next
    case (Cons d r1)
    note l2 = dropWhile_ConsD [OF Cons]
    show ?thesis
    proof (cases "d = CHR ''=''")
      case True
      then obtain v' where "value_of r1 = Some (v', r)"
        using assms c Cons by (auto simp: next_token_def simp del: dropWhile.simps split: option.splits)
      from value_of_shorter [OF this] l1 l2 show ?thesis by simp
    next
      case False
      then have "d = CHR '' ''" using l2 by (simp add: word_char_def)
      then have "word_char c" using l1 Cons by (cases "word_char c") auto
      then have "dropWhile word_char cs = d # r1" using Cons by simp
      moreover have "r = d # r1"
        using assms c Cons False by (simp add: next_token_def del: dropWhile.simps)
      ultimately show ?thesis using dropWhile_ConsD [of word_char cs d r1] l1 by simp
    qed
  qed
qed

function tokens :: "string \<Rightarrow> (string \<times> string option) list option" where
  "tokens s = (case next_token s of
     TEnd \<Rightarrow> Some []
   | TError \<Rightarrow> None
   | Tok k v r \<Rightarrow> map_option ((#) (k, v)) (tokens r))"
  by pat_completeness auto
termination by (relation "measure length") (auto dest: next_token_shorter)

declare tokens.simps [simp del]

definition is_mid :: "string \<times> string option \<Rightarrow> bool" where
  "is_mid kv \<longleftrightarrow> fst kv = ''mid'' \<and> snd kv \<noteq> None"

definition mid_of :: "u16 \<Rightarrow> (string \<times> string option) list \<Rightarrow> u16" where
  "mid_of mid kvs = fold (\<lambda>kv m. if is_mid kv then word_of_int (atoi (the (snd kv))) else m) kvs mid"


section \<open>The scanners on a line inside of its block\<close>

text \<open>
  The block is what was scanned, the rest of the line, its terminator, and what follows it; the
  position is the length of the scanned part.
\<close>

abbreviation block :: "char list \<Rightarrow> string \<Rightarrow> char list \<Rightarrow> char list" where
  "block pre s post \<equiv> pre @ s @ NUL # post"

lemma skip_blanks_simps [simp]:
  "skip_blanks [] = []"
  "skip_blanks (c # cs) = (if c = CHR '' '' then skip_blanks cs else c # cs)"
  by (simp_all add: skip_blanks_def)

lemma length_skip_blanks: "length (skip_blanks s) \<le> length s"
  by (simp add: skip_blanks_def length_dropWhile_le)

lemma no_nul_skip_blanks: "no_nul s \<Longrightarrow> no_nul (skip_blanks s)"
  by (auto simp: no_nul_def skip_blanks_def dest: set_dropWhileD)

lemma skip_block:
  "skip_leading_whitespace (block pre s post) (length pre) =
    (let pre' = pre @ replicate (length s - length (skip_blanks s)) NUL
     in Some (block pre' (skip_blanks s) post, length pre'))"
proof (induction s arbitrary: pre)
  case Nil
  then show ?case by (subst skip_leading_whitespace.simps) simp
next
  case (Cons c s)
  show ?case
  proof (cases "c = CHR '' ''")
    case True
    have "skip_leading_whitespace (block pre (c # s) post) (length pre)
        = skip_leading_whitespace (block (pre @ [NUL]) s post) (length (pre @ [NUL]))"
      using True by (subst skip_leading_whitespace.simps) simp
    then show ?thesis using Cons.IH [of "pre @ [NUL]"] True length_skip_blanks [of s]
      by (simp add: Let_def Suc_diff_le)
  next
    case False
    then show ?thesis by (subst skip_leading_whitespace.simps) simp
  qed
qed

lemma find_block:
  "no_nul s \<Longrightarrow> find_next_space_eq_eol (block pre s post) (length pre) = Some (length pre + length (takeWhile word_char s))"
proof (induction s arbitrary: pre)
  case Nil
  then show ?case by (subst find_next_space_eq_eol.simps) simp
next
  case (Cons c s)
  show ?case
    using Cons.IH [of "pre @ [c]"] Cons.prems
    by (subst find_next_space_eq_eol.simps) (cases "word_char c"; simp; simp add: word_char_def)
qed

lemma strchr_block:
  "no_nul s \<Longrightarrow> c \<noteq> NUL \<Longrightarrow> strchr_at (block pre s post) (length pre) c =
    Some (if c \<in> set s then Some (length pre + length (takeWhile (\<lambda>x. x \<noteq> c) s)) else None)"
proof (induction s arbitrary: pre)
  case Nil
  then show ?case by (subst strchr_at.simps) simp
next
  case (Cons d s)
  show ?case
    using Cons.IH [of "pre @ [d]"] Cons.prems by (subst strchr_at.simps) simp
qed

text \<open>
  A string of the scanned part stands at index \<open>k\<close>: terminated, or ending where the rest
  begins with a blank or is empty.
\<close>

definition str_at :: "char list \<Rightarrow> string \<Rightarrow> nat \<Rightarrow> string \<Rightarrow> bool" where
  "str_at pre s k w \<longleftrightarrow> no_nul w \<and> (\<exists>a. length a = k \<and>
     ((\<exists>b. pre = a @ w @ NUL # b) \<or> (pre = a @ w \<and> (s = [] \<or> hd s = CHR '' ''))))"

lemma str_atI: "pre = a @ w @ NUL # b \<Longrightarrow> length a = k \<Longrightarrow> no_nul w \<Longrightarrow> str_at pre s k w"
  by (auto simp: str_at_def)

lemma str_at_pending: "no_nul w \<Longrightarrow> s = [] \<or> hd s = CHR '' '' \<Longrightarrow> str_at (a @ w) s (length a) w"
  by (auto simp: str_at_def)

lemma str_at_end:
  assumes "str_at pre [] k w"
  shows "c_str (drop k (block pre [] post)) = w"
proof -
  from assms obtain a where a: "length a = k" "no_nul w"
    "(\<exists>b. pre = a @ w @ NUL # b) \<or> pre = a @ w" by (auto simp: str_at_def)
  from a(3) obtain r where "block pre [] post = a @ w @ NUL # r" by auto
  with a(1,2) show ?thesis by (simp add: c_str_append_nul)
qed

lemma str_at_fixed: "str_at pre s k w \<Longrightarrow> s \<noteq> [] \<Longrightarrow> hd s \<noteq> CHR '' '' \<Longrightarrow> str_at (pre @ x) s' k w"
  by (auto simp: str_at_def)

lemma str_at_skip:
  assumes "str_at pre s k w"
  shows "str_at (pre @ replicate (length s - length (skip_blanks s)) NUL) (skip_blanks s) k w"
proof (cases "s \<noteq> [] \<and> hd s = CHR '' ''")
  case True
  then obtain s1 where s: "s = CHR '' '' # s1" by (cases s) auto
  have "length s - length (skip_blanks s) = Suc (length s1 - length (skip_blanks s1))"
    using s length_skip_blanks [of s1] by (simp add: Suc_diff_le)
  then show ?thesis using assms by (auto simp: str_at_def)
next
  case False
  then have "skip_blanks s = s" by (cases s) auto
  then show ?thesis using assms by simp
qed

text \<open>The value behind an =.\<close>

lemma parse_plain:
  assumes "find_next_space_eq_eol m i = Some e" "i < length m" "m ! i \<noteq> CHR '';''" "m ! i \<noteq> CHR '' ''"
    "m ! i \<noteq> CHR 0x22" "m ! i \<noteq> NUL" "e < length m" "m ! e \<noteq> NUL"
  shows "parse_value m i = Some (Some (m[e := NUL], i, Suc e))"
  using assms by (simp add: parse_value_def find_next_whitespace_or_eol_def)

lemma value_block:
  assumes "no_nul s"
  shows "case value_of s of
      None \<Rightarrow> parse_value (block pre s post) (length pre) = Some None
    | Some (v, r) \<Rightarrow> (\<exists>x vi. parse_value (block pre s post) (length pre)
          = Some (Some (block (pre @ x) r post, vi, length (pre @ x))) \<and> str_at (pre @ x) r vi v \<and> no_nul r \<and>
        c_str (drop vi (block (pre @ x) r post)) = v)"
proof (cases s)
  case Nil
  then show ?thesis by (simp add: value_of_def parse_value_def)
next
  case (Cons c cs)
  have nn: "no_nul (c # cs)" "c \<noteq> NUL" using assms Cons by simp_all
  show ?thesis
  proof (cases "c = CHR '';'' \<or> c = CHR '' ''")
    case True
    then show ?thesis using Cons by (auto simp: value_of_def parse_value_def)
  next
    case ok: False
    show ?thesis
    proof (cases "c = CHR 0x22")
      case quoted: True
      note sc = strchr_block [of cs "CHR 0x22" "pre @ [c]" post]
      show ?thesis
      proof (cases "CHR 0x22 \<in> set cs")
        case True
        then obtain v r where vr: "cs = v @ CHR 0x22 # r" "CHR 0x22 \<notin> set v" by (auto dest: split_list_first)
        have "cs ! 0 \<noteq> NUL" using nn(1) True by (cases cs) auto
        moreover have "takeWhile (\<lambda>x. x \<noteq> CHR 0x22) cs = v" "dropWhile (\<lambda>x. x \<noteq> CHR 0x22) cs = CHR 0x22 # r"
          using vr by (auto simp: takeWhile_append dropWhile_append)
        moreover have "str_at (pre @ c # v @ [NUL]) r (Suc (length pre)) v"
          using nn(1) vr(1) by (intro str_atI [of _ "pre @ [c]" _ "[]"]) auto
        ultimately show ?thesis
          using Cons quoted sc nn vr
          by (auto simp: value_of_def parse_value_def nth_append list_update_append Let_def c_str_append_nul
            intro!: exI [of _ "c # v @ [NUL]"] exI [of _ "Suc (length pre)"])
      next
        case False
        then show ?thesis using Cons quoted sc nn
          by (auto simp: value_of_def parse_value_def nth_append Let_def)
      qed
    next
      case plain: False
      let ?v = "takeWhile word_char (c # cs)" and ?d = "dropWhile word_char (c # cs)"
      note fb = find_block [OF nn(1), of pre post]
      have nv: "no_nul ?v" "no_nul ?d" using nn(1)
        by (auto simp: no_nul_def dest: set_takeWhileD set_dropWhileD)
      have split: "c # cs = ?v @ ?d" by simp
      show ?thesis
      proof (cases ?d)
        case Nil
        then have v: "?v = c # cs" using split by (metis append_Nil2)
        moreover have "str_at (pre @ ?v) [] (length pre) ?v" using nv(1) by (auto simp: str_at_def)
        ultimately show ?thesis
          using Cons ok plain fb nn Nil v c_str_append_nul [OF nn(1), of post]
          by (auto simp: value_of_def parse_value_def find_next_whitespace_or_eol_def nth_append Let_def c_str_append_nul
            simp del: takeWhile.simps dropWhile.simps dropWhile_eq_Nil_conv takeWhile_eq_all_conv
            intro!: exI [of _ "?v"] exI [of _ "length pre"])
      next
        case d: (Cons d r)
        define v where "v = ?v"
        have cs: "c # cs = v @ d # r" using split unfolding d v_def .
        have m: "block pre (c # cs) post = (pre @ v) @ d # r @ NUL # post" unfolding cs by simp
        have e: "find_next_space_eq_eol (block pre (c # cs) post) (length pre) = Some (length (pre @ v))"
          using fb unfolding v_def by (simp only: length_append)
        have nn': "d \<noteq> NUL" "no_nul r" "no_nul v" using nv d unfolding v_def by simp_all
        have "parse_value (block pre (c # cs) post) (length pre)
            = Some (Some ((block pre (c # cs) post)[length (pre @ v) := NUL], length pre, Suc (length (pre @ v))))"
        proof (rule parse_plain [OF e])
          have "block pre (c # cs) post ! length (pre @ v) = d" unfolding m by (rule nth_append_length)
          then show "block pre (c # cs) post ! length (pre @ v) \<noteq> NUL" using nn'(1) by simp
          show "length (pre @ v) < length (block pre (c # cs) post)" unfolding m by simp
        qed (use ok plain nn(2) in \<open>simp_all\<close>)
        moreover have "(block pre (c # cs) post)[length (pre @ v) := NUL] = block (pre @ v @ [NUL]) r post"
          unfolding m list_update_append_exact by simp
        moreover have "str_at (pre @ v @ [NUL]) r (length pre) v"
          using nn'(3) by (intro str_atI [of _ pre _ "[]"]) auto
        moreover have "c_str (drop (length pre) (block (pre @ v @ [NUL]) r post)) = v"
          using nn'(3) by (simp add: c_str_append_nul)
        moreover have "value_of s = Some (v, r)"
          using Cons ok plain d by (simp add: value_of_def v_def del: takeWhile.simps dropWhile.simps)
        ultimately show ?thesis using Cons nn'(2)
          by (auto intro!: exI [of _ "v @ [NUL]"] exI [of _ "length pre"])
      qed
    qed
  qed
qed


section \<open>The parser implements the grammar\<close>

definition par_at :: "char list \<Rightarrow> string \<Rightarrow> clpar \<Rightarrow> string \<times> string option \<Rightarrow> bool" where
  "par_at pre s p kv \<longleftrightarrow> str_at pre s (par_key p) (fst kv) \<and>
     rel_option (str_at pre s) (par_val p) (snd kv)"

lemma par_at_fixed: "par_at pre s p kv \<Longrightarrow> s \<noteq> [] \<Longrightarrow> hd s \<noteq> CHR '' '' \<Longrightarrow> par_at (pre @ x) s' p kv"
  by (auto simp: par_at_def intro: str_at_fixed elim!: option.rel_mono_strong)

lemma par_at_skip:
  "par_at pre s p kv \<Longrightarrow> par_at (pre @ replicate (length s - length (skip_blanks s)) NUL) (skip_blanks s) p kv"
  by (auto simp: par_at_def intro: str_at_skip elim!: option.rel_mono_strong)

definition par_read :: "char list \<Rightarrow> clpar \<Rightarrow> string \<times> string option" where
  "par_read m p = (c_str (drop (par_key p) m), map_option (\<lambda>v. c_str (drop v m)) (par_val p))"

lemma par_at_read: "par_at pre [] p kv \<Longrightarrow> par_read (block pre [] post) p = kv"
  by (cases kv; cases "par_val p") (auto simp: par_at_def par_read_def option_rel_Some1 dest: str_at_end)

definition pars_at :: "char list \<Rightarrow> string \<Rightarrow> clpar list \<Rightarrow> (string \<times> string option) list \<Rightarrow> bool" where
  "pars_at pre s ps kvs \<longleftrightarrow> length kvs \<le> length ps \<and> list_all2 (par_at pre s) (take (length kvs) ps) kvs"

lemma pars_read:
  assumes "pars_at pre [] ps kvs"
  shows "map (par_read (block pre [] post)) (take (length kvs) ps) = kvs"
proof -
  have "list_all2 (par_at pre []) (take (length kvs) ps) kvs" using assms by (simp add: pars_at_def)
  then show ?thesis by (induction rule: list_all2_induct) (simp_all add: par_at_read [of pre, simplified])
qed

lemma pars_at_skip:
  "pars_at pre s ps kvs \<Longrightarrow> pars_at (pre @ replicate (length s - length (skip_blanks s)) NUL) (skip_blanks s) ps kvs"
  by (auto simp: pars_at_def intro: par_at_skip elim!: list_all2_mono)

lemma pars_at_fixed:
  "pars_at pre s ps kvs \<Longrightarrow> s \<noteq> [] \<Longrightarrow> hd s \<noteq> CHR '' '' \<Longrightarrow> pars_at (pre @ x) s' (ps[length kvs := p]) kvs"
  by (auto simp: pars_at_def intro: par_at_fixed elim!: list_all2_mono)

lemma pars_at_snoc:
  assumes "pars_at pre s (ps[length kvs := p]) kvs" "length kvs < length ps" "par_at pre s p kv"
  shows "pars_at pre s (ps[length kvs := p]) (kvs @ [kv])"
  using assms by (auto simp: pars_at_def take_Suc_conv_app_nth intro!: list_all2_appendI)

definition parsed :: "nat \<Rightarrow> (string \<times> string option) list \<Rightarrow> u16 \<Rightarrow> string \<Rightarrow> (int \<times> char list \<times> clpar list \<times> u16) option \<Rightarrow> bool" where
  "parsed n kvs mid s res \<longleftrightarrow> (\<exists>ret m ps mid'. res = Some (ret, m, ps, mid') \<and> length ps = n \<and>
     (case tokens s of
        None \<Rightarrow> ret = -1
      | Some ts \<Rightarrow> let all = kvs @ filter (\<lambda>t. \<not> is_mid t) ts in
          if length all < n then ret = int (length all) \<and> map (par_read m) (take (length all) ps) = all \<and> mid' = mid_of mid ts
          else ret = -1))"

lemma parsed_cons:
  assumes "next_token s = Tok k v r"
    and "parsed n (if is_mid (k, v) then kvs else kvs @ [(k, v)])
      (if is_mid (k, v) then word_of_int (atoi (the v)) else mid) r res"
  shows "parsed n kvs mid s res"
  using assms by (subst (asm) parsed_def, subst parsed_def, subst tokens.simps)
    (cases "tokens r"; cases "is_mid (k, v)"; force simp: Let_def mid_of_def)

lemma parse_step:
  assumes "p < length ps" "skip_leading_whitespace m cl = Some (m1, k)" "m1 ! k \<noteq> NUL"
    "find_next_space_eq_eol m1 k = Some e"
  shows "parse_loop (Suc fuel) m cl ps p mid =
    (if m1 ! e \<noteq> CHR ''='' then parse_loop fuel m1 e (ps[p := \<lparr>par_key = k, par_val = None\<rparr>]) (Suc p) mid
     else (case parse_value (m1[e := NUL]) (Suc e) of
         None \<Rightarrow> None
       | Some None \<Rightarrow> Some (-1, m1[e := NUL], ps[p := (ps ! p)\<lparr>par_key := k\<rparr>], mid)
       | Some (Some (m2, v, cl')) \<Rightarrow>
           (let ps' = ps[p := \<lparr>par_key = k, par_val = Some v\<rparr>] in
            if c_str (drop k m2) = ''mid'' then parse_loop fuel m2 cl' ps' p (word_of_int (atoi (c_str (drop v m2))))
            else parse_loop fuel m2 cl' ps' (Suc p) mid)))"
  using assms by simp

lemma parse_loop_parsed:
  assumes "length s < fuel" "no_nul s" "pars_at pre s ps kvs"
  shows "parsed (length ps) kvs mid s (parse_loop fuel (block pre s post) (length pre) ps (length kvs) mid)"
  using assms
proof (induction fuel arbitrary: s pre ps kvs mid)
  case 0
  then show ?case by simp
next
  case (Suc fuel)
  let ?n = "length ps" and ?p = "length kvs"
  let ?pre = "pre @ replicate (length s - length (skip_blanks s)) NUL" and ?s = "skip_blanks s"
  have at: "pars_at ?pre ?s ps kvs" by (rule pars_at_skip [OF Suc.prems(3)])
  have nn: "no_nul ?s" by (rule no_nul_skip_blanks [OF Suc.prems(2)])
  show ?case
  proof (cases "?p < ?n")
    case False
    then show ?thesis by (auto simp: parsed_def Let_def split: option.splits)
  next
    case p: True
    note sk = skip_block [of pre s post, unfolded Let_def]
    show ?thesis
    proof (cases ?s)
      case Nil
      then have tk: "tokens s = Some []" by (subst tokens.simps) (simp add: next_token_def)
      have "map (par_read (block ?pre [] post)) (take ?p ps) = kvs"
        using at Nil by (intro pars_read) simp
      with p tk sk Nil show ?thesis by (simp add: parsed_def mid_of_def nth_append)
    next
      case (Cons c cs)
      note sb = skip_blanks_Cons [OF Cons]
      have c: "c \<noteq> NUL" "hd ?s \<noteq> CHR '' ''" "?s \<noteq> []" using nn Cons sb by auto
      let ?k = "takeWhile word_char ?s" and ?d = "dropWhile word_char ?s"
      have split: "?s = ?k @ ?d" by simp
      have nk: "no_nul ?k" "no_nul ?d" using nn
        by (auto simp: no_nul_def dest: set_takeWhileD set_dropWhileD)
      note fn = find_block [OF nn, of ?pre post]
      have start: "parse_loop (Suc fuel) (block pre s post) (length pre) ps ?p mid =
        (if block ?pre ?s post ! (length ?pre + length ?k) \<noteq> CHR ''='' then
           parse_loop fuel (block ?pre ?s post) (length ?pre + length ?k)
             (ps[?p := \<lparr>par_key = length ?pre, par_val = None\<rparr>]) (Suc ?p) mid
         else (case parse_value ((block ?pre ?s post)[length ?pre + length ?k := NUL]) (Suc (length ?pre + length ?k)) of
             None \<Rightarrow> None
           | Some None \<Rightarrow> Some (-1, (block ?pre ?s post)[length ?pre + length ?k := NUL],
               ps[?p := (ps ! ?p)\<lparr>par_key := length ?pre\<rparr>], mid)
           | Some (Some (m2, v, cl')) \<Rightarrow>
               (let ps' = ps[?p := \<lparr>par_key = length ?pre, par_val = Some v\<rparr>] in
                if c_str (drop (length ?pre) m2) = ''mid'' then
                  parse_loop fuel m2 cl' ps' ?p (word_of_int (atoi (c_str (drop v m2))))
                else parse_loop fuel m2 cl' ps' (Suc ?p) mid)))"
      proof (rule parse_step [OF p sk _ fn])
        show "block ?pre ?s post ! length ?pre \<noteq> NUL" using Cons c(1) by (simp add: nth_append)
      qed
      have shorter: "length r < fuel" if "next_token s = Tok k v r" for k v r
        using next_token_shorter [OF that] Suc.prems(1) by simp
      show ?thesis
      proof (cases "?d = [] \<or> hd ?d \<noteq> CHR ''=''")
        case noval: True
        let ?par = "\<lparr>par_key = length ?pre, par_val = None\<rparr>"
        have tk: "next_token s = Tok ?k None ?d"
          using Cons noval
          by (cases ?d) (auto simp add: next_token_def simp del: takeWhile.simps dropWhile.simps dropWhile_eq_Nil_conv)
        have blank: "?d = [] \<or> hd ?d = CHR '' ''"
          using noval hd_dropWhile [of word_char ?s] by (auto simp: word_char_def)
        have m: "block ?pre ?s post = block (?pre @ ?k) ?d post" using split by simp
        have "block (?pre @ ?k) ?d post ! length (?pre @ ?k) \<noteq> CHR ''=''"
          using noval by (cases ?d) (simp_all add: nth_append del: takeWhile.simps dropWhile.simps)
        note neq = this
        have len: "length ?pre + length ?k = length (?pre @ ?k)" by simp
        have go: "parse_loop (Suc fuel) (block pre s post) (length pre) ps ?p mid =
            parse_loop fuel (block (?pre @ ?k) ?d post) (length (?pre @ ?k)) (ps[?p := ?par]) (Suc ?p) mid"
          unfolding start m len if_P [OF neq] by (rule refl)
        have "par_at (?pre @ ?k) ?d ?par (?k, None)"
          unfolding par_at_def using str_at_pending [OF nk(1) blank, of ?pre] by simp
        then have "pars_at (?pre @ ?k) ?d (ps[?p := ?par]) (kvs @ [(?k, None)])"
          using p by (intro pars_at_snoc pars_at_fixed [OF at c(3,2)]) simp_all
        from Suc.IH [OF shorter [OF tk] nk(2) this, of mid] show ?thesis
          unfolding go by (intro parsed_cons [OF tk]) (simp add: is_mid_def del: takeWhile.simps)
      next
        case False
        then obtain r where d: "?d = CHR ''='' # r" by (cases ?d) auto
        let ?P = "?pre @ ?k @ [NUL]"
        have m: "block ?pre ?s post = (?pre @ ?k) @ CHR ''='' # r @ NUL # post" using split d by simp
        have m1: "(block ?pre ?s post)[length ?pre + length ?k := NUL] = block ?P r post"
          "block ?pre ?s post ! (length ?pre + length ?k) = CHR ''=''"
          unfolding m by (simp_all add: list_update_append nth_append del: append_assoc)
        have nr: "no_nul r" using nk(2) d by simp
        have lP: "Suc (length ?pre + length ?k) = length ?P" by simp
        show ?thesis
        proof (cases "value_of r")
          case None
          then have "next_token s = TError"
            using Cons d by (simp add: next_token_def del: takeWhile.simps dropWhile.simps)
          then have "tokens s = None" by (subst tokens.simps) simp
          moreover have "parse_value (block ?P r post) (length ?P) = Some None"
            using value_block [OF nr, of ?P post] None by simp
          ultimately show ?thesis unfolding start m1 lP by (simp add: parsed_def)
        next
          case (Some vr)
          obtain v r' where vr: "vr = (v, r')" by (cases vr)
          have tk: "next_token s = Tok ?k (Some v) r'"
            using Cons d Some vr by (simp add: next_token_def del: takeWhile.simps dropWhile.simps)
          from value_block [OF nr, of ?P post] Some vr obtain x vi where
            x: "parse_value (block ?P r post) (length ?P) = Some (Some (block (?P @ x) r' post, vi, length (?P @ x)))"
            "str_at (?P @ x) r' vi v" "no_nul r'" "c_str (drop vi (block (?P @ x) r' post)) = v" by auto
          let ?par = "\<lparr>par_key = length ?pre, par_val = Some vi\<rparr>"
          have key: "c_str (drop (length ?pre) (block (?P @ x) r' post)) = ?k"
            using nk(1) by (simp add: c_str_append_nul)
          have go: "parse_loop (Suc fuel) (block pre s post) (length pre) ps ?p mid =
              (if ?k = ''mid'' then parse_loop fuel (block (?P @ x) r' post) (length (?P @ x)) (ps[?p := ?par]) ?p (word_of_int (atoi v))
               else parse_loop fuel (block (?P @ x) r' post) (length (?P @ x)) (ps[?p := ?par]) (Suc ?p) mid)"
            unfolding start m1 lP x(1) option.case prod.case Let_def key x(4) by simp
          have par: "par_at (?P @ x) r' ?par (?k, Some v)"
            using x(2) nk(1) str_atI [of "?P @ x" ?pre ?k x "length ?pre"] by (simp add: par_at_def)
          have old: "pars_at (?P @ x) r' (ps[?p := ?par]) kvs"
            using pars_at_fixed [OF at c(3,2), of "?k @ [NUL] @ x" r' ?par] by simp
          have new: "pars_at (?P @ x) r' (ps[?p := ?par]) (kvs @ [(?k, Some v)])"
            using p by (intro pars_at_snoc old par) simp
          show ?thesis
            unfolding go
            using Suc.IH [OF shorter [OF tk] x(3) old, of "word_of_int (atoi v)"] Suc.IH [OF shorter [OF tk] x(3) new, of mid]
            by (intro parsed_cons [OF tk]) (auto simp: is_mid_def)
        qed
      qed
    qed
  qed
qed


lemma parse_commandline_parsed:
  assumes "no_nul s"
  shows "parsed (length ps) [] 0 s (cli_parseCommandline (s @ NUL # post) ps)"
  using parse_loop_parsed [of s "Suc (length (s @ NUL # post))" "[]" ps "[]" 0 post] assms
  by (simp add: cli_parseCommandline_def pars_at_def del: parse_loop.simps)

end
