(* ===== verification/CliProps.thy ===== *)
theory CliProps
  imports CliLine CliParse
begin

text \<open>The properties of the command line reader and of its parser.\<close>

text \<open>C7: get_commandline is a line editor on its static buffer: whatever was typed before and
  whatever comes in, it never stores outside of the buffer, the buffer holds the line typed so
  far, and, when memory can be had, the line it returns (after terminators outside of quotes,
  with backspaces applied and unterminated lines thrown away), the line left and the input left are those of the editor.\<close>

theorem get_commandline_edits:
  assumes "cb_rep b l"
  shows "\<exists>out b' l' r. get_commandline lf alloc b inp = Some (out, b', r) \<and> cb_rep b' l' \<and>
    ((\<forall>n. alloc n) \<longrightarrow> (\<exists>lo. edit lf l inp = (lo, l', r) \<and> out = line_result lo))"
  using get_commandline_edit [OF assms, of lf alloc inp] by (simp add: line_outcome_def)

theorem get_commandline_edits_witness:
  "\<exists>b' r. get_commandline False (\<lambda>n. True) cli_buf_init (map Some [CHR ''h'', CHR ''x'', CHR 0x08, CHR ''i'', CHR '';'']) =
     Some (Some ''hi'', b', r) \<and> cb_rep b' []"
proof -
  have e: "edit False [] (map Some [CHR ''h'', CHR ''x'', CHR 0x08, CHR ''i'', CHR '';'']) = (Some ''hi'', [], [])"
    by (simp add: is_crlf_def cl_terminator_def in_quote_def)
  have "line_result (Some ''hi'') = Some ''hi''"
    by (simp add: line_result_def is_crlf_def c_str_def)
  with e get_commandline_edits [OF cb_rep_init, of False "\<lambda>n. True" "map Some [CHR ''h'', CHR ''x'', CHR 0x08, CHR ''i'', CHR '';'']"]
  show ?thesis by (auto simp del: edit.simps)
qed

text \<open>C8: cli_parseCommandline implements the command line grammar in place: on a line without
  errors whose parameters (those other than mid=...) are fewer than the slots of the array, it returns their number, the slots
  point to exactly the keys and values of the line in order, each terminated within the line's memory, and
  cli_msgid is the last mid; on a malformed line, or when the parameters fill the array, it returns -1. It never
  reads or writes outside of the line.\<close>

theorem parse_commandline_grammar:
  assumes "no_nul s"
  shows "\<exists>ret m ps' mid. cli_parseCommandline (s @ NUL # post) ps = Some (ret, m, ps', mid) \<and> length ps' = length ps \<and>
     (case tokens s of
        None \<Rightarrow> ret = -1
      | Some ts \<Rightarrow> let args = filter (\<lambda>t. \<not> is_mid t) ts in
          if length args < length ps
          then ret = int (length args) \<and> map (par_read m) (take (length args) ps') = args \<and> mid = mid_of 0 ts
          else ret = -1)"
  using parse_commandline_parsed [OF assms, of ps post] unfolding parsed_def append_Nil .

theorem parse_commandline_grammar_witness:
  "\<exists>m ps' mid. cli_parseCommandline (''set a=1 mid=7 b'' @ [NUL]) (replicate 20 \<lparr>par_key = 0, par_val = None\<rparr>) = Some (3, m, ps', mid) \<and>
     map (par_read m) (take 3 ps') = [(''set'', None), (''a'', Some ''1''), (''b'', None)] \<and> mid = 7"
proof -
  have t: "tokens ''set a=1 mid=7 b'' = Some [(''set'', None), (''a'', Some ''1''), (''mid'', Some ''7''), (''b'', None)]"
    by code_simp
  have "mid_of 0 [(''set'', None), (''a'', Some ''1''), (''mid'', Some ''7''), (''b'', None)] = 7"
    by code_simp
  with t parse_commandline_grammar [of "''set a=1 mid=7 b''" "[]" "replicate 20 \<lparr>par_key = 0, par_val = None\<rparr>"]
  show ?thesis by (auto simp: is_mid_def Let_def numeral_3_eq_3)
qed

end
