(* ===== verification/UoCallbacks.thy ===== *)
theory UoCallbacks
  imports CStd
begin

text \<open>
  The publish/subscribe table of the output module (uout/callbacks.cc, uout/uo_callbacks.h).

  A callback is a value of type \<open>'c\<close>; None is the null pointer. Publishing returns the calls
  made, in order; the callbacks are taken not to change the table while they run.
\<close>

definition cbs_size :: nat where "cbs_size = 8"

record uo_flags =
  evt_flags :: u16
  fmt_flags :: u8
  tgt_flags :: u8

definition uo_flags0 :: uo_flags where
  "uo_flags0 = \<lparr>evt_flags = 0, fmt_flags = 0, tgt_flags = 0\<rparr>"

text \<open>The bits of the unions, as the host and the ESP32 compilers lay them out.\<close>

definition EVT_pin_change :: u16 where "EVT_pin_change = 0x01"
definition EVT_ip_address_change :: u16 where "EVT_ip_address_change = 0x02"
definition EVT_gen_app_error_message :: u16 where "EVT_gen_app_error_message = 0x10"
definition EVT_gen_app_log_message :: u16 where "EVT_gen_app_log_message = 0x20"
definition FMT_json :: u8 where "FMT_json = 0x01"
definition FMT_raw :: u8 where "FMT_raw = 0x02"
definition FMT_txt :: u8 where "FMT_txt = 0x04"
definition TGT_websocket :: u8 where "TGT_websocket = 0x01"

record so_arg_pch =
  pch_gpio_num :: u8
  pch_level :: bool
  pch_level_int :: u8

datatype uo_ptr = PText string | PPin so_arg_pch

type_synonym uo_msg = "uo_ptr \<times> uo_flags"

text \<open>The two arrays: the slots and their enable flags.\<close>

record 'c uo_state =
  uo_cbs :: "('c option \<times> uo_flags) list"
  uo_enable :: "bool list"

definition uo_init :: "'c uo_state" where
  "uo_init = \<lparr>uo_cbs = replicate cbs_size (None, uo_flags0), uo_enable = replicate cbs_size False\<rparr>"

abbreviation slot_cb :: "'c uo_state \<Rightarrow> nat \<Rightarrow> 'c option" where
  "slot_cb st i \<equiv> fst (uo_cbs st ! i)"

abbreviation slot_flags :: "'c uo_state \<Rightarrow> nat \<Rightarrow> uo_flags" where
  "slot_flags st i \<equiv> snd (uo_cbs st ! i)"

section \<open>Filter\<close>

definition get_all_callbacks :: "'c uo_state \<Rightarrow> nat list" where
  "get_all_callbacks st = filter (\<lambda>i. uo_enable st ! i) [0..<cbs_size]"

definition flags_match :: "uo_flags \<Rightarrow> uo_flags \<Rightarrow> bool" where
  "flags_match it flags \<longleftrightarrow>
     \<not> (evt_flags it AND evt_flags flags = 0 \<and> tgt_flags it AND tgt_flags flags = 0) \<and>
     fmt_flags it AND fmt_flags flags \<noteq> 0"

definition uoCb_filter_idxs :: "'c uo_state \<Rightarrow> uo_flags \<Rightarrow> nat list \<Rightarrow> nat list" where
  "uoCb_filter_idxs st flags idxs = filter (\<lambda>i. flags_match (slot_flags st i) flags) idxs"

definition uoCb_filter :: "'c uo_state \<Rightarrow> uo_flags \<Rightarrow> nat list" where
  "uoCb_filter st flags = uoCb_filter_idxs st flags (get_all_callbacks st)"

section \<open>Subscriptions\<close>

definition sub_pass :: "'c uo_state \<Rightarrow> 'c \<Rightarrow> nat \<Rightarrow> nat option" where
  "sub_pass st cb pass = find (\<lambda>i.
     (pass = 0 \<longrightarrow> slot_cb st i = Some cb) \<and>
     (pass = 1 \<longrightarrow> slot_cb st i = None) \<and>
     (pass = 2 \<longrightarrow> \<not> uo_enable st ! i)) [0..<cbs_size]"

definition sub_set :: "'c uo_state \<Rightarrow> 'c \<Rightarrow> uo_flags \<Rightarrow> nat \<Rightarrow> 'c uo_state" where
  "sub_set st cb flags i = \<lparr>uo_cbs = (uo_cbs st)[i := (Some cb, flags)], uo_enable = (uo_enable st)[i := True]\<rparr>"

definition uoCb_subscribe :: "'c uo_state \<Rightarrow> 'c \<Rightarrow> uo_flags \<Rightarrow> bool \<times> 'c uo_state" where
  "uoCb_subscribe st cb flags =
     (case sub_pass st cb 0 of
        Some i \<Rightarrow> (True, sub_set st cb flags i)
      | None \<Rightarrow> (case sub_pass st cb 1 of
          Some i \<Rightarrow> (True, sub_set st cb flags i)
        | None \<Rightarrow> (case sub_pass st cb 2 of
            Some i \<Rightarrow> (True, sub_set st cb flags i)
          | None \<Rightarrow> (False, st))))"

definition uoCb_unsubscribe :: "'c uo_state \<Rightarrow> 'c \<Rightarrow> bool \<times> 'c uo_state" where
  "uoCb_unsubscribe st cb =
     (case find (\<lambda>i. slot_cb st i = Some cb) [0..<cbs_size] of
        Some i \<Rightarrow> (True, st\<lparr>uo_enable := (uo_enable st)[i := False]\<rparr>)
      | None \<Rightarrow> (False, st))"

section \<open>Publishing\<close>

fun uoCb_publish :: "'c uo_state \<Rightarrow> nat list \<Rightarrow> uo_ptr \<Rightarrow> uo_flags \<Rightarrow> ('c \<times> uo_msg) list" where
  "uoCb_publish st [] ptr flags = []"
| "uoCb_publish st (i # idxs) ptr flags =
     (case slot_cb st i of
        None \<Rightarrow> []
      | Some cb \<Rightarrow> (cb, ptr, flags) # uoCb_publish st idxs ptr flags)"

definition uoCb_publish_wsJson :: "'c uo_state \<Rightarrow> string \<Rightarrow> ('c \<times> uo_msg) list" where
  "uoCb_publish_wsJson st json = List.map_filter (\<lambda>(cbo, fl).
     (case cbo of
        None \<Rightarrow> None
      | Some cb \<Rightarrow> if tgt_flags fl AND TGT_websocket = 0 then None
          else Some (cb, PText json, \<lparr>evt_flags = 0, fmt_flags = FMT_json, tgt_flags = TGT_websocket\<rparr>))) (uo_cbs st)"

text \<open>A text that snprintf puts into a buffer of \<open>n\<close> bytes is published when it fits.\<close>

definition publish_text :: "'c uo_state \<Rightarrow> uo_flags \<Rightarrow> nat \<Rightarrow> string \<Rightarrow> ('c \<times> uo_msg) list" where
  "publish_text st flags n txt =
     (let idxs = uoCb_filter st flags in
      if idxs \<noteq> [] \<and> n > length txt then uoCb_publish st idxs (PText txt) flags else [])"

definition pin_json :: "so_arg_pch \<Rightarrow> string" where
  "pin_json args = ''{'' @ [CHR 0x22] @ ''mcu'' @ [CHR 0x22] @ '':{'' @ [CHR 0x22] @ ''gpio'' @
     print_nat (unat (pch_gpio_num args)) @ [CHR 0x22] @ '':'' @ (if pch_level args then ''1'' else ''0'') @ ''}}''"

definition uoCb_publish_pinChange :: "'c uo_state \<Rightarrow> so_arg_pch \<Rightarrow> ('c \<times> uo_msg) list" where
  "uoCb_publish_pinChange st args =
     (let raw = \<lparr>evt_flags = EVT_pin_change, fmt_flags = FMT_raw, tgt_flags = 0\<rparr>;
          js = raw\<lparr>fmt_flags := FMT_json\<rparr>;
          idxs = uoCb_filter st raw
      in (if idxs \<noteq> [] then uoCb_publish st idxs (PPin args) raw else []) @
         publish_text st js 64 (pin_json args))"

definition uoCb_publish_ipAddress :: "bool \<Rightarrow> 'c uo_state \<Rightarrow> string \<Rightarrow> ('c \<times> uo_msg) list" where
  "uoCb_publish_ipAddress as_txt st ip_addr =
     (let js = \<lparr>evt_flags = EVT_ip_address_change, fmt_flags = FMT_json, tgt_flags = 0\<rparr>
      in publish_text st js 64 (''{'' @ [CHR 0x22] @ ''mcu'' @ [CHR 0x22] @ '':{'' @ [CHR 0x22] @ ''ipaddr'' @ [CHR 0x22] @
           '':'' @ [CHR 0x22] @ ip_addr @ [CHR 0x22] @ ''}}'') @
         (if as_txt then publish_text st (js\<lparr>fmt_flags := FMT_txt\<rparr>) 64 (''tf: ipaddr: '' @ ip_addr @ '';'') else []))"

text \<open>quote_string on its destination: what is written in front of the terminator.\<close>

fun quote_string :: "string \<Rightarrow> string" where
  "quote_string [] = []"
| "quote_string (c # cs) = (if c = CHR 0x22 then CHR 0x5C # CHR 0x22 # quote_string cs else c # quote_string cs)"

record log_message =
  lm_tag :: string
  lm_txt :: string
  lm_level :: nat

definition log_json :: "log_message \<Rightarrow> string" where
  "log_json msg = ''{'' @ [CHR 0x22] @ ''log'' @ [CHR 0x22] @ '':{'' @ [CHR 0x22] @ ''wl'' @ [CHR 0x22] @ '':'' @
     print_nat (lm_level msg) @ '', '' @ [CHR 0x22] @ ''tag'' @ [CHR 0x22] @ '':'' @ [CHR 0x22] @ lm_tag msg @ [CHR 0x22] @
     '', '' @ [CHR 0x22] @ ''txt'' @ [CHR 0x22] @ '':'' @ [CHR 0x22] @ quote_string (lm_txt msg) @ [CHR 0x22] @ ''}}''"

definition uoCb_publish_logMessage :: "bool \<Rightarrow> 'c uo_state \<Rightarrow> log_message \<Rightarrow> ('c \<times> uo_msg) list" where
  "uoCb_publish_logMessage as_txt st msg =
     (let ev = EVT_gen_app_log_message OR (if lm_level msg > 0 then EVT_gen_app_error_message else 0);
          js = \<lparr>evt_flags = ev, fmt_flags = FMT_json, tgt_flags = 0\<rparr>
      in publish_text st js 256 (log_json msg) @
         (if as_txt then publish_text st (js\<lparr>fmt_flags := FMT_txt\<rparr>) 128
            (''tf: log:'' @ print_nat (lm_level msg) @ '':  '' @ lm_tag msg @ '': '' @ lm_txt msg) else []))"

definition uoCb_jsonFromMsg :: "uo_msg \<Rightarrow> uo_ptr option" where
  "uoCb_jsonFromMsg msg = (if fmt_flags (snd msg) AND FMT_json \<noteq> 0 then Some (fst msg) else None)"

definition uoCb_txtFromMsg :: "uo_msg \<Rightarrow> uo_ptr option" where
  "uoCb_txtFromMsg msg = (if fmt_flags (snd msg) AND FMT_txt \<noteq> 0 then Some (fst msg) else None)"

section \<open>The subscriptions the table holds\<close>

text \<open>Sizes; an enabled slot has a callback; no callback stands in two slots.\<close>

definition uo_unique :: "'c uo_state \<Rightarrow> bool" where
  "uo_unique st \<longleftrightarrow> (\<forall>c i j. i < cbs_size \<and> j < cbs_size \<and> slot_cb st i = Some c \<and> slot_cb st j = Some c \<longrightarrow> i = j)"

definition uo_inv :: "'c uo_state \<Rightarrow> bool" where
  "uo_inv st \<longleftrightarrow> length (uo_cbs st) = cbs_size \<and> length (uo_enable st) = cbs_size \<and>
     (\<forall>i<cbs_size. uo_enable st ! i \<longrightarrow> slot_cb st i \<noteq> None) \<and>
     uo_unique st"

definition subscribed :: "'c uo_state \<Rightarrow> 'c \<Rightarrow> uo_flags \<Rightarrow> bool" where
  "subscribed st cb flags \<longleftrightarrow> (\<exists>i<cbs_size. uo_enable st ! i \<and> slot_cb st i = Some cb \<and> slot_flags st i = flags)"

lemma uo_inv_init: "uo_inv uo_init"
  by (auto simp: uo_inv_def uo_unique_def uo_init_def)

lemma subscribed_init: "\<not> subscribed uo_init cb flags"
  by (auto simp: subscribed_def uo_init_def)

lemma find_upt_Some: "find P [0..<n] = Some i \<Longrightarrow> i < n \<and> P i"
  by (auto simp: find_Some_iff)

lemma find_upt_None: "find P [0..<n] = None \<longleftrightarrow> (\<forall>i<n. \<not> P i)"
  by (auto simp: find_None_iff)

lemma sub_set_nth:
  assumes "uo_inv st" "i < cbs_size" "j < cbs_size"
  shows "uo_cbs (sub_set st cb flags i) ! j = (if j = i then (Some cb, flags) else uo_cbs st ! j)"
    "uo_enable (sub_set st cb flags i) ! j = (j = i \<or> uo_enable st ! j)"
  using assms by (auto simp: sub_set_def uo_inv_def nth_list_update)

lemma sub_set_inv:
  assumes "uo_inv st" "i < cbs_size" "\<forall>j<cbs_size. slot_cb st j = Some cb \<longrightarrow> j = i"
  shows "uo_inv (sub_set st cb flags i)"
proof -
  let ?st = "sub_set st cb flags i"
  note nth = sub_set_nth [OF assms(1,2)]
  have "uo_unique ?st"
    unfolding uo_unique_def
  proof (intro allI impI)
    fix c j k assume a: "j < cbs_size \<and> k < cbs_size \<and> slot_cb ?st j = Some c \<and> slot_cb ?st k = Some c"
    have u: "uo_unique st" using assms(1) by (simp add: uo_inv_def)
    show "j = k"
    proof (cases "c = cb")
      case True
      with a nth assms(3) show ?thesis by (cases "j = i"; cases "k = i") auto
    next
      case False
      with a nth u show ?thesis unfolding uo_unique_def by (cases "j = i"; cases "k = i") auto
    qed
  qed
  moreover have "uo_enable ?st ! j \<longrightarrow> slot_cb ?st j \<noteq> None" if "j < cbs_size" for j
    using assms(1) that nth by (auto simp: uo_inv_def)
  moreover have "length (uo_cbs ?st) = cbs_size" "length (uo_enable ?st) = cbs_size"
    using assms(1) by (simp_all add: uo_inv_def sub_set_def)
  ultimately show ?thesis by (simp add: uo_inv_def)
qed

lemma sub_set_subscribed:
  assumes "uo_inv st" "i < cbs_size" "\<forall>j<cbs_size. slot_cb st j = Some cb \<longrightarrow> j = i"
    "slot_cb st i \<noteq> Some cb \<longrightarrow> \<not> uo_enable st ! i"
  shows "subscribed (sub_set st cb flags i) c f \<longleftrightarrow> (if c = cb then f = flags else subscribed st c f)"
proof -
  let ?st = "sub_set st cb flags i"
  note nth = sub_set_nth [OF assms(1,2)]
  show ?thesis
  proof (cases "c = cb")
    case True
    have "subscribed ?st cb flags"
      unfolding subscribed_def using assms(2) nth [OF assms(2)] by (intro exI [of _ i]) simp
    moreover have "f = flags" if "subscribed ?st cb f"
    proof -
      from that obtain j where j: "j < cbs_size" "slot_cb ?st j = Some cb" "slot_flags ?st j = f"
        by (auto simp: subscribed_def)
      with nth [OF j(1)] assms(3) show ?thesis by (cases "j = i") auto
    qed
    ultimately show ?thesis using True by auto
  next
    case False
    have "uo_enable ?st ! j \<and> slot_cb ?st j = Some c \<and> slot_flags ?st j = f \<longleftrightarrow>
        uo_enable st ! j \<and> slot_cb st j = Some c \<and> slot_flags st j = f" if "j < cbs_size" for j
      using nth [OF that] assms(4) False by (cases "j = i") auto
    then show ?thesis using False unfolding subscribed_def by auto
  qed
qed

lemma sub_pass_Some:
  assumes "sub_pass st cb p = Some i"
  shows "i < cbs_size" "p = 0 \<Longrightarrow> slot_cb st i = Some cb" "p = 1 \<Longrightarrow> slot_cb st i = None" "p = 2 \<Longrightarrow> \<not> uo_enable st ! i"
  using find_upt_Some [OF assms [unfolded sub_pass_def]] by auto

lemma sub_pass_None:
  "sub_pass st cb 0 = None \<longleftrightarrow> (\<forall>i<cbs_size. slot_cb st i \<noteq> Some cb)"
  "sub_pass st cb 1 = None \<longleftrightarrow> (\<forall>i<cbs_size. slot_cb st i \<noteq> None)"
  "sub_pass st cb 2 = None \<longleftrightarrow> (\<forall>i<cbs_size. uo_enable st ! i)"
  unfolding sub_pass_def find_upt_None by auto

text \<open>Where the slot comes from decides what holds of it.\<close>

lemma uo_inv_unique:
  assumes "uo_inv st" "i < cbs_size" "j < cbs_size" "slot_cb st i = Some c" "slot_cb st j = Some c"
  shows "i = j"
proof -
  have "uo_unique st" using assms(1) by (simp add: uo_inv_def)
  then show ?thesis using assms(2-5) unfolding uo_unique_def by blast
qed

definition slot_for :: "'c uo_state \<Rightarrow> 'c \<Rightarrow> nat \<Rightarrow> bool" where
  "slot_for st cb i \<longleftrightarrow> i < cbs_size \<and> (\<forall>j<cbs_size. slot_cb st j = Some cb \<longrightarrow> j = i) \<and>
     (slot_cb st i \<noteq> Some cb \<longrightarrow> \<not> uo_enable st ! i)"

lemma subscribe_slot:
  assumes "uo_inv st" "uoCb_subscribe st cb flags = (True, st')"
  shows "\<exists>i. slot_for st cb i \<and> st' = sub_set st cb flags i"
proof (cases "sub_pass st cb 0")
  case (Some i)
  note s = sub_pass_Some [OF Some]
  have "slot_for st cb i"
    unfolding slot_for_def using s(1,2) uo_inv_unique [OF assms(1)] by simp
  moreover have "st' = sub_set st cb flags i" using assms(2) Some by (simp add: uoCb_subscribe_def)
  ultimately show ?thesis by blast
next
  case None
  then have no: "\<forall>j<cbs_size. slot_cb st j \<noteq> Some cb" by (simp add: sub_pass_None)
  show ?thesis
  proof (cases "sub_pass st cb 1")
    case (Some i)
    note s = sub_pass_Some [OF Some]
    have "\<not> uo_enable st ! i" using assms(1) s(1,3) by (auto simp: uo_inv_def)
    then have "slot_for st cb i" using s(1) no by (simp add: slot_for_def)
    moreover have "st' = sub_set st cb flags i" using assms(2) None Some by (simp add: uoCb_subscribe_def)
    ultimately show ?thesis by blast
  next
    case None1: None
    show ?thesis
    proof (cases "sub_pass st cb 2")
      case (Some i)
      note s = sub_pass_Some [OF Some]
      have "slot_for st cb i" using s(1,4) no by (simp add: slot_for_def)
      moreover have "st' = sub_set st cb flags i" using assms(2) None None1 Some by (simp add: uoCb_subscribe_def)
      ultimately show ?thesis by blast
    next
      case None2: None
      with None None1 assms(2) show ?thesis by (simp add: uoCb_subscribe_def)
    qed
  qed
qed

lemma subscribe_fails:
  assumes "uo_inv st"
  shows "fst (uoCb_subscribe st cb flags) \<longleftrightarrow>
    (\<exists>i<cbs_size. slot_cb st i = Some cb) \<or> (\<exists>i<cbs_size. \<not> uo_enable st ! i)"
proof -
  have "\<exists>i<cbs_size. \<not> uo_enable st ! i" if "i < cbs_size" "slot_cb st i = None" for i
    using assms that by (auto simp: uo_inv_def)
  then show ?thesis
    using sub_pass_None [of st cb] by (auto simp: uoCb_subscribe_def split: option.splits)
qed

lemma subscribe_result:
  assumes "uo_inv st" "uoCb_subscribe st cb flags = (ok, st')"
  shows "uo_inv st'" "subscribed st' c f \<longleftrightarrow> (if ok \<and> c = cb then f = flags else subscribed st c f)"
proof -
  have "uo_inv st' \<and> (subscribed st' c f \<longleftrightarrow> (if ok \<and> c = cb then f = flags else subscribed st c f))"
  proof (cases ok)
    case True
    with assms(2) have "uoCb_subscribe st cb flags = (True, st')" by simp
    from subscribe_slot [OF assms(1) this] obtain i where
      i: "i < cbs_size" "\<forall>j<cbs_size. slot_cb st j = Some cb \<longrightarrow> j = i" "slot_cb st i \<noteq> Some cb \<longrightarrow> \<not> uo_enable st ! i"
        "st' = sub_set st cb flags i" by (auto simp: slot_for_def)
    then show ?thesis
      using sub_set_inv [OF assms(1) i(1,2)] sub_set_subscribed [OF assms(1) i(1,2,3)] True by simp
  next
    case False
    with assms show ?thesis by (auto simp: uoCb_subscribe_def split: option.splits)
  qed
  then show "uo_inv st'" "subscribed st' c f \<longleftrightarrow> (if ok \<and> c = cb then f = flags else subscribed st c f)" by auto
qed

lemma unsubscribe_result:
  assumes "uo_inv st" "uoCb_unsubscribe st cb = (ok, st')"
  shows "uo_inv st'" "subscribed st' c f \<longleftrightarrow> c \<noteq> cb \<and> subscribed st c f"
proof -
  have "uo_inv st' \<and> (subscribed st' c f \<longleftrightarrow> c \<noteq> cb \<and> subscribed st c f)"
  proof (cases "find (\<lambda>i. slot_cb st i = Some cb) [0..<cbs_size]")
    case None
    then have "\<forall>i<cbs_size. slot_cb st i \<noteq> Some cb" by (simp add: find_upt_None)
    then have "\<not> subscribed st cb f" by (auto simp: subscribed_def)
    with None assms show ?thesis by (auto simp: uoCb_unsubscribe_def)
  next
    case (Some i)
    note i = find_upt_Some [OF Some]
    have st': "st' = st\<lparr>uo_enable := (uo_enable st)[i := False]\<rparr>" using assms(2) Some by (simp add: uoCb_unsubscribe_def)
    have len: "length (uo_enable st) = cbs_size" using assms(1) by (simp add: uo_inv_def)
    have uniq: "slot_cb st j = Some cb \<Longrightarrow> j < cbs_size \<Longrightarrow> j = i" for j
      using uo_inv_unique [OF assms(1)] i by simp
    have en: "uo_enable st' ! j \<longleftrightarrow> j \<noteq> i \<and> uo_enable st ! j" if "j < cbs_size" for j
      using st' len that by (cases "j = i") simp_all
    have cbs: "uo_cbs st' = uo_cbs st" using st' by simp
    have "uo_inv st'" using assms(1) st' en by (simp add: uo_inv_def uo_unique_def)
    moreover have "subscribed st' c f \<longleftrightarrow>
        (\<exists>j<cbs_size. j \<noteq> i \<and> uo_enable st ! j \<and> slot_cb st j = Some c \<and> slot_flags st j = f)"
      using en unfolding subscribed_def cbs by blast
    moreover have "\<dots> \<longleftrightarrow> c \<noteq> cb \<and> subscribed st c f"
      using uniq i unfolding subscribed_def by (metis option.inject)
    ultimately show ?thesis by blast
  qed
  then show "uo_inv st'" "subscribed st' c f \<longleftrightarrow> c \<noteq> cb \<and> subscribed st c f" by auto
qed

section \<open>Who gets what\<close>

lemma filter_indices:
  "set (uoCb_filter st flags) = {i. i < cbs_size \<and> uo_enable st ! i \<and> flags_match (slot_flags st i) flags}"
  "distinct (uoCb_filter st flags)" "length (uoCb_filter st flags) \<le> cbs_size"
proof -
  show "set (uoCb_filter st flags) = {i. i < cbs_size \<and> uo_enable st ! i \<and> flags_match (slot_flags st i) flags}"
    by (auto simp: uoCb_filter_def uoCb_filter_idxs_def get_all_callbacks_def)
  show "distinct (uoCb_filter st flags)"
    by (simp add: uoCb_filter_def uoCb_filter_idxs_def get_all_callbacks_def)
  show "length (uoCb_filter st flags) \<le> cbs_size"
    using length_filter_le [of "\<lambda>i. uo_enable st ! i \<and> flags_match (slot_flags st i) flags" "[0..<cbs_size]"]
    by (simp add: uoCb_filter_def uoCb_filter_idxs_def get_all_callbacks_def)
qed

lemma publish_calls:
  "\<forall>i \<in> set idxs. slot_cb st i \<noteq> None \<Longrightarrow>
   uoCb_publish st idxs ptr flags = map (\<lambda>i. (the (slot_cb st i), ptr, flags)) idxs"
  by (induction idxs) auto

lemma publish_filtered:
  fixes ptr :: uo_ptr and flags :: uo_flags
  assumes "uo_inv st"
  defines "calls \<equiv> uoCb_publish st (uoCb_filter st flags) ptr flags"
  shows "distinct calls" "set calls = {(cb, ptr, flags) | cb f. subscribed st cb f \<and> flags_match f flags}"
proof -
  have some: "\<forall>i \<in> set (uoCb_filter st flags). slot_cb st i \<noteq> None"
    using assms(1) filter_indices(1) [of st flags] by (auto simp: uo_inv_def)
  have c: "calls = map (\<lambda>i. (the (slot_cb st i), ptr, flags)) (uoCb_filter st flags)"
    unfolding calls_def by (rule publish_calls [OF some])
  have "inj_on (\<lambda>i. (the (slot_cb st i), ptr, flags)) (set (uoCb_filter st flags))"
  proof (rule inj_onI)
    fix i j assume i: "i \<in> set (uoCb_filter st flags)" and j: "j \<in> set (uoCb_filter st flags)"
      and eq: "(the (slot_cb st i), ptr, flags) = (the (slot_cb st j), ptr, flags)"
    obtain ci cj where c: "slot_cb st i = Some ci" "slot_cb st j = Some cj" using some i j by blast
    then have "slot_cb st j = Some ci" using eq by simp
    moreover have "i < cbs_size" "j < cbs_size" using i j by (simp_all add: filter_indices(1))
    ultimately show "i = j" using uo_inv_unique [OF assms(1)] c(1) by blast
  qed
  with c show "distinct calls" by (simp add: distinct_map filter_indices(2))
  have mem: "i \<in> set (uoCb_filter st flags) \<and> cb = the (slot_cb st i) \<longleftrightarrow>
      i < cbs_size \<and> uo_enable st ! i \<and> slot_cb st i = Some cb \<and> flags_match (slot_flags st i) flags" for i cb
  proof (cases "i \<in> set (uoCb_filter st flags)")
    case True
    then obtain c where "slot_cb st i = Some c" using some by blast
    with True show ?thesis by (auto simp: filter_indices(1))
  next
    case False
    then show ?thesis unfolding filter_indices(1) by blast
  qed
  have "set calls = {(cb, ptr, flags) | cb. \<exists>i. i \<in> set (uoCb_filter st flags) \<and> cb = the (slot_cb st i)}"
    unfolding c by auto
  also have "\<dots> = {(cb, ptr, flags) | cb f. subscribed st cb f \<and> flags_match f flags}"
    unfolding mem subscribed_def by blast
  finally show "set calls = {(cb, ptr, flags) | cb f. subscribed st cb f \<and> flags_match f flags}" .
qed

lemma quote_string_length: "length (quote_string s) \<le> 2 * length s"
  by (induction s) auto

end
