(* ===== verification/UoProps.thy ===== *)
theory UoProps
  imports UoCallbacks
begin

text \<open>The properties of the publish/subscribe table, over the states the program can reach.\<close>

inductive uo_reach :: "'c uo_state \<Rightarrow> bool" where
  uo_reach_init: "uo_reach uo_init"
| uo_reach_sub: "uo_reach st \<Longrightarrow> uoCb_subscribe st cb flags = (ok, st') \<Longrightarrow> uo_reach st'"
| uo_reach_unsub: "uo_reach st \<Longrightarrow> uoCb_unsubscribe st cb = (ok, st') \<Longrightarrow> uo_reach st'"

lemma uo_reach_inv: "uo_reach st \<Longrightarrow> uo_inv st"
  by (induction rule: uo_reach.induct) (auto simp: uo_inv_init dest: subscribe_result(1) unsubscribe_result(1))

lemma uo_reach_subscribe: "uo_reach st \<Longrightarrow> uo_reach (snd (uoCb_subscribe st cb flags))"
  by (rule uo_reach_sub [of st cb flags "fst (uoCb_subscribe st cb flags)"]) simp_all

text \<open>C9: In every state the program can reach, subscribing and unsubscribing keep the table a set of
  subscriptions: a successful subscription replaces the flags of that callback or adds it, an
  unsubscription removes it, no other subscription changes, and subscribing fails only when the callback is new and all
  eight slots are enabled.\<close>

theorem uo_subscription_set:
  assumes "uo_reach st"
  shows "(subscribed (snd (uoCb_subscribe st cb flags)) c f \<longleftrightarrow>
      (if fst (uoCb_subscribe st cb flags) \<and> c = cb then f = flags else subscribed st c f)) \<and>
    (subscribed (snd (uoCb_unsubscribe st cb)) c f \<longleftrightarrow> c \<noteq> cb \<and> subscribed st c f) \<and>
    (fst (uoCb_subscribe st cb flags) \<longleftrightarrow> (\<exists>i<cbs_size. slot_cb st i = Some cb) \<or> (\<exists>i<cbs_size. \<not> uo_enable st ! i))"
proof -
  note inv = uo_reach_inv [OF assms]
  show ?thesis
    by (intro conjI subscribe_result(2) [OF inv prod.collapse [symmetric]] unsubscribe_result(2) [OF inv prod.collapse [symmetric]]
        subscribe_fails [OF inv])
qed

theorem uo_subscription_set_witness:
  "fst (uoCb_subscribe uo_init (7 :: nat) uo_flags0) \<and> subscribed (snd (uoCb_subscribe uo_init (7 :: nat) uo_flags0)) 7 uo_flags0"
proof -
  note u = uo_subscription_set [OF uo_reach_init, of "7 :: nat" uo_flags0 7 uo_flags0]
  have "\<exists>i<cbs_size. \<not> uo_enable (uo_init :: nat uo_state) ! i"
    by (rule exI [of _ 0]) (simp add: uo_init_def cbs_size_def)
  with u show ?thesis by simp
qed

text \<open>C10: In every state the program can reach, publishing an event calls each subscribed callback whose flags ask
  for the event or the target in the format exactly once, and no other.\<close>

theorem uo_publish_exactly_once:
  assumes "uo_reach st"
  shows "distinct (uoCb_publish st (uoCb_filter st flags) ptr flags) \<and>
    set (uoCb_publish st (uoCb_filter st flags) ptr flags) = {(cb, ptr, flags) | cb f. subscribed st cb f \<and> flags_match f flags}"
  using publish_filtered [OF uo_reach_inv [OF assms]] by auto

theorem uo_publish_exactly_once_witness:
  "set (uoCb_publish (uo_init :: nat uo_state) (uoCb_filter (uo_init :: nat uo_state) uo_flags0) (PText ''x'') uo_flags0) = {}"
  by (subst uo_publish_exactly_once [OF uo_reach_init, THEN conjunct2]) (simp add: subscribed_init)

text \<open>uoCb_publish_wsJson does not look at the enable flags: a callback that subscribed to the web
  socket and unsubscribed again still gets every JSON text published there.\<close>

lemma uo_ws_ignores_unsubscribe:
  assumes "uo_reach st" "tgt_flags flags AND TGT_websocket \<noteq> 0"
    and "uoCb_subscribe st cb flags = (True, st1)" "uoCb_unsubscribe st1 cb = (ok, st2)"
  shows "\<not> subscribed st2 cb f \<and>
    (cb, PText json, \<lparr>evt_flags = 0, fmt_flags = FMT_json, tgt_flags = TGT_websocket\<rparr>) \<in> set (uoCb_publish_wsJson st2 json)"
proof -
  have inv: "uo_inv st" by (rule uo_reach_inv [OF assms(1)])
  have inv1: "uo_inv st1" by (rule subscribe_result(1) [OF inv assms(3)])
  have un: "\<not> subscribed st2 cb f" using unsubscribe_result(2) [OF inv1 assms(4)] by simp
  from subscribe_slot [OF inv assms(3)] obtain i where i: "slot_for st cb i" "st1 = sub_set st cb flags i" by blast
  then have "i < cbs_size" by (simp add: slot_for_def)
  then have "uo_cbs st1 ! i = (Some cb, flags)" "i < length (uo_cbs st1)"
    using i(2) inv by (simp_all add: sub_set_def uo_inv_def)
  moreover have "uo_cbs st2 = uo_cbs st1" using assms(4) by (auto simp: uoCb_unsubscribe_def split: option.splits)
  ultimately have "(Some cb, flags) \<in> set (uo_cbs st2)" by (metis nth_mem)
  then have "(cb, PText json, \<lparr>evt_flags = 0, fmt_flags = FMT_json, tgt_flags = TGT_websocket\<rparr>) \<in> set (uoCb_publish_wsJson st2 json)"
    using assms(2) by (force simp: uoCb_publish_wsJson_def List.map_filter_def)
  with un show ?thesis by simp
qed

lemma uo_ws_ignores_unsubscribe_witness:
  "\<exists>st2. uoCb_unsubscribe (snd (uoCb_subscribe uo_init (7 :: nat) (uo_flags0\<lparr>tgt_flags := TGT_websocket\<rparr>))) 7 = (True, st2) \<and>
    uoCb_publish_wsJson st2 ''{}'' \<noteq> []"
proof -
  let ?f = "uo_flags0\<lparr>tgt_flags := TGT_websocket\<rparr>" let ?s = "uoCb_subscribe uo_init (7 :: nat) ?f"
  have s: "?s = (True, snd ?s)" by (simp add: uoCb_subscribe_def sub_pass_def uo_init_def cbs_size_def upt_rec)
  obtain st2 where u: "uoCb_unsubscribe (snd ?s) 7 = (True, st2)"
    by (simp add: uoCb_unsubscribe_def uoCb_subscribe_def sub_pass_def sub_set_def uo_init_def cbs_size_def upt_rec)
  from uo_ws_ignores_unsubscribe [OF uo_reach_init _ s u, of _ "''{}''"] show ?thesis
    using u by (auto simp: TGT_websocket_def uo_flags0_def)
qed

section \<open>Quoting\<close>

text \<open>How a JSON reader takes a string behind its opening quote: the text and what follows.\<close>

fun json_string_body :: "string \<Rightarrow> (string \<times> string) option" where
  "json_string_body [] = None"
| "json_string_body (c # cs) =
     (if c = CHR 0x22 then Some ([], cs)
      else if c = CHR 0x5C then
        (case cs of [] \<Rightarrow> None | d # ds \<Rightarrow> map_option (map_prod ((#) d) id) (json_string_body ds))
      else map_option (map_prod ((#) c) id) (json_string_body cs))"

text \<open>quote_string makes a text that a JSON reader reads back as the text, if it has no backslash; a
  backslash is not escaped, and one at the end of the text takes the closing quote with it.\<close>

lemma quote_string_read_back:
  assumes "CHR 0x5C \<notin> set s"
  shows "json_string_body (quote_string s @ CHR 0x22 # r) = Some (s, r) \<and>
    json_string_body (quote_string (s @ [CHR 0x5C]) @ CHR 0x22 # r) =
      (case json_string_body r of None \<Rightarrow> None | Some (t, r') \<Rightarrow> Some (s @ CHR 0x22 # t, r'))"
  using assms by (induction s) (auto split: option.splits)

lemma quote_string_read_back_witness:
  "json_string_body (quote_string [CHR ''a'', CHR 0x22, CHR ''b''] @ CHR 0x22 # ''}'') = Some ([CHR ''a'', CHR 0x22, CHR ''b''], ''}'')"
  using quote_string_read_back [of "[CHR ''a'', CHR 0x22, CHR ''b'']" "''}''"] by simp

end
