(* ===== verification/JsonBuilder.thy ===== *)
theory JsonBuilder
  imports CStd
begin

text \<open>
  The incremental JSON builder (uout/status_json.cc, uout/uout_builder_json.hh).

  The buffer is a memory block, None while there is none. A failed assertion, an abort and a write
  outside of the buffer are failures. The target the builder writes to is the parameter \<open>snk\<close>:
  it takes its state, the text and the final flag and returns the number of bytes it took. realloc
  succeeds for the sizes \<open>alloc\<close> admits. The option REQUIRE_ROOT_OBJECT is on, as in the
  configuration of the host tests. Numbers are printed by the C library (CStd); a float is the text
  ftoa makes of it.
\<close>

named_theorems jb_defs \<open>definitions of the builder's operations\<close>

datatype jb_fail = JbAssert | JbAbort | JbOverrun

record 's json_builder =
  jb_buf :: "char list option"
  jb_size :: nat
  jb_idx :: nat
  jb_obj_ct :: int
  jb_isMine :: bool
  jb_eof :: bool
  jb_json :: bool
  jb_snk :: 's

type_synonym 's sink = "'s \<Rightarrow> string \<Rightarrow> bool \<Rightarrow> int \<times> 's"

definition BUF_MAX_SIZE :: nat where "BUF_MAX_SIZE = 2048"

definition ROOT_OBJS :: int where "ROOT_OBJS = 1"

text \<open>The two constructors; \<open>json\<close> says that there is a target and that it wants JSON.\<close>

definition jb_new :: "bool \<Rightarrow> 's \<Rightarrow> 's json_builder" where
  "jb_new json s = \<lparr>jb_buf = None, jb_size = 0, jb_idx = 0, jb_obj_ct = 0, jb_isMine = True,
     jb_eof = False, jb_json = json, jb_snk = s\<rparr>"

definition jb_new_buf :: "char list \<Rightarrow> bool \<Rightarrow> 's \<Rightarrow> 's json_builder" where
  "jb_new_buf m json s = \<lparr>jb_buf = Some m, jb_size = length m, jb_idx = 0, jb_obj_ct = 0, jb_isMine = False,
     jb_eof = False, jb_json = json, jb_snk = s\<rparr>"

abbreviation jb_free :: "'s json_builder \<Rightarrow> nat" where
  "jb_free b \<equiv> jb_size b - jb_idx b"

section \<open>The buffer\<close>

definition realloc_buffer :: "(nat \<Rightarrow> bool) \<Rightarrow> nat \<Rightarrow> 's json_builder \<Rightarrow> jb_fail + bool \<times> 's json_builder" where
  "realloc_buffer alloc sz b =
     (if \<not> sz > jb_idx b then Inl JbAssert
      else if sz > BUF_MAX_SIZE then Inr (False, b)
      else if \<not> alloc sz then Inr (False, b)
      else let m = (case jb_buf b of None \<Rightarrow> [] | Some m \<Rightarrow> m);
               m' = take sz m @ replicate (sz - length m) NUL
           in Inr (True, b\<lparr>jb_buf := Some (m'[jb_idx b := NUL]), jb_size := sz\<rparr>))"

definition free_buffer :: "'s json_builder \<Rightarrow> jb_fail + 's json_builder" where
  "free_buffer b = (if jb_buf b = None then Inl JbAssert
     else if \<not> jb_isMine b then Inr b else Inr (b\<lparr>jb_buf := None, jb_size := 0\<rparr>))"

text \<open>One character stays in the buffer, so that a comma can be taken back.\<close>

definition write_some_json :: "'s sink \<Rightarrow> 's json_builder \<Rightarrow> int \<times> 's json_builder" where
  "write_some_json snk b =
     (if jb_eof b then (-1, b)
      else if \<not> jb_json b then (-1, b)
      else if jb_idx b \<le> 1 then (0, b)
      else (case jb_buf b of
          None \<Rightarrow> (-1, b)
        | Some m \<Rightarrow>
            (case snk (jb_snk b) (take (jb_idx b - 1) m) False of
               (n, s') \<Rightarrow>
                 if n \<le> 0 then (n, b\<lparr>jb_snk := s'\<rparr>)
                 else let k = nat n;
                          m' = (if k < jb_idx b then take (jb_idx b - k) (drop k m) @ drop (jb_idx b - k) m else m)
                      in (n, b\<lparr>jb_snk := s', jb_buf := Some m', jb_idx := jb_idx b - k\<rparr>))))"

definition buffer_grow :: "'s sink \<Rightarrow> (nat \<Rightarrow> bool) \<Rightarrow> nat \<Rightarrow> 's json_builder \<Rightarrow> jb_fail + bool \<times> 's json_builder" where
  "buffer_grow snk alloc req b =
     (let tried = jb_buf b \<noteq> None \<and> jb_idx b \<noteq> 0;
          b1 = (if tried then snd (write_some_json snk b) else b)
      in if tried \<and> req + 20 < jb_size b1 - jb_idx b1 then Inr (True, b1)
         else if \<not> jb_isMine b1 then Inr (False, b1)
         else realloc_buffer alloc (if req \<noteq> 0 then req + jb_idx b1 else if jb_size b1 = 0 then 128 else jb_size b1 * 2) b1)"

definition not_enough_buffer ::
  "'s sink \<Rightarrow> (nat \<Rightarrow> bool) \<Rightarrow> string \<Rightarrow> string option \<Rightarrow> 's json_builder \<Rightarrow> jb_fail + bool \<times> 's json_builder" where
  "not_enough_buffer snk alloc key val b =
     (let req = length key + (case val of Some v \<Rightarrow> length v | None \<Rightarrow> 10) + 10
      in if jb_free b < req then map_sum id (map_prod Not id) (buffer_grow snk alloc req b)
         else if jb_buf b = None then Inl JbAssert else Inr (False, b))"

text \<open>csu_copy_cat at the cursor: each piece is checked against the space left, then copied with
  its terminator.\<close>

fun copy_cat :: "char list \<Rightarrow> nat \<Rightarrow> nat \<Rightarrow> string list \<Rightarrow> jb_fail + char list \<times> nat" where
  "copy_cat m i avail [] = Inr (m, i)"
| "copy_cat m i avail (p # ps) =
     (if length p > avail then Inl JbAbort
      else (case mem_copy m i (p @ [NUL]) of
          None \<Rightarrow> Inl JbOverrun
        | Some m' \<Rightarrow> copy_cat m' (i + length p) (avail - length p) ps))"

definition jb_append :: "string list \<Rightarrow> 's json_builder \<Rightarrow> jb_fail + 's json_builder" where
  "jb_append ps b = (case jb_buf b of
     None \<Rightarrow> Inl JbOverrun
   | Some m \<Rightarrow> (case copy_cat m (jb_idx b) (jb_free b) ps of
        Inl e \<Rightarrow> Inl e
      | Inr (m', i) \<Rightarrow> Inr (b\<lparr>jb_buf := Some m', jb_idx := i\<rparr>)))"

text \<open>snprintf at the cursor: what fits is written, the index moves by the whole length.\<close>

definition jb_printf :: "string \<Rightarrow> 's json_builder \<Rightarrow> jb_fail + 's json_builder" where
  "jb_printf txt b = (case jb_buf b of
     None \<Rightarrow> Inl JbOverrun
   | Some m \<Rightarrow>
       (if jb_free b = 0 then Inr (b\<lparr>jb_idx := jb_idx b + length txt\<rparr>)
        else (case mem_copy m (jb_idx b) (take (jb_free b - 1) txt @ [NUL]) of
            None \<Rightarrow> Inl JbOverrun
          | Some m' \<Rightarrow> Inr (b\<lparr>jb_buf := Some m', jb_idx := jb_idx b + length txt\<rparr>))))"

text \<open>The shape the adding functions share: get room, write, check.\<close>

definition jb_put ::
  "'s sink \<Rightarrow> (nat \<Rightarrow> bool) \<Rightarrow> string \<Rightarrow> string option \<Rightarrow> ('s json_builder \<Rightarrow> jb_fail + 's json_builder)
     \<Rightarrow> 's json_builder \<Rightarrow> jb_fail + bool \<times> 's json_builder" where
  "jb_put snk alloc key val wr b =
     (case not_enough_buffer snk alloc key val b of
        Inl e \<Rightarrow> Inl e
      | Inr (True, b1) \<Rightarrow> Inr (False, b1)
      | Inr (False, b1) \<Rightarrow>
          (case wr b1 of
             Inl e \<Rightarrow> Inl e
           | Inr b2 \<Rightarrow> if jb_size b2 > jb_idx b2 then Inr (True, b2) else Inl JbAssert))"

definition jb_nest :: "int \<Rightarrow> jb_fail + bool \<times> 's json_builder \<Rightarrow> jb_fail + bool \<times> 's json_builder" where
  "jb_nest d r = map_sum id (\<lambda>(ok, b). (ok, if ok then b\<lparr>jb_obj_ct := jb_obj_ct b + d\<rparr> else b)) r"

abbreviation DQ :: char where
  "DQ \<equiv> CHR 0x22"

definition quoted_key :: "string \<Rightarrow> string list" where
  "quoted_key key = [[DQ], key, [DQ] @ '':'']"

section \<open>Objects and arrays\<close>

definition open_root_object :: "'s sink \<Rightarrow> (nat \<Rightarrow> bool) \<Rightarrow> string option \<Rightarrow> 's json_builder \<Rightarrow> jb_fail + bool \<times> 's json_builder" where
  "open_root_object snk alloc ido b =
     (if jb_obj_ct b \<noteq> 0 then Inl JbAssert
      else jb_nest 1 (jb_put snk alloc (case ido of None \<Rightarrow> [] | Some i \<Rightarrow> i) None
        (jb_append (case ido of
           None \<Rightarrow> [''{'']
         | Some i \<Rightarrow> [''{'' @ [DQ] @ ''from'' @ [DQ] @ '':'' @ [DQ], i, [DQ] @ '','']))
        (b\<lparr>jb_idx := 0, jb_obj_ct := 0\<rparr>)))"

definition jb_opened :: "'s json_builder \<Rightarrow> bool" where
  "jb_opened b \<longleftrightarrow> \<not> jb_eof b \<and> jb_obj_ct b \<ge> ROOT_OBJS"

text \<open>add_object returns the old index, -1 on failure; the model keeps the truth value.\<close>

definition add_object :: "'s sink \<Rightarrow> (nat \<Rightarrow> bool) \<Rightarrow> string option \<Rightarrow> 's json_builder \<Rightarrow> jb_fail + bool \<times> 's json_builder" where
  "add_object snk alloc key b =
     (if \<not> jb_opened b then Inl JbAssert
      else jb_nest 1 (jb_put snk alloc (case key of None \<Rightarrow> [] | Some k \<Rightarrow> k) None
        (jb_append (case key of None \<Rightarrow> [''{''] | Some k \<Rightarrow> [[DQ], k, [DQ] @ '':{''])) b))"

definition add_array :: "'s sink \<Rightarrow> (nat \<Rightarrow> bool) \<Rightarrow> string option \<Rightarrow> 's json_builder \<Rightarrow> jb_fail + bool \<times> 's json_builder" where
  "add_array snk alloc key b =
     (if \<not> jb_opened b then Inl JbAssert
      else jb_nest 1 (jb_put snk alloc (case key of None \<Rightarrow> [] | Some k \<Rightarrow> k) None
        (jb_append (case key of None \<Rightarrow> [''[''] | Some k \<Rightarrow> [[DQ], k, [DQ] @ '':['']))  b))"

text \<open>Closing takes back a trailing comma; without room the program aborts.\<close>

definition jb_close :: "'s sink \<Rightarrow> (nat \<Rightarrow> bool) \<Rightarrow> string \<Rightarrow> 's json_builder \<Rightarrow> jb_fail + 's json_builder" where
  "jb_close snk alloc txt b =
     (case not_enough_buffer snk alloc [] None b of
        Inl e \<Rightarrow> Inl e
      | Inr (True, _) \<Rightarrow> Inl JbAbort
      | Inr (False, b1) \<Rightarrow>
          (let b2 = (case jb_buf b1 of
             Some m \<Rightarrow> if m ! (jb_idx b1 - 1) = CHR '','' then b1\<lparr>jb_idx := jb_idx b1 - 1\<rparr> else b1 | None \<Rightarrow> b1)
           in (case jb_append [txt] b2 of
                 Inl e \<Rightarrow> Inl e
               | Inr b3 \<Rightarrow> Inr (b3\<lparr>jb_obj_ct := jb_obj_ct b3 - 1\<rparr>))))"

definition close_level :: "'s sink \<Rightarrow> (nat \<Rightarrow> bool) \<Rightarrow> string \<Rightarrow> 's json_builder \<Rightarrow> jb_fail + 's json_builder" where
  "close_level snk alloc txt b =
     (if jb_buf b = None \<or> \<not> (jb_idx b > 0 \<and> jb_obj_ct b > ROOT_OBJS) then Inl JbAssert
      else (case jb_close snk alloc txt b of
          Inl e \<Rightarrow> Inl e
        | Inr b' \<Rightarrow> if jb_size b' > jb_idx b' then Inr b' else Inl JbAssert))"

definition close_object :: "'s sink \<Rightarrow> (nat \<Rightarrow> bool) \<Rightarrow> 's json_builder \<Rightarrow> jb_fail + 's json_builder" where
  "close_object snk alloc = close_level snk alloc ''},''"

definition close_array :: "'s sink \<Rightarrow> (nat \<Rightarrow> bool) \<Rightarrow> 's json_builder \<Rightarrow> jb_fail + 's json_builder" where
  "close_array snk alloc = close_level snk alloc ''],''"

definition close_root_object :: "'s sink \<Rightarrow> (nat \<Rightarrow> bool) \<Rightarrow> 's json_builder \<Rightarrow> jb_fail + 's json_builder" where
  "close_root_object snk alloc b =
     (if jb_buf b = None \<or> jb_obj_ct b \<noteq> 1 \<or> \<not> jb_idx b > 0 then Inl JbAssert
      else jb_close snk alloc ''}'' b)"

section \<open>Values\<close>

definition jb_value ::
  "'s sink \<Rightarrow> (nat \<Rightarrow> bool) \<Rightarrow> string \<Rightarrow> string option \<Rightarrow> ('s json_builder \<Rightarrow> jb_fail + 's json_builder)
     \<Rightarrow> 's json_builder \<Rightarrow> jb_fail + bool \<times> 's json_builder" where
  "jb_value snk alloc key val wr b = (if jb_idx b > 0 then jb_put snk alloc key val wr b else Inl JbAssert)"

definition add_value_s :: "'s sink \<Rightarrow> (nat \<Rightarrow> bool) \<Rightarrow> string \<Rightarrow> 's json_builder \<Rightarrow> jb_fail + bool \<times> 's json_builder" where
  "add_value_s snk alloc val = jb_value snk alloc ''---'' (Some val)
     (\<lambda>b. case jb_append [[DQ]] b of Inl e \<Rightarrow> Inl e
        | Inr b1 \<Rightarrow> (case jb_append [val] b1 of Inl e \<Rightarrow> Inl e | Inr b2 \<Rightarrow> jb_append [[DQ] @ '',''] b2))"

text \<open>The number is converted, but only the comma is appended; add_value (long) is the same.\<close>

definition add_value_d :: "'s sink \<Rightarrow> (nat \<Rightarrow> bool) \<Rightarrow> int \<Rightarrow> 's json_builder \<Rightarrow> jb_fail + bool \<times> 's json_builder" where
  "add_value_d snk alloc val = jb_value snk alloc [] (Some (print_int val)) (jb_append ['',''])"

definition add_value :: "'s sink \<Rightarrow> (nat \<Rightarrow> bool) \<Rightarrow> int \<Rightarrow> 's json_builder \<Rightarrow> jb_fail + bool \<times> 's json_builder" where
  "add_value snk alloc val = jb_value snk alloc [] (Some (print_int val)) (jb_append ['',''])"

definition add_key_value_pair_f :: "'s sink \<Rightarrow> (nat \<Rightarrow> bool) \<Rightarrow> string \<Rightarrow> string \<Rightarrow> 's json_builder \<Rightarrow> jb_fail + bool \<times> 's json_builder" where
  "add_key_value_pair_f snk alloc key txt = jb_value snk alloc key None (jb_append (quoted_key key @ [txt, '','']))"

definition add_key_value_pair_d :: "'s sink \<Rightarrow> (nat \<Rightarrow> bool) \<Rightarrow> string \<Rightarrow> int \<Rightarrow> 's json_builder \<Rightarrow> jb_fail + bool \<times> 's json_builder" where
  "add_key_value_pair_d snk alloc key val = jb_value snk alloc key None (jb_append (quoted_key key @ [print_int val, '','']))"

definition add_key_value_pair_s :: "'s sink \<Rightarrow> (nat \<Rightarrow> bool) \<Rightarrow> string \<Rightarrow> string \<Rightarrow> 's json_builder \<Rightarrow> jb_fail + bool \<times> 's json_builder" where
  "add_key_value_pair_s snk alloc key val = jb_value snk alloc key (Some val)
     (jb_append [[DQ], key, [DQ] @ '':'' @ [DQ], val, [DQ] @ '',''])"

definition put_kv_bool :: "'s sink \<Rightarrow> (nat \<Rightarrow> bool) \<Rightarrow> string \<Rightarrow> bool \<Rightarrow> 's json_builder \<Rightarrow> jb_fail + bool \<times> 's json_builder" where
  "put_kv_bool snk alloc key val = jb_value snk alloc key None
     (jb_append (quoted_key key @ [if val then ''true'' else ''false'', '','']))"

text \<open>The number versions of put_kv differ only in the width of their argument.\<close>

definition kv_text :: "string \<Rightarrow> string \<Rightarrow> string" where
  "kv_text key val = concat (quoted_key key) @ val @ '',''"

definition put_kv_num :: "'s sink \<Rightarrow> (nat \<Rightarrow> bool) \<Rightarrow> string \<Rightarrow> int \<Rightarrow> 's json_builder \<Rightarrow> jb_fail + bool \<times> 's json_builder" where
  "put_kv_num snk alloc key val = jb_value snk alloc key None (jb_printf (kv_text key (print_int val)))"

definition put_kv_s :: "'s sink \<Rightarrow> (nat \<Rightarrow> bool) \<Rightarrow> string \<Rightarrow> string \<Rightarrow> 's json_builder \<Rightarrow> jb_fail + bool \<times> 's json_builder" where
  "put_kv_s = add_key_value_pair_s"

definition add_key :: "'s sink \<Rightarrow> (nat \<Rightarrow> bool) \<Rightarrow> string \<Rightarrow> 's json_builder \<Rightarrow> jb_fail + bool \<times> 's json_builder" where
  "add_key snk alloc key = jb_value snk alloc key None (jb_append (quoted_key key))"

section \<open>Text from elsewhere\<close>

definition copy_to_buf :: "'s sink \<Rightarrow> (nat \<Rightarrow> bool) \<Rightarrow> string \<Rightarrow> 's json_builder \<Rightarrow> jb_fail + bool \<times> 's json_builder" where
  "copy_to_buf snk alloc s b =
     (case not_enough_buffer snk alloc s None b of
        Inl e \<Rightarrow> Inl e
      | Inr (True, b1) \<Rightarrow> Inr (False, b1)
      | Inr (False, b1) \<Rightarrow> (case mem_copy (the (jb_buf b1)) 0 (s @ [NUL]) of
            None \<Rightarrow> Inl JbOverrun
          | Some m \<Rightarrow> Inr (True, b1\<lparr>jb_buf := Some m, jb_idx := length s\<rparr>)))"

text \<open>strcat looks for the terminator from the cursor on.\<close>

definition cat_to_buf :: "'s sink \<Rightarrow> (nat \<Rightarrow> bool) \<Rightarrow> string \<Rightarrow> 's json_builder \<Rightarrow> jb_fail + bool \<times> 's json_builder" where
  "cat_to_buf snk alloc s b =
     (case not_enough_buffer snk alloc s None b of
        Inl e \<Rightarrow> Inl e
      | Inr (True, b1) \<Rightarrow> Inr (False, b1)
      | Inr (False, b1) \<Rightarrow>
          (let m = the (jb_buf b1); z = jb_idx b1 + length (c_str (drop (jb_idx b1) m))
           in (case (if z < length m then mem_copy m z (s @ [NUL]) else None) of
                 None \<Rightarrow> Inl JbOverrun
               | Some m' \<Rightarrow> Inr (True, b1\<lparr>jb_buf := Some m', jb_idx := jb_idx b1 + length s\<rparr>))))"

definition get_a_buffer :: "'s sink \<Rightarrow> (nat \<Rightarrow> bool) \<Rightarrow> nat \<Rightarrow> 's json_builder \<Rightarrow> jb_fail + bool \<times> 's json_builder" where
  "get_a_buffer snk alloc req b = (if jb_free b < req + 1 then buffer_grow snk alloc req b else Inr (True, b))"

definition alloc_bigger_buffer :: "(nat \<Rightarrow> bool) \<Rightarrow> nat \<Rightarrow> 's json_builder \<Rightarrow> jb_fail + bool \<times> 's json_builder" where
  "alloc_bigger_buffer alloc sz b = (if sz \<le> jb_size b then Inr (True, b) else realloc_buffer alloc sz b)"

text \<open>The comparison n \<le> idx is one of unsigned numbers, so a negative n is a huge one.\<close>

definition advance_position :: "'s sink \<Rightarrow> (nat \<Rightarrow> bool) \<Rightarrow> int \<Rightarrow> 's json_builder \<Rightarrow> jb_fail + bool \<times> 's json_builder" where
  "advance_position snk alloc n b =
     (if \<not> n mod 2 ^ 32 \<le> int (jb_idx b) then Inl JbAssert
      else let pos = nat ((int (jb_idx b) + n) mod 2 ^ 32) in
        if \<not> pos \<le> jb_size b then Inr (False, b)
        else let b1 = b\<lparr>jb_idx := pos\<rparr>;
                 r = (if jb_size b1 = jb_idx b1 then buffer_grow snk alloc 1 b1 else Inr (True, b1))
             in (case r of
                   Inl e \<Rightarrow> Inl e
                 | Inr (ok, b2) \<Rightarrow>
                     (let b3 = (if ok then b2 else b2\<lparr>jb_idx := 0\<rparr>) in
                      case jb_buf b3 of
                        None \<Rightarrow> Inl JbOverrun
                      | Some m \<Rightarrow> (case mem_put m (jb_idx b3) NUL of
                            None \<Rightarrow> Inl JbOverrun
                          | Some m' \<Rightarrow> Inr (ok, b3\<lparr>jb_buf := Some m'\<rparr>)))))"

text \<open>
  A generator is given the space left and returns, like snprintf, the length of the text it has
  and what of it it wrote.
\<close>

fun read_json_pass :: "nat \<Rightarrow> 's sink \<Rightarrow> (nat \<Rightarrow> bool) \<Rightarrow> (nat \<Rightarrow> nat \<times> char list) \<Rightarrow> nat \<Rightarrow> 's json_builder
     \<Rightarrow> jb_fail + bool \<times> 's json_builder" where
  "read_json_pass 0 snk alloc f req b = Inr (False, b)"
| "read_json_pass (Suc passes) snk alloc f req b =
     (case (if jb_free b < req then buffer_grow snk alloc req b else Inr (True, b)) of
        Inl e \<Rightarrow> Inl e
      | Inr (False, b1) \<Rightarrow> Inr (False, b1)
      | Inr (True, b1) \<Rightarrow>
          (case f (jb_free b1) of
             (n, w) \<Rightarrow>
               (case jb_buf b1 of
                  None \<Rightarrow> Inl JbOverrun
                | Some m \<Rightarrow>
                    (case mem_copy m (jb_idx b1) w of
                       None \<Rightarrow> Inl JbOverrun
                     | Some m1 \<Rightarrow>
                         if 0 < n \<and> n < jb_free b1 then
                           (let i = jb_idx b1 + n in
                            case mem_copy m1 i ['','' ! 0, NUL] of
                              None \<Rightarrow> Inl JbOverrun
                            | Some m2 \<Rightarrow> if jb_size b1 > i + 1 then Inr (True, b1\<lparr>jb_buf := Some m2, jb_idx := i + 1\<rparr>)
                                else Inl JbAssert)
                         else if n = 0 then Inr (False, b1\<lparr>jb_buf := Some m1\<rparr>)
                         else read_json_pass passes snk alloc f (n + 1 - jb_free b1) (b1\<lparr>jb_buf := Some m1\<rparr>)))))"

definition read_json_from_function :: "'s sink \<Rightarrow> (nat \<Rightarrow> bool) \<Rightarrow> (nat \<Rightarrow> nat \<times> char list) \<Rightarrow> nat \<Rightarrow> 's json_builder
     \<Rightarrow> jb_fail + bool \<times> 's json_builder" where
  "read_json_from_function = read_json_pass 2"

fun read_json_elems :: "'s sink \<Rightarrow> (nat \<Rightarrow> bool) \<Rightarrow> (nat \<Rightarrow> nat \<times> char list) list \<Rightarrow> nat \<Rightarrow> 's json_builder
     \<Rightarrow> jb_fail + bool \<times> 's json_builder" where
  "read_json_elems snk alloc [] req b = Inr (True, b)"
| "read_json_elems snk alloc (f # fs) req b =
     (case read_json_from_function snk alloc f req b of
        Inr (True, b1) \<Rightarrow> read_json_elems snk alloc fs req b1
      | r \<Rightarrow> r)"

definition read_json_arr_from_function :: "'s sink \<Rightarrow> (nat \<Rightarrow> bool) \<Rightarrow> (nat \<Rightarrow> nat \<Rightarrow> nat \<times> char list) \<Rightarrow> nat \<Rightarrow> nat
     \<Rightarrow> 's json_builder \<Rightarrow> jb_fail + bool \<times> 's json_builder" where
  "read_json_arr_from_function snk alloc f len req b =
     (case add_array snk alloc None b of
        Inr (True, b1) \<Rightarrow>
          (case read_json_elems snk alloc (map (\<lambda>i sz. f sz i) [0..<len]) req b1 of
             Inr (True, b2) \<Rightarrow> map_sum id (Pair True) (close_array snk alloc b2)
           | r \<Rightarrow> r)
      | r \<Rightarrow> r)"

fun read_json_rows :: "'s sink \<Rightarrow> (nat \<Rightarrow> bool) \<Rightarrow> (nat \<Rightarrow> nat \<times> char list) list list \<Rightarrow> nat \<Rightarrow> 's json_builder
     \<Rightarrow> jb_fail + bool \<times> 's json_builder" where
  "read_json_rows snk alloc [] req b = Inr (True, b)"
| "read_json_rows snk alloc (fs # rows) req b =
     (case add_array snk alloc None b of
        Inl e \<Rightarrow> Inl e
      | Inr (False, b1) \<Rightarrow> read_json_rows snk alloc rows req b1
      | Inr (True, b1) \<Rightarrow>
          (case read_json_elems snk alloc fs req b1 of
             Inr (True, b2) \<Rightarrow> (case close_array snk alloc b2 of
                Inl e \<Rightarrow> Inl e | Inr b3 \<Rightarrow> read_json_rows snk alloc rows req b3)
           | r \<Rightarrow> r))"

definition read_json_arr2_from_function :: "'s sink \<Rightarrow> (nat \<Rightarrow> bool) \<Rightarrow> (nat \<Rightarrow> nat \<Rightarrow> nat \<Rightarrow> nat \<times> char list) \<Rightarrow> nat \<Rightarrow> nat \<Rightarrow> nat
     \<Rightarrow> 's json_builder \<Rightarrow> jb_fail + bool \<times> 's json_builder" where
  "read_json_arr2_from_function snk alloc f llen rlen req b =
     (case add_array snk alloc None b of
        Inr (True, b1) \<Rightarrow>
          (case read_json_rows snk alloc (map (\<lambda>li. map (\<lambda>ri sz. f sz li ri) [0..<rlen]) [0..<llen]) req b1 of
             Inr (True, b2) \<Rightarrow> map_sum id (Pair True) (close_array snk alloc b2)
           | r \<Rightarrow> r)
      | r \<Rightarrow> r)"

section \<open>Writing to the target\<close>

definition writeln_json :: "'s sink \<Rightarrow> bool \<Rightarrow> 's json_builder \<Rightarrow> int \<times> 's json_builder" where
  "writeln_json snk final b =
     (if jb_eof b \<or> \<not> jb_json b then (-1, b)
      else if jb_idx b = 0 then
        (case snk (jb_snk b) (''{}'' @ [CHR 0x0A, NUL]) final of
           (n, s') \<Rightarrow> (n, b\<lparr>jb_snk := s', jb_idx := 0, jb_eof := final\<rparr>))
      else (case jb_buf b of
          None \<Rightarrow> (-1, b)
        | Some m \<Rightarrow>
            (let ins = jb_free b \<ge> 1;
                 m1 = (if ins then m[jb_idx b := CHR 0x0A] else m);
                 i = (if ins then jb_idx b + 1 else jb_idx b)
             in (case snk (jb_snk b) (take i m1) (if ins then final else False) of
                   (n, s1) \<Rightarrow>
                     (case (if ins then (n, s1) else (case snk s1 [CHR 0x0A] final of (k, s2) \<Rightarrow> (n + k, s2))) of
                        (n', s2) \<Rightarrow> (n', b\<lparr>jb_snk := s2, jb_buf := Some (m1[0 := NUL]), jb_idx := 0, jb_eof := final\<rparr>))))))"

definition write_json :: "'s sink \<Rightarrow> bool \<Rightarrow> 's json_builder \<Rightarrow> int \<times> 's json_builder" where
  "write_json snk final b =
     (if jb_eof b \<or> \<not> jb_json b then (-1, b)
      else (case (if jb_idx b = 0 then Some ''{}'' else map_option (take (jb_idx b)) (jb_buf b)) of
          None \<Rightarrow> (-1, b)
        | Some txt \<Rightarrow> (case snk (jb_snk b) txt final of
            (n, s') \<Rightarrow> (n, b\<lparr>jb_snk := s', jb_idx := 0, jb_eof := final\<rparr>))))"

end
