(* ===== verification/JsonStream.thy ===== *)
theory JsonStream
  imports JsonBuilder
begin

text \<open>
  The builder as a stream: what the target took followed by what the buffer holds. Getting room
  may move text from the buffer to the target, never lose or repeat it; each operation appends its
  text or, when there is no room, nothing.
\<close>

definition jb_pending :: "'s json_builder \<Rightarrow> string" where
  "jb_pending b = (case jb_buf b of None \<Rightarrow> [] | Some m \<Rightarrow> take (jb_idx b) m)"

definition jb_ok :: "'s json_builder \<Rightarrow> bool" where
  "jb_ok b \<longleftrightarrow> (case jb_buf b of None \<Rightarrow> jb_size b = 0 \<and> jb_idx b = 0
     | Some m \<Rightarrow> length m = jb_size b \<and> jb_idx b \<le> jb_size b)"

definition jb_same :: "'s json_builder \<Rightarrow> 's json_builder \<Rightarrow> bool" where
  "jb_same b b' \<longleftrightarrow> jb_eof b' = jb_eof b \<and> jb_json b' = jb_json b \<and> jb_isMine b' = jb_isMine b \<and> jb_obj_ct b' = jb_obj_ct b"

lemma jb_same_refl [simp]: "jb_same b b"
  by (simp add: jb_same_def)

lemma jb_same_trans: "jb_same a b \<Longrightarrow> jb_same b c \<Longrightarrow> jb_same a c"
  by (simp add: jb_same_def)

lemma jb_ok_new [simp]: "jb_ok (jb_new json s)"
  by (simp add: jb_ok_def jb_new_def)

section \<open>Copying to the cursor\<close>

lemma copy_cat_spec:
  assumes "i + length (concat ps) < length m" "avail = length m - i"
  shows "\<exists>m'. copy_cat m i avail ps = Inr (m', i + length (concat ps)) \<and> length m' = length m \<and>
    take (i + length (concat ps)) m' = take i m @ concat ps"
  using assms
proof (induction ps arbitrary: m i avail)
  case Nil
  then show ?case by simp
next
  case (Cons p ps)
  let ?m = "take i m @ (p @ [NUL]) @ drop (i + length (p @ [NUL])) m"
  have mc: "mem_copy m i (p @ [NUL]) = Some ?m" using Cons.prems by (simp add: mem_copy_def)
  have len: "length ?m = length m" by (rule mem_copy_length [OF mc])
  have "i + length p + length (concat ps) < length ?m" "avail - length p = length ?m - (i + length p)"
    unfolding len using Cons.prems by auto
  from Cons.IH [OF this] obtain m' where m': "copy_cat ?m (i + length p) (avail - length p) ps
      = Inr (m', i + length p + length (concat ps))" "length m' = length ?m"
    "take (i + length p + length (concat ps)) m' = take (i + length p) ?m @ concat ps" by blast
  have "take (i + length p) ?m = take i m @ p" using Cons.prems by simp
  with m' mc len Cons.prems show ?case by (auto simp: add.assoc)
qed

lemma append_spec:
  assumes "jb_ok b" "jb_buf b \<noteq> None" "jb_idx b + length (concat ps) < jb_size b"
  shows "\<exists>b'. jb_append ps b = Inr b' \<and> jb_ok b' \<and> jb_same b b' \<and> jb_snk b' = jb_snk b \<and> jb_size b' = jb_size b \<and>
    jb_idx b' = jb_idx b + length (concat ps) \<and> jb_pending b' = jb_pending b @ concat ps \<and> jb_buf b' \<noteq> None"
proof -
  obtain m where m: "jb_buf b = Some m" "length m = jb_size b" using assms by (auto simp: jb_ok_def)
  from copy_cat_spec [of "jb_idx b" ps m "jb_free b"] assms(3) m obtain m' where
    "copy_cat m (jb_idx b) (jb_free b) ps = Inr (m', jb_idx b + length (concat ps))" "length m' = length m"
    "take (jb_idx b + length (concat ps)) m' = take (jb_idx b) m @ concat ps" by auto
  with m assms(3) show ?thesis by (simp add: jb_append_def jb_ok_def jb_same_def jb_pending_def)
qed

lemma printf_spec:
  assumes "jb_buf b = Some m" "length m = jb_size b" "jb_idx b < jb_size b"
  shows "\<exists>m'. jb_printf s b = Inr (b\<lparr>jb_buf := Some m', jb_idx := jb_idx b + length s\<rparr>) \<and> length m' = length m \<and>
    (length s < jb_free b \<longrightarrow> take (jb_idx b + length s) m' = take (jb_idx b) m @ s)"
proof -
  let ?t = "take (jb_free b - 1) s @ [NUL]"
  have "jb_idx b + length ?t \<le> length m" using assms by simp
  then obtain m' where m': "mem_copy m (jb_idx b) ?t = Some m'" "m' = take (jb_idx b) m @ ?t @ drop (jb_idx b + length ?t) m"
    by (simp add: mem_copy_def)
  moreover have "length m' = length m" by (rule mem_copy_length [OF m'(1)])
  moreover have "take (jb_idx b + length s) m' = take (jb_idx b) m @ s" if "length s < jb_free b"
    using that assms unfolding m'(2) by (simp add: min_def)
  ultimately show ?thesis using assms by (auto simp: jb_printf_def)
qed

text \<open>Taking back a comma.\<close>

definition uncomma :: "string \<Rightarrow> string" where
  "uncomma s = (if s \<noteq> [] \<and> last s = CHR '','' then butlast s else s)"

lemma uncomma_append [simp]: "t \<noteq> [] \<Longrightarrow> uncomma (s @ t) = s @ uncomma t"
  by (simp add: uncomma_def butlast_append)

section \<open>A target that takes a prefix\<close>

text \<open>
  The contract of a target: it takes at most what it is given, and the count it returns is how much
  of the front it took (nothing on an error or when it returns 0).
\<close>

locale json_sink =
  fixes snk :: "'s sink" and rcv :: "'s \<Rightarrow> string"
  assumes snk_takes: "snk s txt fin = (n, s') \<Longrightarrow> n \<le> int (length txt) \<and> rcv s' = rcv s @ take (nat n) txt"
begin

definition strm :: "'s json_builder \<Rightarrow> string" where
  "strm b = rcv (jb_snk b) @ jb_pending b"

lemma write_some:
  assumes "jb_ok b" "write_some_json snk b = (n, b')"
  shows "jb_ok b' \<and> jb_same b b' \<and> strm b' = strm b \<and> jb_size b' = jb_size b \<and> (0 < jb_idx b \<longrightarrow> 0 < jb_idx b') \<and>
    (jb_buf b' = None \<longleftrightarrow> jb_buf b = None)"
proof (cases "jb_eof b \<or> \<not> jb_json b \<or> jb_idx b \<le> 1 \<or> jb_buf b = None")
  case True
  with assms show ?thesis by (auto simp: write_some_json_def split: if_splits option.splits)
next
  case False
  then obtain m where m: "jb_buf b = Some m" by auto
  obtain k s' where s: "snk (jb_snk b) (take (jb_idx b - 1) m) False = (k, s')"
    by (cases "snk (jb_snk b) (take (jb_idx b - 1) m) False")
  have len: "length m = jb_size b" "jb_idx b \<le> length m" using assms(1) m by (auto simp: jb_ok_def)
  from snk_takes [OF s] have k: "k \<le> int (jb_idx b - 1)" "rcv s' = rcv (jb_snk b) @ take (nat k) (take (jb_idx b - 1) m)"
    using len by auto
  show ?thesis
  proof (cases "k \<le> 0")
    case True
    with assms False m s k len show ?thesis
      by (auto simp: write_some_json_def jb_ok_def jb_same_def strm_def jb_pending_def)
  next
    case pos: False
    let ?k = "nat k"
    have kk: "?k < jb_idx b" "?k \<le> jb_idx b - 1" using pos k(1) False by auto
    have b': "b' = b\<lparr>jb_snk := s', jb_buf := Some (take (jb_idx b - ?k) (drop ?k m) @ drop (jb_idx b - ?k) m),
        jb_idx := jb_idx b - ?k\<rparr>"
      using assms(2) False m s pos kk by (auto simp: write_some_json_def Let_def)
    have "take ?k m @ take (jb_idx b - ?k) (drop ?k m) = take (jb_idx b) m"
      using kk by (metis le_add_diff_inverse less_imp_le take_add)
    moreover have "rcv s' = rcv (jb_snk b) @ take ?k m" using k(2) kk by (simp add: min_def)
    ultimately have "strm b' = strm b" using b' m kk len by (simp add: strm_def jb_pending_def)
    with b' kk len m show ?thesis by (auto simp: jb_ok_def jb_same_def)
  qed
qed

text \<open>What every attempt to get room delivers.\<close>

definition room :: "nat \<Rightarrow> 's json_builder \<Rightarrow> jb_fail + bool \<times> 's json_builder \<Rightarrow> bool" where
  "room req b r \<longleftrightarrow> (\<exists>ok b'. r = Inr (ok, b') \<and> jb_ok b' \<and> jb_same b b' \<and> strm b' = strm b \<and>
     (0 < jb_idx b \<longrightarrow> 0 < jb_idx b') \<and> (jb_buf b \<noteq> None \<longrightarrow> jb_buf b' \<noteq> None) \<and>
     (ok \<longrightarrow> jb_buf b' \<noteq> None \<and> req \<le> jb_free b'))"

lemma realloc_room:
  assumes "jb_ok b" "jb_idx b + req \<le> sz" "0 < req"
  shows "room req b (realloc_buffer alloc sz b)"
proof -
  define m0 where "m0 = (case jb_buf b of None \<Rightarrow> [] | Some m \<Rightarrow> m)"
  define m where "m = (take sz m0 @ replicate (sz - length m0) NUL)[jb_idx b := NUL]"
  have i: "jb_idx b < sz" using assms by simp
  have i0: "jb_idx b \<le> length m0" using assms(1) by (cases "jb_buf b") (simp_all add: jb_ok_def m0_def)
  have pend: "jb_pending b = take (jb_idx b) m0" using assms(1) by (cases "jb_buf b") (simp_all add: jb_pending_def m0_def)
  have m: "length m = sz" "take (jb_idx b) m = take (jb_idx b) m0" using i i0 by (simp_all add: m_def)
  have r: "realloc_buffer alloc sz b = (if sz > BUF_MAX_SIZE \<or> \<not> alloc sz then Inr (False, b)
      else Inr (True, b\<lparr>jb_buf := Some m, jb_size := sz\<rparr>))"
    using i by (simp add: realloc_buffer_def Let_def m_def m0_def)
  show ?thesis
  proof (cases "sz > BUF_MAX_SIZE \<or> \<not> alloc sz")
    case True
    then show ?thesis using r assms(1) by (auto simp: room_def)
  next
    case False
    let ?b = "b\<lparr>jb_buf := Some m, jb_size := sz\<rparr>"
    have "jb_ok ?b" "jb_same b ?b" "strm ?b = strm b" "req \<le> jb_free ?b"
      using m i pend assms(2) by (simp_all add: jb_ok_def jb_same_def strm_def jb_pending_def)
    with False r show ?thesis by (auto simp: room_def)
  qed
qed

lemma room_trans:
  assumes "jb_ok b1" "jb_same b b1" "strm b1 = strm b" "0 < jb_idx b \<longrightarrow> 0 < jb_idx b1" "jb_buf b1 = None \<longleftrightarrow> jb_buf b = None"
    and "room req b1 r"
  shows "room req b r"
  using assms unfolding room_def by (metis jb_same_trans)

lemma grow_room:
  assumes "jb_ok b" "0 < req"
  shows "room req b (buffer_grow snk alloc req b)"
proof -
  define tried where "tried \<longleftrightarrow> jb_buf b \<noteq> None \<and> jb_idx b \<noteq> 0"
  define b1 where "b1 = (if tried then snd (write_some_json snk b) else b)"
  have b1: "jb_ok b1" "jb_same b b1" "strm b1 = strm b" "0 < jb_idx b \<longrightarrow> 0 < jb_idx b1" "jb_buf b1 = None \<longleftrightarrow> jb_buf b = None"
    using assms(1) write_some [of b "fst (write_some_json snk b)" "snd (write_some_json snk b)"]
    by (simp_all add: b1_def)
  have "room req b1 (if tried \<and> req + 20 < jb_size b1 - jb_idx b1 then Inr (True, b1)
         else if \<not> jb_isMine b1 then Inr (False, b1)
         else realloc_buffer alloc (if req \<noteq> 0 then req + jb_idx b1 else if jb_size b1 = 0 then 128 else jb_size b1 * 2) b1)"
    using realloc_room [OF b1(1), of req "req + jb_idx b1" alloc] assms(2) b1
    by (auto simp: room_def tried_def)
  then have "room req b (buffer_grow snk alloc req b)"
    unfolding buffer_grow_def Let_def b1_def tried_def
    by (rule room_trans [OF b1 [unfolded b1_def tried_def]])
  then show ?thesis .
qed

definition room_not :: "nat \<Rightarrow> 's json_builder \<Rightarrow> jb_fail + bool \<times> 's json_builder \<Rightarrow> bool" where
  "room_not req b r \<longleftrightarrow> room req b (map_sum id (map_prod Not id) r)"

lemma not_enough_room:
  assumes "jb_ok b" "req = length key + (case val of Some v \<Rightarrow> length v | None \<Rightarrow> 10) + 10"
  shows "room_not req b (not_enough_buffer snk alloc key val b)"
proof (cases "jb_free b < req")
  case True
  have "0 < req" using assms(2) by simp
  from grow_room [OF assms(1) this, of alloc] True assms(2) show ?thesis
    by (auto simp: room_not_def not_enough_buffer_def Let_def room_def map_sum.comp map_prod.comp o_def)
next
  case False
  then have "jb_buf b \<noteq> None" using assms by (cases "jb_buf b") (simp_all add: jb_ok_def)
  with False assms show ?thesis by (auto simp: room_not_def not_enough_buffer_def Let_def room_def)
qed

text \<open>The outcome of an operation: its text appended, or nothing and false; no failure.\<close>

definition appends :: "'s json_builder \<Rightarrow> string \<Rightarrow> int \<Rightarrow> jb_fail + bool \<times> 's json_builder \<Rightarrow> bool" where
  "appends b txt d r \<longleftrightarrow> (\<exists>ok b'. r = Inr (ok, b') \<and> jb_ok b' \<and> (0 < jb_idx b \<longrightarrow> 0 < jb_idx b') \<and>
     jb_eof b' = jb_eof b \<and> jb_json b' = jb_json b \<and> jb_isMine b' = jb_isMine b \<and> (jb_buf b \<noteq> None \<longrightarrow> jb_buf b' \<noteq> None) \<and>
     jb_obj_ct b' = (if ok then jb_obj_ct b + d else jb_obj_ct b) \<and> (ok \<longrightarrow> jb_buf b' \<noteq> None) \<and>
     (ok \<and> txt \<noteq> [] \<longrightarrow> 0 < jb_idx b') \<and>
     strm b' = strm b @ (if ok then txt else []))"

lemma put_appends:
  assumes "jb_ok b" "length (concat ps) < length key + (case val of Some v \<Rightarrow> length v | None \<Rightarrow> 10) + 10"
    and wr: "\<And>b1. wr b1 = jb_append ps b1"
  shows "appends b (concat ps) 0 (jb_put snk alloc key val wr b)"
proof -
  let ?req = "length key + (case val of Some v \<Rightarrow> length v | None \<Rightarrow> 10) + 10"
  from not_enough_room [OF assms(1) refl, of key val alloc] obtain nok b1 where
    n: "not_enough_buffer snk alloc key val b = Inr (nok, b1)" and
    b1: "jb_ok b1" "jb_same b b1" "strm b1 = strm b" "0 < jb_idx b \<longrightarrow> 0 < jb_idx b1" "jb_buf b \<noteq> None \<longrightarrow> jb_buf b1 \<noteq> None"
      "\<not> nok \<longrightarrow> jb_buf b1 \<noteq> None \<and> ?req \<le> jb_free b1"
    by (cases "not_enough_buffer snk alloc key val b") (auto simp: room_not_def room_def)
  show ?thesis
  proof (cases nok)
    case True
    then show ?thesis using n b1 by (auto simp: appends_def jb_put_def jb_same_def)
  next
    case False
    then have fr: "jb_buf b1 \<noteq> None" "jb_idx b1 + length (concat ps) < jb_size b1" using b1(6) assms(2) by auto
    from append_spec [OF b1(1) fr] obtain b2 where "jb_append ps b1 = Inr b2" "jb_ok b2" "jb_same b1 b2" "jb_snk b2 = jb_snk b1"
      "jb_size b2 = jb_size b1" "jb_idx b2 = jb_idx b1 + length (concat ps)" "jb_pending b2 = jb_pending b1 @ concat ps" "jb_buf b2 \<noteq> None"
      by blast
    then show ?thesis using False n b1 fr wr by (auto simp: appends_def jb_put_def jb_same_def strm_def)
  qed
qed

lemma value_appends:
  assumes "jb_ok b" "0 < jb_idx b" "length (concat ps) < length key + (case val of Some v \<Rightarrow> length v | None \<Rightarrow> 10) + 10"
    and "\<And>b1. wr b1 = jb_append ps b1"
  shows "appends b (concat ps) 0 (jb_value snk alloc key val wr b)"
  using put_appends [OF assms(1,3,4)] assms(2) by (simp add: jb_value_def)

lemma nest_appends:
  assumes "appends b txt 0 r"
  shows "appends b txt d (jb_nest d r)"
proof -
  obtain ok b1 where r: "r = Inr (ok, b1)" and f: "jb_ok b1" "0 < jb_idx b \<longrightarrow> 0 < jb_idx b1"
    "jb_eof b1 = jb_eof b" "jb_json b1 = jb_json b" "jb_isMine b1 = jb_isMine b" "jb_buf b \<noteq> None \<longrightarrow> jb_buf b1 \<noteq> None"
    "jb_obj_ct b1 = (if ok then jb_obj_ct b + 0 else jb_obj_ct b)" "ok \<longrightarrow> jb_buf b1 \<noteq> None"
    "ok \<and> txt \<noteq> [] \<longrightarrow> 0 < jb_idx b1" "strm b1 = strm b @ (if ok then txt else [])"
    using assms unfolding appends_def by (elim exE conjE) (rule that, assumption+)
  have s: "strm (b1\<lparr>jb_obj_ct := x\<rparr>) = strm b1" "jb_ok (b1\<lparr>jb_obj_ct := x\<rparr>) = jb_ok b1" for x
    by (simp_all add: strm_def jb_pending_def jb_ok_def split: option.splits)
  let ?b2 = "if ok then b1\<lparr>jb_obj_ct := jb_obj_ct b1 + d\<rparr> else b1"
  have n: "jb_nest d r = Inr (ok, ?b2)" by (simp add: jb_nest_def r)
  show ?thesis unfolding appends_def
    by (rule exI [of _ ok], rule exI [of _ ?b2]) (use f s n in simp)
qed

lemma close_spec:
  assumes "jb_ok b" "jb_buf b \<noteq> None" "0 < jb_idx b" "length txt < 20" "txt \<noteq> []"
  shows "(\<exists>b'. jb_close snk alloc txt b = Inr b' \<and> jb_ok b' \<and> jb_buf b' \<noteq> None \<and> 0 < jb_idx b' \<and> jb_idx b' < jb_size b' \<and>
      jb_eof b' = jb_eof b \<and> jb_json b' = jb_json b \<and> jb_isMine b' = jb_isMine b \<and> jb_obj_ct b' = jb_obj_ct b - 1 \<and>
      strm b' = uncomma (strm b) @ txt) \<or>
    jb_close snk alloc txt b = Inl JbAbort"
proof -
  from not_enough_room [OF assms(1) refl, of "[]" None alloc] obtain nok b1 where
    n: "not_enough_buffer snk alloc [] None b = Inr (nok, b1)" and
    b1: "jb_ok b1" "jb_same b b1" "strm b1 = strm b" "0 < jb_idx b1" "\<not> nok \<longrightarrow> jb_buf b1 \<noteq> None \<and> 20 \<le> jb_free b1"
    using assms(3) by (cases "not_enough_buffer snk alloc [] None b") (auto simp: room_not_def room_def)
  show ?thesis
  proof (cases nok)
    case True
    then show ?thesis using n by (simp add: jb_close_def)
  next
    case False
    then obtain m where m: "jb_buf b1 = Some m" "length m = jb_size b1" using b1 by (auto simp: jb_ok_def)
    let ?comma = "m ! (jb_idx b1 - 1) = CHR '',''"
    let ?b2 = "if ?comma then b1\<lparr>jb_idx := jb_idx b1 - 1\<rparr> else b1"
    have idx: "jb_idx b1 \<le> length m" using b1(1) m by (simp add: jb_ok_def)
    have pend: "jb_pending b1 = take (jb_idx b1) m" "jb_pending b1 \<noteq> []" "last (jb_pending b1) = m ! (jb_idx b1 - 1)"
      "butlast (jb_pending b1) = take (jb_idx b1 - 1) m"
    proof -
      have ne: "take (jb_idx b1) m \<noteq> []" using b1(4) idx by auto
      show "jb_pending b1 = take (jb_idx b1) m" using m by (simp add: jb_pending_def)
      then show "jb_pending b1 \<noteq> []" "last (jb_pending b1) = m ! (jb_idx b1 - 1)" "butlast (jb_pending b1) = take (jb_idx b1 - 1) m"
        using ne last_conv_nth [OF ne] b1(4) idx by (simp_all add: butlast_take min_def)
    qed
    have s2: "strm ?b2 = uncomma (strm b1)"
      using pend m by (auto simp: strm_def uncomma_def jb_pending_def last_append butlast_append)
    have ok2: "jb_ok ?b2" "jb_buf ?b2 \<noteq> None" "jb_size ?b2 = jb_size b1" "jb_snk ?b2 = jb_snk b1"
      using b1(1) m by (auto simp: jb_ok_def)
    have room2: "jb_idx ?b2 + length (concat [txt]) < jb_size ?b2" using b1(5) False assms(4) by auto
    from append_spec [OF ok2(1,2) room2] obtain b3 where
      b3: "jb_append [txt] ?b2 = Inr b3" "jb_ok b3" "jb_same ?b2 b3" "jb_snk b3 = jb_snk ?b2" "jb_size b3 = jb_size ?b2"
        "jb_idx b3 = jb_idx ?b2 + length txt" "jb_pending b3 = jb_pending ?b2 @ txt" "jb_buf b3 \<noteq> None" by auto
    have "strm b3 = uncomma (strm b) @ txt" using s2 b1(3) b3(4,7) by (simp add: strm_def)
    moreover have "jb_close snk alloc txt b = Inr (b3\<lparr>jb_obj_ct := jb_obj_ct b3 - 1\<rparr>)"
      using False n m b3(1) by (simp add: jb_close_def Let_def)
    moreover have "0 < jb_idx b3" "jb_idx b3 < jb_size b3" using b3(5,6) room2 assms(5) by auto
    moreover have "jb_same b b3" using b1(2) b3(3) by (auto simp: jb_same_def split: if_splits)
    ultimately show ?thesis using b3(2,8)
      by (auto simp: jb_ok_def jb_same_def strm_def jb_pending_def)
  qed
qed

text \<open>
  With memory to be had and the text within the builder's bound, there is always room. The index
  never grows by more than the text added.
\<close>

lemma write_some_idx: "jb_idx (snd (write_some_json snk b)) \<le> jb_idx b"
  by (simp add: write_some_json_def Let_def split: option.splits prod.splits)

lemma grow_ok:
  assumes "jb_ok b" "0 < req" "jb_isMine b" "\<forall>n. alloc n" "jb_idx b + req \<le> BUF_MAX_SIZE"
  shows "\<exists>b'. buffer_grow snk alloc req b = Inr (True, b') \<and> jb_idx b' \<le> jb_idx b"
proof -
  define tried where "tried \<longleftrightarrow> jb_buf b \<noteq> None \<and> jb_idx b \<noteq> 0"
  define b1 where "b1 = (if tried then snd (write_some_json snk b) else b)"
  have b1: "jb_isMine b1" "jb_idx b1 \<le> jb_idx b"
    using assms(3) write_some [OF assms(1), of "fst (write_some_json snk b)" "snd (write_some_json snk b)"] write_some_idx [of b]
    by (simp_all add: b1_def jb_same_def)
  have "buffer_grow snk alloc req b = (if tried \<and> req + 20 < jb_size b1 - jb_idx b1 then Inr (True, b1)
      else realloc_buffer alloc (req + jb_idx b1) b1)"
    using assms(2) b1(1) unfolding buffer_grow_def Let_def tried_def [symmetric] b1_def [symmetric] by simp
  moreover have "\<exists>b'. realloc_buffer alloc (req + jb_idx b1) b1 = Inr (True, b') \<and> jb_idx b' = jb_idx b1"
    using assms(2,4,5) b1 by (simp add: realloc_buffer_def Let_def)
  ultimately show ?thesis using b1 by auto
qed

lemma enough_ok:
  assumes "jb_ok b" "jb_isMine b" "\<forall>n. alloc n" "req = length key + (case val of Some v \<Rightarrow> length v | None \<Rightarrow> 10) + 10"
    and "jb_idx b + req \<le> BUF_MAX_SIZE"
  shows "\<exists>b'. not_enough_buffer snk alloc key val b = Inr (False, b') \<and> jb_idx b' \<le> jb_idx b"
proof (cases "jb_free b < req")
  case True
  have "0 < req" using assms(4) by simp
  from grow_ok [OF assms(1) this assms(2,3,5)] True assms(4) show ?thesis by (auto simp: not_enough_buffer_def Let_def)
next
  case False
  then have "jb_buf b \<noteq> None" using assms by (cases "jb_buf b") (simp_all add: jb_ok_def)
  with False assms show ?thesis by (auto simp: not_enough_buffer_def Let_def)
qed

text \<open>A builder between two operations, and the step that adds text.\<close>

definition ready :: "'s json_builder \<Rightarrow> bool" where
  "ready b \<longleftrightarrow> jb_ok b \<and> jb_buf b \<noteq> None \<and> 0 < jb_idx b \<and> jb_isMine b \<and> jb_eof b = False \<and> 1 \<le> jb_obj_ct b"

definition adds :: "'s json_builder \<Rightarrow> string \<Rightarrow> int \<Rightarrow> 's json_builder \<Rightarrow> bool" where
  "adds b txt d b' \<longleftrightarrow> jb_ok b' \<and> jb_buf b' \<noteq> None \<and> 0 < jb_idx b' \<and> jb_isMine b' = jb_isMine b \<and> jb_eof b' = jb_eof b \<and>
     jb_json b' = jb_json b \<and> jb_obj_ct b' = jb_obj_ct b + d \<and> strm b' = strm b @ txt \<and> jb_idx b' \<le> jb_idx b + length txt"

lemma adds_ready: "adds b txt d b' \<Longrightarrow> ready b \<Longrightarrow> 0 \<le> d \<Longrightarrow> ready b'"
  by (simp add: adds_def ready_def)

lemma adds_trans: "adds b s d b1 \<Longrightarrow> adds b1 t e b2 \<Longrightarrow> adds b (s @ t) (d + e) b2"
  by (simp add: adds_def)

lemma put_adds:
  assumes "jb_ok b" "jb_isMine b" "\<forall>n. alloc n" "req = length key + (case val of Some v \<Rightarrow> length v | None \<Rightarrow> 10) + 10"
    and "jb_idx b + req \<le> BUF_MAX_SIZE" "length (concat ps) < req" "concat ps \<noteq> []" "wr = jb_append ps"
  shows "\<exists>b'. jb_put snk alloc key val wr b = Inr (True, b') \<and> adds b (concat ps) 0 b'"
proof -
  from enough_ok [OF assms(1-5)] obtain b1 where n: "not_enough_buffer snk alloc key val b = Inr (False, b1)" "jb_idx b1 \<le> jb_idx b"
    by blast
  with not_enough_room [OF assms(1,4), of alloc] have
    b1: "jb_ok b1" "jb_same b b1" "strm b1 = strm b" "jb_buf b1 \<noteq> None" "req \<le> jb_free b1"
    by (auto simp: room_not_def room_def)
  then have fr: "jb_idx b1 + length (concat ps) < jb_size b1" using assms(6) by auto
  from append_spec [OF b1(1,4) fr] obtain b2 where "jb_append ps b1 = Inr b2" "jb_ok b2" "jb_same b1 b2" "jb_snk b2 = jb_snk b1"
    "jb_size b2 = jb_size b1" "jb_idx b2 = jb_idx b1 + length (concat ps)" "jb_pending b2 = jb_pending b1 @ concat ps" "jb_buf b2 \<noteq> None"
    by blast
  with n b1 fr assms(7,8) show ?thesis by (auto simp: adds_def jb_put_def jb_same_def strm_def)
qed

lemma nest_adds:
  assumes "r = Inr (True, b1)" "adds b txt 0 b1"
  shows "\<exists>b'. jb_nest d r = Inr (True, b') \<and> adds b txt d b'"
proof -
  let ?b2 = "b1\<lparr>jb_obj_ct := jb_obj_ct b1 + d\<rparr>"
  have "strm ?b2 = strm b1" "jb_ok ?b2 = jb_ok b1" by (simp_all add: strm_def jb_pending_def jb_ok_def split: option.splits)
  with assms have "adds b txt d ?b2" by (simp add: adds_def)
  moreover have "jb_nest d r = Inr (True, ?b2)" using assms(1) by (simp add: jb_nest_def)
  ultimately show ?thesis by blast
qed

lemma close_adds:
  assumes "ready b" "\<forall>n. alloc n" "jb_idx b + 20 \<le> BUF_MAX_SIZE" "length txt < 20" "txt \<noteq> []"
    and "strm b = s @ t" "t \<noteq> []"
  shows "\<exists>b'. jb_close snk alloc txt b = Inr b' \<and> jb_ok b' \<and> jb_buf b' \<noteq> None \<and> 0 < jb_idx b' \<and> jb_idx b' < jb_size b' \<and>
      jb_isMine b' \<and> jb_eof b' = False \<and> jb_json b' = jb_json b \<and> jb_obj_ct b' = jb_obj_ct b - 1 \<and>
      strm b' = s @ uncomma t @ txt \<and> jb_idx b' + length t \<le> jb_idx b + length (uncomma t @ txt)"
proof -
  have b: "jb_ok b" "jb_isMine b" "jb_buf b \<noteq> None" "0 < jb_idx b" "jb_eof b = False" using assms(1) by (simp_all add: ready_def)
  from enough_ok [OF b(1,2) assms(2) refl, of "[]" None] assms(3) obtain b1 where
    n: "not_enough_buffer snk alloc [] None b = Inr (False, b1)" "jb_idx b1 \<le> jb_idx b" by auto
  with close_spec [OF b(1,3,4) assms(4,5), of alloc] have ex: "\<exists>b'. jb_close snk alloc txt b = Inr b' \<and> jb_ok b' \<and> jb_buf b' \<noteq> None \<and> 0 < jb_idx b' \<and> jb_idx b' < jb_size b' \<and>
      jb_eof b' = jb_eof b \<and> jb_json b' = jb_json b \<and> jb_isMine b' = jb_isMine b \<and> jb_obj_ct b' = jb_obj_ct b - 1 \<and>
      strm b' = uncomma (strm b) @ txt" if "jb_close snk alloc txt b \<noteq> Inl JbAbort" using that by blast
  from not_enough_room [OF b(1) refl, of "[]" None alloc] n(1) have
    b1: "jb_ok b1" "strm b1 = strm b" "jb_buf b1 \<noteq> None" "0 < jb_idx b1" "20 \<le> jb_free b1"
    using b(4) by (auto simp: room_not_def room_def)
  then obtain m where m: "jb_buf b1 = Some m" "jb_idx b1 \<le> length m" by (auto simp: jb_ok_def)
  have "last (strm b1) = m ! (jb_idx b1 - 1)"
  proof -
    have ne: "take (jb_idx b1) m \<noteq> []" using b1(4) m by auto
    then show ?thesis using m b1(4) last_conv_nth [OF ne] by (simp add: strm_def jb_pending_def min_def)
  qed
  then have lt: "m ! (jb_idx b1 - 1) = last t" using b1(2) assms(6,7) by simp
  let ?b2 = "if last t = CHR '','' then b1\<lparr>jb_idx := jb_idx b1 - 1\<rparr> else b1"
  have ok2: "jb_ok ?b2" "jb_buf ?b2 \<noteq> None" "jb_idx ?b2 + length (concat [txt]) < jb_size ?b2"
    using b1 m assms(4) by (auto simp: jb_ok_def)
  from append_spec [OF ok2] obtain b3 where b3: "jb_append [txt] ?b2 = Inr b3" "jb_idx b3 = jb_idx ?b2 + length txt" by auto
  have r: "jb_close snk alloc txt b = Inr (b3\<lparr>jb_obj_ct := jb_obj_ct b3 - 1\<rparr>)"
    using n(1) m(1) lt b3(1) by (simp add: jb_close_def Let_def)
  have idx: "jb_idx b3 + length t \<le> jb_idx b + length (uncomma t @ txt)"
    using b3(2) n(2) b1(4) assms(7) by (auto simp: uncomma_def)
  have na: "jb_close snk alloc txt b \<noteq> Inl JbAbort" using r by simp
  obtain b' where c: "jb_close snk alloc txt b = Inr b'" and f:
    "jb_ok b' \<and> jb_buf b' \<noteq> None \<and> 0 < jb_idx b' \<and> jb_idx b' < jb_size b' \<and>
      jb_eof b' = jb_eof b \<and> jb_json b' = jb_json b \<and> jb_isMine b' = jb_isMine b \<and> jb_obj_ct b' = jb_obj_ct b - 1 \<and>
      strm b' = uncomma (strm b) @ txt"
    using ex [OF na] by (elim exE conjE) (rule that, assumption, intro conjI)
  have "jb_idx b' = jb_idx b3" using c r by auto
  with c f idx b assms(6,7) show ?thesis by simp
qed

end

end
