(* ===== verification/UoutWriter.thy ===== *)
theory UoutWriter
  imports JsonStream
begin

text \<open>
  The writers (uout/uout_writer.hh, uout/so_target_desc.cc) and the callbacks they are given
  (net_http_server/esp32/websocket.cc).

  A writer is a function on the state of its target, the text and the final flag. The system call
  ::write is the parameter \<open>wr\<close>: it takes the state of the descriptor and the bytes and returns the
  count. None is a failed assertion.
\<close>

type_synonym 'w fd_write = "'w \<Rightarrow> string \<Rightarrow> int \<times> 'w"

abbreviation CR :: char where "CR \<equiv> CHR 0x0D"
abbreviation LF :: char where "LF \<equiv> CHR 0x0A"

section \<open>The public write functions\<close>

text \<open>A negative length asks for the C string.\<close>

definition write_len :: "char list \<Rightarrow> int \<Rightarrow> string" where
  "write_len s len = (if len < 0 then c_str s else take (nat len) s)"

definition raw_write :: "'s sink \<Rightarrow> 's \<Rightarrow> char list \<Rightarrow> int \<Rightarrow> bool \<Rightarrow> int \<times> 's" where
  "raw_write priv w s len lst = priv w (write_len s len) lst"

definition raw_writeln :: "'s sink \<Rightarrow> 's \<Rightarrow> char list \<Rightarrow> int \<Rightarrow> bool \<Rightarrow> int \<times> 's" where
  "raw_writeln priv w s len lst =
     (case priv w (write_len s len) False of
        (n, w1) \<Rightarrow> if n = int (length (write_len s len))
          then (case raw_write priv w1 [LF] 1 lst of (k, w2) \<Rightarrow> if k = 1 then (n + 1, w2) else (-1, w2))
          else (-1, w1))"

definition raw_write_char :: "'s sink \<Rightarrow> 's \<Rightarrow> char \<Rightarrow> int \<times> 's" where
  "raw_write_char priv w c = raw_write priv w [c] 1 False"

section \<open>Console and file\<close>

text \<open>The loop over the text, with the last character and the start of the chunk not yet written.\<close>

function crlf_loop :: "'w fd_write \<Rightarrow> string \<Rightarrow> nat \<Rightarrow> char \<Rightarrow> nat \<Rightarrow> 'w \<Rightarrow> int \<times> 'w" where
  "crlf_loop wr s i prev lst w =
     (if i < length s then
        (let c = s ! i in
         if c = CR \<or> (c = LF \<and> prev = CR) then crlf_loop wr s (i + 1) prev lst w
         else if c = LF then
           (case (if i > lst then wr w (take (i - lst) (drop lst s)) else (1, w)) of
              (n, w1) \<Rightarrow> if n < 1 then (-1, w1)
                else (case wr w1 [CR, LF] of
                   (k, w2) \<Rightarrow> if k < 1 then (-1, w2) else crlf_loop wr s (i + 1) c (i + 1) w2))
         else if i + 1 = length s then
           (case (if i + 1 > lst then wr w (take (i + 1 - lst) (drop lst s)) else (1, w)) of
              (n, w1) \<Rightarrow> if n < 1 then (-1, w1) else (int (length s), w1))
         else crlf_loop wr s (i + 1) c lst w)
      else (int (length s), w))"
  by pat_completeness auto
termination by (relation "measure (\<lambda>(wr, s, i, prev, lst, w). length s - i)") auto

declare crlf_loop.simps [simp del]

definition console_priv_write :: "'w fd_write \<Rightarrow> 'w \<Rightarrow> string \<Rightarrow> bool \<Rightarrow> (int \<times> 'w) option" where
  "console_priv_write wr w s lst = (if length s < 4096 then Some (crlf_loop wr s 0 NUL 0 w) else None)"

definition file_priv_write :: "'w fd_write \<Rightarrow> 'w \<Rightarrow> string \<Rightarrow> bool \<Rightarrow> (int \<times> 'w) option" where
  "file_priv_write wr w s lst = (if length s < 2046 then Some (crlf_loop wr s 0 NUL 0 w) else None)"

section \<open>Builder and function writers\<close>

text \<open>A writer without a target takes nothing.\<close>

definition builder_priv_write :: "unit sink" where
  "builder_priv_write w s lst = (0, w)"

type_synonym 'c write_callback = "'c \<Rightarrow> string \<Rightarrow> int \<Rightarrow> int \<times> 'c"

record 'c fn_writer =
  fw_chunks :: int
  fw_target :: 'c

definition function_priv_write :: "'c write_callback \<Rightarrow> 'c fn_writer sink" where
  "function_priv_write cb w s is_final =
     (let no_fragments = is_final \<and> fw_chunks w = 0;
          status = (if no_fragments then 0 else if is_final then fw_chunks w + 1 else (fw_chunks w + 1) * -1)
      in (case cb (fw_target w) s status of
            (n, t) \<Rightarrow> (n, \<lparr>fw_chunks = (if is_final then 0 else if n > 0 then fw_chunks w + 1 else fw_chunks w),
                           fw_target = t\<rparr>)))"

text \<open>
  ws_write as callback: one frame per chunk. The server's httpd_ws_send_frame is the parameter
  \<open>send\<close>; it returns whether the frame went out.
\<close>

datatype ws_type = WS_CONTINUE | WS_TEXT

record ws_frame =
  wsf_final :: bool
  wsf_fragmented :: bool
  wsf_type :: ws_type
  wsf_payload :: string

definition ws_write :: "('c \<Rightarrow> ws_frame \<Rightarrow> bool \<times> 'c) \<Rightarrow> 'c write_callback" where
  "ws_write send t s status =
     (let first_chunk = (status = 0 \<or> status = -1); single_chunk = (status = 0); final_chunk = (0 \<le> status)
      in (case send t \<lparr>wsf_final = final_chunk, wsf_fragmented = \<not> single_chunk,
              wsf_type = (if first_chunk then WS_TEXT else WS_CONTINUE), wsf_payload = s\<rparr> of
            (ok, t') \<Rightarrow> (if ok then int (length s) else -1, t')))"

section \<open>The text a console gets\<close>

definition crlf :: "string \<Rightarrow> string" where
  "crlf s = concat (map (\<lambda>c. if c = LF then [CR, LF] else [c]) s)"

lemma crlf_simps [simp]: "crlf [] = []" "crlf (s @ t) = crlf s @ crlf t" "crlf (c # s) = (if c = LF then [CR, LF] else [c]) @ crlf s"
  by (simp_all add: crlf_def)

lemma crlf_no_LF: "LF \<notin> set s \<Longrightarrow> crlf s = s"
  by (induction s) auto

text \<open>The lines of the text, and what follows the last line feed.\<close>

fun last_line :: "string \<Rightarrow> string" where
  "last_line [] = []"
| "last_line (c # s) = (if LF \<in> set s then last_line s else if c = LF then s else c # s)"

fun full_lines :: "string \<Rightarrow> string" where
  "full_lines [] = []"
| "full_lines (c # s) = (if LF \<in> set (c # s) then c # full_lines s else [])"

lemma last_line_all [simp]: "LF \<notin> set t \<Longrightarrow> last_line t = t" "LF \<notin> set t \<Longrightarrow> full_lines t = []"
  by (induction t) auto

lemma full_last [simp]: "full_lines s @ last_line s = s"
  by (induction s) auto

lemma last_line_LF [simp]: "LF \<notin> set s \<Longrightarrow> last_line (s @ LF # t) = last_line t"
  "LF \<notin> set s \<Longrightarrow> full_lines (s @ LF # t) = s @ LF # full_lines t"
  by (induction s) auto

lemma LF_last_line: "LF \<notin> set (last_line s)"
  by (induction s) auto

definition console_text :: "string \<Rightarrow> string" where
  "console_text s = crlf (full_lines s) @ (if last_line s \<noteq> [] \<and> last s = CR then [] else last_line s)"

lemma console_text_no_cr: "CR \<notin> set s \<Longrightarrow> console_text s = crlf s"
proof -
  assume cr: "CR \<notin> set s"
  have "s \<noteq> [] \<Longrightarrow> last s \<noteq> CR" using cr last_in_set [of s] by metis
  moreover have "last_line s \<noteq> [] \<Longrightarrow> s \<noteq> []" by auto
  moreover have "crlf s = crlf (full_lines s) @ crlf (last_line s)" by (metis full_last crlf_simps(2))
  ultimately show ?thesis by (auto simp: console_text_def crlf_no_LF LF_last_line)
qed

text \<open>A descriptor that writes everything.\<close>

definition writes_all :: "'w fd_write \<Rightarrow> ('w \<Rightarrow> string) \<Rightarrow> bool" where
  "writes_all wr out \<longleftrightarrow> (\<forall>w s. fst (wr w s) = int (length s) \<and> out (snd (wr w s)) = out w @ s)"

lemma writes_allD:
  "writes_all wr out \<Longrightarrow> wr w s = (n, w') \<Longrightarrow> n = int (length s) \<and> out w' = out w @ s"
  unfolding writes_all_def by (metis fst_conv snd_conv)

lemma crlf_loop_writes:
  assumes wr: "writes_all wr out"
  shows "LF \<notin> set cur \<Longrightarrow> prev \<noteq> CR \<Longrightarrow> (rest = [] \<and> cur \<noteq> [] \<longrightarrow> last cur = CR) \<Longrightarrow> s = pre @ cur @ rest \<Longrightarrow>
    fst (crlf_loop wr s (length pre + length cur) prev (length pre) w) = int (length s) \<and>
    out (snd (crlf_loop wr s (length pre + length cur) prev (length pre) w)) = out w @ console_text (cur @ rest)"
proof (induction rest arbitrary: pre cur prev w)
  case Nil
  then show ?case by (subst (1 2) crlf_loop.simps) (auto simp: console_text_def)
next
  case (Cons c rest)
  let ?i = "length pre + length cur"
  have nth: "s ! ?i = c" "?i < length s" using Cons.prems(4) by (simp_all add: nth_append)
  have chunk: "take (?i - length pre) (drop (length pre) s) = cur" "take (?i + 1 - length pre) (drop (length pre) s) = cur @ [c]"
    using Cons.prems(4) by simp_all
  consider (cr) "c = CR" | (lf) "c = LF" | (last) "c \<noteq> CR" "c \<noteq> LF" "rest = []" | (more) "c \<noteq> CR" "c \<noteq> LF" "rest \<noteq> []" by blast
  then show ?case
  proof cases
    case cr
    have "crlf_loop wr s ?i prev (length pre) w = crlf_loop wr s (length pre + length (cur @ [c])) prev (length pre) w"
      using nth cr by (subst crlf_loop.simps) simp
    with Cons.IH [of "cur @ [c]" prev pre w] Cons.prems cr show ?thesis by simp
  next
    case lf
    define w1 where "w1 = (if cur \<noteq> [] then snd (wr w cur) else w)"
    have o1: "out w1 = out w @ cur" using wr by (auto simp: w1_def writes_all_def)
    have o2: "out (snd (wr w1 [CR, LF])) = out w1 @ [CR, LF]" "fst (wr w1 [CR, LF]) = 2" using wr by (simp_all add: writes_all_def)
    have f1: "cur \<noteq> [] \<Longrightarrow> wr w cur = (int (length cur), w1)" using wr by (simp add: writes_all_def w1_def prod_eq_iff)
    have "crlf_loop wr s ?i prev (length pre) w =
        crlf_loop wr s (length (pre @ cur @ [c]) + length ([] :: string)) c (length (pre @ cur @ [c])) (snd (wr w1 [CR, LF]))"
      using nth lf Cons.prems(2) chunk f1 o2 w1_def
      by (subst crlf_loop.simps) (auto simp: Let_def split: prod.splits)
    with Cons.IH [of "[]" c "pre @ cur @ [c]" "snd (wr w1 [CR, LF])"] Cons.prems lf o1 o2 show ?thesis
      by (auto simp: console_text_def crlf_no_LF)
  next
    case last
    obtain n w1 where w1: "wr w (cur @ [c]) = (n, w1)" by (cases "wr w (cur @ [c])")
    with writes_allD [OF wr w1] nth last chunk Cons.prems have
      "crlf_loop wr s ?i prev (length pre) w = (int (length s), w1)" "out w1 = out w @ cur @ [c]"
      by (subst crlf_loop.simps, simp_all add: Let_def)
    with last Cons.prems show ?thesis by (simp add: console_text_def)
  next
    case more
    have "crlf_loop wr s ?i prev (length pre) w = crlf_loop wr s (length pre + length (cur @ [c])) c (length pre) w"
      using nth more Cons.prems(4) by (subst crlf_loop.simps) (simp add: Let_def)
    with Cons.IH [of "cur @ [c]" c pre w] Cons.prems more show ?thesis by simp
  qed
qed

lemma console_write_text:
  assumes "writes_all wr out" "length s < 4096"
  shows "\<exists>w'. console_priv_write wr w s lst = Some (int (length s), w') \<and> out w' = out w @ console_text s"
  using crlf_loop_writes [OF assms(1), of "[]" NUL s s "[]" w] assms(2)
  by (cases "crlf_loop wr s 0 NUL 0 w") (simp add: console_priv_write_def)

section \<open>Chunks of a message\<close>

text \<open>A message is written in pieces, the last of them marked final.\<close>

fun write_pieces :: "'s sink \<Rightarrow> 's \<Rightarrow> string list \<Rightarrow> 's" where
  "write_pieces snk w [] = w"
| "write_pieces snk w [p] = snd (snk w p True)"
| "write_pieces snk w (p # q # ps) = write_pieces snk (snd (snk w p False)) (q # ps)"

text \<open>A callback that takes the whole of a piece, and what reached it.\<close>

definition takes_all :: "'c write_callback \<Rightarrow> ('c \<Rightarrow> 'e list) \<Rightarrow> (int \<Rightarrow> string \<Rightarrow> 'e) \<Rightarrow> bool" where
  "takes_all cb got ev \<longleftrightarrow> (\<forall>c s k. fst (cb c s k) = int (length s) \<and> got (snd (cb c s k)) = got c @ [ev k s])"

primrec message_chunks :: "nat \<Rightarrow> string list \<Rightarrow> (int \<times> string) list" where
  "message_chunks k [] = []"
| "message_chunks k (p # ps) = (if ps = [] then (if k = 0 then 0 else int k + 1, p) else (- (int k + 1), p)) # message_chunks (k + 1) ps"

lemma message_chunks_length [simp]: "length (message_chunks k ps) = length ps"
  by (induction ps arbitrary: k) auto

lemma message_chunks_nth:
  "i < length ps \<Longrightarrow> message_chunks k ps ! i =
     (if i + 1 < length ps then - (int (k + i) + 1) else if k + i = 0 then 0 else int (k + i) + 1, ps ! i)"
  by (induction ps arbitrary: k i) (auto simp: nth_Cons split: nat.splits)

lemma function_write_pieces:
  assumes "takes_all cb got ev" "[] \<notin> set ps" "ps \<noteq> []" "fw_chunks w = int k"
  shows "fw_chunks (write_pieces (function_priv_write cb) w ps) = 0 \<and>
    got (fw_target (write_pieces (function_priv_write cb) w ps)) = got (fw_target w) @ map (case_prod ev) (message_chunks k ps)"
  using assms(2-4)
proof (induction "function_priv_write cb" w ps arbitrary: k rule: write_pieces.induct)
  case (2 w p)
  then show ?case using assms(1) by (auto simp: function_priv_write_def takes_all_def Let_def split: prod.splits) (metis fst_conv snd_conv)+
next
  case (3 w p q ps)
  let ?w1 = "snd (function_priv_write cb w p False)"
  have "fst (cb (fw_target w) p (- (int k + 1))) = int (length p)"
    "got (snd (cb (fw_target w) p (- (int k + 1)))) = got (fw_target w) @ [ev (- (int k + 1)) p]"
    using assms(1) by (simp_all only: takes_all_def)
  moreover have "0 < length p" using 3(2) by auto
  ultimately have w1: "fw_chunks ?w1 = int (k + 1)" "got (fw_target ?w1) = got (fw_target w) @ [ev (- (int k + 1)) p]"
    using 3(4) by (auto simp: function_priv_write_def Let_def split: prod.splits)
  from 3(1) [OF _ _ w1(1)] 3(2) w1(2) show ?case by simp
qed simp

section \<open>Callbacks as JSON targets\<close>

text \<open>The contract of a callback: the count it returns is what it took of the front.\<close>

locale write_callback =
  fixes cb :: "'c write_callback" and rcv :: "'c \<Rightarrow> string"
  assumes cb_takes: "cb c s k = (n, c') \<Longrightarrow> n \<le> int (length s) \<and> rcv c' = rcv c @ take (nat n) s"
begin

lemma function_takes:
  assumes "function_priv_write cb w s fin = (n, w')"
  shows "n \<le> int (length s) \<and> rcv (fw_target w') = rcv (fw_target w) @ take (nat n) s"
proof -
  obtain st where "cb (fw_target w) s st = (n, fw_target w')"
    using assms by (auto simp: function_priv_write_def Let_def split: prod.splits)
  then show ?thesis by (rule cb_takes)
qed

end

sublocale write_callback \<subseteq> fn: json_sink "function_priv_write cb" "\<lambda>w. rcv (fw_target w)"
  by unfold_locales (rule function_takes)

text \<open>The wire of a web socket: the frames that went out, of those the server accepts to send.\<close>

definition ws_wire :: "(ws_frame list \<Rightarrow> ws_frame \<Rightarrow> bool) \<Rightarrow> ws_frame list \<Rightarrow> ws_frame \<Rightarrow> bool \<times> ws_frame list" where
  "ws_wire accept fs f = (if accept fs f then (True, fs @ [f]) else (False, fs))"

definition ws_payload :: "ws_frame list \<Rightarrow> string" where
  "ws_payload fs = concat (map wsf_payload fs)"

interpretation ws: write_callback "ws_write (ws_wire accept)" ws_payload for accept
  by unfold_locales (auto simp: ws_write_def ws_wire_def ws_payload_def Let_def split: if_splits)

interpretation builder: json_sink builder_priv_write "\<lambda>w. []"
  by unfold_locales (simp add: builder_priv_write_def)

end
