(* ===== verification/JsonTree.thy ===== *)
theory JsonTree
  imports UoutWriter
begin

text \<open>
  What the builder is for: a client adds the members of a JSON value one call at a time. The
  client is the recursive procedure that makes the calls for a value, the contract is the usual
  printer, with commas between members only. Numbers and truth values stand under a key, as the
  builder has no working operation for them in an array.
\<close>

datatype jval = JInt int | JBool bool | JStr string | JObj jmem | JArr jels
  and jmem = MNil | MCons string jval jmem
  and jels = ENil | ECons jval jels

section \<open>The printer\<close>

definition quoted :: "string \<Rightarrow> string" where
  "quoted s = [DQ] @ s @ [DQ]"

primrec print_val :: "jval \<Rightarrow> string" and print_mem :: "jmem \<Rightarrow> string" and print_els :: "jels \<Rightarrow> string" where
  "print_val (JInt n) = print_int n"
| "print_val (JBool x) = (if x then ''true'' else ''false'')"
| "print_val (JStr s) = quoted s"
| "print_val (JObj m) = ''{'' @ print_mem m @ ''}''"
| "print_val (JArr e) = ''['' @ print_els e @ '']''"
| "print_mem MNil = []"
| "print_mem (MCons k v m) = quoted k @ '':'' @ print_val v @ (if m = MNil then [] else '','' @ print_mem m)"
| "print_els ENil = []"
| "print_els (ECons v e) = print_val v @ (if e = ENil then [] else '','' @ print_els e)"

text \<open>Elements of arrays the builder can add.\<close>

fun element_ok :: "jval \<Rightarrow> bool" where
  "element_ok (JInt n) = False"
| "element_ok (JBool x) = False"
| "element_ok v = True"

primrec val_ok :: "jval \<Rightarrow> bool" and mem_ok :: "jmem \<Rightarrow> bool" and els_ok :: "jels \<Rightarrow> bool" where
  "val_ok (JInt n) \<longleftrightarrow> - (2 ^ 31) \<le> n \<and> n < 2 ^ 31"
| "val_ok (JBool x) \<longleftrightarrow> True"
| "val_ok (JStr s) \<longleftrightarrow> True"
| "val_ok (JObj m) \<longleftrightarrow> mem_ok m"
| "val_ok (JArr e) \<longleftrightarrow> els_ok e"
| "mem_ok MNil \<longleftrightarrow> True"
| "mem_ok (MCons k v m) \<longleftrightarrow> val_ok v \<and> mem_ok m"
| "els_ok ENil \<longleftrightarrow> True"
| "els_ok (ECons v e) \<longleftrightarrow> element_ok v \<and> val_ok v \<and> els_ok e"

section \<open>The calls\<close>

definition jb_then :: "jb_fail + bool \<times> 's json_builder \<Rightarrow> ('s json_builder \<Rightarrow> jb_fail + bool \<times> 's json_builder) \<Rightarrow> jb_fail + bool \<times> 's json_builder" where
  "jb_then r k = (case r of Inl e \<Rightarrow> Inl e | Inr (ok, b) \<Rightarrow> if ok then k b else Inr (False, b))"

lemma jb_then_simps [simp]: "jb_then (Inr (True, b)) k = k b"
  by (simp add: jb_then_def)

definition jb_done :: "jb_fail + 's json_builder \<Rightarrow> jb_fail + bool \<times> 's json_builder" where
  "jb_done r = map_sum id (Pair True) r"

lemma jb_done_Inr [simp]: "jb_done (Inr b) = Inr (True, b)"
  by (simp add: jb_done_def)

primrec emit_val :: "'s sink \<Rightarrow> (nat \<Rightarrow> bool) \<Rightarrow> jval \<Rightarrow> string option \<Rightarrow> 's json_builder \<Rightarrow> jb_fail + bool \<times> 's json_builder"
  and emit_mem :: "'s sink \<Rightarrow> (nat \<Rightarrow> bool) \<Rightarrow> jmem \<Rightarrow> 's json_builder \<Rightarrow> jb_fail + bool \<times> 's json_builder"
  and emit_els :: "'s sink \<Rightarrow> (nat \<Rightarrow> bool) \<Rightarrow> jels \<Rightarrow> 's json_builder \<Rightarrow> jb_fail + bool \<times> 's json_builder" where
  "emit_val snk alloc (JInt n) = (\<lambda>key b. case key of Some k \<Rightarrow> add_key_value_pair_d snk alloc k n b | None \<Rightarrow> add_value snk alloc n b)"
| "emit_val snk alloc (JBool x) = (\<lambda>key b. case key of Some k \<Rightarrow> put_kv_bool snk alloc k x b | None \<Rightarrow> Inr (False, b))"
| "emit_val snk alloc (JStr s) = (\<lambda>key b. case key of Some k \<Rightarrow> add_key_value_pair_s snk alloc k s b | None \<Rightarrow> add_value_s snk alloc s b)"
| "emit_val snk alloc (JObj m) = (\<lambda>key b. jb_then (add_object snk alloc key b)
     (\<lambda>b1. jb_then (emit_mem snk alloc m b1) (\<lambda>b2. jb_done (close_object snk alloc b2))))"
| "emit_val snk alloc (JArr e) = (\<lambda>key b. jb_then (add_array snk alloc key b)
     (\<lambda>b1. jb_then (emit_els snk alloc e b1) (\<lambda>b2. jb_done (close_array snk alloc b2))))"
| "emit_mem snk alloc MNil = (\<lambda>b. Inr (True, b))"
| "emit_mem snk alloc (MCons k v m) = (\<lambda>b. jb_then (emit_val snk alloc v (Some k) b) (emit_mem snk alloc m))"
| "emit_els snk alloc ENil = (\<lambda>b. Inr (True, b))"
| "emit_els snk alloc (ECons v e) = (\<lambda>b. jb_then (emit_val snk alloc v None b) (emit_els snk alloc e))"

text \<open>A whole message: the root object, its members, and the text to the target.\<close>

definition emit_root :: "'s sink \<Rightarrow> (nat \<Rightarrow> bool) \<Rightarrow> string option \<Rightarrow> jmem \<Rightarrow> 's json_builder \<Rightarrow> jb_fail + bool \<times> 's json_builder" where
  "emit_root snk alloc ido m b = jb_then (open_root_object snk alloc ido b)
     (\<lambda>b1. jb_then (emit_mem snk alloc m b1) (\<lambda>b2. jb_done (close_root_object snk alloc b2)))"

definition root_mem :: "string option \<Rightarrow> jmem \<Rightarrow> jmem" where
  "root_mem ido m = (case ido of None \<Rightarrow> m | Some i \<Rightarrow> MCons ''from'' (JStr i) m)"

section \<open>The calls print the value\<close>

definition key_text :: "string option \<Rightarrow> string" where
  "key_text key = (case key of None \<Rightarrow> [] | Some k \<Rightarrow> quoted k @ '':'')"

definition mem_commas :: "jmem \<Rightarrow> string" where
  "mem_commas m = (if m = MNil then [] else print_mem m @ '','')"

definition els_commas :: "jels \<Rightarrow> string" where
  "els_commas e = (if e = ENil then [] else print_els e @ '','')"

lemma commas_simps [simp]: "mem_commas MNil = []" "els_commas ENil = []"
  "mem_commas (MCons k v m) = key_text (Some k) @ print_val v @ '','' @ mem_commas m"
  "els_commas (ECons v e) = print_val v @ '','' @ els_commas e"
  by (simp_all add: mem_commas_def els_commas_def key_text_def)

lemma uncomma_commas [simp]:
  "uncomma (CHR ''{'' # mem_commas m) = CHR ''{'' # print_mem m"
  "uncomma (CHR ''['' # els_commas e) = CHR ''['' # print_els e"
  by (cases "m = MNil"; simp add: uncomma_def mem_commas_def butlast_append)
    (cases "e = ENil"; simp add: uncomma_def els_commas_def butlast_append)

lemma commas_length: "length (mem_commas m) \<le> Suc (length (print_mem m))" "length (els_commas e) \<le> Suc (length (print_els e))"
  by (simp_all add: mem_commas_def els_commas_def)

lemma print_nat_length: "n < 10 ^ k \<Longrightarrow> 0 < k \<Longrightarrow> length (print_nat n) \<le> k"
proof (induction k arbitrary: n)
  case (Suc k)
  show ?case
  proof (cases "n < 10")
    case True
    then show ?thesis by (subst print_nat.simps) simp
  next
    case False
    then have "n div 10 < 10 ^ k" "0 < k" using Suc.prems by (auto simp: gr0_conv_Suc) (cases k; simp)+
    with Suc.IH [of "n div 10"] False show ?thesis by (subst print_nat.simps) simp
  qed
qed simp

lemma print_int_length: "- (2 ^ 31) \<le> n \<Longrightarrow> n < 2 ^ 31 \<Longrightarrow> length (print_int n) \<le> 11"
proof -
  assume n: "- (2 ^ 31) \<le> n" "n < 2 ^ 31"
  have "nat (- n) < 10 ^ 10" "nat n < 10 ^ 10" using n by simp_all
  from print_nat_length [OF this(1)] print_nat_length [OF this(2)] show ?thesis by (simp add: print_int_def)
qed

context json_sink
begin

lemma value_adds:
  assumes "ready b" "\<forall>n. alloc n" "req = length key + (case val of Some v \<Rightarrow> length v | None \<Rightarrow> 10) + 10"
    and "jb_idx b + req \<le> BUF_MAX_SIZE" "length (concat ps) < req" "concat ps \<noteq> []" "wr = jb_append ps"
  shows "\<exists>b'. jb_value snk alloc key val wr b = Inr (True, b') \<and> adds b (concat ps) 0 b'"
  using put_adds [of b alloc req key val ps wr] assms by (simp add: jb_value_def ready_def)

lemma close_level_adds:
  assumes "ready b" "2 \<le> jb_obj_ct b" "\<forall>n. alloc n" "jb_idx b + 20 \<le> BUF_MAX_SIZE" "length txt < 20" "txt \<noteq> []"
    and "strm b = s @ t" "t \<noteq> []"
  shows "\<exists>b'. close_level snk alloc txt b = Inr b' \<and> ready b' \<and> jb_json b' = jb_json b \<and> jb_obj_ct b' = jb_obj_ct b - 1 \<and>
      strm b' = s @ uncomma t @ txt \<and> jb_idx b' + length t \<le> jb_idx b + length (uncomma t @ txt)"
  using close_adds [OF assms(1,3-8)] assms(1,2) by (fastforce simp: close_level_def ready_def ROOT_OBJS_def)

text \<open>An object or array around members that were added.\<close>

lemma nested_adds:
  assumes b: "ready b" "\<forall>n. alloc n"
    and bound: "jb_idx b + length (key_text key @ [c] @ inner' @ cls) + 20 \<le> BUF_MAX_SIZE"
    and opn: "\<exists>b1. opn b = Inr (True, b1) \<and> adds b (key_text key @ [c]) 1 b1"
    and body: "\<And>b1. adds b (key_text key @ [c]) 1 b1 \<Longrightarrow> \<exists>b2. body b1 = Inr (True, b2) \<and> adds b1 inner 0 b2"
    and inner: "uncomma (c # inner) = c # inner'" "length inner \<le> length inner' + 1" "length cls = 2"
  shows "\<exists>b'. jb_then (opn b) (\<lambda>b1. jb_then (body b1) (\<lambda>b2. jb_done (close_level snk alloc cls b2))) = Inr (True, b') \<and>
    adds b (key_text key @ [c] @ inner' @ cls) 0 b'"
proof -
  from opn obtain b1 where b1: "opn b = Inr (True, b1)" "adds b (key_text key @ [c]) 1 b1" by blast
  from body [OF b1(2)] obtain b2 where b2: "body b1 = Inr (True, b2)" "adds b1 inner 0 b2" by blast
  have a2: "adds b (key_text key @ [c] @ inner) 1 b2" using adds_trans [OF b1(2) b2(2)] by simp
  have r2: "ready b2" "2 \<le> jb_obj_ct b2" using adds_ready [OF a2 b(1)] a2 b(1) by (simp_all add: adds_def ready_def)
  have "strm b2 = (strm b @ key_text key) @ (c # inner)" "jb_idx b2 + 20 \<le> BUF_MAX_SIZE" "cls \<noteq> []" "length cls < 20"
    using a2 bound inner(2,3) by (auto simp: adds_def)
  from close_level_adds [OF r2 b(2) this(2,4,3,1)] obtain b3 where
    "close_level snk alloc cls b2 = Inr b3" "ready b3" "jb_json b3 = jb_json b2" "jb_obj_ct b3 = jb_obj_ct b2 - 1"
    "strm b3 = (strm b @ key_text key) @ uncomma (c # inner) @ cls"
    "jb_idx b3 + length (c # inner) \<le> jb_idx b2 + length (uncomma (c # inner) @ cls)" by auto
  moreover have "jb_idx b2 \<le> jb_idx b + length (key_text key) + length (c # inner)" using a2 by (simp add: adds_def)
  ultimately have "adds b (key_text key @ [c] @ inner' @ cls) 0 b3"
    using a2 b(1) by (auto simp: adds_def ready_def inner(1))
  then show ?thesis using b1(1) b2(1) \<open>close_level snk alloc cls b2 = Inr b3\<close> by (simp del: append_assoc)
qed

lemma open_adds:
  assumes "ready b" "\<forall>n. alloc n" "jb_idx b + length (key_text key) + 22 \<le> BUF_MAX_SIZE"
  shows "\<exists>b1. add_object snk alloc key b = Inr (True, b1) \<and> adds b (key_text key @ ''{'') 1 b1"
    and "\<exists>b1. add_array snk alloc key b = Inr (True, b1) \<and> adds b (key_text key @ ''['') 1 b1"
proof -
  have b: "jb_ok b" "jb_isMine b" "jb_opened b" using assms(1) by (simp_all add: ready_def jb_opened_def ROOT_OBJS_def)
  let ?k = "case key of None \<Rightarrow> [] | Some k \<Rightarrow> k"
  have bound: "jb_idx b + (length ?k + 20) \<le> BUF_MAX_SIZE"
    using assms(3) by (cases key) (simp_all add: key_text_def quoted_def)
  have *: "\<exists>b1. jb_nest 1 (jb_put snk alloc ?k None (jb_append (case key of None \<Rightarrow> [[c]] | Some k \<Rightarrow> [[DQ], k, [DQ] @ [CHR '':'', c]])) b)
      = Inr (True, b1) \<and> adds b (key_text key @ [c]) 1 b1" for c
  proof -
    let ?ps = "case key of None \<Rightarrow> [[c]] | Some k \<Rightarrow> [[DQ], k, [DQ] @ [CHR '':'', c]]"
    have "concat ?ps = key_text key @ [c]" by (cases key) (simp_all add: key_text_def quoted_def)
    moreover have "length (concat ?ps) < length ?k + 20" "concat ?ps \<noteq> []" by (cases key; simp)+
    ultimately show ?thesis
      using put_adds [OF b(1,2) assms(2), of "length ?k + 20" ?k None ?ps "jb_append ?ps"] bound
      by (auto intro!: nest_adds)
  qed
  show "\<exists>b1. add_object snk alloc key b = Inr (True, b1) \<and> adds b (key_text key @ ''{'') 1 b1"
    using * [of "CHR ''{''"] b(3) by (cases key) (simp_all add: add_object_def)
  show "\<exists>b1. add_array snk alloc key b = Inr (True, b1) \<and> adds b (key_text key @ ''['') 1 b1"
    using * [of "CHR ''[''"] b(3) by (cases key) (simp_all add: add_array_def)
qed

lemma quoted_length: "length (key_text (Some k)) = length k + 3"
  by (simp add: key_text_def quoted_def)

lemma emit_adds:
  assumes alloc: "\<forall>n. alloc n"
  shows "ready b \<Longrightarrow> val_ok v \<Longrightarrow> key = None \<longrightarrow> element_ok v \<Longrightarrow>
      jb_idx b + length (key_text key @ print_val v @ '','') + 20 \<le> BUF_MAX_SIZE \<Longrightarrow>
      \<exists>b'. emit_val snk alloc v key b = Inr (True, b') \<and> adds b (key_text key @ print_val v @ '','') 0 b'"
    and "ready b \<Longrightarrow> mem_ok m \<Longrightarrow> jb_idx b + length (mem_commas m) + 20 \<le> BUF_MAX_SIZE \<Longrightarrow>
      \<exists>b'. emit_mem snk alloc m b = Inr (True, b') \<and> adds b (mem_commas m) 0 b'"
    and "ready b \<Longrightarrow> els_ok e \<Longrightarrow> jb_idx b + length (els_commas e) + 20 \<le> BUF_MAX_SIZE \<Longrightarrow>
      \<exists>b'. emit_els snk alloc e b = Inr (True, b') \<and> adds b (els_commas e) 0 b'"
proof (induction v and m and e arbitrary: b key and b and b rule: jval.induct jmem.induct jels.induct)
  case (JInt n)
  then obtain k where k: "key = Some k" by (cases key) auto
  have "length (print_int n) \<le> 11" using JInt by (auto intro: print_int_length)
  with JInt k value_adds [OF JInt(1) alloc refl, of k None "quoted_key k @ [print_int n, '','']" "jb_append (quoted_key k @ [print_int n, '',''])"]
  show ?case by (simp add: add_key_value_pair_d_def key_text_def quoted_def quoted_key_def)
next
  case (JBool x)
  then obtain k where k: "key = Some k" by (cases key) auto
  let ?t = "if x then ''true'' else ''false''"
  show ?case using JBool k value_adds [OF JBool(1) alloc refl, of k None "quoted_key k @ [?t, '','']" "jb_append (quoted_key k @ [?t, '',''])"]
    by (cases x) (simp_all add: put_kv_bool_def key_text_def quoted_def quoted_key_def)
next
  case (JStr s)
  show ?case
  proof (cases key)
    case None
    have eq: "jb_append [[DQ], s, [DQ] @ '',''] = (\<lambda>b. case jb_append [[DQ]] b of Inl e \<Rightarrow> Inl e
        | Inr b1 \<Rightarrow> (case jb_append [s] b1 of Inl e \<Rightarrow> Inl e | Inr b2 \<Rightarrow> jb_append [[DQ] @ '',''] b2))"
      by (rule ext) (auto simp: jb_append_def split: option.splits sum.splits if_splits)
    have "add_value_s snk alloc s = jb_value snk alloc ''---'' (Some s) (jb_append [[DQ], s, [DQ] @ '',''])"
      unfolding add_value_s_def eq ..
    with JStr None value_adds [OF JStr(1) alloc refl, of "''---''" "Some s" "[[DQ], s, [DQ] @ '','']" "jb_append [[DQ], s, [DQ] @ '','']"]
    show ?thesis by (simp add: key_text_def quoted_def)
  next
    case (Some k)
    with JStr value_adds [OF JStr(1) alloc refl, of k "Some s" "[[DQ], k, [DQ] @ '':'' @ [DQ], s, [DQ] @ '','']" "jb_append [[DQ], k, [DQ] @ '':'' @ [DQ], s, [DQ] @ '','']"]
    show ?thesis by (simp add: add_key_value_pair_s_def key_text_def quoted_def)
  qed
next
  case (JObj m)
  have opn: "\<exists>b1. add_object snk alloc key b = Inr (True, b1) \<and> adds b (key_text key @ ''{'') 1 b1"
    using open_adds(1) [OF JObj.prems(1) alloc, of key] JObj.prems(4) by simp
  have body: "\<exists>b2. emit_mem snk alloc m b1 = Inr (True, b2) \<and> adds b1 (mem_commas m) 0 b2" if "adds b (key_text key @ ''{'') 1 b1" for b1
  proof (rule JObj.IH)
    show "ready b1" by (rule adds_ready [OF that JObj.prems(1)]) simp
    show "jb_idx b1 + length (mem_commas m) + 20 \<le> BUF_MAX_SIZE"
      using that JObj.prems(4) by (simp add: adds_def mem_commas_def split: if_splits)
  qed (use JObj.prems in simp)
  show ?case
    using nested_adds [where opn = "add_object snk alloc key" and body = "emit_mem snk alloc m" and c = "CHR ''{''" and key = key
        and inner' = "print_mem m" and cls = "''},''", OF JObj.prems(1) alloc _ opn body] JObj.prems(4)
    by (simp add: close_object_def commas_length)
next
  case (JArr e)
  have opn: "\<exists>b1. add_array snk alloc key b = Inr (True, b1) \<and> adds b (key_text key @ ''['') 1 b1"
    using open_adds(2) [OF JArr.prems(1) alloc, of key] JArr.prems(4) by simp
  have body: "\<exists>b2. emit_els snk alloc e b1 = Inr (True, b2) \<and> adds b1 (els_commas e) 0 b2" if "adds b (key_text key @ ''['') 1 b1" for b1
  proof (rule JArr.IH)
    show "ready b1" by (rule adds_ready [OF that JArr.prems(1)]) simp
    show "jb_idx b1 + length (els_commas e) + 20 \<le> BUF_MAX_SIZE"
      using that JArr.prems(4) by (simp add: adds_def els_commas_def split: if_splits)
  qed (use JArr.prems in simp)
  show ?case
    using nested_adds [where opn = "add_array snk alloc key" and body = "emit_els snk alloc e" and c = "CHR ''[''" and key = key
        and inner' = "print_els e" and cls = "''],''", OF JArr.prems(1) alloc _ opn body] JArr.prems(4)
    by (simp add: close_array_def commas_length)
next
  case MNil
  then show ?case by (simp add: adds_def ready_def)
next
  case (MCons k v m)
  have "jb_idx b + length (key_text (Some k) @ print_val v @ '','') + 20 \<le> BUF_MAX_SIZE" using MCons.prems(3) by simp
  with MCons.IH(1) [OF MCons.prems(1), of "Some k"] MCons.prems(2) obtain b1 where
    b1: "emit_val snk alloc v (Some k) b = Inr (True, b1)" "adds b (key_text (Some k) @ print_val v @ '','') 0 b1" by auto
  have "ready b1" by (rule adds_ready [OF b1(2) MCons.prems(1)]) simp
  moreover have "jb_idx b1 + length (mem_commas m) + 20 \<le> BUF_MAX_SIZE" using b1(2) MCons.prems(3) by (simp add: adds_def)
  ultimately obtain b2 where "emit_mem snk alloc m b1 = Inr (True, b2)" "adds b1 (mem_commas m) 0 b2"
    using MCons.IH(2) [of b1] MCons.prems(2) by auto
  with b1 adds_trans [OF b1(2)] show ?case by fastforce
next
  case ENil
  then show ?case by (simp add: adds_def ready_def)
next
  case (ECons v e)
  have "jb_idx b + length (key_text None @ print_val v @ '','') + 20 \<le> BUF_MAX_SIZE" using ECons.prems(3) by (simp add: key_text_def)
  with ECons.IH(1) [OF ECons.prems(1), of None] ECons.prems(2) obtain b1 where
    b1: "emit_val snk alloc v None b = Inr (True, b1)" "adds b (key_text None @ print_val v @ '','') 0 b1" by auto
  have "ready b1" by (rule adds_ready [OF b1(2) ECons.prems(1)]) simp
  moreover have "jb_idx b1 + length (els_commas e) + 20 \<le> BUF_MAX_SIZE"
    using b1(2) ECons.prems(3) by (simp add: adds_def key_text_def)
  ultimately obtain b2 where "emit_els snk alloc e b1 = Inr (True, b2)" "adds b1 (els_commas e) 0 b2"
    using ECons.IH(2) [of b1] ECons.prems(2) by auto
  with b1 adds_trans [OF b1(2)] show ?case by (fastforce simp: key_text_def)
qed

text \<open>The root object.\<close>

lemma open_root_adds:
  assumes "jb_ok b" "jb_isMine b" "jb_obj_ct b = 0" "jb_eof b = False" "\<forall>n. alloc n" "jb_idx b = 0"
    and "length (case ido of None \<Rightarrow> [] | Some i \<Rightarrow> i) + 20 \<le> BUF_MAX_SIZE"
  shows "\<exists>b1. open_root_object snk alloc ido b = Inr (True, b1) \<and>
    adds b (CHR ''{'' # (case ido of None \<Rightarrow> [] | Some i \<Rightarrow> key_text (Some ''from'') @ quoted i @ '','')) 1 b1"
proof -
  have b: "b\<lparr>jb_idx := 0, jb_obj_ct := 0\<rparr> = b" using assms(3,6) by simp
  let ?ps = "case ido of None \<Rightarrow> [''{''] | Some i \<Rightarrow> [''{'' @ [DQ] @ ''from'' @ [DQ] @ '':'' @ [DQ], i, [DQ] @ '','']"
  let ?t = "CHR ''{'' # (case ido of None \<Rightarrow> [] | Some i \<Rightarrow> key_text (Some ''from'') @ quoted i @ '','')"
  have t: "concat ?ps = ?t" by (cases ido) (simp_all add: key_text_def quoted_def)
  let ?i = "case ido of None \<Rightarrow> [] | Some i \<Rightarrow> i"
  have "length (concat ?ps) < length ?i + 20" "concat ?ps \<noteq> []" by (cases ido; simp)+
  with put_adds [OF assms(1,2,5), of "length ?i + 20" ?i None ?ps "jb_append ?ps"] assms(6,7)
  obtain b1 where "jb_put snk alloc ?i None (jb_append ?ps) b = Inr (True, b1)" "adds b (concat ?ps) 0 b1" by auto
  from nest_adds [OF this, of 1] assms(3) b show ?thesis unfolding open_root_object_def t by simp
qed

lemma emit_root_adds:
  assumes b: "jb_ok b" "jb_isMine b" "jb_obj_ct b = 0" "jb_eof b = False" "jb_idx b = 0" and alloc: "\<forall>n. alloc n"
    and m: "mem_ok m" "length (print_val (JObj (root_mem ido m))) + 20 \<le> BUF_MAX_SIZE"
  shows "\<exists>b'. emit_root snk alloc ido m b = Inr (True, b') \<and> jb_ok b' \<and> jb_buf b' \<noteq> None \<and> 0 < jb_idx b' \<and> jb_idx b' < jb_size b' \<and>
    jb_json b' = jb_json b \<and> jb_eof b' = False \<and> jb_obj_ct b' = 0 \<and> strm b' = strm b @ print_val (JObj (root_mem ido m))"
proof -
  define h where "h = CHR ''{'' # (case ido of None \<Rightarrow> [] | Some i \<Rightarrow> key_text (Some ''from'') @ quoted i @ '','')"
  have u: "uncomma (h @ mem_commas m) @ ''}'' = print_val (JObj (root_mem ido m))"
    by (cases "m = MNil"; cases ido) (simp_all add: h_def mem_commas_def uncomma_def butlast_append root_mem_def key_text_def)
  have "length (h @ mem_commas m) \<le> Suc (length (uncomma (h @ mem_commas m)))" by (simp add: uncomma_def)
  then have len: "length (h @ mem_commas m) \<le> length (print_val (JObj (root_mem ido m)))" unfolding u [symmetric] by simp
  have "length (case ido of None \<Rightarrow> [] | Some i \<Rightarrow> i) + 20 \<le> BUF_MAX_SIZE"
    using m(2) by (cases ido) (simp_all add: root_mem_def quoted_def split: if_splits)
  from open_root_adds [OF b(1-4) alloc b(5) this] obtain b1 where
    b1: "open_root_object snk alloc ido b = Inr (True, b1)" "adds b h 1 b1" unfolding h_def by blast
  have r1: "ready b1" using b1(2) b by (simp add: adds_def ready_def)
  have "jb_idx b1 + length (mem_commas m) + 20 \<le> BUF_MAX_SIZE"
    using b1(2) b(5) m(2) len by (simp add: adds_def)
  from emit_adds(2) [OF alloc r1 m(1) this] obtain b2 where
    b2: "emit_mem snk alloc m b1 = Inr (True, b2)" "adds b1 (mem_commas m) 0 b2" by blast
  have a2: "adds b (h @ mem_commas m) 1 b2" using adds_trans [OF b1(2) b2(2)] by simp
  have r2: "ready b2" using a2 b by (simp add: adds_def ready_def)
  have "jb_idx b2 + 20 \<le> BUF_MAX_SIZE"
    using a2 b(5) m(2) len by (simp add: adds_def)
  moreover have "strm b2 = strm b @ (h @ mem_commas m)" "h @ mem_commas m \<noteq> []" using a2 by (simp_all add: adds_def h_def)
  ultimately obtain b3 where b3: "jb_close snk alloc ''}'' b2 = Inr b3" "jb_ok b3" "jb_buf b3 \<noteq> None" "0 < jb_idx b3" "jb_idx b3 < jb_size b3"
    "jb_json b3 = jb_json b2" "jb_eof b3 = False" "jb_obj_ct b3 = jb_obj_ct b2 - 1" "strm b3 = strm b @ uncomma (h @ mem_commas m) @ ''}''"
    using close_adds [OF r2 alloc, of "''}''" "strm b" "h @ mem_commas m"] by auto
  moreover have "close_root_object snk alloc b2 = jb_close snk alloc ''}'' b2"
    using a2 b(3) by (auto simp: close_root_object_def adds_def)
  ultimately show ?thesis using b1(1) b2(1) a2 b(3) u by (simp add: emit_root_def adds_def)
qed

end

end
