(* ===== verification/JsonProps.thy ===== *)
theory JsonProps
  imports JsonTree
begin

text \<open>The properties of the JSON builder and of the writers.\<close>

section \<open>Messages\<close>

text \<open>C11: A JSON message is the text the usual printer gives, with commas between members only and strings quoted as they are, when it is built by these
  calls: open_root_object, for the members add_key_value_pair_d (numbers of 32 bits), put_kv_bool, add_key_value_pair_s, and add_object and add_array under
  their keys, for the elements of arrays add_value_s, add_object and add_array, close_object and close_array for each level, and close_root_object. (Numbers and
  truth values in arrays, floats, the put_kv functions for numbers and add_key are not covered.) This holds for every target that takes prefixes of what it is
  given: the part it already took in chunks while the message was built, followed by the part still in the buffer, is that text. None of these calls fails when
  memory can always be had and the message is at least 20 characters shorter than the builder's limit of 2048; write_json then hands over exactly the rest with
  the final flag.\<close>

theorem json_message_printed:
  assumes snk: "\<And>s txt fin n s'. snk s txt fin = (n, s') \<Longrightarrow> n \<le> int (length txt) \<and> rcv s' = rcv s @ take (nat n) txt"
    and alloc: "\<forall>n. alloc n"
    and m: "mem_ok m" "length (print_val (JObj (root_mem ido m))) + 20 \<le> BUF_MAX_SIZE"
  shows "\<exists>b'. emit_root snk alloc ido m (jb_new True s) = Inr (True, b') \<and>
    rcv (jb_snk b') @ jb_pending b' = rcv s @ print_val (JObj (root_mem ido m)) \<and>
    fst (write_json snk True b') = fst (snk (jb_snk b') (jb_pending b') True) \<and>
    jb_snk (snd (write_json snk True b')) = snd (snk (jb_snk b') (jb_pending b') True)"
proof -
  have js: "json_sink snk rcv" by (rule json_sink.intro) (rule snk)
  let ?b = "jb_new True s"
  have b: "jb_ok ?b" "jb_isMine ?b" "jb_obj_ct ?b = 0" "jb_eof ?b = False" "jb_idx ?b = 0" "jb_json ?b"
    "json_sink.strm rcv ?b = rcv s"
    by (simp_all add: json_sink.strm_def [OF js] jb_pending_def) (simp_all add: jb_new_def)
  from json_sink.emit_root_adds [OF js b(1-5) alloc m] obtain b' where
    b': "emit_root snk alloc ido m ?b = Inr (True, b')" "jb_buf b' \<noteq> None" "0 < jb_idx b'" "jb_json b'" "jb_eof b' = False"
      "json_sink.strm rcv b' = rcv s @ print_val (JObj (root_mem ido m))"
    using b(6,7) by auto
  obtain k s' where k: "snk (jb_snk b') (jb_pending b') True = (k, s')" by (cases "snk (jb_snk b') (jb_pending b') True")
  then have "write_json snk True b' = (k, b'\<lparr>jb_snk := s', jb_idx := 0, jb_eof := True\<rparr>)"
    using b'(2-5) by (auto simp: write_json_def jb_pending_def)
  with b' k show ?thesis by (simp add: json_sink.strm_def [OF js])
qed

theorem json_message_printed_witness:
  "\<exists>b'. emit_root builder_priv_write (\<lambda>n. True) (Some ''cli'')
      (MCons ''a'' (JInt 5) (MCons ''b'' (JArr (ECons (JStr ''x'') ENil)) MNil)) (jb_new True ()) = Inr (True, b') \<and>
    jb_pending b' = ''{'' @ [DQ] @ ''from'' @ [DQ] @ '':'' @ [DQ] @ ''cli'' @ [DQ] @ '','' @ [DQ] @ ''a'' @ [DQ] @ '':5,'' @
      [DQ] @ ''b'' @ [DQ] @ '':['' @ [DQ] @ ''x'' @ [DQ] @ '']}''"
proof -
  have p: "print_int 5 = ''5''" by (simp add: print_int_def print_nat.simps digit_chars)
  show ?thesis
    using json_message_printed [of builder_priv_write "\<lambda>w. []" "\<lambda>n. True"
        "MCons ''a'' (JInt 5) (MCons ''b'' (JArr (ECons (JStr ''x'') ENil)) MNil)" "Some ''cli''" "()"] builder.snk_takes p
    by (auto simp: root_mem_def quoted_def BUF_MAX_SIZE_def)
qed

text \<open>Adding a string member under a key never fails with an assertion and is all or
  nothing: either it returns true and exactly the member, quoted and followed by a comma, is added to
  the stream of what the target took and what the buffer holds, or it returns false (no memory, a
  fixed buffer that is full) and the stream is unchanged. No character is lost or
  repeated while chunks move from the buffer to the target.\<close>

lemma json_string_all_or_nothing:
  assumes snk: "\<And>s txt fin n s'. snk s txt fin = (n, s') \<Longrightarrow> n \<le> int (length txt) \<and> rcv s' = rcv s @ take (nat n) txt"
    and b: "jb_ok b" "0 < jb_idx b"
  shows "\<exists>ok b'. add_key_value_pair_s snk alloc key val b = Inr (ok, b') \<and> jb_ok b' \<and> 0 < jb_idx b' \<and>
    rcv (jb_snk b') @ jb_pending b' = rcv (jb_snk b) @ jb_pending b @ (if ok then key_text (Some key) @ quoted val @ '','' else [])"
proof -
  have js: "json_sink snk rcv" by (rule json_sink.intro) (rule snk)
  let ?ps = "[[DQ], key, [DQ] @ '':'' @ [DQ], val, [DQ] @ '','']"
  have len: "length (concat ?ps) < length key + (case Some val of Some v \<Rightarrow> length v | None \<Rightarrow> 10) + 10" by simp
  have a: "json_sink.appends rcv b (concat ?ps) 0 (add_key_value_pair_s snk alloc key val b)"
    unfolding add_key_value_pair_s_def by (rule json_sink.value_appends [OF js b len refl])
  have c: "concat ?ps = key_text (Some key) @ quoted val @ '',''" by (simp add: key_text_def quoted_def)
  obtain ok b' where "add_key_value_pair_s snk alloc key val b = Inr (ok, b')" "jb_ok b'" "0 < jb_idx b \<longrightarrow> 0 < jb_idx b'"
    "json_sink.strm rcv b' = json_sink.strm rcv b @ (if ok then concat ?ps else [])"
    using a unfolding json_sink.appends_def [OF js] by (elim exE conjE) (rule that, assumption+)
  with b(2) show ?thesis unfolding json_sink.strm_def [OF js] c by auto
qed

lemma json_string_all_or_nothing_witness:
  "\<exists>ok b'. add_key_value_pair_s builder_priv_write (\<lambda>n. n \<le> 64) ''k'' ''v''
      (jb_new True ()\<lparr>jb_buf := Some ''{+++'', jb_size := 4, jb_idx := 1\<rparr>) = Inr (ok, b') \<and> 0 < jb_idx b'"
  using json_string_all_or_nothing [of builder_priv_write "\<lambda>w. []" "jb_new True ()\<lparr>jb_buf := Some ''{+++'', jb_size := 4, jb_idx := 1\<rparr>"
      "\<lambda>n. n \<le> 64" "''k''" "''v''"] builder.snk_takes
  by (auto simp: jb_ok_def jb_new_def)

text \<open>add_value and add_value_d convert the number but never append it: what they add to
  an array is a single comma, whatever the number is.\<close>

lemma add_value_drops_number:
  assumes snk: "\<And>s txt fin n s'. snk s txt fin = (n, s') \<Longrightarrow> n \<le> int (length txt) \<and> rcv s' = rcv s @ take (nat n) txt"
    and b: "jb_ok b" "0 < jb_idx b"
  shows "\<exists>ok b'. add_value_d snk alloc val b = Inr (ok, b') \<and> add_value snk alloc val b = Inr (ok, b') \<and>
    rcv (jb_snk b') @ jb_pending b' = rcv (jb_snk b) @ jb_pending b @ (if ok then '','' else [])"
proof -
  have js: "json_sink snk rcv" by (rule json_sink.intro) (rule snk)
  have len: "length (concat ['','']) < length ([] :: string) + (case Some (print_int val) of Some v \<Rightarrow> length v | None \<Rightarrow> 10) + 10" by simp
  have a: "json_sink.appends rcv b (concat ['','']) 0 (add_value_d snk alloc val b)"
    unfolding add_value_d_def by (rule json_sink.value_appends [OF js b len refl])
  obtain ok b' where "add_value_d snk alloc val b = Inr (ok, b')"
    "json_sink.strm rcv b' = json_sink.strm rcv b @ (if ok then concat ['',''] else [])"
    using a unfolding json_sink.appends_def [OF js] by (elim exE conjE) (rule that, assumption+)
  then show ?thesis unfolding json_sink.strm_def [OF js] by (auto simp: add_value_d_def add_value_def)
qed

lemma add_value_drops_number_witness:
  "\<exists>ok b'. add_value builder_priv_write (\<lambda>n. True) 42 (jb_new True ()\<lparr>jb_buf := Some ''[+++'', jb_size := 4, jb_idx := 1\<rparr>) = Inr (ok, b') \<and>
    jb_pending b' = (if ok then ''[,'' else ''['')"
  using add_value_drops_number [of builder_priv_write "\<lambda>w. []" "jb_new True ()\<lparr>jb_buf := Some ''[+++'', jb_size := 4, jb_idx := 1\<rparr>"
      "\<lambda>n. True" 42] builder.snk_takes
  by (auto simp: jb_ok_def jb_new_def jb_pending_def split: if_splits)

text \<open>put_kv with a 64-bit number can abort: the space checked for is the key and 20 more characters, the
  member needs up to key and 24. With exactly the space checked for, the smallest signed number
  moves the index past the end and the assertion on it fails, where the largest 32-bit number is stored.\<close>

lemma put_kv_wide_aborts:
  fixes s :: 's
  assumes "length key + 40 \<le> n"
  defines "b \<equiv> jb_new True s\<lparr>jb_buf := Some (replicate n CHR ''{''), jb_size := n, jb_idx := n - (length key + 20)\<rparr>"
  shows "put_kv_num snk alloc key (- (2 ^ 63)) b = Inl JbAssert \<and>
    (\<exists>b'. put_kv_num snk alloc key (2 ^ 31 - 1) b = Inr (True, b') \<and>
      jb_pending b' = jb_pending b @ key_text (Some key) @ print_int (2 ^ 31 - 1) @ '','')"
proof (intro conjI)
  have free: "jb_free b = length key + 20" "jb_idx b = n - (length key + 20)" "jb_size b = n" "jb_buf b = Some (replicate n CHR ''{'')"
    "0 < jb_idx b" using assms(1) by (simp_all add: b_def)
  have ne: "not_enough_buffer snk alloc key None b = Inr (False, b)" using free by (simp add: not_enough_buffer_def Let_def)
  have len: "length (print_int (- (2 ^ 63))) = 20" "length (print_int (2 ^ 31 - 1)) = 10"
    by (simp_all add: print_int_def print_nat.simps)
  have kv: "length (kv_text key v) = length key + 4 + length v" for v by (simp add: kv_text_def quoted_key_def)
  note pf = printf_spec [OF free(4), unfolded free(2,3)]
  have v: "jb_value snk alloc key None wr b = (case wr b of Inl e \<Rightarrow> Inl e
      | Inr b2 \<Rightarrow> if jb_size b2 > jb_idx b2 then Inr (True, b2) else Inl JbAssert)" for wr
    using free ne by (simp add: jb_value_def jb_put_def)
  have "(case jb_printf t b of Inl e \<Rightarrow> Inl e | Inr b2 \<Rightarrow> if jb_size b2 > jb_idx b2 then Inr (True, b2) else Inl JbAssert) = Inl JbAssert"
    if "length t = length key + 24" for t
    using pf [of t] that assms(1) free(1-3) by auto
  from this [of "kv_text key (print_int (- (2 ^ 63)))"] show "put_kv_num snk alloc key (- (2 ^ 63)) b = Inl JbAssert"
    unfolding put_kv_num_def v kv len by simp
  show "\<exists>b'. put_kv_num snk alloc key (2 ^ 31 - 1) b = Inr (True, b') \<and>
      jb_pending b' = jb_pending b @ key_text (Some key) @ print_int (2 ^ 31 - 1) @ '',''"
  proof -
    let ?t = "kv_text key (print_int (2 ^ 31 - 1))"
    have lt: "length ?t = length key + 14" by (simp only: kv len)
    obtain m' where m': "jb_printf ?t b = Inr (b\<lparr>jb_buf := Some m', jb_idx := jb_idx b + length ?t\<rparr>)" "length m' = n"
      "take (jb_idx b + length ?t) m' = take (jb_idx b) (replicate n CHR ''{'') @ ?t"
      using pf [of ?t] assms(1) free(1-3) lt by auto
    have "put_kv_num snk alloc key (2 ^ 31 - 1) b = Inr (True, b\<lparr>jb_buf := Some m', jb_idx := jb_idx b + length ?t\<rparr>)"
      unfolding put_kv_num_def v m'(1) using free(1-3) lt assms(1) by simp
    moreover have "?t = key_text (Some key) @ print_int (2 ^ 31 - 1) @ '',''"
      by (simp add: kv_text_def key_text_def quoted_def quoted_key_def)
    ultimately show ?thesis using m'(3) free(4) by (simp add: jb_pending_def)
  qed
qed

lemma put_kv_wide_aborts_witness:
  "put_kv_num builder_priv_write (\<lambda>n. True) ''id'' (- (2 ^ 63))
     (jb_new True ()\<lparr>jb_buf := Some (replicate 64 CHR ''{''), jb_size := 64, jb_idx := 42\<rparr>) = Inl JbAssert"
  using put_kv_wide_aborts [of "''id''" 64 builder_priv_write "\<lambda>n. True" "()"] by simp

section \<open>Writers\<close>

text \<open>A text written in non-empty pieces through UoutWriterFunction with ws_write as callback, the last
  piece marked final, reaches the web socket as one message: one frame per piece with its text, the first of type text and the
  others continuations, only the last frame final, and fragmented exactly when there is more than one piece.
  The writer is then ready for the next message.\<close>

lemma ws_message_framing:
  assumes "ps \<noteq> []" "[] \<notin> set ps"
  shows "write_pieces (function_priv_write (ws_write (ws_wire (\<lambda>fs f. True)))) \<lparr>fw_chunks = 0, fw_target = fs\<rparr> ps =
    \<lparr>fw_chunks = 0, fw_target = fs @ map (\<lambda>i. \<lparr>wsf_final = (i = length ps - 1), wsf_fragmented = (1 < length ps),
       wsf_type = (if i = 0 then WS_TEXT else WS_CONTINUE), wsf_payload = ps ! i\<rparr>) [0..<length ps]\<rparr>"
proof -
  define ev where "ev = (\<lambda>st p. \<lparr>wsf_final = (0 \<le> st), wsf_fragmented = (st \<noteq> (0 :: int)),
       wsf_type = (if st = 0 \<or> st = - 1 then WS_TEXT else WS_CONTINUE), wsf_payload = p\<rparr>)"
  let ?w = "write_pieces (function_priv_write (ws_write (ws_wire (\<lambda>fs f. True)))) \<lparr>fw_chunks = 0, fw_target = fs\<rparr> ps"
  have "takes_all (ws_write (ws_wire (\<lambda>fs f. True))) id ev"
    by (simp add: takes_all_def ws_write_def ws_wire_def ev_def Let_def)
  from function_write_pieces [OF this assms(2,1), of "\<lparr>fw_chunks = 0, fw_target = fs\<rparr>" 0]
  have w: "fw_chunks ?w = 0" "fw_target ?w = fs @ map (case_prod ev) (message_chunks 0 ps)" by simp_all
  have "map (case_prod ev) (message_chunks 0 ps) = map (\<lambda>i. \<lparr>wsf_final = (i = length ps - 1), wsf_fragmented = (1 < length ps),
       wsf_type = (if i = 0 then WS_TEXT else WS_CONTINUE), wsf_payload = ps ! i\<rparr>) [0..<length ps]"
    by (rule nth_equalityI) (auto simp: message_chunks_nth ev_def)
  with w show ?thesis by (cases ?w) simp
qed

lemma ws_message_framing_witness:
  "fw_target (write_pieces (function_priv_write (ws_write (ws_wire (\<lambda>fs f. True)))) \<lparr>fw_chunks = 0, fw_target = []\<rparr> [''ab'', ''c'']) =
    [\<lparr>wsf_final = False, wsf_fragmented = True, wsf_type = WS_TEXT, wsf_payload = ''ab''\<rparr>,
     \<lparr>wsf_final = True, wsf_fragmented = True, wsf_type = WS_CONTINUE, wsf_payload = ''c''\<rparr>]"
  using ws_message_framing [of "[''ab'', ''c'']" "[]"] by (simp add: upt_rec)

text \<open>Writing a text of less than 4096 characters to a console whose descriptor accepts everything
  returns its length and sends every line feed as carriage return and line feed and every other character as it
  is, provided the text has no carriage return. A text that ends in a carriage return loses everything after its last line feed,
  although its whole length is reported as written.\<close>

lemma console_write_crlf:
  assumes wr: "\<forall>w s. fst (wr w s) = int (length s) \<and> out (snd (wr w s)) = out w @ s" and len: "length s < 4095"
  shows "(CR \<notin> set s \<longrightarrow> (\<exists>w'. console_priv_write wr w s fin = Some (int (length s), w') \<and> out w' = out w @ crlf s)) \<and>
    (LF \<notin> set s \<longrightarrow> (\<exists>w'. console_priv_write wr w (s @ [CR]) fin = Some (int (length s) + 1, w') \<and> out w' = out w))"
proof (intro conjI impI)
  have wa: "writes_all wr out" using wr by (simp add: writes_all_def)
  have "length s < 4096" "length (s @ [CR]) < 4096" using len by simp_all
  note c = console_write_text [OF wa this(1), of w fin] console_write_text [OF wa this(2), of w fin]
  show "\<exists>w'. console_priv_write wr w s fin = Some (int (length s), w') \<and> out w' = out w @ crlf s" if "CR \<notin> set s"
    using c(1) console_text_no_cr [OF that] by simp
  show "\<exists>w'. console_priv_write wr w (s @ [CR]) fin = Some (int (length s) + 1, w') \<and> out w' = out w" if "LF \<notin> set s"
  proof -
    have "LF \<notin> set (s @ [CR])" using that by simp
    then have "console_text (s @ [CR]) = []" by (simp add: console_text_def del: set_append)
    with c(2) show ?thesis by (simp add: algebra_simps)
  qed
qed

lemma console_write_crlf_witness:
  "\<exists>w'. console_priv_write (\<lambda>w s. (int (length s), w @ s)) [] (''ok'' @ [LF]) False = Some (3, w') \<and> w' = ''ok'' @ [CR, LF]"
  using console_write_crlf [of "\<lambda>w s. (int (length s), w @ s)" id "''ok'' @ [LF]" "[]" False] by simp

end
