(* ===== verification/Stm32Uart.thy ===== *)
theory Stm32Uart
  imports Prelude
begin

text \<open>
  The serial line to the STM32 (stm32/esp32/stm32_uart.cc, stm32/stm32_uart.hh).

  The UART driver of the SDK is a log of the bytes sent and an oracle for the reads: the answer to
  the i-th read is the parameter \<open>rx i\<close>, None for an error; the results of the configuration calls
  are parameters too. Installing a driver twice, or deleting one that is not there, has no outcome.
  Pins are a log of the levels set. The mutexes are not modelled.
\<close>

datatype stm32_mode = STM32_MODE_NONE | STM32_MODE_FIRMWARE | STM32_MODE_BOOTLOADER

record cfg_stm32 =
  boot_gpio_is_inverse :: bool
  boot_gpio :: nat
  reset_gpio :: nat

record esp_uart =
  eu_mode :: stm32_mode
  eu_queue :: bool
  eu_driver :: bool
  eu_parity_even :: bool
  eu_tx :: "u8 list"
  eu_reads :: nat
  eu_flushes :: nat
  eu_gpio :: "(nat \<times> bool) list"
  eu_config :: cfg_stm32

record drv_env =
  de_param_ok :: bool
  de_pin_ok :: bool
  de_install_ok :: bool
  de_rx :: "nat \<Rightarrow> u8 list option"

definition esp_uart_init :: "cfg_stm32 \<Rightarrow> esp_uart" where
  "esp_uart_init c = \<lparr>eu_mode = STM32_MODE_NONE, eu_queue = False, eu_driver = False, eu_parity_even = False, eu_tx = [],
     eu_reads = 0, eu_flushes = 0, eu_gpio = [], eu_config = c\<rparr>"

section \<open>The driver\<close>

definition uart_write_bytes :: "u8 list \<Rightarrow> esp_uart \<Rightarrow> int \<times> esp_uart" where
  "uart_write_bytes bs s = (int (length bs), s\<lparr>eu_tx := eu_tx s @ bs\<rparr>)"

text \<open>At most \<open>size\<close> bytes are delivered.\<close>

definition uart_read_bytes :: "drv_env \<Rightarrow> nat \<Rightarrow> esp_uart \<Rightarrow> u8 list option \<times> esp_uart" where
  "uart_read_bytes e n s = (map_option (take n) (de_rx e (eu_reads s)), s\<lparr>eu_reads := eu_reads s + 1\<rparr>)"

section \<open>Reading and writing\<close>

definition stm32_isFirmwareRunning :: "esp_uart \<Rightarrow> bool" where
  "stm32_isFirmwareRunning s \<longleftrightarrow> eu_mode s = STM32_MODE_FIRMWARE"

definition p_stm32_write :: "u8 list \<Rightarrow> esp_uart \<Rightarrow> int \<times> esp_uart" where
  "p_stm32_write bs s = (if eu_mode s \<noteq> STM32_MODE_FIRMWARE then (-1, s) else uart_write_bytes bs s)"

definition p_stm32_read :: "drv_env \<Rightarrow> nat \<Rightarrow> esp_uart \<Rightarrow> u8 list option \<times> esp_uart" where
  "p_stm32_read e n s = (if eu_mode s \<noteq> STM32_MODE_FIRMWARE then (None, s) else uart_read_bytes e n s)"

definition p_stm32_getc :: "drv_env \<Rightarrow> esp_uart \<Rightarrow> int \<times> esp_uart" where
  "p_stm32_getc e s =
     (if eu_mode s \<noteq> STM32_MODE_FIRMWARE then (-1, s)
      else (case uart_read_bytes e 1 s of
          (Some [b], s1) \<Rightarrow> (uint b, s1)
        | (_, s1) \<Rightarrow> (-1, s1)))"

definition p_stm32_write_bl :: "u8 list \<Rightarrow> esp_uart \<Rightarrow> int \<times> esp_uart" where
  "p_stm32_write_bl bs s = (if eu_mode s \<noteq> STM32_MODE_BOOTLOADER then (-1, s) else uart_write_bytes bs s)"

definition p_stm32_read_bl :: "drv_env \<Rightarrow> nat \<Rightarrow> esp_uart \<Rightarrow> u8 list option \<times> esp_uart" where
  "p_stm32_read_bl e n s = (if eu_mode s \<noteq> STM32_MODE_BOOTLOADER then (None, s) else uart_read_bytes e n s)"

text \<open>
  Waiting for a line: the list holds what each wait on the event queue delivers, None for a timeout;
  at its end the task waits for ever. The result is the count the function returns with the bytes
  read, if it returns.
\<close>

datatype uart_event = MY_UART_WAKE_UP | UART_DATA | UART_FIFO_OVF | UART_BREAK | UART_PARITY_ERR | UART_FRAME_ERR
  | UART_BUFFER_FULL | UART_PATTERN_DET int | UART_OTHER

definition read_result :: "u8 list option \<Rightarrow> int \<times> u8 list" where
  "read_result r = (case r of None \<Rightarrow> (-1, []) | Some bs \<Rightarrow> (int (length bs), bs))"

fun p_stm32_read_line :: "drv_env \<Rightarrow> nat \<Rightarrow> uart_event option list \<Rightarrow> esp_uart \<Rightarrow> ((int \<times> u8 list) \<times> esp_uart) option" where
  "p_stm32_read_line e n evs s =
     (if \<not> eu_queue s then Some ((-1, []), s)
      else (case evs of
          [] \<Rightarrow> None
        | None # r \<Rightarrow> p_stm32_read_line e n r s
        | Some ev # r \<Rightarrow>
            (case ev of
               MY_UART_WAKE_UP \<Rightarrow> Some ((0, []), s)
             | UART_FIFO_OVF \<Rightarrow> p_stm32_read_line e n r (s\<lparr>eu_flushes := eu_flushes s + 1\<rparr>)
             | UART_BUFFER_FULL \<Rightarrow> (case uart_read_bytes e n s of (rd, s1) \<Rightarrow> Some (read_result rd, s1))
             | UART_PATTERN_DET pos \<Rightarrow>
                 (if pos = -1 then p_stm32_read_line e n r (s\<lparr>eu_flushes := eu_flushes s + 1\<rparr>)
                  else (case uart_read_bytes e (nat (pos + 1)) s of (rd, s1) \<Rightarrow> Some (read_result rd, s1)))
             | _ \<Rightarrow> p_stm32_read_line e n r s)))"

declare p_stm32_read_line.simps [simp del]

section \<open>Modes\<close>

definition stm32_configSerial :: "drv_env \<Rightarrow> stm32_mode \<Rightarrow> esp_uart \<Rightarrow> esp_uart option" where
  "stm32_configSerial e mode s =
     (if mode = eu_mode s then Some s
      else
        (if eu_mode s \<noteq> STM32_MODE_NONE \<and> \<not> eu_driver s then None
         else
           (let s1 = (if eu_mode s \<noteq> STM32_MODE_NONE then s\<lparr>eu_queue := False, eu_driver := False, eu_mode := STM32_MODE_NONE\<rparr> else s)
            in if mode = STM32_MODE_NONE then Some (s1\<lparr>eu_mode := mode\<rparr>)
               else if \<not> de_param_ok e then Some s1
               else (let s2 = s1\<lparr>eu_parity_even := (mode = STM32_MODE_BOOTLOADER)\<rparr>
                     in if \<not> de_pin_ok e then Some s2
                        else if eu_driver s2 then None
                        else if \<not> de_install_ok e then Some s2
                        else Some (s2\<lparr>eu_driver := True, eu_queue := (if mode = STM32_MODE_FIRMWARE then True else eu_queue s2),
                                      eu_mode := mode\<rparr>)))))"

definition gpio_set_level :: "nat \<Rightarrow> bool \<Rightarrow> esp_uart \<Rightarrow> esp_uart" where
  "gpio_set_level pin lvl s = s\<lparr>eu_gpio := eu_gpio s @ [(pin, lvl)]\<rparr>"

definition STM32_SET_BOOT_PIN :: "bool \<Rightarrow> esp_uart \<Rightarrow> esp_uart" where
  "STM32_SET_BOOT_PIN level s = gpio_set_level (boot_gpio (eu_config s)) ((\<not> level) \<noteq> (\<not> boot_gpio_is_inverse (eu_config s))) s"

definition stm32_reset :: "esp_uart \<Rightarrow> esp_uart" where
  "stm32_reset s = gpio_set_level (reset_gpio (eu_config s)) True (gpio_set_level (reset_gpio (eu_config s)) False s)"

definition stm32_runBootLoader :: "drv_env \<Rightarrow> esp_uart \<Rightarrow> esp_uart option" where
  "stm32_runBootLoader e s = stm32_configSerial e STM32_MODE_BOOTLOADER (stm32_reset (STM32_SET_BOOT_PIN True s))"

definition stm32_runFirmware :: "drv_env \<Rightarrow> esp_uart \<Rightarrow> esp_uart option" where
  "stm32_runFirmware e s = stm32_configSerial e STM32_MODE_FIRMWARE (stm32_reset (STM32_SET_BOOT_PIN False s))"

definition stm32_setup :: "drv_env \<Rightarrow> cfg_stm32 \<Rightarrow> esp_uart \<Rightarrow> esp_uart option" where
  "stm32_setup e cfg s = stm32_configSerial e STM32_MODE_FIRMWARE
     (STM32_SET_BOOT_PIN False (gpio_set_level (reset_gpio cfg) True (s\<lparr>eu_config := cfg\<rparr>)))"

section \<open>The driver is there exactly in a mode\<close>

definition eu_inv :: "esp_uart \<Rightarrow> bool" where
  "eu_inv s \<longleftrightarrow> eu_driver s = (eu_mode s \<noteq> STM32_MODE_NONE) \<and> eu_queue s = (eu_mode s = STM32_MODE_FIRMWARE)"

text \<open>The steps of the outside, and the states they reach.\<close>

inductive eu_step :: "esp_uart \<Rightarrow> esp_uart \<Rightarrow> bool" where
  eu_write: "eu_step s (snd (p_stm32_write bs s))"
| eu_read: "eu_step s (snd (p_stm32_read e n s))"
| eu_write_bl: "eu_step s (snd (p_stm32_write_bl bs s))"
| eu_read_bl: "eu_step s (snd (p_stm32_read_bl e n s))"
| eu_boot: "stm32_runBootLoader e s = Some s' \<Longrightarrow> eu_step s s'"
| eu_firmware: "stm32_runFirmware e s = Some s' \<Longrightarrow> eu_step s s'"
| eu_config: "stm32_configSerial e m s = Some s' \<Longrightarrow> eu_step s s'"

inductive_cases eu_stepE [elim!]: "eu_step s s'"

lemma config_inv:
  assumes "eu_inv s"
  shows "\<exists>s'. stm32_configSerial e m s = Some s' \<and> eu_inv s' \<and> eu_tx s' = eu_tx s \<and>
    (eu_mode s' = m \<or> (eu_mode s' = STM32_MODE_NONE \<and> \<not> (de_param_ok e \<and> de_pin_ok e \<and> de_install_ok e)))"
  using assms by (cases m) (auto simp: stm32_configSerial_def eu_inv_def Let_def)

lemma pin_inv [simp]: "eu_inv (gpio_set_level p l s) = eu_inv s" "eu_tx (gpio_set_level p l s) = eu_tx s"
    "eu_mode (gpio_set_level p l s) = eu_mode s"
  by (simp_all add: eu_inv_def gpio_set_level_def)

lemma boot_inv [simp]: "eu_inv (stm32_reset (STM32_SET_BOOT_PIN b s)) = eu_inv s"
  by (simp add: stm32_reset_def STM32_SET_BOOT_PIN_def)

lemma eu_step_inv: "eu_step s s' \<Longrightarrow> eu_inv s \<Longrightarrow> eu_inv s'"
proof (induction rule: eu_step.induct)
  case (eu_boot e s s')
  with config_inv [of "stm32_reset (STM32_SET_BOOT_PIN True s)" e STM32_MODE_BOOTLOADER] show ?case by (auto simp: stm32_runBootLoader_def)
next
  case (eu_firmware e s s')
  with config_inv [of "stm32_reset (STM32_SET_BOOT_PIN False s)" e STM32_MODE_FIRMWARE] show ?case by (auto simp: stm32_runFirmware_def)
next
  case (eu_config e m s s')
  with config_inv [of s e m] show ?case by auto
qed (auto simp: p_stm32_write_def p_stm32_read_def p_stm32_write_bl_def p_stm32_read_bl_def uart_write_bytes_def
    uart_read_bytes_def eu_inv_def)

end
