(* ===== verification/Stm32Boot.thy ===== *)
theory Stm32Boot
  imports Stm32Uart "HOL-Library.Monad_Syntax"
begin

text \<open>
  The client of the STM32F103 boot loader (stm32/stm32_bootloader.cc, stm32/stm32_bl.h,
  stm32/stm32_flash.cc).

  The serial line is the record of functions of its interface class (stm32/stm32_uart.hh); a read
  gives the bytes received or None for an error. A result is None when the program stores in front
  of its buffer. unsigned and size_t have 32 bits.
\<close>

record 'u uart_if =
  u_write_bl :: "u8 list \<Rightarrow> 'u \<Rightarrow> int \<times> 'u"
  u_read_bl :: "nat \<Rightarrow> 'u \<Rightarrow> u8 list option \<times> 'u"
  u_task_delay :: "nat \<Rightarrow> 'u \<Rightarrow> 'u"

section \<open>Opcodes\<close>

definition STM32_ACK :: u8 where "STM32_ACK = 0x79"
definition STM32_ERASE :: u8 where "STM32_ERASE = 0x43"
definition STM32_ERASEN :: u8 where "STM32_ERASEN = 0x44"
definition STM32_GET :: u8 where "STM32_GET = 0x00"
definition STM32_GID :: u8 where "STM32_GID = 0x02"
definition STM32_WR :: u8 where "STM32_WR = 0x31"
definition STM32_INIT :: u8 where "STM32_INIT = 0x7F"

definition invCmd :: "u8 \<Rightarrow> u8" where
  "invCmd c = NOT c"

definition get_byte :: "nat \<Rightarrow> 'a::len word \<Rightarrow> u8" where
  "get_byte k w = ucast (drop_bit (8 * k) w)"

section \<open>Sending\<close>

abbreviation bl_write :: "'u uart_if \<Rightarrow> u8 list \<Rightarrow> 'u \<Rightarrow> 'u" where
  "bl_write u bs s \<equiv> snd (u_write_bl u bs s)"

definition stm32Bl_sendStart :: "'u uart_if \<Rightarrow> 'u \<Rightarrow> 'u" where
  "stm32Bl_sendStart u s = bl_write u [STM32_INIT] s"

definition stm32Bl_sendCommand :: "'u uart_if \<Rightarrow> u8 \<Rightarrow> 'u \<Rightarrow> 'u" where
  "stm32Bl_sendCommand u cmd s = bl_write u [cmd, invCmd cmd] s"

definition address_frame :: "u32 \<Rightarrow> u8 list" where
  "address_frame addr = (let b = [get_byte 3 addr, get_byte 2 addr, get_byte 1 addr, get_byte 0 addr]
     in b @ [b ! 0 XOR b ! 1 XOR b ! 2 XOR b ! 3])"

definition stm32Bl_sendAddress :: "'u uart_if \<Rightarrow> u32 \<Rightarrow> 'u \<Rightarrow> 'u" where
  "stm32Bl_sendAddress u addr s = bl_write u (address_frame addr) s"

section \<open>Receiving\<close>

text \<open>
  n accumulates what the reads return, also their errors; the size passed on is an unsigned
  number. The bytes of the last read are the front of the buffer if n was 0.
\<close>

fun recv_loop :: "'u uart_if \<Rightarrow> nat \<Rightarrow> nat \<Rightarrow> int \<Rightarrow> 'u \<Rightarrow> (u8 list \<times> 'u) option" where
  "recv_loop u 0 buf_size n s = Some ([], s)"
| "recv_loop u (Suc k) buf_size n s =
     (case u_read_bl u (nat ((int buf_size - 1 - n) mod 2 ^ 32)) (u_task_delay u 50 s) of
        (None, s1) \<Rightarrow> recv_loop u k buf_size (n - 1) s1
      | (Some bs, s1) \<Rightarrow>
          if n < 0 \<and> bs \<noteq> [] then None
          else if bs \<noteq> [] then Some (bs, s1) else recv_loop u k buf_size n s1)"

definition stm32Bl_recv :: "'u uart_if \<Rightarrow> nat \<Rightarrow> nat \<Rightarrow> 'u \<Rightarrow> (u8 list \<times> 'u) option" where
  "stm32Bl_recv u buf_size wait_ms s = recv_loop u (wait_ms div 50) buf_size 0 s"

definition stm32Bl_expect :: "'u uart_if \<Rightarrow> u8 \<Rightarrow> nat \<Rightarrow> 'u \<Rightarrow> (bool \<times> 'u) option" where
  "stm32Bl_expect u cmd wait_ms s = do {
     (bs, s1) \<leftarrow> stm32Bl_recv u 16 wait_ms s;
     Some (length bs = 1 \<and> bs ! 0 = cmd, s1) }"

definition stm32Bl_expect_ack :: "'u uart_if \<Rightarrow> 'u \<Rightarrow> (bool \<times> 'u) option" where
  "stm32Bl_expect_ack u s = stm32Bl_expect u STM32_ACK 100 s"

definition stm32Bl_doStart :: "'u uart_if \<Rightarrow> 'u \<Rightarrow> (bool \<times> 'u) option" where
  "stm32Bl_doStart u s = stm32Bl_expect_ack u (stm32Bl_sendStart u s)"

text \<open>The two queries only log what they get.\<close>

definition stm32Bl_getId :: "'u uart_if \<Rightarrow> 'u \<Rightarrow> (u8 list \<times> 'u) option" where
  "stm32Bl_getId u s = stm32Bl_recv u 16 100 (stm32Bl_sendCommand u STM32_GID s)"

definition stm32Bl_get :: "'u uart_if \<Rightarrow> 'u \<Rightarrow> (u8 list \<times> 'u) option" where
  "stm32Bl_get u s = stm32Bl_recv u 16 100 (stm32Bl_sendCommand u STM32_GET s)"

section \<open>Writing and erasing\<close>

definition xor_bytes :: "u8 \<Rightarrow> u8 list \<Rightarrow> u8" where
  "xor_bytes c bs = fold (\<lambda>b a. a XOR b) bs c"

definition stm32Bl_doWriteMemory :: "'u uart_if \<Rightarrow> u32 \<Rightarrow> u8 list \<Rightarrow> 'u \<Rightarrow> (bool \<times> 'u) option" where
  "stm32Bl_doWriteMemory u dst_addr data s = do {
     (ok, s1) \<leftarrow> stm32Bl_expect_ack u (stm32Bl_sendCommand u STM32_WR s);
     if \<not> ok then Some (False, s1) else do {
     (ok, s2) \<leftarrow> stm32Bl_expect_ack u (stm32Bl_sendAddress u dst_addr s1);
     if \<not> ok then Some (False, s2) else do {
     let len = word_of_int (int (length data) - 1);
     let s3 = bl_write u [xor_bytes len data] (bl_write u data (bl_write u [len] s2));
     (bs, s4) \<leftarrow> stm32Bl_recv u 16 20000 s3;
     Some (length bs = 1 \<and> bs ! 0 = STM32_ACK, s4) }}}"

text \<open>The page numbers go out one by one, with the checksum along.\<close>

fun send_pages :: "'u uart_if \<Rightarrow> u8 list list \<Rightarrow> u8 \<Rightarrow> 'u \<Rightarrow> u8 \<times> 'u" where
  "send_pages u [] chk s = (chk, s)"
| "send_pages u (p # ps) chk s = send_pages u ps (xor_bytes chk p) (bl_write u p s)"

definition stm32Bl_doEraseFlash :: "'u uart_if \<Rightarrow> int \<Rightarrow> u8 \<Rightarrow> 'u \<Rightarrow> (bool \<times> 'u) option" where
  "stm32Bl_doEraseFlash u start_page page_count s = do {
     (ok, s1) \<leftarrow> stm32Bl_expect_ack u (stm32Bl_sendCommand u STM32_ERASE s);
     if \<not> ok then Some (False, s1) else do {
     let b0 = page_count - 1;
     let (chksum, s2) = send_pages u (map (\<lambda>i. [word_of_int (start_page + int i)]) [0..<unat page_count]) b0 (bl_write u [b0] s1);
     (bs, s3) \<leftarrow> stm32Bl_recv u 16 60000 (bl_write u [chksum] s2);
     Some (length bs = 1 \<and> bs ! 0 = STM32_ACK, s3) }}"

definition stm32Bl_doExtEraseFlash :: "'u uart_if \<Rightarrow> u16 \<Rightarrow> u16 \<Rightarrow> 'u \<Rightarrow> (bool \<times> 'u) option" where
  "stm32Bl_doExtEraseFlash u start_page page_count s = do {
     (n, s0) \<leftarrow> stm32Bl_recv u 16 100 (stm32Bl_sendCommand u STM32_ERASEN s);
     (ok, s1) \<leftarrow> stm32Bl_expect_ack u s0;
     if \<not> ok then Some (False, s1) else do {
     let c = page_count - 1;
     let b = [get_byte 1 c, get_byte 0 c];
     let (chksum, s2) = send_pages u (map (\<lambda>i. let pn = start_page + word_of_nat i in [get_byte 1 pn, get_byte 0 pn]) [0..<unat page_count])
           (b ! 0 XOR b ! 1) (bl_write u b s1);
     (bs, s3) \<leftarrow> stm32Bl_recv u 1 60000 (bl_write u [chksum] s2);
     Some (length bs = 1 \<and> bs ! 0 = STM32_ACK, s3) }}"

definition FLASH_PAGE_SIZE :: u32 where "FLASH_PAGE_SIZE = 1024"
definition FLASH_START_ADDRESS :: u32 where "FLASH_START_ADDRESS = 0x8000000"

definition stm32Bl_eraseFlashByFileSize :: "'u uart_if \<Rightarrow> u32 \<Rightarrow> u32 \<Rightarrow> 'u \<Rightarrow> (bool \<times> 'u) option" where
  "stm32Bl_eraseFlashByFileSize u startAddr sz s =
     (let endAddr = startAddr + sz;
          startPage = (startAddr - FLASH_START_ADDRESS) div FLASH_PAGE_SIZE;
          endPage = ((endAddr - FLASH_START_ADDRESS) + (FLASH_PAGE_SIZE - 1)) div FLASH_PAGE_SIZE;
          nPages = endPage - startPage
      in stm32Bl_doEraseFlash u (sint startPage) (ucast nPages) s)"

text \<open>The file, None if it cannot be opened; reads deliver up to 256 bytes until its end.\<close>

function write_file_loop :: "'u uart_if \<Rightarrow> u32 \<Rightarrow> u8 list \<Rightarrow> nat \<Rightarrow> 'u \<Rightarrow> (nat \<times> 'u) option" where
  "write_file_loop u addr file written s =
     (if file = [] then Some (written, s)
      else let buf = take 256 file; n = length buf in
        (case stm32Bl_doWriteMemory u addr buf s of
           None \<Rightarrow> None
         | Some (False, s1) \<Rightarrow> Some (written, s1)
         | Some (True, s1) \<Rightarrow> write_file_loop u (addr + word_of_nat n) (drop 256 file) (written + n) s1))"
  by pat_completeness auto
termination by (relation "measure (\<lambda>(u, a, f, w, s). length f)") auto

declare write_file_loop.simps [simp del]

definition stm32Bl_writeMemoryFromBinFile :: "'u uart_if \<Rightarrow> u8 list option \<Rightarrow> u32 \<Rightarrow> 'u \<Rightarrow> (bool \<times> 'u) option" where
  "stm32Bl_writeMemoryFromBinFile u file addr s =
     (case file of
        None \<Rightarrow> Some (True, s)
      | Some content \<Rightarrow> do {
          (ok, s1) \<leftarrow> stm32Bl_eraseFlashByFileSize u FLASH_START_ADDRESS (word_of_nat (length content)) s;
          (written, s2) \<leftarrow> (if ok then write_file_loop u addr content 0 s1 else Some (0, s1));
          Some (written = length content, s2) })"

text \<open>The update: into the boot loader, connect, write, and back into the firmware in any case.\<close>

definition stm32Ota_firmwareUpdate ::
  "'u uart_if \<Rightarrow> ('u \<Rightarrow> 'u) \<Rightarrow> ('u \<Rightarrow> 'u) \<Rightarrow> u8 list option \<Rightarrow> 'u \<Rightarrow> (bool \<times> 'u) option" where
  "stm32Ota_firmwareUpdate u run_boot run_fw file s = do {
     (ok, s1) \<leftarrow> stm32Bl_doStart u (u_task_delay u 2000 (run_boot s));
     (res, s2) \<leftarrow> (if ok then stm32Bl_writeMemoryFromBinFile u file 0x8000000 s1 else Some (False, s1));
     Some (res, u_task_delay u 2000 (run_fw s2)) }"

end
