(* ===== verification/Stm32Frames.thy ===== *)
theory Stm32Frames
  imports Stm32Boot "HOL-Library.Sublist"
begin

text \<open>
  What goes over the wire: the protocol's frames as a reference, and the proof that the client
  sends their sequence, or a prefix of it when an answer is missing. The serial line is an
  interface; the UART of the ESP32 in boot loader mode provides it.
\<close>

section \<open>The frames of the protocol\<close>

definition xor_all :: "u8 list \<Rightarrow> u8" where
  "xor_all bs = xor_bytes 0 bs"

definition checked :: "u8 list \<Rightarrow> u8 list" where
  "checked bs = bs @ [xor_all bs]"

definition command_frame :: "u8 \<Rightarrow> u8 list" where
  "command_frame c = [c, NOT c]"

definition data_frame :: "u8 list \<Rightarrow> u8 list" where
  "data_frame d = checked (word_of_int (int (length d) - 1) # d)"

definition write_stream :: "u32 \<Rightarrow> u8 list \<Rightarrow> u8 list" where
  "write_stream addr d = command_frame STM32_WR @ checked (map (\<lambda>k. get_byte k addr) [3, 2, 1, 0]) @ data_frame d"

definition erase_stream :: "u8 list \<Rightarrow> u8 list" where
  "erase_stream pages = command_frame STM32_ERASE @ checked (word_of_int (int (length pages) - 1) # pages)"

function upload_stream :: "u32 \<Rightarrow> u8 list \<Rightarrow> u8 list" where
  "upload_stream addr fbytes =
     (if fbytes = [] then [] else write_stream addr (take 256 fbytes) @ upload_stream (addr + 256) (drop 256 fbytes))"
  by pat_completeness auto
termination by (relation "measure (\<lambda>(a, f). length f)") auto

declare upload_stream.simps [simp del]

lemma xor_bytes_append: "xor_bytes c (as @ bs) = xor_bytes (xor_bytes c as) bs"
  by (simp add: xor_bytes_def)

lemma xor_bytes_shift: "xor_bytes c bs = c XOR xor_all bs"
proof (induction bs arbitrary: c)
  case Nil
  then show ?case by (simp add: xor_bytes_def xor_all_def)
next
  case (Cons b bs)
  have *: "xor_bytes c (b # bs) = xor_bytes (c XOR b) bs" for c by (simp add: xor_bytes_def)
  show ?case unfolding * xor_all_def using Cons.IH [of "c XOR b"] Cons.IH [of b] by (simp add: xor_all_def xor.assoc)
qed

lemma xor_all_Cons: "xor_all (b # bs) = b XOR xor_all bs"
  using xor_bytes_shift [of b bs] by (simp add: xor_all_def xor_bytes_def)

lemma xor_all_append: "xor_all (as @ bs) = xor_all as XOR xor_all bs"
  by (induction as) (simp_all add: xor_all_Cons xor.assoc, simp add: xor_all_def xor_bytes_def)

text \<open>The checksum makes a frame's bytes cancel.\<close>

lemma checked_cancels: "xor_all (checked bs) = 0"
  by (simp add: checked_def xor_all_append xor_all_Cons) (simp add: xor_all_def xor_bytes_def)

lemma address_checked: "address_frame addr = checked (map (\<lambda>k. get_byte k addr) [3, 2, 1, 0])"
  by (simp add: address_frame_def checked_def xor_all_def xor_bytes_def Let_def xor.assoc)

text \<open>The frames one by one, each with the time its answer may take: a command, an address, data, or pages to erase.\<close>

definition write_frames :: "u32 \<Rightarrow> u8 list \<Rightarrow> (u8 list \<times> nat) list" where
  "write_frames addr d = [(command_frame STM32_WR, 100), (checked (map (\<lambda>k. get_byte k addr) [3, 2, 1, 0]), 100), (data_frame d, 20000)]"

definition erase_frames :: "u8 list \<Rightarrow> (u8 list \<times> nat) list" where
  "erase_frames pages = [(command_frame STM32_ERASE, 100), (checked (word_of_int (int (length pages) - 1) # pages), 60000)]"

function upload_frames :: "u32 \<Rightarrow> u8 list \<Rightarrow> (u8 list \<times> nat) list" where
  "upload_frames addr fbytes =
     (if fbytes = [] then [] else write_frames addr (take 256 fbytes) @ upload_frames (addr + 256) (drop 256 fbytes))"
  by pat_completeness auto
termination by (relation "measure (\<lambda>(a, f). length f)") auto

declare upload_frames.simps [simp del]

text \<open>The protocol: a frame is sent when the one before it was acknowledged; with the number of frames that were sent and whether the last one was
  acknowledged, too.\<close>

fun exchange_frames :: "'u uart_if \<Rightarrow> (u8 list \<times> nat) list \<Rightarrow> 'u \<Rightarrow> ((nat \<times> bool) \<times> 'u) option" where
  "exchange_frames u [] s = Some ((0, True), s)"
| "exchange_frames u ((f, ms) # fs) s = do {
     (bs, s1) \<leftarrow> stm32Bl_recv u 16 ms (bl_write u f s);
     if bs = [STM32_ACK] then map_option (\<lambda>((k, ok), s2). ((Suc k, ok), s2)) (exchange_frames u fs s1)
     else Some ((1, False), s1) }"

definition acked :: "((nat \<times> bool) \<times> 'u) option \<Rightarrow> (bool \<times> 'u) option" where
  "acked r = map_option (\<lambda>((k, ok), s). (ok, s)) r"

lemma exchange_append:
  "acked (exchange_frames u (fs @ gs) s) =
     do { (ok, s1) \<leftarrow> acked (exchange_frames u fs s); if ok then acked (exchange_frames u gs s1) else Some (False, s1) }"
proof (induction u fs s rule: exchange_frames.induct)
  case (2 u f ms fs s)
  show ?case
  proof (cases "stm32Bl_recv u 16 ms (bl_write u f s)")
    case (Some a)
    obtain bs s1 where a: "a = (bs, s1)" by (cases a)
    have m: "acked (map_option (\<lambda>((k, ok), s2). ((Suc k, ok), s2)) r) = acked r" for r by (cases r) (auto simp: acked_def)
    show ?thesis
    proof (cases "bs = [STM32_ACK]")
      case True
      then show ?thesis using 2 [OF _ _ True] Some a by (simp add: m)
    qed (simp add: Some a acked_def)
  qed (simp add: acked_def)
qed (simp add: acked_def)

lemma concat_frames: "concat (map fst (write_frames addr d)) = write_stream addr d" "concat (map fst (erase_frames ps)) = erase_stream ps"
  "concat (map fst (upload_frames addr fbytes)) = upload_stream addr fbytes"
proof -
  show w: "concat (map fst (write_frames addr d)) = write_stream addr d" for addr d by (simp add: write_frames_def write_stream_def)
  show "concat (map fst (erase_frames ps)) = erase_stream ps" by (simp add: erase_frames_def erase_stream_def)
  show "concat (map fst (upload_frames addr fbytes)) = upload_stream addr fbytes"
  proof (induction addr fbytes rule: upload_stream.induct)
    case (1 addr fbytes)
    show ?case by (subst upload_frames.simps, subst upload_stream.simps) (use 1 w in simp)
  qed
qed

section \<open>The serial line\<close>

locale serial_line =
  fixes u :: "'u uart_if" and tx :: "'u \<Rightarrow> u8 list" and up :: "'u \<Rightarrow> bool"
  assumes line_write: "up s \<Longrightarrow> up (bl_write u bs s) \<and> tx (bl_write u bs s) = tx s @ bs"
    and line_read: "up s \<Longrightarrow> u_read_bl u n s = (r, s') \<Longrightarrow> up s' \<and> tx s' = tx s \<and> (\<forall>bs. r = Some bs \<longrightarrow> length bs \<le> n)"
    and line_join: "up s \<Longrightarrow> bl_write u (as @ bs) s = bl_write u bs (bl_write u as s)"
    and line_delay: "up s \<Longrightarrow> up (u_task_delay u n s) \<and> tx (u_task_delay u n s) = tx s"
begin

lemmas line_writes [simp] = line_write [THEN conjunct1] line_write [THEN conjunct2]

lemma recv_loop_keeps:
  assumes "up s" "recv_loop u k sz n s = Some (bs, s')" "n \<le> 0"
  shows "up s' \<and> tx s' = tx s \<and> (bs \<noteq> [] \<longrightarrow> n = 0 \<and> int (length bs) \<le> (int sz - 1) mod 2 ^ 32)"
  using assms
proof (induction k arbitrary: n s)
  case 0
  then show ?case by simp
next
  case (Suc k)
  obtain r s1 where r: "u_read_bl u (nat ((int sz - 1 - n) mod 2 ^ 32)) (u_task_delay u 50 s) = (r, s1)"
    by (cases "u_read_bl u (nat ((int sz - 1 - n) mod 2 ^ 32)) (u_task_delay u 50 s)")
  note d = line_delay [OF Suc.prems(1), of 50]
  from line_read [OF _ r] d have s1: "up s1" "tx s1 = tx s"
    "\<forall>bs. r = Some bs \<longrightarrow> length bs \<le> nat ((int sz - 1 - n) mod 2 ^ 32)" by simp_all
  show ?case
  proof (cases r)
    case None
    with Suc.prems r have "recv_loop u k sz (n - 1) s1 = Some (bs, s')" by simp
    with Suc.IH [OF s1(1) this] s1(2) Suc.prems(3) show ?thesis by auto
  next
    case (Some b)
    show ?thesis
    proof (cases "b = []")
      case True
      with Suc.prems r Some have "recv_loop u k sz n s1 = Some (bs, s')" by simp
      with Suc.IH [OF s1(1) this] s1(2) Suc.prems(3) show ?thesis by simp
    next
      case False
      with Suc.prems r Some have eq: "n = 0" "bs = b" "s' = s1" by (auto split: if_splits)
      let ?m = "(int sz - 1) mod 2 ^ 32"
      have "length b \<le> nat ?m" using s1(3) Some eq(1) by simp
      moreover have "0 \<le> ?m" by simp
      ultimately have "int (length b) \<le> ?m" by linarith
      then show ?thesis using s1(1,2) eq by blast
    qed
  qed
qed

lemma recv_keeps:
  assumes "up s" "stm32Bl_recv u sz ms s = Some (bs, s')"
  shows "up s' \<and> tx s' = tx s \<and> (bs \<noteq> [] \<longrightarrow> int (length bs) \<le> (int sz - 1) mod 2 ^ 32)"
  using recv_loop_keeps [OF assms(1) assms(2) [unfolded stm32Bl_recv_def]] by auto

lemma ack_keeps:
  assumes "up s" "stm32Bl_expect_ack u s = Some (ok, s')"
  shows "up s' \<and> tx s' = tx s"
  using assms recv_keeps [OF assms(1)] by (auto simp: stm32Bl_expect_ack_def stm32Bl_expect_def split: Option.bind_splits)

text \<open>
  What a handler of the boot loader sent: all of its stream if it succeeds, else one that stops at
  a missing answer.
\<close>

definition sent :: "'u \<Rightarrow> u8 list \<Rightarrow> bool \<times> 'u \<Rightarrow> bool" where
  "sent s str r \<longleftrightarrow> up (snd r) \<and> (\<exists>p. tx (snd r) = tx s @ p \<and> prefix p str \<and> (fst r \<longrightarrow> p = str))"

lemma sentI: "up s' \<Longrightarrow> tx s' = tx s @ p \<Longrightarrow> prefix p str \<Longrightarrow> (ok \<Longrightarrow> p = str) \<Longrightarrow> sent s str (ok, s')"
  by (auto simp: sent_def)

lemma write_memory_sent:
  assumes "up s" "stm32Bl_doWriteMemory u addr d s = Some r"
  shows "sent s (write_stream addr d) r"
proof -
  let ?c = "command_frame STM32_WR" and ?a = "address_frame addr"
  obtain ok1 s1 where 1: "stm32Bl_expect_ack u (stm32Bl_sendCommand u STM32_WR s) = Some (ok1, s1)"
    using assms(2) by (auto simp: stm32Bl_doWriteMemory_def split: Option.bind_splits)
  have s1: "up s1" "tx s1 = tx s @ ?c"
    using ack_keeps [OF _ 1] assms(1) by (simp_all add: stm32Bl_sendCommand_def command_frame_def invCmd_def)
  show ?thesis
  proof (cases ok1)
    case False
    then have "r = (False, s1)" using assms(2) 1 by (simp add: stm32Bl_doWriteMemory_def)
    with s1 show ?thesis by (auto intro!: sentI simp: write_stream_def)
  next
    case True
    then obtain ok2 s2 where 2: "stm32Bl_expect_ack u (stm32Bl_sendAddress u addr s1) = Some (ok2, s2)"
      using assms(2) 1 by (auto simp: stm32Bl_doWriteMemory_def split: Option.bind_splits)
    have s2: "up s2" "tx s2 = tx s @ ?c @ ?a" using ack_keeps [OF _ 2] s1 by (simp_all add: stm32Bl_sendAddress_def)
    show ?thesis
    proof (cases ok2)
      case False
      then have "r = (False, s2)" using assms(2) 1 2 True by (simp add: stm32Bl_doWriteMemory_def)
      with s2 show ?thesis by (auto intro!: sentI simp: write_stream_def address_checked)
    next
      case ok2: True
      let ?len = "word_of_int (int (length d) - 1) :: u8"
      let ?s3 = "bl_write u [xor_bytes ?len d] (bl_write u d (bl_write u [?len] s2))"
      have s3: "up ?s3" "tx ?s3 = tx s @ write_stream addr d"
        using s2 by (simp_all add: write_stream_def data_frame_def checked_def xor_bytes_shift xor_all_Cons address_checked)
      obtain bs s4 where 4: "stm32Bl_recv u 16 20000 ?s3 = Some (bs, s4)" "r = (length bs = 1 \<and> bs ! 0 = STM32_ACK, s4)"
        using assms(2) 1 2 True ok2 by (auto simp: stm32Bl_doWriteMemory_def Let_def split: Option.bind_splits)
      from recv_keeps [OF s3(1) 4(1)] s3(2) 4(2) show ?thesis by (auto intro!: sentI)
    qed
  qed
qed

lemma send_pages_sent:
  "up s \<Longrightarrow> send_pages u ps c s = (c', s') \<Longrightarrow> up s' \<and> tx s' = tx s @ concat ps \<and> c' = xor_bytes c (concat ps)"
proof (induction ps arbitrary: c s)
  case Nil
  then show ?case by (simp add: xor_bytes_def)
next
  case (Cons p ps)
  have "up (bl_write u p s)" using Cons.prems(1) by simp
  from Cons.IH [OF this, of "xor_bytes c p"] Cons.prems show ?case by (simp add: xor_bytes_append)
qed

lemma erase_sent:
  assumes "up s" "stm32Bl_doEraseFlash u start n s = Some r" "n \<noteq> 0"
  shows "sent s (erase_stream (map (\<lambda>i. word_of_int (start + int i)) [0..<unat n])) r"
proof -
  let ?pages = "map (\<lambda>i. word_of_int (start + int i)) [0..<unat n] :: u8 list"
  obtain ok1 s1 where 1: "stm32Bl_expect_ack u (stm32Bl_sendCommand u STM32_ERASE s) = Some (ok1, s1)"
    using assms(2) by (auto simp: stm32Bl_doEraseFlash_def split: Option.bind_splits)
  have s1: "up s1" "tx s1 = tx s @ command_frame STM32_ERASE"
    using ack_keeps [OF _ 1] assms(1) by (simp_all add: stm32Bl_sendCommand_def command_frame_def invCmd_def)
  show ?thesis
  proof (cases ok1)
    case False
    then have "r = (False, s1)" using assms(2) 1 by (simp add: stm32Bl_doEraseFlash_def)
    with s1 show ?thesis by (auto intro!: sentI simp: erase_stream_def)
  next
    case True
    obtain c s2 where 2: "send_pages u (map (\<lambda>i. [word_of_int (start + int i)]) [0..<unat n]) (n - 1) (bl_write u [n - 1] s1) = (c, s2)"
      by (cases "send_pages u (map (\<lambda>i. [word_of_int (start + int i)]) [0..<unat n]) (n - 1) (bl_write u [n - 1] s1)")
    have cat: "concat (map (\<lambda>i. [word_of_int (start + int i)]) [0..<unat n]) = ?pages" by (induction "[0..<unat n]") simp_all
    have len: "word_of_int (int (length ?pages) - 1) = n - 1" by simp
    from send_pages_sent [OF _ 2] s1 have s2: "up s2" "tx s2 = tx s @ command_frame STM32_ERASE @ (n - 1) # ?pages"
      "c = xor_bytes (n - 1) ?pages" unfolding cat by simp_all
    have s3: "up (bl_write u [c] s2)" "tx (bl_write u [c] s2) = tx s @ erase_stream ?pages"
      using s2 len by (simp_all add: erase_stream_def checked_def xor_bytes_shift xor_all_Cons)
    obtain bs s4 where 4: "stm32Bl_recv u 16 60000 (bl_write u [c] s2) = Some (bs, s4)" "r = (length bs = 1 \<and> bs ! 0 = STM32_ACK, s4)"
      using assms(2) 1 2 True by (auto simp: stm32Bl_doEraseFlash_def Let_def split: Option.bind_splits)
    from recv_keeps [OF s3(1) 4(1)] s3(2) 4(2) show ?thesis by (auto intro!: sentI)
  qed
qed

text \<open>The file in chunks.\<close>

lemma write_file_sent:
  "up s \<Longrightarrow> write_file_loop u addr fbytes w s = Some (w', s') \<Longrightarrow>
    up s' \<and> w' \<le> w + length fbytes \<and>
    (\<exists>p. tx s' = tx s @ p \<and> prefix p (upload_stream addr fbytes) \<and> (w' = w + length fbytes \<longrightarrow> p = upload_stream addr fbytes))"
proof (induction "length fbytes" arbitrary: addr fbytes w s rule: less_induct)
  case 1: less
  show ?case
  proof (cases "fbytes = []")
    case True
    with 1(2,3) show ?thesis by (simp add: write_file_loop.simps upload_stream.simps)
  next
    case False
    let ?buf = "take 256 fbytes"
    obtain ok s1 where m: "stm32Bl_doWriteMemory u addr ?buf s = Some (ok, s1)"
      using 1(3) False by (auto simp: write_file_loop.simps [of _ _ fbytes] Let_def split: option.splits)
    from write_memory_sent [OF 1(2) m] obtain p where
      p: "up s1" "tx s1 = tx s @ p" "prefix p (write_stream addr ?buf)" "ok \<longrightarrow> p = write_stream addr ?buf" by (auto simp: sent_def)
    have up: "upload_stream addr fbytes = write_stream addr ?buf @ upload_stream (addr + 256) (drop 256 fbytes)"
      using False by (subst upload_stream.simps) simp
    show ?thesis
    proof (cases ok)
      case ok: False
      then have "w' = w" "s' = s1" using 1(3) False m by (simp_all add: write_file_loop.simps [of _ _ fbytes] Let_def)
      with p False up show ?thesis by (auto intro!: exI [of _ p] intro: prefix_prefix)
    next
      case True
      have nxt: "upload_stream (addr + word_of_nat (length ?buf)) (drop 256 fbytes) = upload_stream (addr + 256) (drop 256 fbytes)"
        by (cases "length fbytes < 256") (simp_all add: upload_stream.simps [of _ "[]"])
      have len: "w + length ?buf + length (drop 256 fbytes) = w + length fbytes" by (simp add: min_def)
      have shorter: "length (drop 256 fbytes) < length fbytes" using False by simp
      have go: "write_file_loop u (addr + word_of_nat (length ?buf)) (drop 256 fbytes) (w + length ?buf) s1 = Some (w', s')"
        using 1(3) False m True by (simp add: write_file_loop.simps [of _ _ fbytes] Let_def)
      from 1(1) [OF shorter p(1) go] nxt len obtain q where
        "up s'" "w' \<le> w + length fbytes" "tx s' = tx s1 @ q" "prefix q (upload_stream (addr + 256) (drop 256 fbytes))"
        "w' = w + length fbytes \<longrightarrow> q = upload_stream (addr + 256) (drop 256 fbytes)" by auto
      with p True up show ?thesis by (auto intro!: exI [of _ "p @ q"])
    qed
  qed
qed

text \<open>The handlers exchange their frames.\<close>

lemma exchange_sent:
  "up s \<Longrightarrow> exchange_frames u fs s = Some ((k, ok), s') \<Longrightarrow>
    up s' \<and> tx s' = tx s @ concat (map fst (take k fs)) \<and> (if ok then k = length fs else 0 < k \<and> k \<le> length fs)"
proof (induction fs arbitrary: s k)
  case (Cons x fs)
  obtain f ms where x: "x = (f, ms)" by (cases x)
  obtain bs s1 where r: "stm32Bl_recv u 16 ms (bl_write u f s) = Some (bs, s1)"
    using Cons.prems(2) x by (auto split: Option.bind_splits)
  have s1: "up s1" "tx s1 = tx s @ f" using recv_keeps [OF _ r] Cons.prems(1) by simp_all
  show ?case
  proof (cases "bs = [STM32_ACK]")
    case True
    then obtain j where j: "exchange_frames u fs s1 = Some ((j, ok), s')" "k = Suc j"
      using Cons.prems(2) x r by auto
    from Cons.IH [OF s1(1) j(1)] show ?thesis using j(2) s1(2) x by auto
  next
    case False
    then show ?thesis using Cons.prems(2) x r s1 by auto
  qed
qed simp

lemma ack_recv: "stm32Bl_expect_ack u s = do { (bs, s1) \<leftarrow> stm32Bl_recv u 16 100 s; Some (bs = [STM32_ACK], s1) }"
  "length bs = 1 \<and> bs ! 0 = STM32_ACK \<longleftrightarrow> bs = [STM32_ACK]"
proof -
  show l: "length bs = 1 \<and> bs ! 0 = STM32_ACK \<longleftrightarrow> bs = [STM32_ACK]" for bs by (auto simp: length_Suc_conv)
  show "stm32Bl_expect_ack u s = do { (bs, s1) \<leftarrow> stm32Bl_recv u 16 100 s; Some (bs = [STM32_ACK], s1) }"
    unfolding stm32Bl_expect_ack_def stm32Bl_expect_def l ..
qed

lemma data_joined:
  assumes "up s"
  shows "bl_write u [xor_bytes len d] (bl_write u d (bl_write u [len] s)) = bl_write u (checked (len # d)) s"
proof -
  have "checked (len # d) = [len] @ d @ [xor_bytes len d]" by (simp add: checked_def xor_bytes_shift xor_all_Cons)
  then show ?thesis using assms line_join [of s "[len]" "d @ [xor_bytes len d]"] line_join [of "bl_write u [len] s" d "[xor_bytes len d]"] by simp
qed

lemma write_memory_exchanges:
  assumes "up s"
  shows "stm32Bl_doWriteMemory u addr d s = acked (exchange_frames u (write_frames addr d) s)"
proof -
  let ?a = "checked (map (\<lambda>k. get_byte k addr) [3, 2, 1, 0])"
  have c: "stm32Bl_sendCommand u STM32_WR s = bl_write u (command_frame STM32_WR) s"
    by (simp add: stm32Bl_sendCommand_def command_frame_def invCmd_def)
  have a: "stm32Bl_sendAddress u addr s1 = bl_write u ?a s1" for s1 by (simp add: stm32Bl_sendAddress_def address_checked)
  show ?thesis
  proof (cases "stm32Bl_recv u 16 100 (bl_write u (command_frame STM32_WR) s)")
    case None
    then show ?thesis by (simp add: stm32Bl_doWriteMemory_def ack_recv c write_frames_def acked_def)
  next
    case (Some r1)
    then obtain b1 s1 where 1: "stm32Bl_recv u 16 100 (bl_write u (command_frame STM32_WR) s) = Some (b1, s1)" by (cases r1) auto
    have u1: "up s1" using recv_keeps [OF _ 1] assms by simp
    show ?thesis
    proof (cases "stm32Bl_recv u 16 100 (bl_write u ?a s1)")
      case None
      then show ?thesis using 1 by (simp add: stm32Bl_doWriteMemory_def ack_recv c a write_frames_def acked_def)
    next
      case (Some r2)
      then obtain b2 s2 where 2: "stm32Bl_recv u 16 100 (bl_write u ?a s1) = Some (b2, s2)" by (cases r2) auto
      have u2: "up s2" using recv_keeps [OF _ 2] u1 by simp
      show ?thesis using 1 2 data_joined [OF u2]
        by (cases "stm32Bl_recv u 16 20000 (bl_write u (data_frame d) s2)")
          (auto simp: stm32Bl_doWriteMemory_def ack_recv [unfolded One_nat_def] c a write_frames_def acked_def data_frame_def Let_def)
    qed
  qed
qed

lemma pages_joined:
  "up s \<Longrightarrow> send_pages u ps c (bl_write u a s) = (xor_bytes c (concat ps), bl_write u (a @ concat ps) s)"
proof (induction ps arbitrary: a c)
  case (Cons p ps)
  show ?case using Cons.IH [OF Cons.prems, of "xor_bytes c p" "a @ p"] line_join [OF Cons.prems, of a p] by (simp add: xor_bytes_append)
qed (simp add: xor_bytes_def)

lemma erase_exchanges:
  assumes "up s" "n \<noteq> 0"
  shows "stm32Bl_doEraseFlash u start n s = acked (exchange_frames u (erase_frames (map (\<lambda>i. word_of_int (start + int i)) [0..<unat n])) s)"
proof -
  define pages where "pages = (map (\<lambda>i. word_of_int (start + int i)) [0..<unat n] :: u8 list)"
  have c: "stm32Bl_sendCommand u STM32_ERASE s = bl_write u (command_frame STM32_ERASE) s"
    by (simp add: stm32Bl_sendCommand_def command_frame_def invCmd_def)
  have cat: "concat (map (\<lambda>i. [word_of_int (start + int i)]) [0..<unat n]) = pages"
    unfolding pages_def by (induction "[0..<unat n]") simp_all
  have len: "word_of_int (int (length pages) - 1) = n - 1" by (simp add: pages_def)
  have "\<And>s1. up s1 \<Longrightarrow> bl_write u [xor_bytes (n - 1) pages] (bl_write u ([n - 1] @ pages) s1) = bl_write u (checked ((n - 1) # pages)) s1"
    using line_join [of _ "(n - 1) # pages" "[xor_bytes (n - 1) pages]"] by (simp add: checked_def xor_bytes_shift xor_all_Cons)
  note w = this pages_joined [of _ "map (\<lambda>i. [word_of_int (start + int i)]) [0..<unat n]" "n - 1" "[n - 1]", unfolded cat]
  show ?thesis
  proof (cases "stm32Bl_recv u 16 100 (bl_write u (command_frame STM32_ERASE) s)")
    case None
    then show ?thesis by (simp add: stm32Bl_doEraseFlash_def ack_recv c erase_frames_def acked_def)
  next
    case (Some r1)
    then obtain b1 s1 where 1: "stm32Bl_recv u 16 100 (bl_write u (command_frame STM32_ERASE) s) = Some (b1, s1)" by (cases r1) auto
    have u1: "up s1" using recv_keeps [OF _ 1] assms by simp
    show ?thesis using 1 w [OF u1] unfolding pages_def [symmetric] erase_frames_def len
      by (cases "stm32Bl_recv u 16 60000 (bl_write u (checked ((n - 1) # pages)) s1)")
        (auto simp: stm32Bl_doEraseFlash_def ack_recv [unfolded One_nat_def] c acked_def Let_def)
  qed
qed

lemma write_file_exchanges:
  "up s \<Longrightarrow> map_option (\<lambda>(w', s'). (w' = w + length fbytes, s')) (write_file_loop u addr fbytes w s) =
     acked (exchange_frames u (upload_frames addr fbytes) s)"
proof (induction "length fbytes" arbitrary: addr fbytes w s rule: less_induct)
  case less
  show ?case
  proof (cases "fbytes = []")
    case True
    then show ?thesis by (simp add: write_file_loop.simps upload_frames.simps acked_def)
  next
    case False
    let ?buf = "take 256 fbytes"
    have up: "upload_frames addr fbytes = write_frames addr ?buf @ upload_frames (addr + 256) (drop 256 fbytes)"
      using False by (subst upload_frames.simps) simp
    have nxt: "upload_frames (addr + word_of_nat (length ?buf)) (drop 256 fbytes) = upload_frames (addr + 256) (drop 256 fbytes)"
      by (cases "length fbytes < 256") (simp_all add: upload_frames.simps [of _ "[]"])
    have len: "w + length ?buf + length (drop 256 fbytes) = w + length fbytes" by (simp add: min_def)
    have shorter: "length (drop 256 fbytes) < length fbytes" using False by simp
    note e = exchange_append [of u "write_frames addr ?buf" "upload_frames (addr + 256) (drop 256 fbytes)" s,
        folded write_memory_exchanges [OF less.prems] up]
    show ?thesis
    proof (cases "stm32Bl_doWriteMemory u addr ?buf s")
      case None
      then show ?thesis using False e by (simp add: write_file_loop.simps [of _ _ fbytes] Let_def)
    next
      case (Some r)
      obtain ok s1 where r: "r = (ok, s1)" by (cases r)
      have "up s1" using write_memory_sent [OF less.prems Some] by (simp add: sent_def r)
      from less.hyps [OF shorter this, of "w + length ?buf" "addr + word_of_nat (length ?buf)", unfolded nxt len] e Some r False
      show ?thesis by (cases ok) (simp_all add: write_file_loop.simps [of _ _ fbytes] Let_def)
    qed
  qed
qed

text \<open>The extended erase waits for its answer with a buffer of one byte, into which nothing fits.\<close>

lemma ext_erase_fails:
  assumes "up s" "stm32Bl_doExtEraseFlash u start n s = Some (ok, s')"
  shows "\<not> ok"
proof -
  obtain b0 s0 where 0: "stm32Bl_recv u 16 100 (stm32Bl_sendCommand u STM32_ERASEN s) = Some (b0, s0)"
    using assms(2) by (auto simp: stm32Bl_doExtEraseFlash_def split: Option.bind_splits)
  have s0: "up s0" using recv_keeps [OF _ 0] assms(1) by (simp add: stm32Bl_sendCommand_def)
  obtain a s1 where 1: "stm32Bl_expect_ack u s0 = Some (a, s1)"
    using assms(2) 0 by (auto simp: stm32Bl_doExtEraseFlash_def split: Option.bind_splits)
  have s1: "up s1" using ack_keeps [OF s0 1] by simp
  show ?thesis
  proof (cases a)
    case False
    then show ?thesis using assms(2) 0 1 by (simp add: stm32Bl_doExtEraseFlash_def)
  next
    case True
    define cb where "cb = [get_byte 1 (n - 1), get_byte 0 (n - 1)]"
    define pg where "pg = map (\<lambda>i. let pn = start + word_of_nat i in [get_byte 1 pn, get_byte 0 pn]) [0..<unat n]"
    obtain c s2 where 2: "send_pages u pg (cb ! 0 XOR cb ! 1) (bl_write u cb s1) = (c, s2)"
      by (cases "send_pages u pg (cb ! 0 XOR cb ! 1) (bl_write u cb s1)")
    from send_pages_sent [OF _ 2] s1 have "up (bl_write u [c] s2)" by simp
    moreover obtain bs s3 where 3: "stm32Bl_recv u 1 60000 (bl_write u [c] s2) = Some (bs, s3)" "ok = (length bs = 1 \<and> bs ! 0 = STM32_ACK)"
      using assms(2) 0 1 True 2 unfolding cb_def pg_def by (auto simp: stm32Bl_doExtEraseFlash_def Let_def split: Option.bind_splits)
    ultimately have "bs \<noteq> [] \<longrightarrow> int (length bs) \<le> 0" using recv_keeps [of _ 1 60000 bs s3] by fastforce
    with 3(2) show ?thesis by auto
  qed
qed

end

section \<open>The UART of the ESP32\<close>

definition esp_uart_if :: "drv_env \<Rightarrow> esp_uart uart_if" where
  "esp_uart_if e = \<lparr>u_write_bl = p_stm32_write_bl, u_read_bl = p_stm32_read_bl e, u_task_delay = (\<lambda>ms s. s)\<rparr>"

abbreviation bl_mode :: "esp_uart \<Rightarrow> bool" where
  "bl_mode s \<equiv> eu_mode s = STM32_MODE_BOOTLOADER"

interpretation esp: serial_line "esp_uart_if e" eu_tx bl_mode for e
  by unfold_locales
    (auto simp: esp_uart_if_def p_stm32_write_bl_def p_stm32_read_bl_def uart_write_bytes_def uart_read_bytes_def)

text \<open>A boot loader that always acknowledges.\<close>

lemma all_ack_recv:
  assumes "bl_mode s" "\<forall>i. de_rx e i = Some [STM32_ACK]" "50 \<le> ms"
  shows "stm32Bl_recv (esp_uart_if e) 16 ms s = Some ([STM32_ACK], s\<lparr>eu_reads := eu_reads s + 1\<rparr>)"
proof -
  obtain k where "ms div 50 = Suc k" using assms(3) by (cases "ms div 50") auto
  then show ?thesis using assms(1,2)
    by (simp add: stm32Bl_recv_def esp_uart_if_def p_stm32_read_bl_def uart_read_bytes_def)
qed

lemma all_ack_expect:
  assumes "bl_mode s" "\<forall>i. de_rx e i = Some [STM32_ACK]"
  shows "stm32Bl_expect_ack (esp_uart_if e) s = Some (True, s\<lparr>eu_reads := eu_reads s + 1\<rparr>)"
  using all_ack_recv [OF assms, of 100] by (simp add: stm32Bl_expect_ack_def stm32Bl_expect_def)

lemma bl_write_mode [simp]: "bl_mode s \<Longrightarrow> bl_mode (bl_write (esp_uart_if e) bs s)"
  by (rule esp.line_writes)

lemma all_ack_write:
  assumes "bl_mode s" "\<forall>i. de_rx e i = Some [STM32_ACK]"
  shows "\<exists>s'. stm32Bl_doWriteMemory (esp_uart_if e) addr d s = Some (True, s') \<and> bl_mode s'"
  using assms by (simp add: stm32Bl_doWriteMemory_def all_ack_expect all_ack_recv stm32Bl_sendCommand_def stm32Bl_sendAddress_def Let_def)

lemma all_ack_erase:
  assumes "bl_mode s" "\<forall>i. de_rx e i = Some [STM32_ACK]"
  shows "\<exists>s'. stm32Bl_doEraseFlash (esp_uart_if e) start n s = Some (True, s') \<and> bl_mode s'"
proof -
  let ?s1 = "bl_write (esp_uart_if e) [n - 1] ((stm32Bl_sendCommand (esp_uart_if e) STM32_ERASE s)\<lparr>eu_reads := eu_reads (stm32Bl_sendCommand (esp_uart_if e) STM32_ERASE s) + 1\<rparr>)"
  let ?pg = "map (\<lambda>i. [word_of_int (start + int i)]) [0..<unat n]"
  have b: "bl_mode (stm32Bl_sendCommand (esp_uart_if e) STM32_ERASE s)" using assms(1) by (simp add: stm32Bl_sendCommand_def)
  obtain c s2 where 2: "send_pages (esp_uart_if e) ?pg (n - 1) ?s1 = (c, s2)" by (cases "send_pages (esp_uart_if e) ?pg (n - 1) ?s1")
  have "bl_mode s2" using esp.send_pages_sent [OF _ 2] b by simp
  then show ?thesis using assms 2 b
    by (simp add: stm32Bl_doEraseFlash_def all_ack_expect all_ack_recv Let_def)
qed

lemma all_ack_file:
  assumes "\<forall>i. de_rx e i = Some [STM32_ACK]"
  shows "bl_mode s \<Longrightarrow> \<exists>s'. write_file_loop (esp_uart_if e) addr fbytes w s = Some (w + length fbytes, s') \<and> bl_mode s'"
proof (induction "length fbytes" arbitrary: addr fbytes w s rule: less_induct)
  case less
  show ?case
  proof (cases "fbytes = []")
    case True
    then show ?thesis using less.prems by (simp add: write_file_loop.simps)
  next
    case False
    obtain s1 where s1: "stm32Bl_doWriteMemory (esp_uart_if e) addr (take 256 fbytes) s = Some (True, s1)" "bl_mode s1"
      using all_ack_write [OF less.prems assms] by blast
    have "length (drop 256 fbytes) < length fbytes" using False by simp
    from less.hyps [OF this s1(2), of "addr + word_of_nat (length (take 256 fbytes))" "w + length (take 256 fbytes)"] s1 False
    show ?thesis by (subst write_file_loop.simps) (simp add: Let_def min_def split: if_splits)
  qed
qed

end
