(* ===== verification/Stm32Props.thy ===== *)
theory Stm32Props
  imports Stm32Frames
begin

text \<open>The properties of the STM32 boot loader client on the ESP32's UART.\<close>

lemma page_count:
  assumes "0 < L" "L \<le> 255 * 1024"
  shows "unat (ucast ((word_of_nat L + 1023 :: u32) div 1024) :: u8) = (L + 1023) div 1024"
    and "(ucast ((word_of_nat L + 1023 :: u32) div 1024) :: u8) \<noteq> 0"
proof -
  have "unat (word_of_nat L + 1023 :: u32) = L + 1023"
    using assms by (simp add: unat_word_ariths(1) unat_of_nat)
  then have d: "unat ((word_of_nat L + 1023 :: u32) div 1024) = (L + 1023) div 1024" by (simp add: unat_div_distrib)
  have "(L + 1023) div 1024 < 256" "(L + 1023) div 1024 > 0" using assms by simp_all
  then show u: "unat (ucast ((word_of_nat L + 1023 :: u32) div 1024) :: u8) = (L + 1023) div 1024"
    using d by (simp add: unsigned_ucast_eq unsigned_take_bit_eq take_bit_eq_mod)
  show "(ucast ((word_of_nat L + 1023 :: u32) div 1024) :: u8) \<noteq> 0"
    using u \<open>(L + 1023) div 1024 > 0\<close> by (metis less_irrefl unat_0)
qed

lemma erase_by_size:
  "stm32Bl_eraseFlashByFileSize u FLASH_START_ADDRESS (word_of_nat L) s =
    stm32Bl_doEraseFlash u 0 (ucast ((word_of_nat L + 1023 :: u32) div 1024)) s"
  by (simp add: stm32Bl_eraseFlashByFileSize_def Let_def FLASH_PAGE_SIZE_def)

definition firmware_stream :: "u8 list \<Rightarrow> u8 list" where
  "firmware_stream content = erase_stream (map word_of_nat [0..<(length content + 1023) div 1024]) @
     upload_stream FLASH_START_ADDRESS content"

lemma erase_pages:
  assumes "0 < L" "L \<le> 255 * 1024"
  shows "map (\<lambda>i. word_of_int (0 + int i)) [0..<unat (ucast ((word_of_nat L + 1023 :: u32) div 1024) :: u8)] =
    (map word_of_nat [0..<(L + 1023) div 1024] :: u8 list)"
  unfolding page_count(1) [OF assms] by simp

text \<open>The frames of a whole upload; together they are its stream.\<close>

definition firmware_frames :: "u8 list \<Rightarrow> (u8 list \<times> nat) list" where
  "firmware_frames content = erase_frames (map word_of_nat [0..<(length content + 1023) div 1024]) @
     upload_frames FLASH_START_ADDRESS content"

lemma firmware_frames_stream: "concat (map fst (firmware_frames content)) = firmware_stream content"
  by (simp add: firmware_frames_def firmware_stream_def concat_frames)

lemma firmware_exchanged:
  assumes "bl_mode s" "content \<noteq> []" "length content \<le> 255 * 1024"
  shows "stm32Bl_writeMemoryFromBinFile (esp_uart_if e) (Some content) FLASH_START_ADDRESS s =
    acked (exchange_frames (esp_uart_if e) (firmware_frames content) s)"
proof -
  let ?u = "esp_uart_if e"
  let ?n = "ucast ((word_of_nat (length content) + 1023 :: u32) div 1024) :: u8"
  have L: "0 < length content" using assms(2) by simp
  have er: "stm32Bl_doEraseFlash ?u 0 ?n s = acked (exchange_frames ?u (erase_frames (map word_of_nat [0..<(length content + 1023) div 1024])) s)"
    using esp.erase_exchanges [OF assms(1) page_count(2) [OF L assms(3)], of e 0] unfolding erase_pages [OF L assms(3)] .
  note e = exchange_append [of ?u "erase_frames (map word_of_nat [0..<(length content + 1023) div 1024])" "upload_frames FLASH_START_ADDRESS content" s,
      folded firmware_frames_def er]
  show ?thesis
  proof (cases "stm32Bl_doEraseFlash ?u 0 ?n s")
    case None
    then show ?thesis using e by (simp add: stm32Bl_writeMemoryFromBinFile_def erase_by_size)
  next
    case (Some r)
    obtain ok s1 where r: "r = (ok, s1)" by (cases r)
    have "bl_mode s1" using esp.erase_sent [OF assms(1) Some page_count(2) [OF L assms(3)]] by (simp add: esp.sent_def r)
    note w = esp.write_file_exchanges [OF this, of 0 content e FLASH_START_ADDRESS]
    show ?thesis
    proof (cases ok)
      case True
      then show ?thesis using e Some r w
        by (cases "write_file_loop ?u FLASH_START_ADDRESS content 0 s1") (auto simp: stm32Bl_writeMemoryFromBinFile_def erase_by_size)
    next
      case False
      then show ?thesis using e Some r assms(2) by (simp add: stm32Bl_writeMemoryFromBinFile_def erase_by_size)
    qed
  qed
qed

text \<open>C12: Writing a firmware file of 1 byte to 255 KiB through the UART in boot loader mode is the exchange of the boot loader's frames: the erase command, the
  checked list of all pages the file covers, then for each chunk of up to 256 bytes the write command, the checked address and the checked data, addresses
  advancing by the chunks. Each frame is sent when the one before it was answered with exactly one acknowledgement in its time. The bytes sent are whole
  frames: the first k, all of them when the function returns true; when it returns false, those up to and including the first frame that was not
  acknowledged. The final state, and that the program ends in a store in front of its buffer, is that of the exchange as well.\<close>

theorem stm32_upload_protocol:
  assumes "eu_mode s = STM32_MODE_BOOTLOADER" "content \<noteq> []" "length content \<le> 255 * 1024"
  shows "stm32Bl_writeMemoryFromBinFile (esp_uart_if e) (Some content) FLASH_START_ADDRESS s =
      map_option (\<lambda>((k, ok), s'). (ok, s')) (exchange_frames (esp_uart_if e) (firmware_frames content) s) \<and>
    (\<forall>k ok s'. exchange_frames (esp_uart_if e) (firmware_frames content) s = Some ((k, ok), s') \<longrightarrow>
      eu_tx s' = eu_tx s @ concat (map fst (take k (firmware_frames content))) \<and>
      (if ok then k = length (firmware_frames content) else 0 < k \<and> k \<le> length (firmware_frames content)))"
  using firmware_exchanged [OF assms] esp.exchange_sent [OF assms(1)] unfolding acked_def by blast

text \<open>A concrete line for the witnesses.\<close>

definition test_env :: "u8 list option \<Rightarrow> drv_env" where
  "test_env a = \<lparr>de_param_ok = True, de_pin_ok = True, de_install_ok = True, de_rx = (\<lambda>i. a)\<rparr>"

definition test_uart :: esp_uart where
  "test_uart = esp_uart_init \<lparr>boot_gpio_is_inverse = False, boot_gpio = 4, reset_gpio = 5\<rparr>\<lparr>eu_mode := STM32_MODE_BOOTLOADER, eu_driver := True\<rparr>"

lemma test_uart_mode [simp]: "eu_mode test_uart = STM32_MODE_BOOTLOADER" "eu_tx test_uart = []"
  by (simp_all add: test_uart_def esp_uart_init_def)

lemma silent_recv: "bl_mode s \<Longrightarrow> \<exists>s'. recv_loop (esp_uart_if (test_env None)) k sz n s = Some ([], s') \<and> bl_mode s'"
  by (induction k arbitrary: n s) (simp_all add: esp_uart_if_def p_stm32_read_bl_def uart_read_bytes_def test_env_def)

lemma silent_ack: "bl_mode s \<Longrightarrow> \<exists>s'. stm32Bl_expect_ack (esp_uart_if (test_env None)) s = Some (False, s') \<and> bl_mode s'"
  using silent_recv [of s "100 div 50" 16 0] by (auto simp: stm32Bl_expect_ack_def stm32Bl_expect_def stm32Bl_recv_def)

theorem stm32_upload_protocol_witness:
  "\<exists>s'. stm32Bl_writeMemoryFromBinFile (esp_uart_if (test_env None)) (Some [1, 2, 3]) FLASH_START_ADDRESS test_uart = Some (False, s') \<and>
     eu_tx s' = fst (hd (firmware_frames [1, 2, 3]))"
proof -
  have f: "firmware_frames [1, 2, 3] = (command_frame STM32_ERASE, 100) # tl (firmware_frames [1, 2, 3])"
    by (simp add: firmware_frames_def erase_frames_def)
  obtain s1 where "stm32Bl_recv (esp_uart_if (test_env None)) 16 100 (bl_write (esp_uart_if (test_env None)) (command_frame STM32_ERASE) test_uart) = Some ([], s1)"
    using silent_recv [of "bl_write (esp_uart_if (test_env None)) (command_frame STM32_ERASE) test_uart" "100 div 50" 16 0] by (auto simp: stm32Bl_recv_def)
  then have "exchange_frames (esp_uart_if (test_env None)) (firmware_frames [1, 2, 3]) test_uart = Some ((1, False), s1)" by (subst f) simp
  with stm32_upload_protocol [of test_uart "[1, 2, 3]" "test_env None"] f show ?thesis by (cases "firmware_frames [1, 2, 3]") auto
qed

text \<open>C13: With a boot loader that acknowledges everything, writing any file of up to 255 KiB terminates,
  reports success and has sent the whole stream.\<close>

theorem stm32_upload_completes:
  assumes "eu_mode s = STM32_MODE_BOOTLOADER" "content \<noteq> []" "length content \<le> 255 * 1024"
    and "\<forall>i. de_rx e i = Some [STM32_ACK]"
  shows "\<exists>s'. stm32Bl_writeMemoryFromBinFile (esp_uart_if e) (Some content) FLASH_START_ADDRESS s = Some (True, s') \<and>
    eu_tx s' = eu_tx s @ firmware_stream content"
proof -
  let ?n = "ucast ((word_of_nat (length content) + 1023 :: u32) div 1024) :: u8"
  have L: "0 < length content" using assms(2) by simp
  obtain s1 where 1: "stm32Bl_doEraseFlash (esp_uart_if e) 0 ?n s = Some (True, s1)" "bl_mode s1"
    using all_ack_erase [OF assms(1,4)] by blast
  obtain s2 where 2: "write_file_loop (esp_uart_if e) FLASH_START_ADDRESS content 0 s1 = Some (length content, s2)"
    using all_ack_file [OF assms(4) 1(2), of FLASH_START_ADDRESS content 0] by auto
  have "eu_tx s1 = eu_tx s @ erase_stream (map word_of_nat [0..<(length content + 1023) div 1024])"
    using esp.erase_sent [OF assms(1) 1(1) page_count(2) [OF L assms(3)]] unfolding erase_pages [OF L assms(3)]
    by (auto simp: esp.sent_def)
  moreover have "eu_tx s2 = eu_tx s1 @ upload_stream FLASH_START_ADDRESS content"
    using esp.write_file_sent [OF 1(2) 2] by auto
  ultimately show ?thesis using 1 2 by (simp add: stm32Bl_writeMemoryFromBinFile_def erase_by_size firmware_stream_def)
qed

theorem stm32_upload_completes_witness:
  "\<exists>s'. stm32Bl_writeMemoryFromBinFile (esp_uart_if (test_env (Some [STM32_ACK]))) (Some [1, 2, 3]) FLASH_START_ADDRESS test_uart = Some (True, s') \<and>
    eu_tx s' = firmware_stream [1, 2, 3]"
  using stm32_upload_completes [OF test_uart_mode(1), of "[1, 2, 3]" "test_env (Some [STM32_ACK])"] by (simp add: test_env_def)

text \<open>A firmware update from a file that cannot be opened is reported as a success, once the boot
  loader answered the start byte: zero bytes written equal the zero file size, and nothing but the start byte was sent.\<close>

lemma stm32_update_missing_file:
  assumes "eu_mode (run_boot s) = STM32_MODE_BOOTLOADER" "\<forall>i. de_rx e i = Some [STM32_ACK]"
  shows "\<exists>s1. stm32Ota_firmwareUpdate (esp_uart_if e) run_boot run_fw None s = Some (True, run_fw s1) \<and>
    eu_tx s1 = eu_tx (run_boot s) @ [STM32_INIT]"
proof -
  let ?s0 = "stm32Bl_sendStart (esp_uart_if e) (run_boot s)"
  have d: "u_task_delay (esp_uart_if e) n x = x" for n x by (simp add: esp_uart_if_def)
  have m: "bl_mode ?s0" "eu_tx ?s0 = eu_tx (run_boot s) @ [STM32_INIT]"
    using esp.line_write [OF assms(1), of e "[STM32_INIT]"] by (simp_all add: stm32Bl_sendStart_def)
  from all_ack_expect [OF m(1) assms(2)] have
    "stm32Bl_doStart (esp_uart_if e) (run_boot s) = Some (True, ?s0\<lparr>eu_reads := eu_reads ?s0 + 1\<rparr>)"
    by (simp add: stm32Bl_doStart_def)
  then show ?thesis using m(2) d
    by (intro exI [of _ "?s0\<lparr>eu_reads := eu_reads ?s0 + 1\<rparr>"]) (simp add: stm32Ota_firmwareUpdate_def stm32Bl_writeMemoryFromBinFile_def)
qed

lemma stm32_update_missing_file_witness:
  "\<exists>s1. stm32Ota_firmwareUpdate (esp_uart_if (test_env (Some [STM32_ACK]))) id id None test_uart = Some (True, s1) \<and> eu_tx s1 = [STM32_INIT]"
  using stm32_update_missing_file [of id test_uart "test_env (Some [STM32_ACK])" id] by (simp add: test_env_def)

text \<open>The extended erase never succeeds: it reads its final answer into a buffer of size 1, of which the
  receiver keeps one byte back, so no acknowledgement can arrive.\<close>

lemma stm32_ext_erase_never_succeeds:
  assumes "eu_mode s = STM32_MODE_BOOTLOADER" "stm32Bl_doExtEraseFlash (esp_uart_if e) start n s = Some (ok, s')"
  shows "\<not> ok"
  by (rule esp.ext_erase_fails [OF assms])

lemma stm32_ext_erase_never_succeeds_witness:
  "\<exists>ok s'. stm32Bl_doExtEraseFlash (esp_uart_if (test_env None)) 0 1 test_uart = Some (ok, s') \<and> \<not> ok"
proof -
  let ?s = "stm32Bl_sendCommand (esp_uart_if (test_env None)) STM32_ERASEN test_uart"
  obtain s0 where 0: "stm32Bl_recv (esp_uart_if (test_env None)) 16 100 ?s = Some ([], s0)" "bl_mode s0"
    using silent_recv [of ?s "100 div 50" 16 0] by (auto simp: stm32Bl_sendCommand_def stm32Bl_recv_def)
  obtain s1 where "stm32Bl_expect_ack (esp_uart_if (test_env None)) s0 = Some (False, s1)"
    using silent_ack [OF 0(2)] by blast
  with 0(1) obtain ok s' where r: "stm32Bl_doExtEraseFlash (esp_uart_if (test_env None)) 0 1 test_uart = Some (ok, s')"
    by (auto simp: stm32Bl_doExtEraseFlash_def)
  with stm32_ext_erase_never_succeeds [OF test_uart_mode(1) r] show ?thesis by blast
qed

text \<open>However the mode is switched and whatever the configuration calls return, the UART driver
  is installed exactly while the mode is not NONE and the event queue exists exactly in firmware mode; the driver is
  never installed twice nor deleted when absent, and after a switch the mode is the requested one or, if a call failed,
  NONE.\<close>

lemma stm32_modes_match_driver:
  assumes "eu_step\<^sup>*\<^sup>* (esp_uart_init c) s"
  shows "eu_driver s = (eu_mode s \<noteq> STM32_MODE_NONE) \<and> eu_queue s = (eu_mode s = STM32_MODE_FIRMWARE) \<and>
    (\<exists>s'. stm32_configSerial e m s = Some s' \<and>
      (eu_mode s' = m \<or> (eu_mode s' = STM32_MODE_NONE \<and> \<not> (de_param_ok e \<and> de_pin_ok e \<and> de_install_ok e))))"
proof -
  have "eu_inv s" using assms
  proof (induction rule: rtranclp_induct)
    case base
    then show ?case by (simp add: eu_inv_def esp_uart_init_def)
  next
    case (step s s')
    show ?case by (rule eu_step_inv [OF step.hyps(2) step.IH])
  qed
  with config_inv [OF this, of e m] show ?thesis by (auto simp: eu_inv_def)
qed

lemma stm32_modes_match_driver_witness:
  "\<exists>s'. stm32_configSerial (test_env None) STM32_MODE_FIRMWARE (esp_uart_init \<lparr>boot_gpio_is_inverse = False, boot_gpio = 2, reset_gpio = 4\<rparr>) = Some s' \<and> eu_mode s' = STM32_MODE_FIRMWARE"
  using stm32_modes_match_driver [OF rtranclp.rtrancl_refl, of "\<lparr>boot_gpio_is_inverse = False, boot_gpio = 2, reset_gpio = 4\<rparr>" "test_env None" STM32_MODE_FIRMWARE] by (auto simp: test_env_def)

end
