(* ===== verification/Stm32Ota.thy ===== *)
theory Stm32Ota
  imports Main
begin

text \<open>
  The update task (stm32/esp32/stm32_flash.cc) as a state machine: requests create tasks, a
  created task runs later. The download and the update are events with their results; each runs in
  one step of the task.
\<close>

datatype stm32ota_state = stm32ota_NONE | stm32ota_RUN | stm32ota_FAIL | stm32ota_DONE

record ota =
  ota_state :: stm32ota_state
  ota_created :: nat
  ota_running :: nat

definition ota_init :: ota where
  "ota_init = \<lparr>ota_state = stm32ota_NONE, ota_created = 0, ota_running = 0\<rparr>"

definition stm32ota_getState :: "ota \<Rightarrow> stm32ota_state" where
  "stm32ota_getState o1 = ota_state o1"

definition stm32ota_doUpdate :: "ota \<Rightarrow> bool \<times> ota" where
  "stm32ota_doUpdate o1 =
     (if ota_state o1 = stm32ota_RUN then (False, o1)
      else (False, o1\<lparr>ota_created := ota_created o1 + 1\<rparr>))"

definition ota_task_start :: "ota \<Rightarrow> ota" where
  "ota_task_start o1 = o1\<lparr>ota_state := stm32ota_RUN, ota_created := ota_created o1 - 1, ota_running := ota_running o1 + 1\<rparr>"

definition ota_task_end :: "bool \<Rightarrow> bool \<Rightarrow> ota \<Rightarrow> ota" where
  "ota_task_end downloaded updated o1 =
     o1\<lparr>ota_state := (if downloaded \<and> updated then stm32ota_DONE else stm32ota_FAIL), ota_running := ota_running o1 - 1\<rparr>"

inductive ota_reach :: "ota \<Rightarrow> bool" where
  ota_start: "ota_reach ota_init"
| ota_request: "ota_reach s \<Longrightarrow> ota_reach (snd (stm32ota_doUpdate s))"
| ota_run: "ota_reach s \<Longrightarrow> 0 < ota_created s \<Longrightarrow> ota_reach (ota_task_start s)"
| ota_finish: "ota_reach s \<Longrightarrow> 0 < ota_running s \<Longrightarrow> ota_reach (ota_task_end d u s)"

lemmas ota_defs = ota_init_def stm32ota_doUpdate_def ota_task_start_def ota_task_end_def

text \<open>The state is RUN only while or after a task was started, a request always returns false, even when it
  starts an update, and the guard against a second update does not hold: as the state becomes RUN only when a task
  runs, two requests in a row get two update tasks running at once.\<close>

lemma stm32ota_two_updates:
  "(\<forall>s. fst (stm32ota_doUpdate s) = False) \<and>
   (\<exists>s. ota_reach s \<and> ota_running s = 2 \<and> stm32ota_getState s = stm32ota_RUN)"
proof -
  let ?s2 = "snd (stm32ota_doUpdate (snd (stm32ota_doUpdate ota_init)))"
  let ?s4 = "ota_task_start (ota_task_start ?s2)"
  have "ota_reach ?s2" by (intro ota_request ota_start)
  then have "ota_reach (ota_task_start ?s2)" by (rule ota_run) (simp add: ota_defs)
  then have "ota_reach ?s4" by (rule ota_run) (simp add: ota_defs)
  moreover have "ota_running ?s4 = 2" "stm32ota_getState ?s4 = stm32ota_RUN" by (simp_all add: ota_defs stm32ota_getState_def)
  ultimately show ?thesis by (auto simp: stm32ota_doUpdate_def)
qed

end
