(* ===== verification/CliOut.thy ===== *)
theory CliOut
  imports UoutWriter
begin

text \<open>
  Text output (uout/cli_out.cc) and the printer that chooses the format (uout/so_out.cc).

  A writer is its flags, the state of the plain text builder and its JSON builder, which holds the
  target. Both builders write through \<open>out\<close>; the text builder ignores its result. None stands for
  an abort or a failed assertion. The message id is the global cli_msgid.
\<close>

section \<open>Flags\<close>

definition SO_TGT_CLI :: u32 where "SO_TGT_CLI = 0x03"
definition SO_TGT_FLAG_JSON :: u32 where "SO_TGT_FLAG_JSON = 0x10"
definition SO_TGT_FLAG_TXT :: u32 where "SO_TGT_FLAG_TXT = 0x20"
definition SO_TGT_WS :: u32 where "SO_TGT_WS = 0x40"

record 's uout_writer =
  uw_tgt :: u32
  uw_len :: int
  uw_tag :: string
  uw_json :: "'s json_builder"

definition so_tgt_test :: "u32 \<Rightarrow> 's uout_writer \<Rightarrow> bool" where
  "so_tgt_test bits w \<longleftrightarrow> uw_tgt w AND bits \<noteq> 0"

definition cli_isInteractive :: "'s uout_writer \<Rightarrow> bool" where
  "cli_isInteractive w \<longleftrightarrow> so_tgt_test SO_TGT_CLI w \<and> so_tgt_test SO_TGT_FLAG_TXT w"

text \<open>The constructor asserts that at most one format is asked for.\<close>

definition uout_new :: "u32 \<Rightarrow> 's \<Rightarrow> 's uout_writer option" where
  "uout_new tgt s =
     (if tgt AND SO_TGT_FLAG_TXT \<noteq> 0 \<and> tgt AND SO_TGT_FLAG_JSON \<noteq> 0 then None
      else Some \<lparr>uw_tgt = tgt, uw_len = 0, uw_tag = [], uw_json = jb_new (tgt AND SO_TGT_FLAG_JSON \<noteq> 0) s\<rparr>)"

definition uw_put :: "'s sink \<Rightarrow> string \<Rightarrow> 's uout_writer \<Rightarrow> 's uout_writer" where
  "uw_put out s w = w\<lparr>uw_json := (uw_json w)\<lparr>jb_snk := snd (out (jb_snk (uw_json w)) s False)\<rparr>\<rparr>"

fun uw_puts :: "'s sink \<Rightarrow> string list \<Rightarrow> 's uout_writer \<Rightarrow> 's uout_writer" where
  "uw_puts out [] w = w"
| "uw_puts out (s # ss) w = uw_puts out ss (uw_put out s w)"

section \<open>Replies\<close>

definition opt_list :: "'a option \<Rightarrow> 'a list" where
  "opt_list x = (case x of None \<Rightarrow> [] | Some y \<Rightarrow> [y])"

definition msg_print :: "'s sink \<Rightarrow> u16 \<Rightarrow> string option \<Rightarrow> string option \<Rightarrow> 's uout_writer \<Rightarrow> 's uout_writer" where
  "msg_print out msgid msg tag w =
     (if \<not> cli_isInteractive w then w
      else uw_puts out (opt_list msg @
             (if msgid \<noteq> 0 then [''@'' @ print_nat (unat msgid) @ [LF]] else []) @
             (case tag of None \<Rightarrow> [] | Some t \<Rightarrow> ['':'', t]) @ ['': '']) w)"

definition cli_warning_optionUnknown :: "'s sink \<Rightarrow> u16 \<Rightarrow> string \<Rightarrow> 's uout_writer \<Rightarrow> 's uout_writer" where
  "cli_warning_optionUnknown out msgid key w =
     (if \<not> cli_isInteractive w then w
      else uw_puts out [key, [LF]] (msg_print out msgid (Some ''warning'') (Some ''unknown-option'') w))"

definition cli_reply_print :: "'s sink \<Rightarrow> u16 \<Rightarrow> string option \<Rightarrow> 's uout_writer \<Rightarrow> 's uout_writer" where
  "cli_reply_print out msgid tag w = (if \<not> cli_isInteractive w then w else msg_print out msgid (Some ''cli_reply'') tag w)"

definition reply_message :: "'s sink \<Rightarrow> u16 \<Rightarrow> string option \<Rightarrow> string option \<Rightarrow> 's uout_writer \<Rightarrow> 's uout_writer" where
  "reply_message out msgid tag msg w =
     (if \<not> cli_isInteractive w then w else uw_puts out (opt_list msg @ [[LF]]) (cli_reply_print out msgid tag w))"

definition cli_replySuccess :: "'s sink \<Rightarrow> u16 \<Rightarrow> 's uout_writer \<Rightarrow> 's uout_writer" where
  "cli_replySuccess out msgid w = reply_message out msgid None (Some ''ok'') w"

definition cli_replyFailure :: "'s sink \<Rightarrow> u16 \<Rightarrow> 's uout_writer \<Rightarrow> int \<times> 's uout_writer" where
  "cli_replyFailure out msgid w = (-1, reply_message out msgid None (Some ''error'') w)"

definition cli_replyResult :: "'s sink \<Rightarrow> u16 \<Rightarrow> bool \<Rightarrow> 's uout_writer \<Rightarrow> bool \<times> 's uout_writer" where
  "cli_replyResult out msgid success w =
     (success, if success then cli_replySuccess out msgid w else snd (cli_replyFailure out msgid w))"

definition print_enr :: "'s sink \<Rightarrow> int \<Rightarrow> 's uout_writer \<Rightarrow> 's uout_writer" where
  "print_enr out enr w = uw_put out (''enr: '' @ print_int enr @ [LF]) w"

definition cli_msg_ready :: "'s sink \<Rightarrow> 's uout_writer \<Rightarrow> 's uout_writer" where
  "cli_msg_ready out w = (if \<not> cli_isInteractive w then w else uw_put out ([LF] @ ''ready:'' @ [LF]) w)"

text \<open>The message is replied under another id, which is put back afterwards.\<close>

definition reply_id_message :: "'s sink \<Rightarrow> u16 \<Rightarrow> string option \<Rightarrow> string option \<Rightarrow> 's uout_writer \<Rightarrow> 's uout_writer" where
  "reply_id_message out idn tag msg w =
     (if \<not> cli_isInteractive w then w else uw_puts out (opt_list msg @ [[LF]]) (cli_reply_print out idn tag w))"

section \<open>Entries in lines of limited length\<close>

definition OUT_MAX_LEN :: int where "OUT_MAX_LEN = 80"

definition start_reply :: "u16 \<Rightarrow> string \<Rightarrow> string" where
  "start_reply msgid tag = ''tf: cli_reply='' @ print_nat (unat msgid) @ '': '' @ tag @ '':''"

definition cli_out_start_reply :: "'s sink \<Rightarrow> u16 \<Rightarrow> 's uout_writer \<Rightarrow> 's uout_writer" where
  "cli_out_start_reply out msgid w =
     (let txt = start_reply msgid (uw_tag w) in if length txt < 64 then uw_put out txt w else w)"

definition cli_out_entry :: "'s sink \<Rightarrow> u16 \<Rightarrow> string option \<Rightarrow> string option \<Rightarrow> int \<Rightarrow> 's uout_writer \<Rightarrow> 's uout_writer" where
  "cli_out_entry out msgid key val len w =
     (if key = None \<or> len = -1 then
        (if uw_len w \<noteq> 0 then (uw_put out ('';'' @ [LF]) w)\<lparr>uw_len := 0\<rparr> else w)
      else
        (let k = the key;
             len1 = len + int (length k) + 1 + (case val of None \<Rightarrow> 0 | Some v \<Rightarrow> int (length v));
             w1 = (if uw_len w + len1 > OUT_MAX_LEN \<and> uw_len w > 0 then (uw_put out ('';'' @ [LF]) w)\<lparr>uw_len := 0\<rparr> else w);
             w2 = (if uw_len w1 = 0 then cli_out_start_reply out msgid w1 else w1)
         in uw_puts out ['' '', k, ''='', case val of None \<Rightarrow> [DQ, DQ] | Some v \<Rightarrow> v] (w2\<lparr>uw_len := uw_len w2 + len1\<rparr>)))"

text \<open>The tag is copied into 16 bytes; a longer one aborts.\<close>

definition cli_out_set_x :: "string \<Rightarrow> 's uout_writer \<Rightarrow> 's uout_writer option" where
  "cli_out_set_x tag w = (if length tag \<ge> 16 then None else Some (w\<lparr>uw_tag := tag\<rparr>))"

definition cli_out_x_reply_entry :: "'s sink \<Rightarrow> u16 \<Rightarrow> string option \<Rightarrow> string option \<Rightarrow> int \<Rightarrow> 's uout_writer \<Rightarrow> 's uout_writer" where
  "cli_out_x_reply_entry out msgid key val len w =
     (if \<not> cli_isInteractive w then w else cli_out_entry out msgid key val len w)"

definition cli_out_close :: "'s sink \<Rightarrow> u16 \<Rightarrow> 's uout_writer \<Rightarrow> 's uout_writer" where
  "cli_out_close out msgid w = cli_out_x_reply_entry out msgid None None 0 w"

section \<open>The printer\<close>

definition hasOutput_text :: "'s uout_writer \<Rightarrow> bool" where
  "hasOutput_text w = so_tgt_test SO_TGT_FLAG_TXT w"

definition hasOutput_json :: "'s uout_writer \<Rightarrow> bool" where
  "hasOutput_json w = so_tgt_test SO_TGT_FLAG_JSON w"

text \<open>A step of the JSON builder inside of the writer: its truth value is returned.\<close>

definition on_json :: "('s json_builder \<Rightarrow> jb_fail + bool \<times> 's json_builder) \<Rightarrow> 's uout_writer \<Rightarrow> (bool \<times> 's uout_writer) option" where
  "on_json f w = (case f (uw_json w) of Inl e \<Rightarrow> None | Inr (ok, b) \<Rightarrow> Some (ok, w\<lparr>uw_json := b\<rparr>))"

definition so_step ::
  "('s uout_writer \<Rightarrow> 's uout_writer option) \<Rightarrow> ('s json_builder \<Rightarrow> jb_fail + bool \<times> 's json_builder) \<Rightarrow> 's uout_writer \<Rightarrow> 's uout_writer option" where
  "so_step txt f w =
     (case (if hasOutput_text w then txt w else Some w) of
        None \<Rightarrow> None
      | Some w1 \<Rightarrow> if hasOutput_json w1 then map_option snd (on_json f w1) else Some w1)"

definition x_open :: "'s sink \<Rightarrow> (nat \<Rightarrow> bool) \<Rightarrow> string \<Rightarrow> 's uout_writer \<Rightarrow> 's uout_writer option" where
  "x_open out alloc name = so_step (cli_out_set_x name) (add_object out alloc (Some name))"

definition x_close :: "'s sink \<Rightarrow> (nat \<Rightarrow> bool) \<Rightarrow> u16 \<Rightarrow> 's uout_writer \<Rightarrow> 's uout_writer option" where
  "x_close out alloc msgid = so_step (\<lambda>w. Some (cli_out_close out msgid w)) (\<lambda>b. map_sum id (Pair True) (close_object out alloc b))"

definition root_open :: "'s sink \<Rightarrow> (nat \<Rightarrow> bool) \<Rightarrow> string \<Rightarrow> 's uout_writer \<Rightarrow> (bool \<times> 's uout_writer) option" where
  "root_open out alloc name w =
     (if hasOutput_json w then on_json (open_root_object out alloc (Some name)) w else Some (True, w))"

definition root_close :: "'s sink \<Rightarrow> (nat \<Rightarrow> bool) \<Rightarrow> u16 \<Rightarrow> 's uout_writer \<Rightarrow> 's uout_writer option" where
  "root_close out alloc msgid = so_step (\<lambda>w. Some (cli_out_close out msgid w)) (\<lambda>b. map_sum id (Pair True) (close_root_object out alloc b))"

definition so_print_s :: "'s sink \<Rightarrow> (nat \<Rightarrow> bool) \<Rightarrow> u16 \<Rightarrow> string \<Rightarrow> string \<Rightarrow> 's uout_writer \<Rightarrow> 's uout_writer option" where
  "so_print_s out alloc msgid key val =
     so_step (\<lambda>w. Some (cli_out_x_reply_entry out msgid (Some key) (Some val) 0 w)) (add_key_value_pair_s out alloc key val)"

text \<open>
  Numbers of any width: the text has what of the number fits a buffer of 20 bytes, the JSON
  builder takes an int, so the number is converted to 32 bits.
\<close>

definition to_int32 :: "int \<Rightarrow> int" where
  "to_int32 v = sint (word_of_int v :: 32 word)"

definition so_print_d :: "'s sink \<Rightarrow> (nat \<Rightarrow> bool) \<Rightarrow> u16 \<Rightarrow> string \<Rightarrow> int \<Rightarrow> 's uout_writer \<Rightarrow> 's uout_writer option" where
  "so_print_d out alloc msgid key val =
     so_step (\<lambda>w. Some (cli_out_x_reply_entry out msgid (Some key) (Some (take 19 (print_int val))) 0 w))
       (add_key_value_pair_d out alloc key (to_int32 val))"

definition so_print_u :: "'s sink \<Rightarrow> (nat \<Rightarrow> bool) \<Rightarrow> u16 \<Rightarrow> string \<Rightarrow> nat \<Rightarrow> int \<Rightarrow> 's uout_writer \<Rightarrow> 's uout_writer option" where
  "so_print_u out alloc msgid key val base =
     (let buf = take 19 (if base = 10 then print_nat val else print_hex val)
      in so_step (\<lambda>w. Some (cli_out_x_reply_entry out msgid (Some key) (Some buf) 0 w))
           (if base = 10 then add_key_value_pair_d out alloc key (to_int32 (int val)) else add_key_value_pair_s out alloc key buf))"

text \<open>A float comes as its two texts: printf's with n decimals, and the JSON builder's.\<close>

definition so_print_f :: "'s sink \<Rightarrow> (nat \<Rightarrow> bool) \<Rightarrow> u16 \<Rightarrow> string \<Rightarrow> (nat \<Rightarrow> string) \<Rightarrow> (int \<Rightarrow> string) \<Rightarrow> int \<Rightarrow> 's uout_writer \<Rightarrow> 's uout_writer option" where
  "so_print_f out alloc msgid key txt jtxt n w =
     (if \<not> (0 \<le> n \<and> n \<le> 9) then None
      else so_step (\<lambda>w. Some (cli_out_x_reply_entry out msgid (Some key) (Some (take 19 (txt (nat n)))) 0 w))
             (add_key_value_pair_f out alloc key (jtxt n)) w)"

end
