(* ===== verification/CliOutProps.thy ===== *)
theory CliOutProps
  imports CliOut JsonTree
begin

text \<open>The properties of the text output and of the printer.\<close>

definition text_entry :: "string \<times> string \<Rightarrow> string" where
  "text_entry kv = '' '' @ fst kv @ ''='' @ snd kv"

definition entry_len :: "string \<times> string \<Rightarrow> int" where
  "entry_len kv = int (length (fst kv) + 1 + length (snd kv))"

definition text_line :: "u16 \<Rightarrow> string \<Rightarrow> (string \<times> string) list \<Rightarrow> string" where
  "text_line msgid tag g = start_reply msgid tag @ concat (map text_entry g) @ '';'' @ [LF]"

fun so_print_all :: "'s sink \<Rightarrow> (nat \<Rightarrow> bool) \<Rightarrow> u16 \<Rightarrow> (string \<times> string) list \<Rightarrow> 's uout_writer \<Rightarrow> 's uout_writer option" where
  "so_print_all out alloc msgid [] w = Some w"
| "so_print_all out alloc msgid (kv # es) w =
     (case so_print_s out alloc msgid (fst kv) (snd kv) w of None \<Rightarrow> None | Some w1 \<Rightarrow> so_print_all out alloc msgid es w1)"

definition line_ok :: "(string \<times> string) list \<Rightarrow> bool" where
  "line_ok g \<longleftrightarrow> g \<noteq> [] \<and> (sum_list (map entry_len g) \<le> OUT_MAX_LEN \<or> length g = 1)"

definition text_mode :: "'s uout_writer \<Rightarrow> bool" where
  "text_mode w \<longleftrightarrow> cli_isInteractive w \<and> \<not> hasOutput_json w \<and> length (uw_tag w) < 16"

abbreviation uw_rcv :: "('s \<Rightarrow> string) \<Rightarrow> 's uout_writer \<Rightarrow> string" where
  "uw_rcv rcv w \<equiv> rcv (jb_snk (uw_json w))"

text \<open>The state between entries: finished lines, then the line begun.\<close>

definition text_state :: "('s \<Rightarrow> string) \<Rightarrow> u16 \<Rightarrow> string \<Rightarrow> (string \<times> string) list list \<Rightarrow> (string \<times> string) list \<Rightarrow> 's uout_writer \<Rightarrow> bool" where
  "text_state rcv msgid pre gs cur w \<longleftrightarrow> text_mode w \<and> (\<forall>g \<in> set gs. line_ok g) \<and> (cur \<noteq> [] \<longrightarrow> line_ok cur) \<and>
     uw_len w = sum_list (map entry_len cur) \<and>
     uw_rcv rcv w = pre @ concat (map (text_line msgid (uw_tag w)) gs) @
       (if cur = [] then [] else start_reply msgid (uw_tag w) @ concat (map text_entry cur))"

lemma entry_len_pos: "0 < entry_len kv"
  by (simp add: entry_len_def)

lemma sum_entry_len: "cur \<noteq> [] \<Longrightarrow> 0 < sum_list (map entry_len cur)"
proof (induction cur)
  case (Cons a cur)
  then show ?case using entry_len_pos [of a] by (cases cur) auto
qed simp

lemma uw_put_simps [simp]:
  "uw_tgt (uw_put out s w) = uw_tgt w" "uw_len (uw_put out s w) = uw_len w" "uw_tag (uw_put out s w) = uw_tag w"
  "uw_tgt (uw_puts out ss w) = uw_tgt w" "uw_len (uw_puts out ss w) = uw_len w" "uw_tag (uw_puts out ss w) = uw_tag w"
proof -
  show p: "uw_tgt (uw_put out s w) = uw_tgt w" "uw_len (uw_put out s w) = uw_len w" "uw_tag (uw_put out s w) = uw_tag w" for s w
    by (simp_all add: uw_put_def)
  show "uw_tgt (uw_puts out ss w) = uw_tgt w" "uw_len (uw_puts out ss w) = uw_len w" "uw_tag (uw_puts out ss w) = uw_tag w"
    by (induction ss arbitrary: w) (simp_all add: p)
qed

lemma start_reply_fits: "length tag < 16 \<Longrightarrow> length (start_reply msgid tag) < 64"
proof -
  have "unat msgid < 10 ^ 5" using unsigned_less [of msgid, where 'a = nat] by simp
  then have "length (print_nat (unat msgid)) \<le> 5" by (rule print_nat_length) simp
  then show "length tag < 16 \<Longrightarrow> length (start_reply msgid tag) < 64" by (simp add: start_reply_def)
qed

lemma text_mode_cong:
  "uw_tgt w' = uw_tgt w \<Longrightarrow> uw_tag w' = uw_tag w \<Longrightarrow> text_mode w' = text_mode w"
  by (simp add: text_mode_def cli_isInteractive_def hasOutput_json_def so_tgt_test_def)



lemma entry_tgt [simp]: "uw_tgt (cli_out_entry out msgid k v n w) = uw_tgt w"
  by (simp add: cli_out_entry_def cli_out_start_reply_def Let_def del: uw_puts.simps)

lemma print_text_mode:
  "text_mode w \<Longrightarrow> so_print_s out alloc msgid k v w = Some (cli_out_entry out msgid (Some k) (Some v) 0 w)"
  by (simp add: so_print_s_def so_step_def cli_out_x_reply_entry_def text_mode_def cli_isInteractive_def hasOutput_text_def
      hasOutput_json_def so_tgt_test_def)

lemma uw_rcv_put:
  assumes "\<forall>s t f. rcv (snd (out s t f)) = rcv s @ t"
  shows "uw_rcv rcv (uw_put out t w) = uw_rcv rcv w @ t" "uw_rcv rcv (uw_puts out ts w) = uw_rcv rcv w @ concat ts"
proof -
  show p: "uw_rcv rcv (uw_put out t w) = uw_rcv rcv w @ t" for t w using assms by (simp add: uw_put_def)
  show "uw_rcv rcv (uw_puts out ts w) = uw_rcv rcv w @ concat ts" by (induction ts arbitrary: w) (simp_all add: p)
qed

lemma entry_state:
  assumes log: "\<forall>s t f. rcv (snd (out s t f)) = rcv s @ t" and st: "text_state rcv msgid pre gs cur w"
  shows "\<exists>w' gs' cur'. so_print_s out alloc msgid k v w = Some w' \<and> text_state rcv msgid pre gs' cur' w' \<and>
    concat gs' @ cur' = concat gs @ cur @ [(k, v)] \<and> uw_tag w' = uw_tag w"
proof -
  have tm: "text_mode w" and len: "uw_len w = sum_list (map entry_len cur)" using st by (simp_all add: text_state_def)
  define L where "L = entry_len (k, v)"
  define brk where "brk \<longleftrightarrow> uw_len w + L > OUT_MAX_LEN \<and> uw_len w > 0"
  define w1 where "w1 = (if brk then (uw_put out ('';'' @ [LF]) w)\<lparr>uw_len := 0\<rparr> else w)"
  define gs1 where "gs1 = (if brk then gs @ [cur] else gs)"
  define cur1 where "cur1 = (if brk then [] else cur)"
  define w2 where "w2 = (if uw_len w1 = 0 then cli_out_start_reply out msgid w1 else w1)"
  define w3 where "w3 = uw_puts out ['' '', k, ''='', v] (w2\<lparr>uw_len := uw_len w2 + L\<rparr>)"
  have r: "so_print_s out alloc msgid k v w = Some w3"
    unfolding print_text_mode [OF tm] w3_def w2_def w1_def brk_def L_def cli_out_entry_def Let_def entry_len_def
    by (simp add: ac_simps)
  have cur: "cur \<noteq> []" if brk using that len by (auto simp: brk_def)
  have s1: "text_state rcv msgid pre gs1 cur1 w1" "uw_tag w1 = uw_tag w"
    using st cur text_mode_cong [of w1 w] unfolding w1_def gs1_def cur1_def text_state_def
    by (auto simp: uw_rcv_put(1) [OF log, simplified] text_line_def)
  have z: "uw_len w1 = 0 \<longleftrightarrow> cur1 = []" using s1(1) sum_entry_len [of cur1] by (cases "cur1 = []") (simp_all add: text_state_def)
  have w2: "uw_rcv rcv w2 = (if cur1 = [] then uw_rcv rcv w1 @ start_reply msgid (uw_tag w) else uw_rcv rcv w1)"
    "uw_tgt w2 = uw_tgt w1" "uw_tag w2 = uw_tag w" "uw_len w2 = uw_len w1"
    using start_reply_fits [of "uw_tag w" msgid] s1 z uw_rcv_put(1) [OF log]
    by (auto simp: w2_def cli_out_start_reply_def Let_def text_state_def text_mode_def)
  have "line_ok (cur1 @ [(k, v)])"
    using s1(1) len by (auto simp: line_ok_def cur1_def brk_def text_state_def L_def [symmetric] not_less)
      (use sum_entry_len [of cur] in \<open>auto simp: L_def\<close>)
  moreover have "text_mode w3"
  proof -
    have "uw_tgt w3 = uw_tgt w1" "uw_tag w3 = uw_tag w1" using s1(2) w2 by (simp_all add: w3_def del: uw_puts.simps)
    from text_mode_cong [OF this] s1(1) show ?thesis by (simp add: text_state_def)
  qed
  ultimately have "text_state rcv msgid pre gs1 (cur1 @ [(k, v)]) w3"
    using s1 w2 by (auto simp: text_state_def w3_def uw_rcv_put(2) [OF log] L_def text_entry_def simp del: uw_puts.simps)
  moreover have "concat gs1 @ cur1 @ [(k, v)] = concat gs @ cur @ [(k, v)]" by (simp add: gs1_def cur1_def)
  moreover have "uw_tag w3 = uw_tag w" using w2(3) by (simp add: w3_def del: uw_puts.simps)
  ultimately show ?thesis using r
    by (intro exI [of _ w3] exI [of _ gs1] exI [of _ "cur1 @ [(k, v)]"] conjI)
qed

lemma entries_state:
  assumes log: "\<forall>s t f. rcv (snd (out s t f)) = rcv s @ t"
  shows "text_state rcv msgid pre gs cur w \<Longrightarrow>
    \<exists>w' gs' cur'. so_print_all out alloc msgid es w = Some w' \<and> text_state rcv msgid pre gs' cur' w' \<and>
      concat gs' @ cur' = concat gs @ cur @ es \<and> uw_tag w' = uw_tag w"
proof (induction es arbitrary: gs cur w)
  case Nil
  then show ?case by auto
next
  case (Cons kv es)
  from entry_state [OF log Cons.prems, of alloc "fst kv" "snd kv"] obtain w1 gs1 cur1 where
    1: "so_print_s out alloc msgid (fst kv) (snd kv) w = Some w1" "text_state rcv msgid pre gs1 cur1 w1"
      "concat gs1 @ cur1 = concat gs @ cur @ [kv]" "uw_tag w1 = uw_tag w" by auto
  from Cons.IH [OF 1(2)] obtain w2 gs2 cur2 where
    2: "so_print_all out alloc msgid es w1 = Some w2" "text_state rcv msgid pre gs2 cur2 w2"
      "concat gs2 @ cur2 = concat gs1 @ cur1 @ es" "uw_tag w2 = uw_tag w1" by auto
  have "concat gs2 @ cur2 = concat gs @ cur @ kv # es" using 1(3) 2(3) by simp
  with 1 2 show ?case by auto
qed

text \<open>C16: Printing entries as text and closing writes lines: each starts with the reply header,
  holds at least one entry, and ends with a semicolon and a line feed; together the lines hold exactly the
  entries in order, and the entries of a line add up to at most 80 characters unless it has a single one. This holds for
  every console target, whatever its write function returns.\<close>

theorem plain_text_lines:
  assumes log: "\<forall>s t f. rcv (snd (out s t f)) = rcv s @ t"
    and w: "cli_isInteractive w" "\<not> hasOutput_json w" "length (uw_tag w) < 16" "uw_len w = 0"
  shows "\<exists>w1 gs. so_print_all out alloc msgid es w = Some w1 \<and> concat gs = es \<and>
    rcv (jb_snk (uw_json (cli_out_close out msgid w1))) = rcv (jb_snk (uw_json w)) @ concat (map (text_line msgid (uw_tag w)) gs) \<and>
    (\<forall>g \<in> set gs. g \<noteq> [] \<and> (sum_list (map entry_len g) \<le> OUT_MAX_LEN \<or> length g = 1))"
proof -
  have "text_state rcv msgid (uw_rcv rcv w) [] [] w" using w by (simp add: text_state_def text_mode_def)
  from entries_state [OF log this, of alloc es] obtain w1 gs cur where
    1: "so_print_all out alloc msgid es w = Some w1" "text_state rcv msgid (uw_rcv rcv w) gs cur w1"
      "concat gs @ cur = es" "uw_tag w1 = uw_tag w" by auto
  have int: "cli_isInteractive w1" using 1(2) by (simp add: text_state_def text_mode_def)
  show ?thesis
  proof (cases "cur = []")
    case True
    then have "uw_len w1 = 0" using 1(2) by (simp add: text_state_def)
    then have "cli_out_close out msgid w1 = w1" using int by (simp add: cli_out_close_def cli_out_x_reply_entry_def cli_out_entry_def)
    with 1 True show ?thesis by (intro exI [of _ w1] exI [of _ gs]) (auto simp: text_state_def line_ok_def)
  next
    case False
    then have "uw_len w1 \<noteq> 0" using 1(2) sum_entry_len [of cur] by (simp add: text_state_def)
    then have "uw_rcv rcv (cli_out_close out msgid w1) = uw_rcv rcv w1 @ '';'' @ [LF]"
      using int by (simp add: cli_out_close_def cli_out_x_reply_entry_def cli_out_entry_def uw_rcv_put(1) [OF log])
    with 1 False show ?thesis by (intro exI [of _ w1] exI [of _ "gs @ [cur]"]) (auto simp: text_state_def text_line_def line_ok_def)
  qed
qed

theorem plain_text_lines_witness:
  "\<exists>w w1 gs. uout_new (SO_TGT_CLI OR SO_TGT_FLAG_TXT) [] = Some w \<and> concat gs = [(''a'', ''1''), (''b'', ''2'')] \<and>
    so_print_all (\<lambda>s t f. (0, s @ t)) (\<lambda>n. True) 0 [(''a'', ''1''), (''b'', ''2'')] w = Some w1 \<and>
    jb_snk (uw_json (cli_out_close (\<lambda>s t f. (0, s @ t)) 0 w1)) = concat (map (text_line 0 []) gs)"
proof -
  let ?w = "\<lparr>uw_tgt = SO_TGT_CLI OR SO_TGT_FLAG_TXT, uw_len = 0, uw_tag = [], uw_json = jb_new False []\<rparr>"
  have "uout_new (SO_TGT_CLI OR SO_TGT_FLAG_TXT) [] = Some ?w" by (simp add: uout_new_def SO_TGT_CLI_def SO_TGT_FLAG_TXT_def SO_TGT_FLAG_JSON_def)
  moreover have "cli_isInteractive ?w" "\<not> hasOutput_json ?w"
    by (simp_all add: cli_isInteractive_def hasOutput_json_def so_tgt_test_def SO_TGT_CLI_def SO_TGT_FLAG_TXT_def SO_TGT_FLAG_JSON_def)
  ultimately show ?thesis
    using plain_text_lines [of id "\<lambda>s t f. (0, s @ t)" ?w "\<lambda>n. True" 0 "[(''a'', ''1''), (''b'', ''2'')]"]
    by (simp add: jb_new_def) blast
qed

lemma signed_shift:
  assumes "0 \<le> z" "z < (2 :: int) ^ 32"
  shows "(z + 2 ^ 31) mod 2 ^ 32 - 2 ^ 31 = (if z < 2 ^ 31 then z else z - 2 ^ 32)"
proof (cases "z < 2 ^ 31")
  case True
  then have "(z + 2 ^ 31) mod 2 ^ 32 = z + 2 ^ 31" using assms by (intro mod_pos_pos_trivial) simp_all
  then show ?thesis using True by simp
next
  case False
  have "(z + 2 ^ 31) mod 2 ^ 32 = (z - 2 ^ 31 + 2 ^ 32) mod 2 ^ 32" by (simp add: ac_simps)
  also have "\<dots> = (z - 2 ^ 31) mod 2 ^ 32" by (rule mod_add_self2)
  also have "\<dots> = z - 2 ^ 31" using False assms by (intro mod_pos_pos_trivial) simp_all
  finally show ?thesis using False by simp
qed

text \<open>Printing an unsigned number to a JSON target goes through the builder's int: the member has
  the number only below 2^31; from there on it has the number minus 2^32, and wider numbers lose their high bits.\<close>

lemma print_unsigned_json_wraps:
  assumes snk: "\<And>s txt fin n s'. snk s txt fin = (n, s') \<Longrightarrow> n \<le> int (length txt) \<and> rcv s' = rcv s @ take (nat n) txt"
    and w: "hasOutput_json w" "\<not> hasOutput_text w" "jb_ok (uw_json w)" "0 < jb_idx (uw_json w)"
  shows "\<exists>w'. so_print_u snk alloc msgid key v 10 w = Some w' \<and>
    rcv (jb_snk (uw_json w')) @ jb_pending (uw_json w') = rcv (jb_snk (uw_json w)) @ jb_pending (uw_json w) @
      (if fst (the (on_json (add_key_value_pair_d snk alloc key (to_int32 (int v))) w)) then
         key_text (Some key) @ print_int (if v mod 2 ^ 32 < 2 ^ 31 then int (v mod 2 ^ 32) else int (v mod 2 ^ 32) - 2 ^ 32) @ '','' else [])"
proof -
  have js: "json_sink snk rcv" by (rule json_sink.intro) (rule snk)
  have i32: "to_int32 (int v) = (if v mod 2 ^ 32 < 2 ^ 31 then int (v mod 2 ^ 32) else int (v mod 2 ^ 32) - 2 ^ 32)"
  proof -
    have "to_int32 (int v) = (int v + 2 ^ 31) mod 2 ^ 32 - 2 ^ 31"
      unfolding to_int32_def signed_of_int by (simp add: signed_take_bit_eq_take_bit_shift take_bit_eq_mod)
    also have "(int v + 2 ^ 31) mod 2 ^ 32 = (int (v mod 2 ^ 32) + 2 ^ 31) mod 2 ^ 32" by (simp add: zmod_int mod_simps)
    finally have e: "to_int32 (int v) = (int (v mod 2 ^ 32) + 2 ^ 31) mod 2 ^ 32 - 2 ^ 31" .
    have "v mod 2 ^ 32 < 2 ^ 32" by simp
    then show ?thesis unfolding e by (subst signed_shift) simp_all
  qed
  have rng: "- (2 ^ 31) \<le> to_int32 (int v)" "to_int32 (int v) < 2 ^ 31"
    using sint_greater_eq [of "word_of_int (int v) :: 32 word"] sint_less [of "word_of_int (int v) :: 32 word"]
    by (simp_all add: to_int32_def del: of_int_of_nat_eq)
  let ?t = "print_int (to_int32 (int v))" let ?ps = "quoted_key key @ [?t, '','']"
  have len: "length (concat ?ps) < length key + (case None of Some v \<Rightarrow> length v | None \<Rightarrow> 10) + 10"
    using print_int_length [OF rng] by (simp add: quoted_key_def)
  have a: "json_sink.appends rcv (uw_json w) (concat ?ps) 0 (add_key_value_pair_d snk alloc key (to_int32 (int v)) (uw_json w))"
    unfolding add_key_value_pair_d_def by (rule json_sink.value_appends [OF js w(3,4) len refl])
  have c: "concat ?ps = key_text (Some key) @ ?t @ '',''" by (simp add: key_text_def quoted_def quoted_key_def)
  obtain ok b' where r: "add_key_value_pair_d snk alloc key (to_int32 (int v)) (uw_json w) = Inr (ok, b')"
    "json_sink.strm rcv b' = json_sink.strm rcv (uw_json w) @ (if ok then concat ?ps else [])"
    using a unfolding json_sink.appends_def [OF js] by (elim exE conjE) (rule that, assumption+)
  have "so_print_u snk alloc msgid key v 10 w = Some (w\<lparr>uw_json := b'\<rparr>)"
    using w(1,2) r(1) by (simp add: so_print_u_def so_step_def on_json_def Let_def)
  then show ?thesis using r unfolding i32 [symmetric] json_sink.strm_def [OF js] c by (simp add: on_json_def)
qed

lemma print_unsigned_json_wraps_witness:
  "\<exists>w'. so_print_u builder_priv_write (\<lambda>n. True) 0 ''n'' (2 ^ 32 - 1) 10
      \<lparr>uw_tgt = SO_TGT_FLAG_JSON, uw_len = 0, uw_tag = [],
       uw_json = jb_new True ()\<lparr>jb_buf := Some (replicate 64 CHR ''{''), jb_size := 64, jb_idx := 1\<rparr>\<rparr> = Some w'"
  using print_unsigned_json_wraps [of builder_priv_write "\<lambda>w. []" "\<lparr>uw_tgt = SO_TGT_FLAG_JSON, uw_len = 0, uw_tag = [],
       uw_json = jb_new True ()\<lparr>jb_buf := Some (replicate 64 CHR ''{''), jb_size := 64, jb_idx := 1\<rparr>\<rparr>"
      "\<lambda>n. True" 0 "''n''" "2 ^ 32 - 1"] builder.snk_takes
  by (auto simp: hasOutput_json_def hasOutput_text_def so_tgt_test_def SO_TGT_FLAG_JSON_def SO_TGT_FLAG_TXT_def jb_ok_def jb_new_def)

end
