(* ===== verification/Jsmn.thy ===== *)
theory Jsmn
  imports CStd "HOL-Library.Monad_Syntax"
begin

text \<open>
  The iterator over the token array of the JSMN parser (jsmn/jsmn_iterate.hh).

  The parser itself is not part of the sources: it is the argument \<open>parse\<close> of the constructor,
  which turns a text and the token array into its result and the array written. A container is the
  text block, the array as allocated and the number of its tokens that are in use; an iterator is
  its index in the array. None stands for an access outside of the array or of the text.
\<close>

section \<open>Tokens and containers\<close>

datatype jsmntype = JSMN_UNDEFINED | JSMN_OBJECT | JSMN_ARRAY | JSMN_STRING | JSMN_PRIMITIVE

record jsmntok =
  tk_type :: jsmntype
  tk_start :: int
  tk_end :: int
  tk_size :: int

record jsmn =
  js_json :: "char list option"
  js_tok :: "jsmntok list"
  js_nmb :: nat

type_synonym jsmn_parser = "string \<Rightarrow> jsmntok list \<Rightarrow> int \<times> jsmntok list"

definition do_parse :: "jsmn_parser \<Rightarrow> char list option \<Rightarrow> jsmntok list \<Rightarrow> (nat \<times> jsmntok list) option" where
  "do_parse parse json tok =
     (case json of
        None \<Rightarrow> Some (0, tok)
      | Some m \<Rightarrow>
          (case parse (c_str m) tok of (r, tok') \<Rightarrow>
             if r < 1 then Some (0, tok')
             else (case tok' of [] \<Rightarrow> None
               | t # _ \<Rightarrow> if tk_type t \<noteq> JSMN_OBJECT then Some (0, tok') else Some (nat r, tok'))))"

definition jsmn_new :: "jsmn_parser \<Rightarrow> char list option \<Rightarrow> jsmntok list \<Rightarrow> jsmn option" where
  "jsmn_new parse json tok =
     map_option (\<lambda>(n, tok'). \<lparr>js_json = json, js_tok = tok', js_nmb = n\<rparr>) (do_parse parse json tok)"

definition jsmn_ok :: "jsmn \<Rightarrow> bool" where
  "jsmn_ok c \<longleftrightarrow> js_json c \<noteq> None \<and> js_nmb c > 0"

section \<open>The iterator\<close>

definition it_begin :: "jsmn \<Rightarrow> int" where "it_begin c = 0"

definition it_end :: "jsmn \<Rightarrow> int" where "it_end c = int (js_nmb c)"

definition it_valid :: "jsmn \<Rightarrow> int \<Rightarrow> bool" where
  "it_valid c i \<longleftrightarrow> 0 \<le> i \<and> i < int (js_nmb c)"

definition tok_at :: "jsmn \<Rightarrow> int \<Rightarrow> jsmntok option" where
  "tok_at c i = (if 0 \<le> i \<and> nat i < length (js_tok c) then Some (js_tok c ! nat i) else None)"

text \<open>\<open>strncmp (get_json () + start, s, n) == 0\<close>\<close>

definition json_eq :: "jsmn \<Rightarrow> jsmntok \<Rightarrow> string \<Rightarrow> nat \<Rightarrow> bool option" where
  "json_eq c t s n = (case js_json c of
     None \<Rightarrow> None
   | Some m \<Rightarrow> if 0 \<le> tk_start t \<and> nat (tk_start t) < length m then Some (strneq n (drop (nat (tk_start t)) m) s) else None)"

text \<open>\<open>end - start\<close> converted to an unsigned of 32 bits.\<close>

definition tk_len :: "jsmntok \<Rightarrow> nat" where
  "tk_len t = unat (word_of_int (tk_end t - tk_start t) :: u32)"

definition value_equals_null :: "jsmn \<Rightarrow> int \<Rightarrow> bool option" where
  "value_equals_null c i = do {
     t \<leftarrow> tok_at c i;
     if tk_type t = JSMN_PRIMITIVE \<and> length ''null'' = tk_len t then json_eq c t ''null'' (length ''null'') else Some False }"

definition value_equals_false :: "jsmn \<Rightarrow> int \<Rightarrow> bool option" where
  "value_equals_false c i = do {
     t \<leftarrow> tok_at c i;
     if tk_type t = JSMN_PRIMITIVE \<and> length ''false'' = tk_len t then json_eq c t ''null'' (length ''false'') else Some False }"

definition value_equals_true :: "jsmn \<Rightarrow> int \<Rightarrow> bool option" where
  "value_equals_true c i = do {
     t \<leftarrow> tok_at c i;
     if tk_type t = JSMN_PRIMITIVE \<and> length ''true'' = tk_len t then json_eq c t ''null'' (length ''true'') else Some False }"

text \<open>A key that is a null pointer has no length: there is no result when it comes to comparing it.\<close>

definition keyIsEqual :: "jsmn \<Rightarrow> int \<Rightarrow> string option \<Rightarrow> bool option" where
  "keyIsEqual c i key = do {
     t \<leftarrow> tok_at c i;
     if tk_type t \<noteq> JSMN_STRING then Some False
     else do {
       k \<leftarrow> key;
       if int (length k) = tk_end t - tk_start t then json_eq c t k (length k) else Some False } }"

definition keyIsEqual_typed :: "jsmn \<Rightarrow> int \<Rightarrow> string option \<Rightarrow> jsmntype \<Rightarrow> bool option" where
  "keyIsEqual_typed c i key ty = do {
     t \<leftarrow> tok_at c (i + 1);
     if ty \<noteq> tk_type t then Some False
     else if key = None then Some True else keyIsEqual c i key }"

definition keyStartsWith :: "jsmn \<Rightarrow> int \<Rightarrow> string option \<Rightarrow> bool option" where
  "keyStartsWith c i key = do {
     t \<leftarrow> tok_at c i;
     if tk_type t \<noteq> JSMN_STRING then Some False
     else do {
       k \<leftarrow> key;
       if length k < tk_len t then json_eq c t k (length k) else Some False } }"

definition keyStartsWith_typed :: "jsmn \<Rightarrow> int \<Rightarrow> string option \<Rightarrow> jsmntype \<Rightarrow> bool option" where
  "keyStartsWith_typed c i key ty = do {
     t \<leftarrow> tok_at c (i + 1);
     if ty \<noteq> tk_type t then Some False
     else if key = None then Some True else keyStartsWith c i key }"

section \<open>Values\<close>

text \<open>The inner None stands for a result of false, where the destination keeps its value.\<close>

definition json_part :: "jsmn \<Rightarrow> jsmntok \<Rightarrow> string option" where
  "json_part c t = (case js_json c of
     None \<Rightarrow> None
   | Some m \<Rightarrow> if 0 \<le> tk_start t \<and> nat (tk_start t) + tk_len t \<le> length m then Some (take (tk_len t) (drop (nat (tk_start t)) m)) else None)"

definition copy_string :: "jsmn \<Rightarrow> nat \<Rightarrow> jsmntok \<Rightarrow> string option option" where
  "copy_string c buf_size t = (if buf_size \<le> tk_len t then Some None else map_option Some (json_part c t))"

text \<open>The text of a primitive that fits a buffer of 32 bytes.\<close>

definition primitive_text :: "jsmn \<Rightarrow> jsmntok \<Rightarrow> string option option" where
  "primitive_text c t = (if tk_type t = JSMN_PRIMITIVE then map_option (map_option c_str) (copy_string c 32 t) else Some None)"

definition get_value_float :: "(string \<Rightarrow> 'f) \<Rightarrow> jsmn \<Rightarrow> jsmntok \<Rightarrow> 'f option option" where
  "get_value_float atof c t = map_option (map_option atof) (primitive_text c t)"

definition get_value_bool :: "jsmn \<Rightarrow> jsmntok \<Rightarrow> bool option option" where
  "get_value_bool c t = do {
     b \<leftarrow> primitive_text c t;
     Some (if b = Some ''true'' \<or> b = Some ''1'' then Some True
           else if b = Some ''false'' \<or> b = Some ''0'' then Some False else None) }"

text \<open>The constructor called takes a count and a character.\<close>

definition get_value_string :: "jsmn \<Rightarrow> jsmntok \<Rightarrow> string option option" where
  "get_value_string c t =
     (if tk_type t = JSMN_STRING then Some (Some (replicate (nat (tk_start t)) (char_of (tk_len t)))) else Some None)"

definition get_value_num :: "jsmn \<Rightarrow> jsmntok \<Rightarrow> 'a :: len word option option" where
  "get_value_num c t = map_option (map_option (\<lambda>s. word_of_int (atoi s))) (primitive_text c t)"

definition get_value_chars :: "nat \<Rightarrow> jsmn \<Rightarrow> jsmntok \<Rightarrow> string option option" where
  "get_value_chars sz c t = (if tk_type t = JSMN_STRING then copy_string c sz t else Some None)"

definition get_value_as_string :: "nat \<Rightarrow> jsmn \<Rightarrow> jsmntok \<Rightarrow> string option option" where
  "get_value_as_string sz c t =
     (if tk_type t = JSMN_STRING \<or> tk_type t = JSMN_PRIMITIVE then copy_string c sz t else Some None)"

text \<open>In place: the text is terminated behind the value, the result points into it (None for null).\<close>

definition get_value_in_place :: "jsmn \<Rightarrow> jsmntok \<Rightarrow> (nat option \<times> jsmn) option" where
  "get_value_in_place c t =
     (if tk_type t \<noteq> JSMN_STRING \<and> tk_type t \<noteq> JSMN_PRIMITIVE then Some (None, c)
      else (case js_json c of
          None \<Rightarrow> None
        | Some m \<Rightarrow>
            if 0 \<le> tk_start t \<and> 0 \<le> tk_end t \<and> nat (tk_end t) < length m
            then Some (Some (nat (tk_start t)), c\<lparr>js_json := Some (m[nat (tk_end t) := NUL])\<rparr>) else None))"

text \<open>The operations of the iterator for one of the getters \<open>g\<close>.\<close>

definition getValue :: "(jsmn \<Rightarrow> jsmntok \<Rightarrow> 'v option option) \<Rightarrow> jsmn \<Rightarrow> int \<Rightarrow> 'v option option" where
  "getValue g c i = do { t \<leftarrow> tok_at c i; g c t }"

definition takeValue :: "(jsmn \<Rightarrow> jsmntok \<Rightarrow> 'v option option) \<Rightarrow> jsmn \<Rightarrow> int \<Rightarrow> ('v option \<times> int) option" where
  "takeValue g c i = do { r \<leftarrow> getValue g c i; Some (r, if r = None then i else i + 1) }"

definition getValue_key :: "(jsmn \<Rightarrow> jsmntok \<Rightarrow> 'v option option) \<Rightarrow> jsmn \<Rightarrow> int \<Rightarrow> string option \<Rightarrow> 'v option option" where
  "getValue_key g c i key = do { eq \<leftarrow> keyIsEqual c i key; if eq then getValue g c (i + 1) else Some None }"

definition takeValue_key :: "(jsmn \<Rightarrow> jsmntok \<Rightarrow> 'v option option) \<Rightarrow> jsmn \<Rightarrow> int \<Rightarrow> string option \<Rightarrow> ('v option \<times> int) option" where
  "takeValue_key g c i key = do { r \<leftarrow> getValue_key g c i key; Some (r, if r = None then i else i + 2) }"

section \<open>Skipping\<close>

text \<open>
  The recursion over values takes fuel; every call but the end of a loop moves on by a token, so
  twice the number of tokens and three more are enough for any array.
\<close>

datatype jsmn_fail = JsAssert | JsNoFuel | JsMemory

fun skip_value_f :: "nat \<Rightarrow> jsmn \<Rightarrow> int \<Rightarrow> jsmn_fail + bool \<times> int"
  and skip_members_f :: "nat \<Rightarrow> jsmn \<Rightarrow> int \<Rightarrow> int \<Rightarrow> jsmn_fail + bool \<times> int"
  and skip_elems_f :: "nat \<Rightarrow> jsmn \<Rightarrow> int \<Rightarrow> int \<Rightarrow> jsmn_fail + bool \<times> int"
  and skip_key_and_value_f :: "nat \<Rightarrow> jsmn \<Rightarrow> int \<Rightarrow> jsmn_fail + bool \<times> int" where
  "skip_value_f 0 c i = Inl JsNoFuel"
| "skip_value_f (Suc f) c i =
     (if \<not> it_valid c i then Inr (False, i)
      else (case tok_at c i of
          None \<Rightarrow> Inl JsMemory
        | Some t \<Rightarrow>
            if tk_type t = JSMN_OBJECT then skip_members_f f c (tk_size t) (i + 1)
            else if tk_type t = JSMN_ARRAY then skip_elems_f f c (tk_size t) (i + 1)
            else Inr (True, i + 1)))"
| "skip_members_f 0 c n i = Inl JsNoFuel"
| "skip_members_f (Suc f) c n i =
     (if \<not> (n > 0 \<and> it_valid c i) then Inr (True, i)
      else (case tok_at c i of
          None \<Rightarrow> Inl JsMemory
        | Some t \<Rightarrow>
            if tk_type t \<noteq> JSMN_STRING then Inl JsAssert
            else (case skip_key_and_value_f f c i of
                Inl e \<Rightarrow> Inl e
              | Inr (_, i') \<Rightarrow> skip_members_f f c (n - 1) i')))"
| "skip_elems_f 0 c n i = Inl JsNoFuel"
| "skip_elems_f (Suc f) c n i =
     (if \<not> (n > 0 \<and> it_valid c i) then Inr (True, i)
      else (case skip_value_f f c i of
          Inl e \<Rightarrow> Inl e
        | Inr (_, i') \<Rightarrow> skip_elems_f f c (n - 1) i'))"
| "skip_key_and_value_f 0 c i = Inl JsNoFuel"
| "skip_key_and_value_f (Suc f) c i = (if \<not> it_valid c (i + 1) then Inr (False, i + 1) else skip_value_f f c (i + 1))"

definition skip_fuel :: "jsmn \<Rightarrow> nat" where
  "skip_fuel c = 2 * js_nmb c + 3"

definition skip_value :: "jsmn \<Rightarrow> int \<Rightarrow> jsmn_fail + bool \<times> int" where
  "skip_value c i = skip_value_f (skip_fuel c) c i"

definition skip_key_and_value :: "jsmn \<Rightarrow> int \<Rightarrow> jsmn_fail + bool \<times> int" where
  "skip_key_and_value c i = skip_key_and_value_f (skip_fuel c) c i"

section \<open>Skipping ends\<close>

definition jsmn_wf :: "jsmn \<Rightarrow> bool" where
  "jsmn_wf c \<longleftrightarrow> js_nmb c \<le> length (js_tok c)"

lemma tok_at_valid: "jsmn_wf c \<Longrightarrow> it_valid c i \<Longrightarrow> tok_at c i = Some (js_tok c ! nat i)"
  by (auto simp: jsmn_wf_def it_valid_def tok_at_def)

text \<open>What is left in front of an iterator, and the results a skip may have.\<close>

definition it_left :: "jsmn \<Rightarrow> int \<Rightarrow> nat" where
  "it_left c i = nat (it_end c - i)"

definition skipped :: "jsmn \<Rightarrow> int \<Rightarrow> jsmn_fail + bool \<times> int \<Rightarrow> bool" where
  "skipped c i r \<longleftrightarrow> r = Inl JsAssert \<or> (\<exists>ok i'. r = Inr (ok, i') \<and> i \<le> i' \<and> i' \<le> max i (it_end c))"

lemma it_left_next: "it_valid c i \<Longrightarrow> it_left c (i + 1) < it_left c i"
  by (auto simp: it_left_def it_valid_def it_end_def)

lemma it_left_mono: "i \<le> i' \<Longrightarrow> it_left c i' \<le> it_left c i"
  by (auto simp: it_left_def)

lemma valid_end: "it_valid c i \<Longrightarrow> i + 1 \<le> it_end c"
  by (auto simp: it_valid_def it_end_def)

lemma skip_total:
  assumes wf: "jsmn_wf c"
  shows "0 \<le> i \<Longrightarrow> 2 * it_left c i + 1 \<le> f \<Longrightarrow> skipped c (if it_valid c i then i + 1 else i) (skip_value_f f c i)"
    "0 \<le> i \<Longrightarrow> 2 * it_left c i + 2 \<le> f \<Longrightarrow> skipped c i (skip_members_f f c n i)"
    "0 \<le> i \<Longrightarrow> 2 * it_left c i + 2 \<le> f \<Longrightarrow> skipped c i (skip_elems_f f c n i)"
    "0 \<le> i \<Longrightarrow> 2 * it_left c i \<le> f \<Longrightarrow> 1 \<le> f \<Longrightarrow> it_valid c i \<Longrightarrow> skipped c (i + 1) (skip_key_and_value_f f c i)"
proof (induction f arbitrary: i n)
  case 0
  { case 1 then show ?case by simp }
  { case 2 then show ?case by simp }
  { case 3 then show ?case by simp }
  { case 4 then show ?case by simp }
next
  case (Suc f)
  { case 1
    show ?case
    proof (cases "it_valid c i")
      case True
      note l = it_left_next [OF True]
      have m: "skipped c (i + 1) (skip_members_f f c k (i + 1))" "skipped c (i + 1) (skip_elems_f f c k (i + 1))" for k
        using Suc.IH(2,3) [of "i + 1" k] 1 l by auto
      have "skipped c (i + 1) (Inr (True, i + 1))" using valid_end [OF True] by (auto simp: skipped_def)
      with True m show ?thesis by (simp add: tok_at_valid [OF wf])
    qed (auto simp: skipped_def) }
  { case 2
    show ?case
    proof (cases "n > 0 \<and> it_valid c i \<and> tk_type (js_tok c ! nat i) = JSMN_STRING")
      case True
      have k: "skipped c (i + 1) (skip_key_and_value_f f c i)" using Suc.IH(4) [of i] 2 True by auto
      then consider "skip_key_and_value_f f c i = Inl JsAssert" | ok i' where "skip_key_and_value_f f c i = Inr (ok, i')" "i < i'" "i' \<le> max (i + 1) (it_end c)"
        by (auto simp: skipped_def)
      then show ?thesis
      proof cases
        case 1
        then show ?thesis using True by (simp add: tok_at_valid [OF wf] skipped_def)
      next
        case (2 ok i')
        have l: "it_left c i' < it_left c i" using it_left_next [of c i] it_left_mono [of "i + 1" i' c] 2 True by auto
        have "skipped c i' (skip_members_f f c (n - 1) i')" using Suc.IH(2) [of i' "n - 1"] \<open>2 * it_left c i + 2 \<le> Suc f\<close> \<open>0 \<le> i\<close> l 2 by auto
        then show ?thesis using True 2 valid_end [of c i] by (auto simp: tok_at_valid [OF wf] skipped_def)
      qed
    qed (auto simp: tok_at_valid [OF wf] skipped_def) }
  { case 3
    show ?case
    proof (cases "n > 0 \<and> it_valid c i")
      case True
      have k: "skipped c (i + 1) (skip_value_f f c i)" using Suc.IH(1) [of i] 3 True by auto
      then consider "skip_value_f f c i = Inl JsAssert" | ok i' where "skip_value_f f c i = Inr (ok, i')" "i < i'" "i' \<le> max (i + 1) (it_end c)"
        by (auto simp: skipped_def)
      then show ?thesis
      proof cases
        case 1
        then show ?thesis using True by (simp add: skipped_def)
      next
        case (2 ok i')
        have l: "it_left c i' < it_left c i" using it_left_next [of c i] it_left_mono [of "i + 1" i' c] 2 True by auto
        have "skipped c i' (skip_elems_f f c (n - 1) i')" using Suc.IH(3) [of i' "n - 1"] \<open>2 * it_left c i + 2 \<le> Suc f\<close> \<open>0 \<le> i\<close> l 2 by auto
        then show ?thesis using True 2 valid_end [of c i] by (auto simp: skipped_def)
      qed
    qed (auto simp: skipped_def) }
  { case 4
    show ?case
    proof (cases "it_valid c (i + 1)")
      case True
      have "skipped c (i + 1 + 1) (skip_value_f f c (i + 1))" using Suc.IH(1) [of "i + 1"] 4 True it_left_next [of c i] by auto
      then show ?thesis using True valid_end [OF True] by (auto simp: skipped_def)
    next
      case False
      then show ?thesis using 4 valid_end [of c i] by (auto simp: skipped_def)
    qed }
qed

end
