(* ===== verification/JsmnTree.thy ===== *)
theory JsmnTree
  imports Jsmn
begin

text \<open>
  The order in which JSMN documents its tokens: a value is its own token followed by those of its
  parts, the size of an object being the number of its keys and the size of an array the number of
  its elements. Skipping moves on by exactly these tokens.
\<close>

datatype jnode = JLeaf jsmntok | JArr jsmntok jnodes | JObj jsmntok jmembers
  and jnodes = JNil | JCons jnode jnodes
  and jmembers = JMNil | JMCons jsmntok jnode jmembers

primrec node_toks :: "jnode \<Rightarrow> jsmntok list" and nodes_toks :: "jnodes \<Rightarrow> jsmntok list" and members_toks :: "jmembers \<Rightarrow> jsmntok list" where
  "node_toks (JLeaf t) = [t]"
| "node_toks (JArr t es) = t # nodes_toks es"
| "node_toks (JObj t ms) = t # members_toks ms"
| "nodes_toks JNil = []"
| "nodes_toks (JCons v es) = node_toks v @ nodes_toks es"
| "members_toks JMNil = []"
| "members_toks (JMCons k v ms) = k # node_toks v @ members_toks ms"

primrec nodes_count :: "jnodes \<Rightarrow> nat" where
  "nodes_count JNil = 0"
| "nodes_count (JCons v es) = Suc (nodes_count es)"

primrec members_count :: "jmembers \<Rightarrow> nat" where
  "members_count JMNil = 0"
| "members_count (JMCons k v ms) = Suc (members_count ms)"

primrec node_wf :: "jnode \<Rightarrow> bool" and nodes_wf :: "jnodes \<Rightarrow> bool" and members_wf :: "jmembers \<Rightarrow> bool" where
  "node_wf (JLeaf t) \<longleftrightarrow> tk_type t = JSMN_STRING \<or> tk_type t = JSMN_PRIMITIVE"
| "node_wf (JArr t es) \<longleftrightarrow> tk_type t = JSMN_ARRAY \<and> tk_size t = int (nodes_count es) \<and> nodes_wf es"
| "node_wf (JObj t ms) \<longleftrightarrow> tk_type t = JSMN_OBJECT \<and> tk_size t = int (members_count ms) \<and> members_wf ms"
| "nodes_wf JNil \<longleftrightarrow> True"
| "nodes_wf (JCons v es) \<longleftrightarrow> node_wf v \<and> nodes_wf es"
| "members_wf JMNil \<longleftrightarrow> True"
| "members_wf (JMCons k v ms) \<longleftrightarrow> tk_type k = JSMN_STRING \<and> node_wf v \<and> members_wf ms"

text \<open>The tokens \<open>ts\<close> stand at index \<open>i\<close> of the array, within its used part.\<close>

definition toks_at :: "jsmn \<Rightarrow> int \<Rightarrow> jsmntok list \<Rightarrow> bool" where
  "toks_at c i ts \<longleftrightarrow> 0 \<le> i \<and> i + int (length ts) \<le> int (js_nmb c) \<and> jsmn_wf c \<and> take (length ts) (drop (nat i) (js_tok c)) = ts"

lemma toks_at_Nil [simp]: "toks_at c i [] \<longleftrightarrow> 0 \<le> i \<and> i \<le> int (js_nmb c) \<and> jsmn_wf c"
  by (auto simp: toks_at_def)

lemma toks_at_append: "toks_at c i (xs @ ys) \<longleftrightarrow> toks_at c i xs \<and> toks_at c (i + int (length xs)) ys"
proof (cases "0 \<le> i \<and> i + int (length (xs @ ys)) \<le> int (js_nmb c) \<and> jsmn_wf c")
  case True
  then have d: "drop (nat (i + int (length xs))) (js_tok c) = drop (length xs) (drop (nat i) (js_tok c))"
    by (simp add: nat_add_distrib ac_simps)
  have "length xs \<le> length (drop (nat i) (js_tok c))" using True by (simp add: jsmn_wf_def) linarith
  then have "take (length (xs @ ys)) (drop (nat i) (js_tok c)) = xs @ ys \<longleftrightarrow>
      take (length xs) (drop (nat i) (js_tok c)) = xs \<and> take (length ys) (drop (length xs) (drop (nat i) (js_tok c))) = ys"
    by (simp add: take_add del: drop_drop)
  with True d show ?thesis by (auto simp: toks_at_def)
next
  case False
  then show ?thesis by (auto simp: toks_at_def)
qed

lemma toks_at_Cons: "toks_at c i (t # ts) \<longleftrightarrow> it_valid c i \<and> tok_at c i = Some t \<and> toks_at c (i + 1) ts"
proof -
  have "toks_at c i [t] \<and> toks_at c (i + 1) ts \<longleftrightarrow> it_valid c i \<and> tok_at c i = Some t \<and> toks_at c (i + 1) ts"
  proof (cases "jsmn_wf c \<and> it_valid c i")
    case True
    then have "take 1 (drop (nat i) (js_tok c)) = [js_tok c ! nat i]"
      by (auto simp: jsmn_wf_def it_valid_def take_Suc_conv_app_nth hd_drop_conv_nth take_Suc)
    then show ?thesis using True tok_at_valid [of c i] by (auto simp: toks_at_def it_valid_def)
  next
    case False
    then show ?thesis by (auto simp: toks_at_def it_valid_def)
  qed
  then show ?thesis using toks_at_append [of c i "[t]" ts] by simp
qed

lemmas toks_at_simps = toks_at_append toks_at_Cons

lemma node_toks_Cons: "\<exists>t ts. node_toks v = t # ts" "0 < length (node_toks v)"
  by (cases v; simp)+

lemma toks_at_head: "toks_at c i (node_toks v) \<Longrightarrow> it_valid c i"
  using node_toks_Cons [of v] by (auto simp: toks_at_Cons)

text \<open>What a skip of the tokens \<open>ts\<close> from \<open>i\<close> on returns.\<close>

abbreviation skips :: "int \<Rightarrow> jsmntok list \<Rightarrow> jsmn_fail + bool \<times> int" where
  "skips i ts \<equiv> Inr (True, i + int (length ts))"

lemma skip_exact:
  shows "node_wf v \<Longrightarrow> toks_at c i (node_toks v) \<Longrightarrow> 2 * length (node_toks v) + 1 \<le> f \<Longrightarrow> skip_value_f f c i = skips i (node_toks v)"
    "nodes_wf es \<Longrightarrow> toks_at c i (nodes_toks es) \<Longrightarrow> 2 * length (nodes_toks es) + 2 \<le> f \<Longrightarrow>
       skip_elems_f f c (int (nodes_count es)) i = skips i (nodes_toks es)"
    "members_wf ms \<Longrightarrow> toks_at c i (members_toks ms) \<Longrightarrow> 2 * length (members_toks ms) + 2 \<le> f \<Longrightarrow>
       skip_members_f f c (int (members_count ms)) i = skips i (members_toks ms)"
proof (induction v and es and ms arbitrary: i f and i f and i f)
  case (JLeaf t)
  then obtain g where "f = Suc g" by (cases f) auto
  with JLeaf show ?case by (auto simp: toks_at_simps)
next
  case (JArr t es)
  then obtain g where f: "f = Suc g" by (cases f) auto
  with JArr.prems have "toks_at c (i + 1) (nodes_toks es)" by (simp add: toks_at_simps)
  with JArr.IH [of "i + 1" g] JArr.prems f show ?case by (simp add: toks_at_simps)
next
  case (JObj t ms)
  then obtain g where f: "f = Suc g" by (cases f) auto
  with JObj.prems have "toks_at c (i + 1) (members_toks ms)" by (simp add: toks_at_simps)
  with JObj.IH [of "i + 1" g] JObj.prems f show ?case by (simp add: toks_at_simps)
next
  case JNil
  then obtain g where "f = Suc g" by (cases f) auto
  then show ?case by simp
next
  case (JCons v es)
  then obtain g where f: "f = Suc g" by (cases f) auto
  have b: "2 * length (nodes_toks es) + 2 \<le> g"
    using JCons.prems(3) f node_toks_Cons(2) [of v] by (cases "length (node_toks v)") simp_all
  have "skip_value_f g c i = skips i (node_toks v)" using JCons.IH(1) [of i g] JCons.prems f by (simp add: toks_at_append)
  moreover have "skip_elems_f g c (int (nodes_count es)) (i + int (length (node_toks v))) = skips (i + int (length (node_toks v))) (nodes_toks es)"
    using JCons.IH(2) [of "i + int (length (node_toks v))" g] JCons.prems f b by (simp add: toks_at_append)
  moreover have "it_valid c i" using JCons.prems(2) toks_at_head [of c i v] by (simp add: toks_at_append)
  ultimately show ?case using f by simp
next
  case JMNil
  then obtain g where "f = Suc g" by (cases f) auto
  then show ?case by simp
next
  case (JMCons k v ms)
  then obtain g where f: "f = Suc g" by (cases f) auto
  then obtain h where g: "g = Suc h" using JMCons.prems by (cases g) auto
  have a: "toks_at c (i + 1) (node_toks v)" "toks_at c (i + 1 + int (length (node_toks v))) (members_toks ms)"
    "it_valid c i" "tok_at c i = Some k" using JMCons.prems(2) by (simp_all add: toks_at_simps)
  have "skip_value_f h c (i + 1) = skips (i + 1) (node_toks v)" using JMCons.IH(1) [OF _ a(1), of h] JMCons.prems f g by simp
  then have "skip_key_and_value_f g c i = skips (i + 1) (node_toks v)" using toks_at_head [OF a(1)] g by simp
  moreover have "skip_members_f g c (int (members_count ms)) (i + 1 + int (length (node_toks v))) = skips (i + 1 + int (length (node_toks v))) (members_toks ms)"
    using JMCons.IH(2) [OF _ a(2), of g] JMCons.prems f node_toks_Cons(2) [of v] by simp
  ultimately show ?case using f a JMCons.prems(1) by simp
qed

lemma toks_at_fuel: "toks_at c i ts \<Longrightarrow> 2 * length ts + 3 \<le> skip_fuel c"
  by (auto simp: toks_at_def skip_fuel_def)

lemma skip_value_node: "node_wf v \<Longrightarrow> toks_at c i (node_toks v) \<Longrightarrow> skip_value c i = skips i (node_toks v)"
  unfolding skip_value_def using toks_at_fuel by (intro skip_exact(1)) fastforce+

lemma skip_member: "node_wf v \<Longrightarrow> toks_at c i (k # node_toks v) \<Longrightarrow> skip_key_and_value c i = skips i (k # node_toks v)"
proof -
  assume v: "node_wf v" and t: "toks_at c i (k # node_toks v)"
  obtain f where f: "skip_fuel c = Suc f" by (auto simp: skip_fuel_def)
  from t have a: "toks_at c (i + 1) (node_toks v)" by (simp add: toks_at_Cons)
  have "skip_value_f f c (i + 1) = skips (i + 1) (node_toks v)" using toks_at_fuel [OF t] f by (intro skip_exact(1) v a) simp
  then show ?thesis using toks_at_head [OF a] f by (simp add: skip_key_and_value_def)
qed

end
