(* ===== verification/CliProcess.thy ===== *)
theory CliProcess
  imports CliOut CliLine CliParse JsmnTree
begin

text \<open>
  Dispatching commands to their handlers (cli/cmdline_process.cc, cli/cli.cc).

  A handler gets the parameters as strings, as they are in memory when it is called, and changes
  the state \<open>'s\<close> it writes to. Hooks are optional arguments. None stands for an access outside of a
  block or of the parameter array and for a failed assertion.
\<close>

section \<open>JSON commands\<close>

text \<open>A parameter points into the JSON text, is the empty string of the program, or is null.\<close>

datatype cptr = PNull | PEmpty | PAt nat

definition cptr_str :: "jsmn \<Rightarrow> cptr \<Rightarrow> string option" where
  "cptr_str c p = (case p of PNull \<Rightarrow> None | PEmpty \<Rightarrow> Some []
     | PAt i \<Rightarrow> map_option (\<lambda>m. c_str (drop i m)) (js_json c))"

definition cptr_of :: "nat option \<Rightarrow> cptr" where
  "cptr_of p = (case p of None \<Rightarrow> PNull | Some i \<Rightarrow> PAt i)"

type_synonym cli_pars = "(string option \<times> string option) list"
type_synonym 's proc_parm = "cli_pars \<Rightarrow> 's \<Rightarrow> int \<times> 's"

definition par_len :: nat where "par_len = 20"

text \<open>The members of a command; the error count is the number of null pointers stored.\<close>

fun take_members :: "nat \<Rightarrow> jsmn \<Rightarrow> int \<Rightarrow> (cptr \<times> cptr) list \<Rightarrow> (jsmn \<times> int \<times> (cptr \<times> cptr) list) option" where
  "take_members 0 c i ps = Some (c, i, ps)"
| "take_members (Suc n) c i ps =
     (if \<not> it_valid c i then Some (c, i, ps)
      else if \<not> length ps < par_len then None
      else do {
        t \<leftarrow> tok_at c i;
        (k, c1) \<leftarrow> get_value_in_place c t;
        t1 \<leftarrow> tok_at c1 (i + 1);
        (v, c2) \<leftarrow> get_value_in_place c1 t1;
        take_members n c2 (i + 2) (ps @ [(cptr_of k, cptr_of v)]) })"

type_synonym 's json_obj_hook = "(jsmn \<Rightarrow> int \<Rightarrow> 's \<Rightarrow> jsmn \<times> 's) option"

definition skip_kv :: "jsmn \<Rightarrow> int \<Rightarrow> int option" where
  "skip_kv c i = (case skip_key_and_value c i of Inl e \<Rightarrow> None | Inr (ok, i') \<Rightarrow> Some i')"

definition parse_and_process_jsmn :: "'s json_obj_hook \<Rightarrow> 's proc_parm \<Rightarrow> jsmn \<Rightarrow> int \<Rightarrow> 's \<Rightarrow> (jsmn \<times> int \<times> 's) option" where
  "parse_and_process_jsmn hook proc c i s = do {
     is_json \<leftarrow> keyIsEqual_typed c i (Some ''json'') JSMN_OBJECT;
     if is_json then do {
       let (c1, s1) = (case hook of None \<Rightarrow> (c, s) | Some h \<Rightarrow> h c (i + 1) s);
       i1 \<leftarrow> skip_kv c1 i;
       Some (c1, i1, s1) }
     else do {
       is_obj \<leftarrow> keyIsEqual_typed c i None JSMN_OBJECT;
       if is_obj then do {
         t \<leftarrow> tok_at c i;
         obj \<leftarrow> tok_at c (i + 1);
         (k, c1) \<leftarrow> get_value_in_place c t;
         (c2, i2, ps) \<leftarrow> take_members (nat (tk_size obj)) c1 (i + 2) [(cptr_of k, PEmpty)];
         Some (c2, i2, snd (proc (map (\<lambda>(k, v). (cptr_str c2 k, cptr_str c2 v)) ps) s)) }
       else do { i1 \<leftarrow> skip_kv c i; Some (c, i1, s) } } }"

fun json_loop :: "nat \<Rightarrow> 's json_obj_hook \<Rightarrow> 's proc_parm \<Rightarrow> jsmn \<Rightarrow> int \<Rightarrow> 's \<Rightarrow> 's option" where
  "json_loop 0 hook proc c i s = Some s"
| "json_loop (Suc n) hook proc c i s =
     (if \<not> it_valid c i then Some s
      else do { (c1, i1, s1) \<leftarrow> parse_and_process_jsmn hook proc c i s; json_loop n hook proc c1 i1 s1 })"

text \<open>The token array is 128 tokens of any content.\<close>

definition parse_and_process_json ::
  "jsmn_parser \<Rightarrow> jsmntok list \<Rightarrow> 's json_obj_hook \<Rightarrow> 's proc_parm \<Rightarrow> char list \<Rightarrow> 's \<Rightarrow> (bool \<times> 's) option" where
  "parse_and_process_json parse tok hook proc json s = do {
     c \<leftarrow> jsmn_new parse (Some json) tok;
     if \<not> jsmn_ok c then Some (False, s)
     else do {
       t \<leftarrow> tok_at c (it_begin c);
       s1 \<leftarrow> json_loop (nat (tk_size t)) hook proc c (it_begin c + 1) s;
       Some (True, s1) } }"

text \<open>\<open>root\<close> says whether the program is configured with a root object.\<close>

definition cli_process_json ::
  "'s sink \<Rightarrow> (nat \<Rightarrow> bool) \<Rightarrow> bool \<Rightarrow> (char list \<Rightarrow> bool) option \<Rightarrow> jsmn_parser \<Rightarrow> jsmntok list \<Rightarrow> 's uout_writer json_obj_hook \<Rightarrow>
     's uout_writer proc_parm \<Rightarrow> char list \<Rightarrow> 's uout_writer \<Rightarrow> 's uout_writer option" where
  "cli_process_json out alloc root json_hook parse tok hook proc json w =
     (if (case json_hook of None \<Rightarrow> False | Some h \<Rightarrow> h json) then Some w
      else do {
        w1 \<leftarrow> (if root then do {
                  (ok, w0) \<leftarrow> on_json (open_root_object out alloc (Some ''cli'')) w;
                  if ok then do {
                    (r, w') \<leftarrow> parse_and_process_json parse tok hook proc json w0;
                    map_option snd (on_json (\<lambda>b. map_sum id (Pair True) (close_root_object out alloc b)) w') }
                  else Some w0 }
                else map_option snd (parse_and_process_json parse tok hook proc json w));
        let w2 = (if so_tgt_test SO_TGT_CLI w1 then w1\<lparr>uw_json := snd (writeln_json out True (uw_json w1))\<rparr> else w1);
        Some (if so_tgt_test SO_TGT_WS w2 then w2\<lparr>uw_json := snd (write_json out True (uw_json w2))\<rparr> else w2) })"

section \<open>Command lines\<close>

text \<open>A handler is looked up under the first word.\<close>

definition cli_processParameters :: "(string \<Rightarrow> 's proc_parm option) option \<Rightarrow> cli_pars \<Rightarrow> 's \<Rightarrow> (int \<times> 's) option" where
  "cli_processParameters find_cb p s =
     (if \<not> length p > 0 then None
      else (case find_cb of
          None \<Rightarrow> Some (-1, s)
        | Some lookup \<Rightarrow>
            (case fst (hd p) of
               None \<Rightarrow> None
             | Some key \<Rightarrow> (case lookup key of None \<Rightarrow> Some (-1, s) | Some handler \<Rightarrow> Some (handler p s)))))"

definition pars_of :: "char list \<Rightarrow> clpar list \<Rightarrow> cli_pars" where
  "pars_of m ps = map (\<lambda>p. (Some (c_str (drop (par_key p) m)), map_option (\<lambda>v. c_str (drop v m)) (par_val p))) ps"

text \<open>
  The result has the texts passed to uoCb_publish_wsJson when configured with web sockets (None
  for a null pointer), and the message id. The password hook decides on the parameters and may write.
\<close>

definition cli_process_cmdline ::
  "'s sink \<Rightarrow> (nat \<Rightarrow> bool) \<Rightarrow> (cli_pars \<Rightarrow> 's uout_writer \<Rightarrow> bool \<times> 's uout_writer) option \<Rightarrow> bool \<Rightarrow>
     (u16 \<Rightarrow> 's uout_writer proc_parm) \<Rightarrow> char list \<Rightarrow> 's uout_writer \<Rightarrow> (string option list \<times> u16 \<times> 's uout_writer) option" where
  "cli_process_cmdline out alloc check ws proc line w = do {
     (n, m, ps, mid) \<leftarrow> cli_parseCommandline line (replicate par_len \<lparr>par_key = 0, par_val = None\<rparr>);
     if n < 0 then Some ([], mid, snd (cli_replyFailure out mid w))
     else if n = 0 then Some ([], mid, w)
     else do {
       let pars = pars_of m (take (nat n) ps);
       let (ok, w0) = (case check of None \<Rightarrow> (True, w) | Some h \<Rightarrow> h pars w);
       if \<not> ok then Some ([], mid, w0)
       else do {
         (opened, w1) \<leftarrow> root_open out alloc ''cli'' w0;
         if \<not> opened then Some ([], mid, w1)
         else do {
           w2 \<leftarrow> root_close out alloc mid (snd (proc mid pars w1));
           Some (if ws \<and> so_tgt_test SO_TGT_WS w2 then [map_option c_str (jb_buf (uw_json w2))] else [], mid, w2) } } } }"

text \<open>
  One turn of the interactive console, for the line that get_commandline returned and the flag
  \<open>ready\<close>: \<open>json\<close> and \<open>cmd\<close> are cli_process_json and cli_process_cmdline with the hooks of the program,
  \<open>putlf\<close> is io_putlf on the console.
\<close>

definition cli_loop ::
  "(char list \<Rightarrow> 's uout_writer \<Rightarrow> 's uout_writer option) \<Rightarrow> (char list \<Rightarrow> 's uout_writer \<Rightarrow> (u16 \<times> 's uout_writer) option) \<Rightarrow>
     's sink \<Rightarrow> ('s \<Rightarrow> 's) \<Rightarrow> u16 \<Rightarrow> string option \<Rightarrow> bool \<Rightarrow> 's \<Rightarrow> (bool \<times> u16 \<times> 's) option" where
  "cli_loop json cmd out putlf msgid line ready s =
     (case line of
        Some l \<Rightarrow>
          if l \<noteq> [] \<and> hd l = CHR ''{'' then do {
            w \<leftarrow> uout_new (SO_TGT_CLI OR SO_TGT_FLAG_JSON) s;
            w1 \<leftarrow> json (l @ [NUL]) w;
            Some (ready, msgid, jb_snk (uw_json w1)) }
          else do {
            w \<leftarrow> uout_new (SO_TGT_CLI OR SO_TGT_FLAG_TXT) (putlf s);
            (mid, w1) \<leftarrow> cmd (l @ [NUL]) w;
            Some (ready, mid, jb_snk (uw_json (cli_msg_ready out w1))) }
      | None \<Rightarrow>
          if ready then Some (ready, msgid, s)
          else do {
            w \<leftarrow> uout_new (SO_TGT_CLI OR SO_TGT_FLAG_TXT) s;
            Some (True, msgid, jb_snk (uw_json (cli_msg_ready out w))) })"

definition asc2bool :: "string option \<Rightarrow> int" where
  "asc2bool s = (case s of
     None \<Rightarrow> 1
   | Some t \<Rightarrow> (case t of [] \<Rightarrow> -1 | c # _ \<Rightarrow> if c = CHR ''0'' then 0 else if c = CHR ''1'' then 1 else -1))"

end
