(* ===== verification/CliDispatch.thy ===== *)
theory CliDispatch
  imports CliProcess
begin

text \<open>
  What dispatching does with a well-formed text. The text is terminated in place behind each token
  that was handed out; since the tokens are apart from each other, every parameter still reads as in the source
  text when the handler is called.
\<close>

section \<open>Texts terminated in place\<close>

definition tok_text :: "char list \<Rightarrow> jsmntok \<Rightarrow> string" where
  "tok_text m t = take (nat (tk_end t) - nat (tk_start t)) (drop (nat (tk_start t)) m)"

definition leaf :: "jsmntok \<Rightarrow> bool" where
  "leaf t \<longleftrightarrow> tk_type t = JSMN_STRING \<or> tk_type t = JSMN_PRIMITIVE"

text \<open>Tokens in the order of the text, each with a character behind it that belongs to none.\<close>

fun spaced :: "char list \<Rightarrow> jsmntok list \<Rightarrow> bool" where
  "spaced m [] \<longleftrightarrow> True"
| "spaced m (t # ts) \<longleftrightarrow> 0 \<le> tk_start t \<and> tk_start t \<le> tk_end t \<and> nat (tk_end t) < length m \<and> no_nul (tok_text m t) \<and>
     (\<forall>u \<in> set ts. tk_end t < tk_start u) \<and> spaced m ts"

definition ends :: "jsmntok list \<Rightarrow> int set" where
  "ends ts = tk_end ` set ts"

definition terminated :: "int set \<Rightarrow> char list \<Rightarrow> char list" where
  "terminated E m = map (\<lambda>i. if int i \<in> E then NUL else m ! i) [0..<length m]"

abbreviation con :: "jsmn \<Rightarrow> char list \<Rightarrow> int set \<Rightarrow> jsmn" where
  "con c m E \<equiv> c\<lparr>js_json := Some (terminated E m)\<rparr>"

lemma ends_simps [simp]: "ends [] = {}" "ends (t # ts) = insert (tk_end t) (ends ts)" "ends (ts @ us) = ends ts \<union> ends us"
  by (auto simp: ends_def)

lemma terminated_length [simp]: "length (terminated E m) = length m"
  by (simp add: terminated_def)

lemma terminated_nth: "i < length m \<Longrightarrow> terminated E m ! i = (if int i \<in> E then NUL else m ! i)"
  by (simp add: terminated_def)

lemma terminated_empty [simp]: "terminated {} m = m"
  by (rule nth_equalityI) (simp_all add: terminated_nth)

lemma terminated_insert: "0 \<le> e \<Longrightarrow> nat e < length m \<Longrightarrow> (terminated E m)[nat e := NUL] = terminated (insert e E) m"
  by (rule nth_equalityI) (auto simp: terminated_nth nth_list_update)

lemma con_simps [simp]: "it_valid (c\<lparr>js_json := x\<rparr>) i = it_valid c i" "tok_at (c\<lparr>js_json := x\<rparr>) i = tok_at c i"
  "toks_at (c\<lparr>js_json := x\<rparr>) i ts = toks_at c i ts"
  by (simp_all add: it_valid_def tok_at_def toks_at_def jsmn_wf_def)

lemma terminated_part:
  assumes "s + n \<le> length m" "\<forall>e \<in> E. \<not> (int s \<le> e \<and> e < int (s + n))"
  shows "take n (drop s (terminated E m)) = take n (drop s m)"
proof (rule nth_equalityI)
  fix i assume "i < length (take n (drop s (terminated E m)))"
  then have "i < n" "s + i < length m" using assms(1) by auto
  then show "take n (drop s (terminated E m)) ! i = take n (drop s m) ! i"
    using assms(2) by (auto simp: terminated_nth)
qed simp

lemma spaced_bounds:
  "spaced m ts \<Longrightarrow> t \<in> set ts \<Longrightarrow> 0 \<le> tk_start t \<and> tk_start t \<le> tk_end t \<and> nat (tk_end t) < length m \<and> no_nul (tok_text m t)"
  by (induction ts) auto

lemma spaced_apart: "spaced m ts \<Longrightarrow> t \<in> set ts \<Longrightarrow> u \<in> set ts \<Longrightarrow> \<not> (tk_start t \<le> tk_end u \<and> tk_end u < tk_end t)"
proof (induction ts)
  case (Cons a ts)
  then show ?case using spaced_bounds [of m ts t] spaced_bounds [of m ts u] by fastforce
qed simp

lemma spaced_append: "spaced m (ts @ us) \<longleftrightarrow> spaced m ts \<and> spaced m us \<and> (\<forall>t \<in> set ts. \<forall>u \<in> set us. tk_end t < tk_start u)"
  by (induction ts) auto

lemma text_read:
  assumes t: "0 \<le> tk_start t" "tk_start t \<le> tk_end t" "nat (tk_end t) < length m" "no_nul (tok_text m t)"
    and E: "tk_end t \<in> E" "\<forall>e \<in> E. \<not> (tk_start t \<le> e \<and> e < tk_end t)"
  shows "c_str (drop (nat (tk_start t)) (terminated E m)) = tok_text m t"
proof -
  let ?s = "nat (tk_start t)" let ?n = "nat (tk_end t) - nat (tk_start t)"
  have n: "?s + ?n = nat (tk_end t)" using t by simp
  have "take ?n (drop ?s (terminated E m)) = tok_text m t"
    using terminated_part [of ?s ?n m E] t E n unfolding tok_text_def by auto
  moreover have "drop ?n (drop ?s (terminated E m)) = NUL # drop (Suc (nat (tk_end t))) (terminated E m)"
    using Cons_nth_drop_Suc [of "nat (tk_end t)" "terminated E m"] t E(1) n by (simp add: terminated_nth add.commute)
  ultimately have "drop ?s (terminated E m) = tok_text m t @ NUL # drop (Suc (nat (tk_end t))) (terminated E m)"
    using append_take_drop_id [of ?n "drop ?s (terminated E m)"] by metis
  then show ?thesis using t(4) by (simp add: c_str_append_nul)
qed

lemma in_place:
  "leaf t \<Longrightarrow> 0 \<le> tk_start t \<Longrightarrow> tk_start t \<le> tk_end t \<Longrightarrow> nat (tk_end t) < length m \<Longrightarrow>
    get_value_in_place (con c m E) t = Some (Some (nat (tk_start t)), con c m (insert (tk_end t) E))"
  by (auto simp: get_value_in_place_def leaf_def terminated_insert)

lemma json_eq_text:
  assumes "spaced m [t]" "\<forall>e \<in> E. e < tk_start t" "no_nul s" "int (length s) = tk_end t - tk_start t"
  shows "json_eq (con c m E) t s (length s) = Some (tok_text m t = s)"
proof -
  have n: "length s = nat (tk_end t) - nat (tk_start t)" "nat (tk_start t) < length m" "0 \<le> tk_start t" using assms by auto
  have "take (length s) (drop (nat (tk_start t)) (terminated E m)) = tok_text m t"
    unfolding tok_text_def n(1) using assms n by (intro terminated_part) auto
  then show ?thesis using n assms by (auto simp: json_eq_def strneq_def c_str_no_nul)
qed

lemma tok_text_length: "spaced m [t] \<Longrightarrow> int (length (tok_text m t)) = tk_end t - tk_start t"
  by (auto simp: tok_text_def)

lemma keyIsEqual_text:
  assumes "spaced m [t]" "\<forall>e \<in> E. e < tk_start t" "no_nul s" "tok_at c i = Some t" "tk_type t = JSMN_STRING"
  shows "keyIsEqual (con c m E) i (Some s) = Some (tok_text m t = s)"
  using assms json_eq_text [OF assms(1,2,3), of c] tok_text_length [OF assms(1)] by (auto simp: keyIsEqual_def)

section \<open>The items of a root object\<close>

datatype jitem = Cmd jsmntok jsmntok "(jsmntok \<times> jsmntok) list" | Other jsmntok jnode

definition kv_toks :: "(jsmntok \<times> jsmntok) list \<Rightarrow> jsmntok list" where
  "kv_toks kvs = concat (map (\<lambda>(k, v). [k, v]) kvs)"

fun item_toks :: "jitem \<Rightarrow> jsmntok list" where
  "item_toks (Cmd k obj kvs) = k # obj # kv_toks kvs"
| "item_toks (Other k v) = k # node_toks v"

fun item_ok :: "char list \<Rightarrow> jitem \<Rightarrow> bool" where
  "item_ok m (Cmd k obj kvs) \<longleftrightarrow> tk_type k = JSMN_STRING \<and> tok_text m k \<noteq> ''json'' \<and> tk_type obj = JSMN_OBJECT \<and>
     tk_size obj = int (length kvs) \<and> (\<forall>(k, v) \<in> set kvs. leaf k \<and> leaf v)"
| "item_ok m (Other k v) \<longleftrightarrow> tk_type k = JSMN_STRING \<and> node_wf v \<and>
     (tk_type (hd (node_toks v)) = JSMN_OBJECT \<longrightarrow> tok_text m k = ''json'')"

fun item_cmds :: "char list \<Rightarrow> jitem \<Rightarrow> cli_pars list" where
  "item_cmds m (Cmd k obj kvs) = [(Some (tok_text m k), Some []) # map (\<lambda>(k, v). (Some (tok_text m k), Some (tok_text m v))) kvs]"
| "item_cmds m (Other k v) = []"

fun item_small :: "jitem \<Rightarrow> bool" where
  "item_small (Cmd k obj kvs) \<longleftrightarrow> length kvs < par_len"
| "item_small (Other k v) \<longleftrightarrow> True"

definition leaves :: "jsmntok list \<Rightarrow> jsmntok list" where
  "leaves ts = filter leaf ts"

lemma leaves_simps [simp]: "leaves [] = []" "leaves (ts @ us) = leaves ts @ leaves us"
  "leaf t \<Longrightarrow> leaves (t # ts) = t # leaves ts" "\<not> leaf t \<Longrightarrow> leaves (t # ts) = leaves ts"
  by (simp_all add: leaves_def)

lemma leaves_id: "\<forall>t \<in> set ts. leaf t \<Longrightarrow> leaves ts = ts"
  by (simp add: leaves_def)

lemma kv_toks_simps [simp]: "kv_toks [] = []" "kv_toks ((k, v) # kvs) = k # v # kv_toks kvs"
  by (simp_all add: kv_toks_def)

lemma kv_toks_length [simp]: "length (kv_toks kvs) = 2 * length kvs"
  by (induction kvs) auto

lemma kv_toks_set: "(k, v) \<in> set kvs \<Longrightarrow> k \<in> set (kv_toks kvs) \<and> v \<in> set (kv_toks kvs)"
  by (induction kvs) auto

lemma kv_toks_leaf: "\<forall>(k, v) \<in> set kvs. leaf k \<and> leaf v \<Longrightarrow> leaves (kv_toks kvs) = kv_toks kvs"
  by (induction kvs) auto

definition par_ptrs :: "(jsmntok \<times> jsmntok) list \<Rightarrow> (cptr \<times> cptr) list" where
  "par_ptrs kvs = map (\<lambda>(k, v). (PAt (nat (tk_start k)), PAt (nat (tk_start v)))) kvs"

lemma take_members_ok:
  assumes "toks_at c i (kv_toks kvs)" "spaced m (kv_toks kvs)" "\<forall>(k, v) \<in> set kvs. leaf k \<and> leaf v"
  shows "take_members (length kvs) (con c m E) i ps =
    (if length ps + length kvs \<le> par_len then Some (con c m (E \<union> ends (kv_toks kvs)), i + 2 * int (length kvs), ps @ par_ptrs kvs)
     else if length kvs = 0 then Some (con c m E, i, ps) else None)"
  using assms
proof (induction kvs arbitrary: E i ps)
  case (Cons kv kvs)
  obtain k v where kv: "kv = (k, v)" by (cases kv)
  have t: "it_valid c i" "tok_at c i = Some k" "tok_at c (i + 1) = Some v" "toks_at c (i + 2) (kv_toks kvs)"
    using Cons.prems(1) kv by (simp_all add: toks_at_Cons add.assoc)
  have p: "get_value_in_place (con c m E) k = Some (Some (nat (tk_start k)), con c m (insert (tk_end k) E))" for E
    using Cons.prems(2,3) kv by (intro in_place) auto
  have q: "get_value_in_place (con c m E) v = Some (Some (nat (tk_start v)), con c m (insert (tk_end v) E))" for E
    using Cons.prems(2,3) kv by (intro in_place) auto
  have s: "spaced m (kv_toks kvs)" "\<forall>(k, v) \<in> set kvs. leaf k \<and> leaf v" using Cons.prems kv by auto
  note ih = Cons.IH [OF t(4) s]
  show ?case using t(1-3) kv by (simp add: p q ih cptr_of_def par_ptrs_def algebra_simps insert_commute)
qed (simp add: par_ptrs_def)

text \<open>A parameter reads as its token in the source text.\<close>

lemma par_read_ok:
  assumes "spaced m ts" "t \<in> set ts" "\<forall>e \<in> E. \<forall>u \<in> set ts. e < tk_start u"
  shows "cptr_str (con c m (E \<union> ends ts)) (PAt (nat (tk_start t))) = Some (tok_text m t)"
proof -
  note b = spaced_bounds [OF assms(1,2)]
  have "c_str (drop (nat (tk_start t)) (terminated (E \<union> ends ts) m)) = tok_text m t"
    using b assms spaced_apart [OF assms(1,2)] by (intro text_read) (fastforce simp: ends_def)+
  then show ?thesis by (simp add: cptr_str_def)
qed

lemma spaced_single: "spaced m (t # ts) \<Longrightarrow> spaced m [t]"
  by simp

lemma command_step:
  assumes t: "toks_at c i (item_toks (Cmd k obj kvs))" and ok: "item_ok m (Cmd k obj kvs)"
    and sp: "spaced m (leaves (item_toks (Cmd k obj kvs)))" and E: "\<forall>e \<in> E. \<forall>u \<in> set (leaves (item_toks (Cmd k obj kvs))). e < tk_start u"
  shows "parse_and_process_jsmn None proc (con c m E) i s =
    (if length kvs < par_len
     then Some (con c m (E \<union> ends (leaves (item_toks (Cmd k obj kvs)))), i + int (length (item_toks (Cmd k obj kvs))),
            snd (proc (hd (item_cmds m (Cmd k obj kvs))) s))
     else None)"
proof -
  have lf: "leaf k" "\<not> leaf obj" using ok by (simp_all add: leaf_def)
  have lv: "leaves (item_toks (Cmd k obj kvs)) = k # kv_toks kvs" using ok lf kv_toks_leaf [of kvs] by simp
  have a: "tok_at c i = Some k" "tok_at c (i + 1) = Some obj" "toks_at c (i + 2) (kv_toks kvs)"
    using t by (simp_all add: toks_at_Cons add.assoc)
  have sk: "spaced m (k # kv_toks kvs)" using sp lv by simp
  have eq: "keyIsEqual (con c m E) i (Some ''json'') = Some False"
    using keyIsEqual_text [OF spaced_single [OF sk], of E "''json''" c i] E lv a ok by simp
  have p: "get_value_in_place (con c m E) k = Some (Some (nat (tk_start k)), con c m (insert (tk_end k) E))"
    using sk lf by (intro in_place) auto
  have tm: "take_members (length kvs) (con c m (insert (tk_end k) E)) (i + 2) [(PAt (nat (tk_start k)), PEmpty)] =
      (if length kvs < par_len then Some (con c m (E \<union> ends (k # kv_toks kvs)), i + 2 + 2 * int (length kvs),
          (PAt (nat (tk_start k)), PEmpty) # par_ptrs kvs) else None)"
    using take_members_ok [OF a(3), of m "insert (tk_end k) E" "[(PAt (nat (tk_start k)), PEmpty)]"] sk ok
    by (auto simp: par_len_def)
  let ?c = "con c m (E \<union> ends (k # kv_toks kvs))"
  have bf: "\<forall>e \<in> E. \<forall>u \<in> set (k # kv_toks kvs). e < tk_start u" using E lv by simp
  note rd = par_read_ok [OF sk _ bf, of _ c]
  have "map (\<lambda>(k', v). (cptr_str ?c k', cptr_str ?c v)) (par_ptrs kvs) = map (\<lambda>(k, v). (Some (tok_text m k), Some (tok_text m v))) kvs"
    unfolding par_ptrs_def map_map
  proof (rule map_cong [OF refl])
    fix kv assume "kv \<in> set kvs"
    moreover obtain k' v' where "kv = (k', v')" by (cases kv)
    ultimately show "((\<lambda>(k', v). (cptr_str ?c k', cptr_str ?c v)) \<circ> (\<lambda>(k, v). (PAt (nat (tk_start k)), PAt (nat (tk_start v))))) kv =
        (\<lambda>(k, v). (Some (tok_text m k), Some (tok_text m v))) kv"
      using kv_toks_set [of k' v' kvs] rd [of k'] rd [of v'] by simp
  qed
  then have "map (\<lambda>(k', v). (cptr_str ?c k', cptr_str ?c v)) ((PAt (nat (tk_start k)), PEmpty) # par_ptrs kvs) = hd (item_cmds m (Cmd k obj kvs))"
    using rd [of k] by (simp add: cptr_str_def [of _ PEmpty])
  then show ?thesis unfolding lv using a ok eq
    by (simp add: parse_and_process_jsmn_def keyIsEqual_typed_def p tm cptr_of_def algebra_simps)
qed

lemma skip_kv_con [simp]: "skip_kv (con c m E) i = skip_kv c i"
proof -
  have "skip_value_f f (con c m E) i = skip_value_f f c i" "skip_members_f f (con c m E) n i = skip_members_f f c n i"
    "skip_elems_f f (con c m E) n i = skip_elems_f f c n i" "skip_key_and_value_f f (con c m E) i = skip_key_and_value_f f c i" for f n i
    by (induction f arbitrary: n i) (simp_all split: option.splits sum.splits)
  then show ?thesis by (simp add: skip_kv_def skip_key_and_value_def skip_fuel_def)
qed

lemma other_step:
  assumes t: "toks_at c i (item_toks (Other k v))" and ok: "item_ok m (Other k v)"
    and sp: "spaced m (leaves (item_toks (Other k v)))" and E: "\<forall>e \<in> E. \<forall>u \<in> set (leaves (item_toks (Other k v))). e < tk_start u"
  shows "parse_and_process_jsmn None proc (con c m E) i s = Some (con c m E, i + int (length (item_toks (Other k v))), s)"
proof -
  obtain h ts where h: "node_toks v = h # ts" using node_toks_Cons by blast
  have a: "tok_at c i = Some k" "tok_at c (i + 1) = Some h" using t h by (simp_all add: toks_at_Cons)
  have lf: "leaf k" using ok by (simp add: leaf_def)
  have eq: "keyIsEqual (con c m E) i (Some ''json'') = Some (tok_text m k = ''json'')"
    using keyIsEqual_text [OF spaced_single [of m k "leaves (node_toks v)"], of E "''json''" c i] sp E lf a ok by simp
  have "skip_kv c i = Some (i + int (length (k # node_toks v)))"
    using skip_member [of v c i k] ok t by (simp add: skip_kv_def)
  then show ?thesis using a ok eq h by (auto simp: parse_and_process_jsmn_def keyIsEqual_typed_def Let_def)
qed

definition items_toks :: "jitem list \<Rightarrow> jsmntok list" where
  "items_toks its = concat (map item_toks its)"

definition commands :: "char list \<Rightarrow> jitem list \<Rightarrow> cli_pars list" where
  "commands m its = concat (map (item_cmds m) its)"

lemma item_toks_Cons: "\<exists>k ts. item_toks it = k # ts"
  by (cases it) simp_all

lemma json_loop_items:
  assumes "toks_at c i (items_toks its)" "\<forall>it \<in> set its. item_ok m it \<and> item_small it" "spaced m (leaves (items_toks its))"
    "\<forall>e \<in> E. \<forall>u \<in> set (leaves (items_toks its)). e < tk_start u"
  shows "json_loop (length its) None proc (con c m E) i s = Some (fold (\<lambda>p s. snd (proc p s)) (commands m its) s)"
  using assms
proof (induction its arbitrary: i E s)
  case Nil
  then show ?case by (simp add: commands_def)
next
  case (Cons it its)
  have ts: "items_toks (it # its) = item_toks it @ items_toks its" by (simp add: items_toks_def)
  have t: "toks_at c i (item_toks it)" "toks_at c (i + int (length (item_toks it))) (items_toks its)"
    using Cons.prems(1) by (simp_all add: ts toks_at_append)
  have sp: "spaced m (leaves (item_toks it))" "spaced m (leaves (items_toks its))"
    "\<forall>t \<in> set (leaves (item_toks it)). \<forall>u \<in> set (leaves (items_toks its)). tk_end t < tk_start u"
    using Cons.prems(3) by (simp_all add: ts spaced_append)
  have E: "\<forall>e \<in> E. \<forall>u \<in> set (leaves (item_toks it)). e < tk_start u" "\<forall>e \<in> E. \<forall>u \<in> set (leaves (items_toks its)). e < tk_start u"
    using Cons.prems(4) by (simp_all add: ts)
  have ok: "item_ok m it" "item_small it" "\<forall>it \<in> set its. item_ok m it \<and> item_small it" using Cons.prems(2) by simp_all
  have v: "it_valid c i" using t(1) item_toks_Cons [of it] by (auto simp: toks_at_Cons)
  show ?case
  proof (cases it)
    case it: (Cmd k obj kvs)
    let ?E = "E \<union> ends (leaves (item_toks it))"
    have "\<forall>e \<in> ?E. \<forall>u \<in> set (leaves (items_toks its)). e < tk_start u" using E(2) sp(3) by (auto simp: ends_def)
    note ih = Cons.IH [OF t(2) ok(3) sp(2) this]
    have "parse_and_process_jsmn None proc (con c m E) i s = Some (con c m ?E, i + int (length (item_toks it)), snd (proc (hd (item_cmds m it)) s))"
      using command_step [of c i k obj kvs m E proc s] t(1) ok sp(1) E(1) unfolding it by simp
    with ih v show ?thesis by (simp add: commands_def it)
  next
    case it: (Other k v)
    have "parse_and_process_jsmn None proc (con c m E) i s = Some (con c m E, i + int (length (item_toks it)), s)"
      using other_step [of c i k v m E proc s] t(1) ok sp(1) E(1) unfolding it by simp
    with Cons.IH [OF t(2) ok(3) sp(2) E(2)] \<open>it_valid c i\<close> show ?thesis by (simp add: commands_def it)
  qed
qed

end
