(* ===== verification/CliDispatchProps.thy ===== *)
theory CliDispatchProps
  imports CliDispatch
begin

text \<open>The properties of the JSMN iterator and of command dispatching.\<close>

section \<open>The iterator\<close>

text \<open>Skipping a value returns for every token array, malformed ones included, unless a key that is no string
  fails the assertion: it moves on by at least a token, never past the end of the tokens, and stays when it is at the end.\<close>

lemma skip_value_returns:
  assumes "js_nmb c \<le> length (js_tok c)" "0 \<le> i"
  shows "skip_value c i = Inl JsAssert \<or>
    (\<exists>ok i'. skip_value c i = Inr (ok, i') \<and> (if it_valid c i then i < i' \<and> i' \<le> it_end c else \<not> ok \<and> i' = i))"
proof (cases "it_valid c i")
  case True
  have "2 * it_left c i + 1 \<le> skip_fuel c" using assms(2) by (simp add: it_left_def it_end_def skip_fuel_def)
  from skip_total(1) [OF _ assms(2) this] assms(1) True valid_end [OF True]
  show ?thesis by (auto simp: skipped_def jsmn_wf_def skip_value_def)
next
  case False
  then show ?thesis by (auto simp: skip_value_def skip_fuel_def numeral_3_eq_3)
qed

lemma skip_value_returns_witness:
  "let c = \<lparr>js_json = None, js_tok = [\<lparr>tk_type = JSMN_ARRAY, tk_start = 0, tk_end = 9, tk_size = 5\<rparr>], js_nmb = 1\<rparr> in
   skip_value c 0 = Inl JsAssert \<or> (\<exists>ok i'. skip_value c 0 = Inr (ok, i') \<and> 0 < i' \<and> i' \<le> it_end c)"
  using skip_value_returns [of "\<lparr>js_json = None, js_tok = [\<lparr>tk_type = JSMN_ARRAY, tk_start = 0, tk_end = 9, tk_size = 5\<rparr>], js_nmb = 1\<rparr>" 0]
  by (simp add: it_valid_def)

text \<open>On the tokens of a value as JSMN documents them, skipping a key and its value moves on by exactly
  these tokens, whatever is in front of and behind them.\<close>

lemma skip_key_and_value_exact:
  assumes "node_wf v" "js_tok c = pre @ k # node_toks v @ post" "length (pre @ k # node_toks v) \<le> js_nmb c" "js_nmb c \<le> length (js_tok c)"
  shows "skip_key_and_value c (int (length pre)) = Inr (True, int (length (pre @ k # node_toks v)))"
proof -
  have "toks_at c (int (length pre)) (k # node_toks v)" using assms by (simp add: toks_at_def jsmn_wf_def)
  from skip_member [OF assms(1) this] show ?thesis by simp
qed

definition tok :: "jsmntype \<Rightarrow> int \<Rightarrow> int \<Rightarrow> int \<Rightarrow> jsmntok" where
  "tok ty s e n = \<lparr>tk_type = ty, tk_start = s, tk_end = e, tk_size = n\<rparr>"

lemma skip_key_and_value_exact_witness:
  "skip_key_and_value \<lparr>js_json = None, js_tok = [tok JSMN_OBJECT 0 20 1, tok JSMN_STRING 2 3 1, tok JSMN_ARRAY 5 10 2,
     tok JSMN_PRIMITIVE 6 7 0, tok JSMN_PRIMITIVE 8 9 0], js_nmb = 5\<rparr> 1 = Inr (True, 5)"
  using skip_key_and_value_exact [of "JArr (tok JSMN_ARRAY 5 10 2) (JCons (JLeaf (tok JSMN_PRIMITIVE 6 7 0)) (JCons (JLeaf (tok JSMN_PRIMITIVE 8 9 0)) JNil))"
      "\<lparr>js_json = None, js_tok = [tok JSMN_OBJECT 0 20 1, tok JSMN_STRING 2 3 1, tok JSMN_ARRAY 5 10 2,
     tok JSMN_PRIMITIVE 6 7 0, tok JSMN_PRIMITIVE 8 9 0], js_nmb = 5\<rparr>" "[tok JSMN_OBJECT 0 20 1]" "tok JSMN_STRING 2 3 1" "[]"]
  by (simp add: tok_def)

text \<open>The tests for the literals compare with the word null: within a text, the test for false never
  succeeds, and the test for true succeeds on null and only there.\<close>

lemma value_equals_literals:
  assumes "js_json c = Some m" "tok_at c i = Some t" "0 \<le> tk_start t" "tk_start t \<le> tk_end t" "nat (tk_end t) < length m"
    "tk_end t < 2 ^ 32" "no_nul (tok_text m t)"
  shows "value_equals_false c i = Some False \<and> value_equals_true c i = value_equals_null c i \<and>
    value_equals_null c i = Some (tk_type t = JSMN_PRIMITIVE \<and> tok_text m t = ''null'')"
proof -
  have "uint (word_of_int (tk_end t - tk_start t) :: u32) = tk_end t - tk_start t"
    unfolding uint_word_of_int using assms(3,4,6) by (intro mod_pos_pos_trivial) simp_all
  then have l: "tk_len t = nat (tk_end t) - nat (tk_start t)"
    unfolding tk_len_def nat_uint_eq [symmetric] using assms(3,4) by (simp only: nat_diff_distrib')
  have e: "json_eq c t s (tk_len t) = Some (tok_text m t = c_str (take (tk_len t) s))" for s
    using assms by (auto simp: json_eq_def strneq_def l tok_text_def [symmetric] c_str_no_nul)
  have len: "length (tok_text m t) = tk_len t" using assms l by (simp add: tok_text_def)
  show ?thesis using assms(2) e [of "''null''"] len
    by (auto simp: value_equals_false_def value_equals_true_def value_equals_null_def c_str_def)
qed

lemma value_equals_literals_witness:
  "value_equals_true \<lparr>js_json = Some (''{a:true}'' @ [NUL]), js_tok = [tok JSMN_PRIMITIVE 3 7 0], js_nmb = 1\<rparr> 0 = Some False"
  using value_equals_literals [of "\<lparr>js_json = Some (''{a:true}'' @ [NUL]), js_tok = [tok JSMN_PRIMITIVE 3 7 0], js_nmb = 1\<rparr>"
      "''{a:true}'' @ [NUL]" 0 "tok JSMN_PRIMITIVE 3 7 0"]
  by (simp add: tok_at_def tok_def tok_text_def)

section \<open>Dispatching\<close>

text \<open>The parser found the items in the text.\<close>

definition parsed_items :: "jsmn_parser \<Rightarrow> jsmntok list \<Rightarrow> char list \<Rightarrow> jitem list \<Rightarrow> bool" where
  "parsed_items parse tk m its \<longleftrightarrow> (\<exists>root unused. parse (c_str m) tk = (int (Suc (length (items_toks its))), root # items_toks its @ unused) \<and>
     tk_type root = JSMN_OBJECT \<and> tk_size root = int (length its)) \<and>
     spaced m (leaves (items_toks its)) \<and> (\<forall>it \<in> set its. item_ok m it)"

lemma parsed_json:
  assumes "parsed_items parse tk m its"
  obtains c where "jsmn_new parse (Some m) tk = Some (con c m {})" "jsmn_ok (con c m {})" "toks_at c 1 (items_toks its)"
    "\<exists>t. tok_at c 0 = Some t \<and> tk_size t = int (length its)"
proof -
  obtain root unused where r: "parse (c_str m) tk = (int (Suc (length (items_toks its))), root # items_toks its @ unused)"
    "tk_type root = JSMN_OBJECT" "tk_size root = int (length its)" using assms by (auto simp: parsed_items_def)
  let ?c = "\<lparr>js_json = Some m, js_tok = root # items_toks its @ unused, js_nmb = Suc (length (items_toks its))\<rparr>"
  have "jsmn_new parse (Some m) tk = Some (con ?c m {})" using r by (simp add: jsmn_new_def do_parse_def nat_add_distrib)
  moreover have "jsmn_ok (con ?c m {})" by (simp add: jsmn_ok_def)
  moreover have "toks_at ?c 1 (items_toks its)" by (simp add: toks_at_def jsmn_wf_def)
  moreover have "tok_at ?c 0 = Some root" by (simp add: tok_at_def)
  ultimately show ?thesis using r(3) by (intro that) auto
qed

text \<open>C17: A JSON text calls the handler once for each of its commands, in order, with the command's key and
  its members as they read in the text, although the text is terminated in place on the way; other values, nested ones included,
  are skipped. Commands have fewer than 20 members.\<close>

theorem json_commands_dispatched:
  assumes "parsed_items parse tk m its" "\<forall>it \<in> set its. item_small it"
  shows "parse_and_process_json parse tk None proc m s = Some (True, fold (\<lambda>p s. snd (proc p s)) (commands m its) s)"
proof -
  obtain c where c: "jsmn_new parse (Some m) tk = Some (con c m {})" "jsmn_ok (con c m {})" "toks_at c 1 (items_toks its)"
    "\<exists>t. tok_at c 0 = Some t \<and> tk_size t = int (length its)" using parsed_json [OF assms(1)] .
  have "json_loop (length its) None proc (con c m {}) 1 s = Some (fold (\<lambda>p s. snd (proc p s)) (commands m its) s)"
    using assms by (intro json_loop_items c(3)) (auto simp: parsed_items_def)
  with c show ?thesis by (auto simp: parse_and_process_json_def it_begin_def)
qed

definition demo_json :: string where
  "demo_json = ''{_a_:{_b_:1},_x_:2}''"

definition demo_items :: "jitem list" where
  "demo_items = [Cmd (tok JSMN_STRING 2 3 1) (tok JSMN_OBJECT 5 12 1) [(tok JSMN_STRING 7 8 1, tok JSMN_PRIMITIVE 10 11 0)],
     Other (tok JSMN_STRING 14 15 1) (JLeaf (tok JSMN_PRIMITIVE 17 18 0))]"

definition demo_parse :: jsmn_parser where
  "demo_parse s tk = (7, tok JSMN_OBJECT 0 19 2 # items_toks demo_items @ tk)"

lemma demo_parsed: "parsed_items demo_parse [] (demo_json @ [NUL]) demo_items"
  unfolding parsed_items_def
proof (intro conjI)
  show "\<exists>root unused. demo_parse (c_str (demo_json @ [NUL])) [] = (int (Suc (length (items_toks demo_items))), root # items_toks demo_items @ unused) \<and>
     tk_type root = JSMN_OBJECT \<and> tk_size root = int (length demo_items)"
    by (intro exI [of _ "tok JSMN_OBJECT 0 19 2"] exI [of _ "[]"]) (simp add: demo_parse_def demo_items_def items_toks_def tok_def)
  show "spaced (demo_json @ [NUL]) (leaves (items_toks demo_items))" by code_simp
  show "\<forall>it \<in> set demo_items. item_ok (demo_json @ [NUL]) it" by code_simp
qed

theorem json_commands_dispatched_witness:
  "parse_and_process_json demo_parse [] None (\<lambda>p s. (0, s @ [p])) (demo_json @ [NUL]) [] =
     Some (True, [[(Some ''a'', Some ''''), (Some ''b'', Some ''1'')]])"
proof -
  have "\<forall>it \<in> set demo_items. item_small it" by code_simp
  moreover have "commands (demo_json @ [NUL]) demo_items = [[(Some ''a'', Some ''''), (Some ''b'', Some ''1'')]]" by code_simp
  ultimately show ?thesis using json_commands_dispatched [OF demo_parsed, of "\<lambda>p s. (0, s @ [p])" "[]"] by simp
qed

text \<open>A JSON command with 20 members or more is stored past the end of the parameter array, which
  holds 20 entries of which the first is the command itself.\<close>

lemma json_command_overflows:
  assumes "parsed_items parse tk m (Cmd k obj kvs # its)" "20 \<le> length kvs"
  shows "parse_and_process_json parse tk None proc m s = None"
proof -
  obtain c where c: "jsmn_new parse (Some m) tk = Some (con c m {})" "jsmn_ok (con c m {})" "toks_at c 1 (items_toks (Cmd k obj kvs # its))"
    "\<exists>t. tok_at c 0 = Some t \<and> tk_size t = int (Suc (length its))" using parsed_json [OF assms(1)] by auto
  have "toks_at c 1 (item_toks (Cmd k obj kvs))" using c(3) by (simp add: items_toks_def toks_at_append del: item_toks.simps)
  moreover have "item_ok m (Cmd k obj kvs)" "spaced m (leaves (item_toks (Cmd k obj kvs)))"
    using assms(1) by (simp_all add: parsed_items_def items_toks_def spaced_append del: item_toks.simps item_ok.simps)
  ultimately have "parse_and_process_jsmn None proc (con c m {}) 1 s = None"
    using command_step [of c 1 k obj kvs m "{}" proc s] assms(2) by (simp add: par_len_def)
  moreover have "it_valid c 1" using c(3) by (simp add: items_toks_def toks_at_Cons)
  moreover have "nat (1 + int n) = Suc n" for n by simp
  ultimately show ?thesis using c by (auto simp: parse_and_process_json_def it_begin_def)
qed

definition long_json :: string where
  "long_json = ''{_a_:{'' @ concat (replicate 20 ''b:1,'') @ ''}}''"

definition long_items :: "jitem list" where
  "long_items = [Cmd (tok JSMN_STRING 2 3 1) (tok JSMN_OBJECT 5 87 20)
     (map (\<lambda>j. (tok JSMN_STRING (6 + 4 * j) (7 + 4 * j) 1, tok JSMN_PRIMITIVE (8 + 4 * j) (9 + 4 * j) 0)) [0..19])]"

lemma json_command_overflows_witness:
  "parse_and_process_json (\<lambda>s tk. (43, tok JSMN_OBJECT 0 88 1 # items_toks long_items)) [] None (\<lambda>p s. (0, s)) (long_json @ [NUL]) () = None"
proof -
  have s: "spaced (long_json @ [NUL]) (leaves (items_toks long_items))" by code_simp
  have o: "\<forall>it \<in> set long_items. item_ok (long_json @ [NUL]) it" by code_simp
  have l: "length (items_toks long_items) = 42" by code_simp
  have "parsed_items (\<lambda>s tk. (43, tok JSMN_OBJECT 0 88 1 # items_toks long_items)) [] (long_json @ [NUL]) long_items"
    unfolding parsed_items_def using s o l
    by (auto simp: tok_def long_items_def)
  then show ?thesis
    using json_command_overflows [of "\<lambda>s tk. (43, tok JSMN_OBJECT 0 88 1 # items_toks long_items)" "[]" "long_json @ [NUL]"
        "tok JSMN_STRING 2 3 1" "tok JSMN_OBJECT 5 87 20" _ "[]" "\<lambda>p s. (0, s)" "()"] unfolding long_items_def by simp
qed

text \<open>Without JSON output the root object is only the end of the text.\<close>

lemma root_open_text: "\<not> hasOutput_json w \<Longrightarrow> root_open out alloc n w = Some (True, w)"
  by (simp add: root_open_def)

lemma root_close_text:
  assumes "hasOutput_text w" "\<not> hasOutput_json w" "uw_tgt w1 = uw_tgt w"
  shows "root_close out alloc n w1 = Some (cli_out_close out n w1)"
proof -
  have "uw_tgt (cli_out_close out n w1) = uw_tgt w1"
    by (simp add: cli_out_close_def cli_out_x_reply_entry_def cli_out_entry_def uw_put_def)
  then show ?thesis using assms by (simp add: root_close_def so_step_def hasOutput_text_def hasOutput_json_def so_tgt_test_def)
qed

lemma pars_of_read: "pars_of m ps = map (map_prod Some id) (map (par_read m) ps)"
  by (simp add: pars_of_def par_read_def)

text \<open>C18: A command line printed to as text is dispatched by the grammar of command lines: its words
  reach the handler once, with the message id; an empty line does nothing; a malformed line, and one with 20 words or more, is answered
  with an error without a call.\<close>

theorem cmdline_dispatched:
  assumes "no_nul s" "hasOutput_text w" "\<not> hasOutput_json w" "\<And>mid p w. uw_tgt (snd (proc mid p w)) = uw_tgt w"
  shows "\<exists>mid. cli_process_cmdline out alloc None False proc (s @ NUL # post) w = Some ([], mid,
    (case tokens s of
       None \<Rightarrow> snd (cli_replyFailure out mid w)
     | Some ts \<Rightarrow>
         (let args = filter (\<lambda>t. \<not> is_mid t) ts in
          if args = [] then w
          else if length args < 20 then cli_out_close out mid (snd (proc mid (map (map_prod Some id) args) w))
          else snd (cli_replyFailure out mid w)))) \<and>
    (case tokens s of None \<Rightarrow> True | Some ts \<Rightarrow> length (filter (\<lambda>t. \<not> is_mid t) ts) < 20 \<longrightarrow> mid = mid_of 0 ts)"
proof -
  let ?ps = "replicate par_len \<lparr>par_key = 0, par_val = None\<rparr>"
  obtain ret m ps' mid where r: "cli_parseCommandline (s @ NUL # post) ?ps = Some (ret, m, ps', mid)"
    and g: "case tokens s of
        None \<Rightarrow> ret = -1
      | Some ts \<Rightarrow> let args = filter (\<lambda>t. \<not> is_mid t) ts in
          if length args < length ?ps
          then ret = int (length args) \<and> map (par_read m) (take (length args) ps') = args \<and> mid = mid_of 0 ts
          else ret = -1"
    using parse_commandline_parsed [OF assms(1), of ?ps post] unfolding parsed_def append_Nil by blast
  have n20: "length ?ps = 20" by (simp add: par_len_def)
  note d = cli_process_cmdline_def r root_open_text [OF assms(3)] root_close_text [OF assms(2,3) assms(4)] Let_def
  show ?thesis
  proof (cases "tokens s")
    case None
    then show ?thesis using g by (intro exI [of _ mid]) (simp add: d)
  next
    case (Some ts)
    let ?args = "filter (\<lambda>t. \<not> is_mid t) ts"
    show ?thesis
    proof (cases "length ?args < 20")
      case True
      then have m: "ret = int (length ?args)" "map (par_read m) (take (length ?args) ps') = ?args" "mid = mid_of 0 ts"
        using g Some unfolding n20 by (simp_all add: Let_def)
      have "pars_of m (take (length ?args) ps') = map (map_prod Some id) ?args" unfolding pars_of_read m(2) ..
      then show ?thesis using True Some m(1,3) by (intro exI [of _ mid]) (auto simp: d)
    next
      case False
      then have "ret = -1" using g Some unfolding n20 by (simp add: Let_def)
      then show ?thesis using False Some by (intro exI [of _ mid]) (auto simp: d)
    qed
  qed
qed

theorem cmdline_dispatched_witness:
  "\<exists>w mid. uout_new (SO_TGT_CLI OR SO_TGT_FLAG_TXT) [] = Some w \<and>
     cli_process_cmdline (\<lambda>s t f. (0, s @ t)) (\<lambda>n. True) None False (\<lambda>mid p w. (0, uw_put (\<lambda>s t f. (0, s @ t)) (the (fst (hd p))) w))
       (''help all'' @ [NUL]) w = Some ([], mid, uw_put (\<lambda>s t f. (0, s @ t)) ''help'' w)"
proof -
  let ?w = "\<lparr>uw_tgt = SO_TGT_CLI OR SO_TGT_FLAG_TXT, uw_len = 0, uw_tag = [], uw_json = jb_new False []\<rparr>"
  have n: "uout_new (SO_TGT_CLI OR SO_TGT_FLAG_TXT) [] = Some ?w"
    by (simp add: uout_new_def SO_TGT_CLI_def SO_TGT_FLAG_TXT_def SO_TGT_FLAG_JSON_def)
  have h: "hasOutput_text ?w" "\<not> hasOutput_json ?w"
    by (simp_all add: hasOutput_text_def hasOutput_json_def so_tgt_test_def SO_TGT_CLI_def SO_TGT_FLAG_TXT_def SO_TGT_FLAG_JSON_def)
  have t: "tokens ''help all'' = Some [(''help'', None), (''all'', None)]" by code_simp
  have c: "cli_out_close out mid w = w" if "uw_len w = 0" for out mid and w :: "string uout_writer"
    using that by (simp add: cli_out_close_def cli_out_x_reply_entry_def cli_out_entry_def)
  obtain mid where "cli_process_cmdline (\<lambda>s t f. (0, s @ t)) (\<lambda>n. True) None False (\<lambda>mid p w. (0, uw_put (\<lambda>s t f. (0, s @ t)) (the (fst (hd p))) w))
       (''help all'' @ [NUL]) ?w = Some ([], mid, uw_put (\<lambda>s t f. (0, s @ t)) ''help'' ?w)"
    using cmdline_dispatched [of "''help all''" ?w "\<lambda>mid p w. (0, uw_put (\<lambda>s t f. (0, s @ t)) (the (fst (hd p))) w)" "\<lambda>s t f. (0, s @ t)" "\<lambda>n. True" "[]"]
      h t by (auto simp: is_mid_def uw_put_def c)
  with n show ?thesis by (intro exI conjI)
qed

end
