(* ===== verification/TcpCliTask.thy ===== *)
theory TcpCliTask
  imports CliLine UoCallbacks "HOL-Library.Monad_Syntax"
begin

text \<open>
  The console server for TCP clients that runs in a task (net/esp32/tcp_cli_server_task.cc).

  The sockets of lwIP are a parameter: a record of functions on the state \<open>'w\<close> of the network.
  Commands run through the arguments \<open>json\<close> and \<open>cmd\<close>, which get the descriptor and the line and work on
  the network. None stands for an access outside of a block, a negative descriptor in a descriptor
  set, or a call that does not return. The mutexes are not modelled.
\<close>

record 'w lwip =
  lw_socket :: "'w \<Rightarrow> int \<times> 'w"
  lw_nonblock :: "int \<Rightarrow> 'w \<Rightarrow> int \<times> 'w"
  lw_bind :: "int \<Rightarrow> nat \<Rightarrow> 'w \<Rightarrow> int \<times> 'w"
  lw_listen :: "int \<Rightarrow> int \<Rightarrow> 'w \<Rightarrow> int \<times> 'w"
  lw_accept :: "int \<Rightarrow> 'w \<Rightarrow> int \<times> 'w"
  lw_close :: "int \<Rightarrow> 'w \<Rightarrow> int \<times> 'w"
  lw_write :: "int \<Rightarrow> string \<Rightarrow> 'w \<Rightarrow> int \<times> 'w"
  lw_recv :: "int \<Rightarrow> 'w \<Rightarrow> int \<times> char \<times> 'w"
  lw_select :: "int \<Rightarrow> int set \<Rightarrow> 'w \<Rightarrow> int \<times> int set \<times> 'w"
  lw_backlog :: int
  lw_errno :: "'w \<Rightarrow> int"
  lw_again :: "int \<Rightarrow> bool"

text \<open>The members of the server, the descriptor that tcps_getc keeps, and the calls of
  callback_subscribe and callback_unsubscribe, the last one first.\<close>

record 'w tcps =
  ts_port :: nat
  ts_port_ia :: nat
  ts_sockfd :: int
  ts_sockfd_ia :: int
  ts_selected :: int
  ts_wait :: "int set"
  ts_nfds :: int
  ts_count :: int
  ts_buf :: cli_buf
  ts_getc_fd :: int
  ts_subs :: "bool list"
  ts_net :: 'w

definition tcps_new :: "nat \<Rightarrow> nat \<Rightarrow> 'w \<Rightarrow> 'w tcps" where
  "tcps_new port port_ia net =
     \<lparr>ts_port = port, ts_port_ia = port_ia, ts_sockfd = -1, ts_sockfd_ia = -1, ts_selected = -1, ts_wait = {}, ts_nfds = 0, ts_count = 0,
      ts_buf = \<lparr>cb_buf = [], cb_size = 0, cb_idx = 0, cb_quotes = 0\<rparr>, ts_getc_fd = -1, ts_subs = [], ts_net = net\<rparr>"

section \<open>Connections\<close>

definition set_sockfd :: "int \<Rightarrow> 'w tcps \<Rightarrow> 'w tcps" where
  "set_sockfd fd s = s\<lparr>ts_nfds := (if fd + 1 > ts_nfds s then fd + 1 else ts_nfds s), ts_sockfd := fd\<rparr>"

definition set_sockfd_ia :: "int \<Rightarrow> 'w tcps \<Rightarrow> 'w tcps" where
  "set_sockfd_ia fd s = s\<lparr>ts_nfds := (if fd + 1 > ts_nfds s then fd + 1 else ts_nfds s), ts_sockfd_ia := fd\<rparr>"

definition add_fd :: "int \<Rightarrow> 'w tcps \<Rightarrow> 'w tcps" where
  "add_fd fd s = s\<lparr>ts_wait := insert fd (ts_wait s), ts_nfds := (if fd + 1 > ts_nfds s then fd + 1 else ts_nfds s),
     ts_count := ts_count s + 1, ts_subs := (if ts_count s = 0 then True # ts_subs s else ts_subs s)\<rparr>"

definition rm_fd :: "int \<Rightarrow> 'w tcps \<Rightarrow> 'w tcps" where
  "rm_fd fd s =
     (if fd \<notin> ts_wait s then s
      else let s1 = s\<lparr>ts_wait := ts_wait s - {fd}, ts_nfds := (if fd - 1 = ts_nfds s then ts_nfds s - 1 else ts_nfds s),
                      ts_count := ts_count s - 1\<rparr>
           in if ts_count s1 \<le> 0 then s1\<lparr>ts_count := 0, ts_subs := False # ts_subs s1\<rparr> else s1)"

definition tcps_close_cconn :: "'w lwip \<Rightarrow> int \<Rightarrow> 'w tcps \<Rightarrow> 'w tcps" where
  "tcps_close_cconn lw fd s =
     (case lw_close lw fd (ts_net s) of (r, n) \<Rightarrow> let s1 = s\<lparr>ts_net := n\<rparr> in if r < 0 then s1 else rm_fd fd s1)"

text \<open>The set is one of the server's or a local one: it is read again for each descriptor.\<close>

fun foreach_loop :: "('w tcps \<Rightarrow> int set) \<Rightarrow> (int \<Rightarrow> 'w tcps \<Rightarrow> 'w tcps option) \<Rightarrow> int list \<Rightarrow> int \<Rightarrow> 'w tcps \<Rightarrow> (int \<times> 'w tcps) option" where
  "foreach_loop fds f [] count s = Some (count, s)"
| "foreach_loop fds f (i # is) count s =
     (if \<not> (count \<noteq> 0 \<and> i < ts_nfds s) then Some (count, s)
      else if i \<in> fds s then do { s1 \<leftarrow> f i s; foreach_loop fds f is (count - 1) s1 }
      else foreach_loop fds f is count s)"

definition foreach_fd :: "('w tcps \<Rightarrow> int set) \<Rightarrow> int \<Rightarrow> (int \<Rightarrow> 'w tcps \<Rightarrow> 'w tcps option) \<Rightarrow> 'w tcps \<Rightarrow> (int \<times> 'w tcps) option" where
  "foreach_fd fds count f s = foreach_loop fds f [0..ts_nfds s - 1] count s"

section \<open>Creating the servers\<close>

text \<open>The result is what the function returns: a descriptor, -1, or errno when there is no socket.\<close>

definition create_server_port :: "'w lwip \<Rightarrow> nat \<Rightarrow> 'w \<Rightarrow> int \<times> 'w" where
  "create_server_port lw port n =
     (case lw_socket lw n of (fd, n1) \<Rightarrow>
        if fd < 0 then (lw_errno lw n1, n1)
        else (case lw_nonblock lw fd n1 of (r, n2) \<Rightarrow>
          if r < 0 then (-1, snd (lw_close lw fd n2))
          else (case lw_bind lw fd port n2 of (r, n3) \<Rightarrow>
            if r \<noteq> 0 then (-1, snd (lw_close lw fd n3))
            else (case lw_listen lw fd (lw_backlog lw) n3 of (r, n4) \<Rightarrow>
              if r \<noteq> 0 then (-1, snd (lw_close lw fd n4)) else (fd, n4)))))"

definition tcps_create_server :: "'w lwip \<Rightarrow> 'w tcps \<Rightarrow> int \<times> 'w tcps" where
  "tcps_create_server lw s =
     (case create_server_port lw (ts_port s) (ts_net s) of (fd, n) \<Rightarrow>
        let s1 = s\<lparr>ts_net := n\<rparr> in if fd < 0 then (lw_errno lw n, s1) else (0, set_sockfd fd s1))"

definition tcps_create_server_ia :: "'w lwip \<Rightarrow> 'w tcps \<Rightarrow> int \<times> 'w tcps" where
  "tcps_create_server_ia lw s =
     (case create_server_port lw (ts_port_ia s) (ts_net s) of (fd, n) \<Rightarrow>
        let s1 = s\<lparr>ts_net := n\<rparr> in if fd < 0 then (lw_errno lw n, s1) else (0, set_sockfd_ia fd s1))"

section \<open>Output\<close>

definition tcpst_putc :: "'w lwip \<Rightarrow> int \<Rightarrow> char \<Rightarrow> 'w tcps \<Rightarrow> int \<times> 'w tcps" where
  "tcpst_putc lw fd c s =
     (case lw_write lw fd [c] (ts_net s) of (r, n) \<Rightarrow>
        let s1 = s\<lparr>ts_net := n\<rparr> in if r < 0 then (-1, tcps_close_cconn lw fd s1) else (1, s1))"

definition tcpst_putc_crlf :: "'w lwip \<Rightarrow> int \<Rightarrow> char \<Rightarrow> 'w tcps \<Rightarrow> int \<times> 'w tcps" where
  "tcpst_putc_crlf lw fd c s =
     (if c = CHR 0x0D then (1, s)
      else if c = CHR 0x0A then
        (case tcpst_putc lw fd (CHR 0x0D) s of (r, s1) \<Rightarrow> if r < 0 then (-1, s1) else tcpst_putc lw fd c s1)
      else tcpst_putc lw fd c s)"

definition tcpst_putc_all :: "'w lwip \<Rightarrow> char \<Rightarrow> 'w tcps \<Rightarrow> 'w tcps option" where
  "tcpst_putc_all lw c s = map_option snd (foreach_fd ts_wait (ts_nfds s) (\<lambda>fd s. Some (snd (tcpst_putc_crlf lw fd c s))) s)"

definition tcpst_writeln :: "'w lwip \<Rightarrow> int \<Rightarrow> string \<Rightarrow> 'w tcps \<Rightarrow> 'w tcps" where
  "tcpst_writeln lw fd txt s =
     (case lw_write lw fd txt (ts_net s) of (r, n) \<Rightarrow>
        let s1 = s\<lparr>ts_net := n\<rparr> in if r < 0 then tcps_close_cconn lw fd s1 else s1)"

definition tcpst_writeln_all :: "'w lwip \<Rightarrow> string \<Rightarrow> 'w tcps \<Rightarrow> 'w tcps option" where
  "tcpst_writeln_all lw txt s = map_option snd (foreach_fd ts_wait (ts_nfds s) (\<lambda>fd s. Some (tcpst_writeln lw fd txt s)) s)"

fun putc_all_text :: "'w lwip \<Rightarrow> string \<Rightarrow> 'w tcps \<Rightarrow> 'w tcps option" where
  "putc_all_text lw [] s = Some s"
| "putc_all_text lw (c # cs) s = do { s1 \<leftarrow> tcpst_putc_all lw c s; putc_all_text lw cs s1 }"

text \<open>The callback for published messages; \<open>writeln\<close> is CONFIG_APP_USE_WRITELN.\<close>

definition pctChange_cb :: "'w lwip \<Rightarrow> bool \<Rightarrow> string option \<Rightarrow> string option \<Rightarrow> 'w tcps \<Rightarrow> 'w tcps option" where
  "pctChange_cb lw writeln txt json s = do {
     s1 \<leftarrow> (case txt of
         None \<Rightarrow> Some s
       | Some t \<Rightarrow> if writeln then do { s' \<leftarrow> tcpst_writeln_all lw t s; tcpst_writeln_all lw [CHR 0x0D, CHR 0x0A] s' }
                   else putc_all_text lw t s);
     (case json of
         None \<Rightarrow> Some s1
       | Some t \<Rightarrow> if writeln then do { s' \<leftarrow> tcpst_writeln_all lw t s1; tcpst_writeln_all lw [CHR 0x0D, CHR 0x0A] s' }
                   else do { s' \<leftarrow> putc_all_text lw t s1; tcpst_putc_all lw (CHR 0x0A) s' }) }"

section \<open>Input\<close>

definition tcps_getc :: "'w lwip \<Rightarrow> 'w tcps \<Rightarrow> char option \<times> 'w tcps" where
  "tcps_getc lw s =
     (let fd = (if ts_selected s \<ge> 0 then ts_selected s else ts_getc_fd s)
      in (case lw_recv lw fd (ts_net s) of (n, c, net) \<Rightarrow>
            let s1 = s\<lparr>ts_getc_fd := fd, ts_net := net\<rparr>;
                s2 = (if n = 0 then (if ts_selected s1 \<ge> 0 then tcps_close_cconn lw fd s1 else s1)
                      else if n = 1 then s1
                      else if lw_again lw (lw_errno lw net) then s1 else rm_fd fd s1)
            in (if n = 1 then Some c else None, s2\<lparr>ts_selected := -1\<rparr>)))"

definition try_accept :: "'w lwip \<Rightarrow> int \<Rightarrow> 'w tcps \<Rightarrow> int \<times> 'w tcps" where
  "try_accept lw sock s =
     (case lw_accept lw sock (ts_net s) of (fd, n) \<Rightarrow>
        let s1 = s\<lparr>ts_net := n\<rparr> in if fd \<ge> 0 then (fd, add_fd fd s1) else (fd, s1))"

text \<open>
  cli_get_commandline with a function to get characters that has a state: it returns when the
  function has no more characters or the line is complete.
\<close>

partial_function (option) get_commandline_by ::
  "('s \<Rightarrow> char option \<times> 's) \<Rightarrow> bool \<Rightarrow> bool \<Rightarrow> cli_buf \<Rightarrow> 's \<Rightarrow> (cli_get_commline_ret \<times> cli_buf \<times> 's) option" where
  "get_commandline_by getc lf err b s =
     (if \<not> cb_idx b + 1 < cb_size b then Some (CMDL_LINE_BUF_FULL, b, s)
      else (case getc s of
          (None, s1) \<Rightarrow> Some (if err then CMDL_ERROR else CMDL_INCOMPLETE, b, s1)
        | (Some c, s1) \<Rightarrow>
            (case cg_char lf err b c of
               None \<Rightarrow> None
             | Some (Inl (ret, b1)) \<Rightarrow> Some (ret, b1, s1)
             | Some (Inr (err1, b1)) \<Rightarrow> get_commandline_by getc lf err1 b1 s1)))"

text \<open>Fed from a list it is cli_get_commandline of CliLine.\<close>

lemma get_commandline_by_list:
  "get_commandline_by (\<lambda>inp. case inp of [] \<Rightarrow> (None, []) | x # r \<Rightarrow> (x, r)) lf err b inp =
    (if \<not> cb_idx b + 1 < cb_size b then Some (CMDL_LINE_BUF_FULL, b, inp) else cg_loop lf err b inp)"
proof (induction inp arbitrary: err b)
  case Nil
  show ?case by (subst get_commandline_by.simps) simp
next
  case (Cons x inp)
  show ?case
    by (subst get_commandline_by.simps, cases x) (auto simp: Cons.IH split: option.splits sum.splits)
qed

type_synonym 'w line_cmd = "int \<Rightarrow> char list \<Rightarrow> 'w \<Rightarrow> 'w option"

partial_function (option) input_loop ::
  "'w lwip \<Rightarrow> (nat \<Rightarrow> bool) \<Rightarrow> 'w line_cmd \<Rightarrow> 'w line_cmd \<Rightarrow> int \<Rightarrow> 'w tcps \<Rightarrow> 'w tcps option" where
  "input_loop lw alloc json cmd fd s =
     do {
       (ret, b, s1) \<leftarrow> get_commandline_by (tcps_getc lw) False False (ts_buf s) s;
       (let s2 = s1\<lparr>ts_buf := b\<rparr> in
        if ret = CMDL_DONE then
          (case (if cb_buf b ! 0 = CHR ''{'' then json fd (cb_buf b) (ts_net s1) else cmd fd (cb_buf b) (ts_net s1)) of
             None \<Rightarrow> None
           | Some n \<Rightarrow> Some (s2\<lparr>ts_net := n\<rparr>))
        else if ret = CMDL_LINE_BUF_FULL then
          (case cliBuf_enlarge alloc b of
             (ok, b1) \<Rightarrow> if ok then input_loop lw alloc json cmd fd (s2\<lparr>ts_buf := b1\<rparr>) else Some s2)
        else Some s2) }"

definition handle_input :: "'w lwip \<Rightarrow> (nat \<Rightarrow> bool) \<Rightarrow> 'w line_cmd \<Rightarrow> 'w line_cmd \<Rightarrow> int \<Rightarrow> 'w tcps \<Rightarrow> 'w tcps option" where
  "handle_input lw alloc json cmd fd s = input_loop lw alloc json cmd fd (s\<lparr>ts_selected := fd\<rparr>)"

section \<open>The task\<close>

definition welcome_text :: string where
  "welcome_text = ''Type help; for a list of commands'' @ [CHR 0x0D, CHR 0x0A, NUL]"

definition accept_ready :: "'w lwip \<Rightarrow> int \<Rightarrow> int set \<Rightarrow> int \<Rightarrow> 'w tcps \<Rightarrow> int set \<times> int \<times> 'w tcps" where
  "accept_ready lw sock rfds count s =
     (if sock \<notin> rfds then (rfds, count, s)
      else (case try_accept lw sock s of (fd, s1) \<Rightarrow>
        (rfds - {sock}, count - 1, if fd \<ge> 0 then s1\<lparr>ts_net := snd (lw_write lw fd welcome_text (ts_net s1))\<rparr> else s1)))"

definition wait_for_fd :: "'w lwip \<Rightarrow> (nat \<Rightarrow> bool) \<Rightarrow> 'w line_cmd \<Rightarrow> 'w line_cmd \<Rightarrow> 'w tcps \<Rightarrow> 'w tcps option" where
  "wait_for_fd lw alloc json cmd s =
     (if ts_sockfd s < 0 \<or> ts_sockfd_ia s < 0 then None
      else (case lw_select lw (ts_nfds s) (ts_wait s \<union> {ts_sockfd s, ts_sockfd_ia s}) (ts_net s) of
          (count, rfds, n) \<Rightarrow>
            (let s1 = s\<lparr>ts_net := n\<rparr> in
             if count \<le> 0 then Some s1
             else (case accept_ready lw (ts_sockfd s) rfds count s1 of
                 (rfds2, count2, s2) \<Rightarrow>
                   (case accept_ready lw (ts_sockfd_ia s) rfds2 count2 s2 of
                      (rfds3, count3, s3) \<Rightarrow>
                        map_option snd (foreach_fd (\<lambda>_. rfds3) count3 (handle_input lw alloc json cmd) s3))))))"

text \<open>What the task does in front of its endless loop over wait_for_fd.\<close>

definition tcps_task_start :: "'w lwip \<Rightarrow> 'w tcps \<Rightarrow> 'w tcps" where
  "tcps_task_start lw s =
     (let s0 = s\<lparr>ts_wait := {}, ts_nfds := 0\<rparr>;
          s1 = (if ts_port s0 > 0 then snd (tcps_create_server lw s0) else s0)
      in if ts_port_ia s1 > 0 then snd (tcps_create_server_ia lw s1) else s1)"

fun tcps_task :: "nat \<Rightarrow> 'w lwip \<Rightarrow> (nat \<Rightarrow> bool) \<Rightarrow> 'w line_cmd \<Rightarrow> 'w line_cmd \<Rightarrow> 'w tcps \<Rightarrow> 'w tcps option" where
  "tcps_task 0 lw alloc json cmd s = Some s"
| "tcps_task (Suc turns) lw alloc json cmd s = do { s1 \<leftarrow> wait_for_fd lw alloc json cmd s; tcps_task turns lw alloc json cmd s1 }"

text \<open>The flags the callback is subscribed with; the fourth event is gen_app_state_change.\<close>

definition tcps_flags :: "uo_flags \<Rightarrow> uo_flags" where
  "tcps_flags f = f\<lparr>evt_flags := evt_flags f OR EVT_pin_change OR 0x08 OR EVT_gen_app_error_message OR EVT_gen_app_log_message,
     fmt_flags := fmt_flags f OR FMT_json OR FMT_txt\<rparr>"

end
