(* ===== verification/TcpCliProps.thy ===== *)
theory TcpCliProps
  imports TcpCliTask
begin

text \<open>
  The connections of the TCP console server: its count, its descriptor set and its subscription
  agree in every state, and a published message reaches every connection.
\<close>

section \<open>The invariant\<close>

definition subscribed :: "'w tcps \<Rightarrow> bool" where
  "subscribed s \<longleftrightarrow> ts_subs s \<noteq> [] \<and> hd (ts_subs s)"

definition tcps_inv :: "('w \<Rightarrow> int set) \<Rightarrow> 'w tcps \<Rightarrow> bool" where
  "tcps_inv opened s \<longleftrightarrow> finite (ts_wait s) \<and> ts_count s = int (card (ts_wait s)) \<and> (\<forall>fd \<in> ts_wait s. 0 \<le> fd \<and> fd < ts_nfds s) \<and>
     (subscribed s \<longleftrightarrow> ts_wait s \<noteq> {}) \<and> distinct_adj (ts_subs s) \<and> ts_wait s \<subseteq> opened (ts_net s)"

text \<open>
  What the server relies on: accept returns a descriptor that was not open, close closes, and the
  other calls and the commands neither open nor close one.
\<close>

definition lwip_ok :: "'w lwip \<Rightarrow> ('w \<Rightarrow> int set) \<Rightarrow> bool" where
  "lwip_ok lw opened \<longleftrightarrow>
     (\<forall>k n. let (fd, n') = lw_accept lw k n in
        if fd \<ge> 0 then fd \<notin> opened n \<and> opened n' = insert fd (opened n) else opened n' = opened n) \<and>
     (\<forall>fd n. let (r, n') = lw_close lw fd n in opened n' = (if r < 0 then opened n else opened n - {fd})) \<and>
     (\<forall>fd t n. opened (snd (lw_write lw fd t n)) = opened n) \<and>
     (\<forall>fd n. opened (snd (snd (lw_recv lw fd n))) = opened n) \<and>
     (\<forall>k fds n. opened (snd (snd (lw_select lw k fds n))) = opened n)"

definition cmd_ok :: "('w \<Rightarrow> int set) \<Rightarrow> 'w line_cmd \<Rightarrow> bool" where
  "cmd_ok opened cmd \<longleftrightarrow> (\<forall>fd l n n'. cmd fd l n = Some n' \<longrightarrow> opened n' = opened n)"

lemma inv_net: "tcps_inv opened s \<Longrightarrow> opened n = opened (ts_net s) \<Longrightarrow> tcps_inv opened (s\<lparr>ts_net := n\<rparr>)"
  by (simp add: tcps_inv_def subscribed_def)

lemma inv_other [simp]:
  "tcps_inv opened (s\<lparr>ts_buf := b\<rparr>) = tcps_inv opened s" "tcps_inv opened (s\<lparr>ts_selected := i\<rparr>) = tcps_inv opened s"
  "tcps_inv opened (s\<lparr>ts_getc_fd := i\<rparr>) = tcps_inv opened s"
  by (simp_all add: tcps_inv_def subscribed_def)

lemma add_fd_inv:
  assumes "tcps_inv opened s" "0 \<le> fd" "fd \<notin> ts_wait s" "fd \<in> opened (ts_net s)"
  shows "tcps_inv opened (add_fd fd s)"
proof -
  have c: "ts_count s = 0 \<longleftrightarrow> ts_wait s = {}" using assms(1) by (simp add: tcps_inv_def)
  have "distinct_adj (True # ts_subs s)" if "ts_wait s = {}"
    using assms(1) that by (cases "ts_subs s") (auto simp: tcps_inv_def subscribed_def)
  then show ?thesis using assms c by (auto simp: tcps_inv_def add_fd_def subscribed_def)
qed

lemma rm_fd_keeps:
  assumes i: "tcps_inv opened s" and n: "opened (ts_net s) - {fd} \<subseteq> opened n"
  shows "tcps_inv opened (rm_fd fd (s\<lparr>ts_net := n\<rparr>))"
proof (cases "fd \<in> ts_wait s")
  case True
  have fin: "finite (ts_wait s)" and cnt: "ts_count s = int (card (ts_wait s))" using i by (simp_all add: tcps_inv_def)
  have nf: "fd - 1 \<noteq> ts_nfds s" using i True by (auto simp: tcps_inv_def)
  have card: "int (card (ts_wait s - {fd})) = ts_count s - 1"
    using card_Suc_Diff1 [OF fin True] cnt by linarith
  have e: "ts_count s - 1 \<le> 0 \<longleftrightarrow> ts_wait s - {fd} = {}" "\<not> ts_count s - 1 < 0"
    using fin unfolding card [symmetric] by simp_all
  have d: "distinct_adj (False # ts_subs s)" "subscribed s"
    using i True by (cases "ts_subs s"; auto simp: tcps_inv_def subscribed_def)+
  have w: "ts_wait s - {fd} \<subseteq> opened n" using i n by (auto simp: tcps_inv_def)
  show ?thesis
  proof (cases "ts_wait s - {fd} = {}")
    case True
    then have "ts_wait s = {fd}" using \<open>fd \<in> ts_wait s\<close> by auto
    then show ?thesis using e nf d by (simp add: tcps_inv_def rm_fd_def Let_def subscribed_def)
  next
    case False
    have "\<forall>fd \<in> ts_wait s. 0 \<le> fd \<and> fd < ts_nfds s" "distinct_adj (ts_subs s)" using i by (simp_all add: tcps_inv_def)
    then show ?thesis using e fin nf d w card False \<open>fd \<in> ts_wait s\<close> by (simp add: tcps_inv_def rm_fd_def Let_def subscribed_def)
  qed
next
  case False
  with i n show ?thesis by (auto simp: tcps_inv_def rm_fd_def subscribed_def)
qed

lemma rm_fd_inv: "tcps_inv opened s \<Longrightarrow> tcps_inv opened (rm_fd fd s)"
  using rm_fd_keeps [of opened s fd "ts_net s"] by auto


lemma lwip_simps:
  assumes "lwip_ok lw opened"
  shows "opened (snd (lw_write lw fd t n)) = opened n" "opened (snd (snd (lw_recv lw fd n))) = opened n"
    "opened (snd (snd (lw_select lw k fds n))) = opened n"
  using assms by (simp_all add: lwip_ok_def)

lemma lwip_accept:
  assumes "lwip_ok lw opened" "lw_accept lw k n = (fd, n')"
  shows "if fd \<ge> 0 then fd \<notin> opened n \<and> opened n' = insert fd (opened n) else opened n' = opened n"
proof -
  from assms(1) have "\<forall>k n. let (fd, n') = lw_accept lw k n in
      if fd \<ge> 0 then fd \<notin> opened n \<and> opened n' = insert fd (opened n) else opened n' = opened n"
    unfolding lwip_ok_def by (elim conjE)
  from spec2 [OF this, of k n] assms(2) show ?thesis by simp
qed

lemma close_inv:
  assumes "lwip_ok lw opened" "tcps_inv opened s"
  shows "tcps_inv opened (tcps_close_cconn lw fd s)"
proof -
  obtain r n where r: "lw_close lw fd (ts_net s) = (r, n)" by fastforce
  then have "opened n = (if r < 0 then opened (ts_net s) else opened (ts_net s) - {fd})"
    using assms(1) by (auto simp: lwip_ok_def dest: spec [of _ fd] split: prod.splits)
  then show ?thesis using assms(2) r rm_fd_keeps [OF assms(2), of fd n] by (auto simp: tcps_close_cconn_def Let_def inv_net)
qed

lemma putc_inv: "lwip_ok lw opened \<Longrightarrow> tcps_inv opened s \<Longrightarrow> tcps_inv opened (snd (tcpst_putc lw fd c s))"
  using lwip_simps(1) [of lw opened fd "[c]" "ts_net s"]
  by (auto simp: tcpst_putc_def Let_def close_inv inv_net split: prod.splits)

lemma putc_crlf_inv: "lwip_ok lw opened \<Longrightarrow> tcps_inv opened s \<Longrightarrow> tcps_inv opened (snd (tcpst_putc_crlf lw fd c s))"
  using putc_inv [of lw opened s fd "CHR 0x0D"] putc_inv [of lw opened s fd c] putc_inv [of lw opened "snd (tcpst_putc lw fd (CHR 0x0D) s)" fd c]
  by (auto simp: tcpst_putc_crlf_def split: prod.splits)

lemma writeln_inv: "lwip_ok lw opened \<Longrightarrow> tcps_inv opened s \<Longrightarrow> tcps_inv opened (tcpst_writeln lw fd t s)"
  using lwip_simps(1) [of lw opened fd t "ts_net s"]
  by (auto simp: tcpst_writeln_def Let_def close_inv inv_net split: prod.splits)

text \<open>Results that keep a property, when there are any.\<close>

definition yields :: "('a \<Rightarrow> bool) \<Rightarrow> 'a option \<Rightarrow> bool" where
  "yields P r \<longleftrightarrow> (\<forall>x. r = Some x \<longrightarrow> P x)"

lemma yields_Some [simp]: "yields P (Some x) = P x" "yields P None"
  by (simp_all add: yields_def)

lemma yields_bind: "yields P r \<Longrightarrow> (\<And>x. P x \<Longrightarrow> yields Q (f x)) \<Longrightarrow> yields Q (r \<bind> f)"
  by (cases r) (simp_all add: yields_def)

lemma yieldsD: "yields P r \<Longrightarrow> r = Some x \<Longrightarrow> P x"
  by (simp add: yields_def)

lemma foreach_inv:
  assumes "\<And>i s. tcps_inv opened s \<Longrightarrow> yields (tcps_inv opened) (f i s)" "tcps_inv opened s"
  shows "yields (tcps_inv opened) (map_option snd (foreach_fd fds count f s))"
proof -
  have "yields (\<lambda>(c, s'). tcps_inv opened s') (foreach_loop fds f is count s)" for "is"
    using assms(2)
  proof (induction "is" arbitrary: count s)
    case (Cons i "is")
    then show ?case using assms(1) [of s i] by (auto intro!: yields_bind)
  qed simp
  then show ?thesis unfolding foreach_fd_def by (cases "foreach_loop fds f [0..ts_nfds s - 1] count s") (fastforce simp: yields_def)+
qed

lemma publish_inv:
  assumes ok: "lwip_ok lw opened" and s: "tcps_inv opened s"
  shows "yields (tcps_inv opened) (pctChange_cb lw wl txt json s)"
proof -
  have a: "yields (tcps_inv opened) (tcpst_putc_all lw c s)" if "tcps_inv opened s" for c s
    unfolding tcpst_putc_all_def using that by (intro foreach_inv) (simp_all add: putc_crlf_inv [OF ok])
  have b: "yields (tcps_inv opened) (tcpst_writeln_all lw t s)" if "tcps_inv opened s" for t s
    unfolding tcpst_writeln_all_def using that by (intro foreach_inv) (simp_all add: writeln_inv [OF ok])
  have c: "yields (tcps_inv opened) (putc_all_text lw t s)" if "tcps_inv opened s" for t s
    using that by (induction t arbitrary: s) (auto intro!: yields_bind a)
  show ?thesis unfolding pctChange_cb_def using s
    by (auto intro!: yields_bind a b c split: option.split)
qed

lemma getc_inv:
  assumes ok: "lwip_ok lw opened" and s: "tcps_inv opened s"
  shows "tcps_inv opened (snd (tcps_getc lw s))"
proof -
  define fd where "fd = (if ts_selected s \<ge> 0 then ts_selected s else ts_getc_fd s)"
  obtain n c net where r: "lw_recv lw fd (ts_net s) = (n, c, net)" by (cases "lw_recv lw fd (ts_net s)")
  let ?s = "s\<lparr>ts_getc_fd := fd, ts_net := net\<rparr>"
  have "opened net = opened (ts_net s)" using lwip_simps(2) [OF ok, of fd "ts_net s"] r by simp
  then have "tcps_inv opened ?s" using inv_net [of opened "s\<lparr>ts_getc_fd := fd\<rparr>" net] s by simp
  then show ?thesis using r close_inv [OF ok, of ?s fd] rm_fd_inv [of opened ?s fd]
    unfolding tcps_getc_def fd_def [symmetric] Let_def by simp
qed

text \<open>Reading a line keeps what reading a character keeps.\<close>

lemma get_commandline_keeps:
  assumes getc: "\<And>s. I s \<Longrightarrow> I (snd (getc s))"
  shows "I s \<Longrightarrow> yields (\<lambda>r. I (snd (snd r))) (get_commandline_by getc lf err b s)"
proof -
  have "g = getc \<longrightarrow> I s \<longrightarrow> I (snd (snd r))" if "get_commandline_by g lf err b s = Some r" for g lf err b s r
    using _ that
  proof (rule get_commandline_by.raw_induct)
    fix f g lf err b s r
    assume ih: "\<And>g lf err b s r. f g lf err b s = Some r \<Longrightarrow> g = getc \<longrightarrow> I s \<longrightarrow> I (snd (snd r))"
      and r: "(if \<not> cb_idx b + 1 < cb_size b then Some (CMDL_LINE_BUF_FULL, b, s)
          else case g s of
            (None, s1) \<Rightarrow> Some (if err then CMDL_ERROR else CMDL_INCOMPLETE, b, s1)
          | (Some c, s1) \<Rightarrow>
              (case cg_char lf err b c of
                 None \<Rightarrow> None
               | Some (Inl (ret, b1)) \<Rightarrow> Some (ret, b1, s1)
               | Some (Inr (err1, b1)) \<Rightarrow> f g lf err1 b1 s1)) = Some r"
    show "g = getc \<longrightarrow> I s \<longrightarrow> I (snd (snd r))"
    proof (intro impI)
      assume g: "g = getc" "I s"
      obtain co s1 where gs: "getc s = (co, s1)" by fastforce
      then have "I s1" using getc [of s] g by simp
      then show "I (snd (snd r))" using r g gs ih [of getc lf _ _ s1 r]
        by (auto split: if_splits option.splits sum.splits prod.splits)
    qed
  qed
  then show "I s \<Longrightarrow> yields (\<lambda>r. I (snd (snd r))) (get_commandline_by getc lf err b s)" by (auto simp: yields_def)
qed

lemma input_loop_inv:
  assumes ok: "lwip_ok lw opened" and cmds: "cmd_ok opened json" "cmd_ok opened cmd"
  shows "tcps_inv opened s \<Longrightarrow> yields (tcps_inv opened) (input_loop lw alloc json cmd fd s)"
proof -
  have "lw' = lw \<and> json' = json \<and> cmd' = cmd \<longrightarrow> tcps_inv opened s \<longrightarrow> tcps_inv opened r"
    if "input_loop lw' alloc json' cmd' fd s = Some r" for lw' alloc json' cmd' fd s r
    using _ that
  proof (rule input_loop.raw_induct)
    fix f lw' alloc json' cmd' fd s r
    assume ih: "\<And>lw' alloc json' cmd' fd s r. f lw' alloc json' cmd' fd s = Some r \<Longrightarrow>
        lw' = lw \<and> json' = json \<and> cmd' = cmd \<longrightarrow> tcps_inv opened s \<longrightarrow> tcps_inv opened r"
      and r: "do {
       (ret, b, s1) \<leftarrow> get_commandline_by (tcps_getc lw') False False (ts_buf s) s;
       (let s2 = s1\<lparr>ts_buf := b\<rparr> in
        if ret = CMDL_DONE then
          (case (if cb_buf b ! 0 = CHR ''{'' then json' fd (cb_buf b) (ts_net s1) else cmd' fd (cb_buf b) (ts_net s1)) of
             None \<Rightarrow> None
           | Some n \<Rightarrow> Some (s2\<lparr>ts_net := n\<rparr>))
        else if ret = CMDL_LINE_BUF_FULL then
          (case cliBuf_enlarge alloc b of
             (ok, b1) \<Rightarrow> if ok then f lw' alloc json' cmd' fd (s2\<lparr>ts_buf := b1\<rparr>) else Some s2)
        else Some s2) } = Some r"
    show "lw' = lw \<and> json' = json \<and> cmd' = cmd \<longrightarrow> tcps_inv opened s \<longrightarrow> tcps_inv opened r"
    proof (intro impI)
      assume e: "lw' = lw \<and> json' = json \<and> cmd' = cmd" and s: "tcps_inv opened s"
      obtain ret b s1 where l: "get_commandline_by (tcps_getc lw) False False (ts_buf s) s = Some (ret, b, s1)"
        using r e by (cases "get_commandline_by (tcps_getc lw) False False (ts_buf s) s") auto
      have s1: "tcps_inv opened s1"
        using get_commandline_keeps [of "tcps_inv opened" "tcps_getc lw", OF getc_inv [OF ok] s, THEN yieldsD, OF _ l] by simp
      show "tcps_inv opened r"
      proof (cases "ret = CMDL_DONE")
        case True
        then obtain n where n: "(if cb_buf b ! 0 = CHR ''{'' then json fd (cb_buf b) (ts_net s1) else cmd fd (cb_buf b) (ts_net s1)) = Some n"
          "r = s1\<lparr>ts_buf := b, ts_net := n\<rparr>"
          using r e l by (cases "if cb_buf b ! 0 = CHR ''{'' then json fd (cb_buf b) (ts_net s1) else cmd fd (cb_buf b) (ts_net s1)") (auto simp: Let_def)
        then have "opened n = opened (ts_net s1)" using cmds unfolding cmd_ok_def by (auto split: if_splits)
        then show ?thesis using n(2) inv_net [of opened "s1\<lparr>ts_buf := b\<rparr>" n] s1 by simp
      next
        case False
        then show ?thesis using r e l s1 ih [of lw alloc json cmd fd _ r] by (auto simp: Let_def split: if_splits prod.splits)
      qed
    qed
  qed
  then show "tcps_inv opened s \<Longrightarrow> yields (tcps_inv opened) (input_loop lw alloc json cmd fd s)" by (auto simp: yields_def)
qed

lemma handle_input_inv:
  "lwip_ok lw opened \<Longrightarrow> cmd_ok opened json \<Longrightarrow> cmd_ok opened cmd \<Longrightarrow> tcps_inv opened s \<Longrightarrow>
    yields (tcps_inv opened) (handle_input lw alloc json cmd fd s)"
  unfolding handle_input_def by (rule input_loop_inv) simp_all

lemma accept_inv:
  assumes ok: "lwip_ok lw opened" and s: "tcps_inv opened s"
  shows "tcps_inv opened (snd (snd (accept_ready lw sock rfds count s)))"
proof -
  obtain fd n where a: "lw_accept lw sock (ts_net s) = (fd, n)" by fastforce
  have o: "if fd \<ge> 0 then fd \<notin> opened (ts_net s) \<and> opened n = insert fd (opened (ts_net s)) else opened n = opened (ts_net s)"
    using lwip_accept [OF ok a] .
  show ?thesis
  proof (cases "fd \<ge> 0 \<and> sock \<in> rfds")
    case True
    have "tcps_inv opened (s\<lparr>ts_net := n\<rparr>)" using s o True by (auto simp: tcps_inv_def subscribed_def)
    moreover have "fd \<notin> ts_wait s" using s o True by (auto simp: tcps_inv_def)
    ultimately have i: "tcps_inv opened (add_fd fd (s\<lparr>ts_net := n\<rparr>))" using o True by (intro add_fd_inv) auto
    show ?thesis using True a inv_net [OF i] lwip_simps(1) [OF ok]
      by (simp add: accept_ready_def try_accept_def Let_def del: fun_upd_apply)
  next
    case False
    then show ?thesis using a o inv_net [OF s, of n] s by (auto simp: accept_ready_def try_accept_def Let_def)
  qed
qed

lemma wait_inv:
  assumes ok: "lwip_ok lw opened" "cmd_ok opened json" "cmd_ok opened cmd" and s: "tcps_inv opened s"
  shows "yields (tcps_inv opened) (wait_for_fd lw alloc json cmd s)"
proof (cases "ts_sockfd s < 0 \<or> ts_sockfd_ia s < 0")
  case False
  obtain count rfds n where sel: "lw_select lw (ts_nfds s) (ts_wait s \<union> {ts_sockfd s, ts_sockfd_ia s}) (ts_net s) = (count, rfds, n)"
    by (cases "lw_select lw (ts_nfds s) (ts_wait s \<union> {ts_sockfd s, ts_sockfd_ia s}) (ts_net s)")
  let ?s1 = "s\<lparr>ts_net := n\<rparr>"
  have 1: "tcps_inv opened ?s1" using inv_net [OF s] lwip_simps(3) [OF ok(1), of "ts_nfds s" _ "ts_net s"] sel by (metis snd_conv)
  obtain r2 c2 s2 where a2: "accept_ready lw (ts_sockfd s) rfds count ?s1 = (r2, c2, s2)" by (cases "accept_ready lw (ts_sockfd s) rfds count ?s1")
  have 2: "tcps_inv opened s2" using accept_inv [OF ok(1) 1, of "ts_sockfd s" rfds count] a2 by simp
  obtain r3 c3 s3 where a3: "accept_ready lw (ts_sockfd_ia s) r2 c2 s2 = (r3, c3, s3)" by (cases "accept_ready lw (ts_sockfd_ia s) r2 c2 s2")
  have 3: "tcps_inv opened s3" using accept_inv [OF ok(1) 2, of "ts_sockfd_ia s" r2 c2] a3 by simp
  have "yields (tcps_inv opened) (map_option snd (foreach_fd (\<lambda>_. r3) c3 (handle_input lw alloc json cmd) s3))"
    by (rule foreach_inv [OF handle_input_inv [OF ok] 3])
  then show ?thesis using False 1 sel a2 a3 by (simp add: wait_for_fd_def Let_def)
qed (simp add: wait_for_fd_def)


section \<open>Reachable states\<close>

inductive tcps_reach :: "'w lwip \<Rightarrow> (nat \<Rightarrow> bool) \<Rightarrow> 'w line_cmd \<Rightarrow> 'w line_cmd \<Rightarrow> 'w tcps \<Rightarrow> bool"
  for lw alloc json cmd where
  start: "tcps_reach lw alloc json cmd (tcps_task_start lw (tcps_new port port_ia net))"
| turn: "tcps_reach lw alloc json cmd s \<Longrightarrow> wait_for_fd lw alloc json cmd s = Some s' \<Longrightarrow> tcps_reach lw alloc json cmd s'"
| publish: "tcps_reach lw alloc json cmd s \<Longrightarrow> pctChange_cb lw wl msg js s = Some s' \<Longrightarrow> tcps_reach lw alloc json cmd s'"

lemma start_inv: "tcps_inv opened (tcps_task_start lw (tcps_new port port_ia net))"
proof -
  have s: "tcps_inv opened s" if "ts_wait s = {}" "ts_count s = 0" "ts_subs s = []" for s :: "'a tcps"
    using that by (simp add: tcps_inv_def subscribed_def)
  show ?thesis
    by (rule s) (auto simp: tcps_task_start_def tcps_new_def tcps_create_server_def tcps_create_server_ia_def Let_def set_sockfd_def
        set_sockfd_ia_def split: prod.splits)
qed

text \<open>C19: In every state the task and the published messages can reach, the connection counter is the size of
  the descriptor set, every connection is below the bound of the loops over descriptors, and the server is subscribed to messages
  exactly when it has a connection; it subscribes and unsubscribes in turn.\<close>

theorem tcps_connections_counted:
  assumes "lwip_ok lw opened" "cmd_ok opened json" "cmd_ok opened cmd" "tcps_reach lw alloc json cmd s"
  shows "finite (ts_wait s) \<and> ts_count s = int (card (ts_wait s)) \<and> (\<forall>fd \<in> ts_wait s. 0 \<le> fd \<and> fd < ts_nfds s) \<and>
    (subscribed s \<longleftrightarrow> ts_wait s \<noteq> {}) \<and> distinct_adj (ts_subs s)"
proof -
  have "tcps_inv opened s" using assms(4)
  proof induction
    case (start port port_ia net)
    show ?case by (rule start_inv)
  next
    case (turn s s')
    with wait_inv [OF assms(1-3), THEN yieldsD] show ?case by blast
  next
    case (publish s wl msg js s')
    with publish_inv [OF assms(1), THEN yieldsD] show ?case by blast
  qed
  then show ?thesis by (simp add: tcps_inv_def)
qed

definition demo_lwip :: "int set lwip" where
  "demo_lwip = \<lparr>lw_socket = (\<lambda>n. if 1 \<in> n then (2, insert 2 n) else (1, insert 1 n)), lw_nonblock = (\<lambda>fd n. (0, n)), lw_bind = (\<lambda>fd p n. (0, n)),
     lw_listen = (\<lambda>fd k n. (0, n)), lw_accept = (\<lambda>k n. if 3 \<in> n then (-1, n) else (3, insert 3 n)), lw_close = (\<lambda>fd n. (0, n - {fd})),
     lw_write = (\<lambda>fd t n. (1, n)), lw_recv = (\<lambda>fd n. (-1, NUL, n)), lw_select = (\<lambda>k fds n. (1, {1}, n)), lw_backlog = 5,
     lw_errno = (\<lambda>n. 0), lw_again = (\<lambda>e. True)\<rparr>"

theorem tcps_connections_counted_witness:
  "\<exists>s. tcps_reach demo_lwip (\<lambda>n. True) (\<lambda>fd l n. Some n) (\<lambda>fd l n. Some n) s \<and> ts_wait s = {3} \<and> ts_count s = 1 \<and> subscribed s"
proof -
  let ?s0 = "tcps_task_start demo_lwip (tcps_new 7777 7778 {})"
  have s0: "ts_sockfd ?s0 = 1" "ts_sockfd_ia ?s0 = 2" "ts_wait ?s0 = {}" "ts_nfds ?s0 = 3" "ts_net ?s0 = {1, 2}" "ts_count ?s0 = 0"
    by (auto simp: tcps_task_start_def tcps_new_def tcps_create_server_def tcps_create_server_ia_def create_server_port_def Let_def
        set_sockfd_def set_sockfd_ia_def demo_lwip_def)
  obtain s where w: "wait_for_fd demo_lwip (\<lambda>n. True) (\<lambda>fd l n. Some n) (\<lambda>fd l n. Some n) ?s0 = Some s" "ts_wait s = {3}"
    using s0 by (auto simp: wait_for_fd_def accept_ready_def try_accept_def foreach_fd_def demo_lwip_def Let_def add_fd_def upto.simps)
  have r: "tcps_reach demo_lwip (\<lambda>n. True) (\<lambda>fd l n. Some n) (\<lambda>fd l n. Some n) s"
    by (rule tcps_reach.turn [OF tcps_reach.start w(1)])
  have "lwip_ok demo_lwip id" "cmd_ok id (\<lambda>fd l n. Some n)" by (auto simp: lwip_ok_def cmd_ok_def demo_lwip_def)
  from tcps_connections_counted [OF this(1,2,2) r] r w(2) show ?thesis by auto
qed

section \<open>Broadcast\<close>

definition telnet :: "string \<Rightarrow> string" where
  "telnet t = concat (map (\<lambda>c. if c = CHR 0x0D then [] else if c = CHR 0x0A then [CHR 0x0D, CHR 0x0A] else [c]) t)"

text \<open>Writing succeeds; \<open>sent\<close> is what went out on a descriptor.\<close>

definition writes_ok :: "'w lwip \<Rightarrow> (int \<Rightarrow> 'w \<Rightarrow> string) \<Rightarrow> bool" where
  "writes_ok lw sent \<longleftrightarrow> (\<forall>fd t n. fst (lw_write lw fd t n) \<ge> 0 \<and>
     (\<forall>k. sent k (snd (lw_write lw fd t n)) = sent k n @ (if k = fd then t else [])))"

text \<open>A step that writes \<open>t\<close> to the descriptors in \<open>A\<close> and changes nothing else.\<close>

definition adds_text :: "(int \<Rightarrow> 'w \<Rightarrow> string) \<Rightarrow> int set \<Rightarrow> string \<Rightarrow> 'w tcps \<Rightarrow> 'w tcps \<Rightarrow> bool" where
  "adds_text sent A t s s' \<longleftrightarrow> (\<exists>n. s' = s\<lparr>ts_net := n\<rparr> \<and> (\<forall>k. sent k n = sent k (ts_net s) @ (if k \<in> A then t else [])))"

lemma adds_nothing: "adds_text sent A [] s s"
  unfolding adds_text_def by (rule exI [of _ "ts_net s"]) simp

lemma adds_none: "adds_text sent {} t s s"
  unfolding adds_text_def by (rule exI [of _ "ts_net s"]) simp

lemma adds_same: "adds_text sent A t s s' \<Longrightarrow> ts_wait s' = ts_wait s \<and> ts_nfds s' = ts_nfds s"
  by (auto simp: adds_text_def)

lemma putc_adds:
  assumes "writes_ok lw sent"
  shows "fst (tcpst_putc lw fd c s) = 1" "adds_text sent {fd} [c] s (snd (tcpst_putc lw fd c s))"
proof -
  obtain r n where r: "lw_write lw fd [c] (ts_net s) = (r, n)" by (cases "lw_write lw fd [c] (ts_net s)")
  have "0 \<le> fst (lw_write lw fd [c] (ts_net s)) \<and>
      (\<forall>k. sent k (snd (lw_write lw fd [c] (ts_net s))) = sent k (ts_net s) @ (if k = fd then [c] else []))"
    by (rule spec [OF spec [OF spec [OF assms [unfolded writes_ok_def]]]])
  then have "r \<ge> 0" "\<forall>k. sent k n = sent k (ts_net s) @ (if k = fd then [c] else [])"
    unfolding r fst_conv snd_conv by - (erule conjunct1, erule conjunct2)
  with r show "fst (tcpst_putc lw fd c s) = 1" "adds_text sent {fd} [c] s (snd (tcpst_putc lw fd c s))"
    by (auto simp: tcpst_putc_def adds_text_def Let_def)
qed

lemma text_adds_trans: "adds_text sent A t s s1 \<Longrightarrow> adds_text sent A u s1 s2 \<Longrightarrow> adds_text sent A (t @ u) s s2"
  by (auto simp: adds_text_def)

lemma adds_union:
  assumes "adds_text sent A t s s1" "adds_text sent B t s1 s2" "A \<inter> B = {}"
  shows "adds_text sent (A \<union> B) t s s2"
proof -
  from assms(1) obtain n1 where 1: "s1 = s\<lparr>ts_net := n1\<rparr>" "\<And>k. sent k n1 = sent k (ts_net s) @ (if k \<in> A then t else [])"
    unfolding adds_text_def by blast
  from assms(2) obtain n2 where 2: "s2 = s1\<lparr>ts_net := n2\<rparr>" "\<And>k. sent k n2 = sent k (ts_net s1) @ (if k \<in> B then t else [])"
    unfolding adds_text_def by blast
  have "sent k n2 = sent k (ts_net s) @ (if k \<in> A \<union> B then t else [])" for k
    using 1 2(2) [of k] assms(3) by (cases "k \<in> A"; cases "k \<in> B") auto
  then show ?thesis unfolding adds_text_def using 1(1) 2(1) by (intro exI [of _ n2]) simp
qed

lemma putc_crlf_adds:
  assumes "writes_ok lw sent"
  shows "adds_text sent {fd} (telnet [c]) s (snd (tcpst_putc_crlf lw fd c s))"
proof (cases "c = CHR 0x0A")
  case True
  have "adds_text sent {fd} ([CHR 0x0D] @ [c]) s (snd (tcpst_putc lw fd c (snd (tcpst_putc lw fd (CHR 0x0D) s))))"
    by (rule text_adds_trans [OF putc_adds(2) [OF assms] putc_adds(2) [OF assms]])
  then show ?thesis using True putc_adds(1) [OF assms, of fd "CHR 0x0D" s] by (simp add: tcpst_putc_crlf_def telnet_def split_beta)
next
  case False
  then show ?thesis using putc_adds(2) [OF assms, of fd c s] adds_nothing [of sent "{fd}" s] by (simp add: tcpst_putc_crlf_def telnet_def)
qed

lemma foreach_adds:
  assumes f: "\<And>i s. \<exists>s'. f i s = Some s' \<and> adds_text sent {i} t s s'"
  shows "distinct is \<Longrightarrow> \<forall>i \<in> set is. i < ts_nfds s \<Longrightarrow> int (length is) \<le> count \<Longrightarrow>
    \<exists>c s'. foreach_loop ts_wait f is count s = Some (c, s') \<and> adds_text sent (ts_wait s \<inter> set is) t s s'"
proof (induction "is" arbitrary: count s)
  case Nil
  then show ?case using adds_none [of sent t s] by simp
next
  case (Cons i "is")
  show ?case
  proof (cases "i \<in> ts_wait s")
    case True
    obtain s1 where s1: "f i s = Some s1" "adds_text sent {i} t s s1" using f [of i s] by blast
    note e = adds_same [OF s1(2)]
    obtain c s' where r: "foreach_loop ts_wait f is (count - 1) s1 = Some (c, s')" "adds_text sent (ts_wait s1 \<inter> set is) t s1 s'"
      using Cons.IH [of s1 "count - 1"] Cons.prems e by auto
    have "adds_text sent ({i} \<union> (ts_wait s \<inter> set is)) t s s'"
      using Cons.prems(1) r(2) e by (intro adds_union [OF s1(2)]) auto
    moreover have "{i} \<union> (ts_wait s \<inter> set is) = ts_wait s \<inter> set (i # is)" using True by auto
    ultimately have "adds_text sent (ts_wait s \<inter> set (i # is)) t s s'" by simp
    with True s1 r Cons.prems show ?thesis by auto
  next
    case False
    then show ?thesis using Cons.IH [of s count] Cons.prems by auto
  qed
qed

lemma putc_all_adds:
  assumes ok: "writes_ok lw sent" and w: "\<forall>fd \<in> ts_wait s. 0 \<le> fd \<and> fd < ts_nfds s"
  shows "\<exists>s'. tcpst_putc_all lw c s = Some s' \<and> adds_text sent (ts_wait s) (telnet [c]) s s'"
proof (cases "ts_nfds s < 0")
  case True
  then have "ts_wait s = {}" using w by fastforce
  then show ?thesis using True adds_none [of sent "telnet [c]" s] by (simp add: tcpst_putc_all_def foreach_fd_def)
next
  case False
  have i: "ts_wait s \<inter> set [0..ts_nfds s - 1] = ts_wait s" using w by auto
  have "\<exists>c' s'. foreach_loop ts_wait (\<lambda>fd s. Some (snd (tcpst_putc_crlf lw fd c s))) [0..ts_nfds s - 1] (ts_nfds s) s = Some (c', s') \<and>
      adds_text sent (ts_wait s \<inter> set [0..ts_nfds s - 1]) (telnet [c]) s s'"
    using False by (intro foreach_adds) (auto simp: putc_crlf_adds [OF ok])
  then show ?thesis unfolding i tcpst_putc_all_def foreach_fd_def by auto
qed

lemma putc_text_adds:
  assumes ok: "writes_ok lw sent"
  shows "\<forall>fd \<in> ts_wait s. 0 \<le> fd \<and> fd < ts_nfds s \<Longrightarrow> \<exists>s'. putc_all_text lw t s = Some s' \<and> adds_text sent (ts_wait s) (telnet t) s s'"
proof (induction t arbitrary: s)
  case Nil
  then show ?case using adds_nothing [of sent "ts_wait s" s] by (simp add: telnet_def)
next
  case (Cons c t)
  from putc_all_adds [OF ok Cons.prems] obtain s1 where s1: "tcpst_putc_all lw c s = Some s1" "adds_text sent (ts_wait s) (telnet [c]) s s1" by blast
  note e = adds_same [OF s1(2)]
  from Cons.IH [of s1] Cons.prems e obtain s' where s': "putc_all_text lw t s1 = Some s'" "adds_text sent (ts_wait s) (telnet t) s1 s'" by auto
  have "telnet (c # t) = telnet [c] @ telnet t" by (simp add: telnet_def)
  with text_adds_trans [OF s1(2) s'(2)] s1(1) s'(1) show ?case by simp
qed

text \<open>C20: A published message is written to every connection and to no other descriptor, with its line ends
  translated for telnet; a JSON message is followed by a line end. No connection is lost as long as writing succeeds.\<close>

theorem tcps_broadcast:
  assumes ok: "writes_ok lw sent" and w: "\<forall>fd \<in> ts_wait s. 0 \<le> fd \<and> fd < ts_nfds s"
  shows "\<exists>s'. pctChange_cb lw False msg json s = Some s' \<and> ts_wait s' = ts_wait s \<and>
    (\<forall>k. sent k (ts_net s') = sent k (ts_net s) @
       (if k \<in> ts_wait s
        then (case msg of None \<Rightarrow> [] | Some t \<Rightarrow> telnet t) @ (case json of None \<Rightarrow> [] | Some j \<Rightarrow> telnet j @ [CHR 0x0D, CHR 0x0A]) else []))"
proof -
  obtain s1 where s1: "(case msg of None \<Rightarrow> Some s | Some t \<Rightarrow> putc_all_text lw t s) = Some s1"
    "adds_text sent (ts_wait s) (case msg of None \<Rightarrow> [] | Some t \<Rightarrow> telnet t) s s1"
    using putc_text_adds [OF ok w] adds_nothing by (cases msg) fastforce+
  note e = adds_same [OF s1(2)]
  have "\<exists>s2. (case json of None \<Rightarrow> Some s1 | Some t \<Rightarrow> do { s' \<leftarrow> putc_all_text lw t s1; tcpst_putc_all lw (CHR 0x0A) s' }) = Some s2 \<and>
      adds_text sent (ts_wait s) (case json of None \<Rightarrow> [] | Some j \<Rightarrow> telnet j @ [CHR 0x0D, CHR 0x0A]) s1 s2"
  proof (cases json)
    case None
    then show ?thesis using adds_nothing by fastforce
  next
    case (Some j)
    obtain s2 where s2: "putc_all_text lw j s1 = Some s2" "adds_text sent (ts_wait s) (telnet j) s1 s2"
      using putc_text_adds [OF ok, of s1 j] w e by auto
    note e2 = adds_same [OF s2(2)]
    obtain s3 where s3: "tcpst_putc_all lw (CHR 0x0A) s2 = Some s3" "adds_text sent (ts_wait s) (telnet [CHR 0x0A]) s2 s3"
      using putc_all_adds [OF ok, of s2 "CHR 0x0A"] w e e2 by auto
    have "telnet [CHR 0x0A] = [CHR 0x0D, CHR 0x0A]" by (simp add: telnet_def)
    with text_adds_trans [OF s2(2) s3(2)] s2(1) s3(1) Some show ?thesis by simp
  qed
  then obtain s2 where s2: "(case json of None \<Rightarrow> Some s1 | Some t \<Rightarrow> do { s' \<leftarrow> putc_all_text lw t s1; tcpst_putc_all lw (CHR 0x0A) s' }) = Some s2"
    "adds_text sent (ts_wait s) (case json of None \<Rightarrow> [] | Some j \<Rightarrow> telnet j @ [CHR 0x0D, CHR 0x0A]) s1 s2" by blast
  have "pctChange_cb lw False msg json s = Some s2" using s1(1) s2(1) by (cases msg; cases json) (simp_all add: pctChange_cb_def)
  moreover note text_adds_trans [OF s1(2) s2(2)]
  ultimately show ?thesis by (auto simp: adds_text_def)
qed

definition log_lwip :: "(int \<times> string) list lwip" where
  "log_lwip = \<lparr>lw_socket = (\<lambda>n. (1, n)), lw_nonblock = (\<lambda>fd n. (0, n)), lw_bind = (\<lambda>fd p n. (0, n)), lw_listen = (\<lambda>fd k n. (0, n)),
     lw_accept = (\<lambda>k n. (-1, n)), lw_close = (\<lambda>fd n. (0, n)), lw_write = (\<lambda>fd t n. (int (length t), n @ [(fd, t)])),
     lw_recv = (\<lambda>fd n. (-1, NUL, n)), lw_select = (\<lambda>k fds n. (0, {}, n)), lw_backlog = 5, lw_errno = (\<lambda>n. 0), lw_again = (\<lambda>e. True)\<rparr>"

theorem tcps_broadcast_witness:
  "\<exists>s'. pctChange_cb log_lwip False (Some ''a'') None ((tcps_new 1 2 [])\<lparr>ts_wait := {3}, ts_nfds := 4\<rparr>) = Some s' \<and>
     concat (map snd (filter (\<lambda>x. fst x = 3) (ts_net s'))) = ''a'' \<and> concat (map snd (filter (\<lambda>x. fst x = 2) (ts_net s'))) = ''''"
proof -
  have "writes_ok log_lwip (\<lambda>k n. concat (map snd (filter (\<lambda>x. fst x = k) n)))"
    by (auto simp: writes_ok_def log_lwip_def)
  from tcps_broadcast [OF this, of "(tcps_new 1 2 [])\<lparr>ts_wait := {3}, ts_nfds := 4\<rparr>" "Some ''a''" None]
  obtain s' where s': "pctChange_cb log_lwip False (Some ''a'') None ((tcps_new 1 2 [])\<lparr>ts_wait := {3}, ts_nfds := 4\<rparr>) = Some s'"
    "\<And>k. concat (map snd (filter (\<lambda>x. fst x = k) (ts_net s'))) = (if k = 3 then ''a'' else [])"
    by (auto simp: tcps_new_def telnet_def)
  then show ?thesis by (intro exI [of _ s'] conjI) simp_all
qed

end
