(* ===== verification/HttpServer.thy ===== *)
theory HttpServer
  imports CStd "HOL-Library.Monad_Syntax"
begin

text \<open>
  The HTTP server (net_http_server): access control, serving content, and pushing messages to the
  web sockets. The server of the SDK, the base64 decoder and the readers of content are
  parameters that work on a state \<open>'w\<close>. None stands for an access outside of a block or a call that does
  not return.
\<close>

section \<open>Access control\<close>

record cfg_http =
  ch_user :: string
  ch_password :: string
  ch_enable :: bool

text \<open>The credentials, whether there is a server, whether the application has set the function that registers its handlers, and how often that
  was called.\<close>

record hts =
  hs_user :: string
  hs_password :: string
  hs_server :: bool
  hs_register_cb :: bool
  hs_registered :: nat

definition hts_init :: hts where
  "hts_init = \<lparr>hs_user = [], hs_password = [], hs_server = False, hs_register_cb = False, hs_registered = 0\<rparr>"

definition MAX_LOGIN_LEN :: nat where "MAX_LOGIN_LEN = 256"

definition verify_userName_and_passWord :: "hts \<Rightarrow> string \<Rightarrow> bool" where
  "verify_userName_and_passWord s up =
     (if length (hs_user s) + 1 + length (hs_password s) \<noteq> length up then False
      else strneq (length (hs_user s)) (hs_user s) up \<and>
           strneq (length (hs_password s)) (hs_password s) (drop (length up - length (hs_password s)) up))"

text \<open>
  The value of the header Authorization, if there is one; \<open>got\<close> says whether it could be copied. The
  decoder gets the size of the destination and the bytes from index 6 on; there are none in a value of
  less than 6 characters, whose length minus 6 wraps around.
\<close>

type_synonym b64_decoder = "nat \<Rightarrow> string \<Rightarrow> string option"

definition verify_authorization :: "b64_decoder \<Rightarrow> hts \<Rightarrow> string option \<Rightarrow> bool \<Rightarrow> bool option" where
  "verify_authorization b64 s auth got =
     (let login = (case auth of None \<Rightarrow> [] | Some v \<Rightarrow> v) in
      if length login = 0 then Some False
      else if length login > MAX_LOGIN_LEN then Some False
      else if \<not> got then Some False
      else if length login < 6 then None
      else (case b64 128 (drop 6 login) of None \<Rightarrow> Some False | Some up \<Rightarrow> Some (verify_userName_and_passWord s up)))"

definition is_access_allowed :: "b64_decoder \<Rightarrow> hts \<Rightarrow> string option \<Rightarrow> bool \<Rightarrow> bool option" where
  "is_access_allowed b64 s auth got =
     (if hs_user s = [] \<and> hs_password s = [] then Some True else verify_authorization b64 s auth got)"

datatype http_resp = RStatus string | RType string | RHdr string string | RSend string | RChunk string

definition reqest_authorization :: "http_resp list" where
  "reqest_authorization = [RStatus ''401 Unauthorized'', RType ''text/html'',
     RHdr ''WWW-Authenticate'' (''Basic realm='' @ [CHR 0x22] @ ''tronferno-mcu.all'' @ [CHR 0x22]), RSend ''<p>please login</p>'']"

definition check_access_allowed :: "b64_decoder \<Rightarrow> hts \<Rightarrow> string option \<Rightarrow> bool \<Rightarrow> (bool \<times> http_resp list) option" where
  "check_access_allowed b64 s auth got =
     map_option (\<lambda>ok. if ok then (True, []) else (False, reqest_authorization)) (is_access_allowed b64 s auth got)"

text \<open>\<open>started\<close> is whether httpd_start succeeds. The credentials are set in any case.\<close>

definition start_webserver :: "bool \<Rightarrow> cfg_http \<Rightarrow> hts \<Rightarrow> bool \<times> hts" where
  "start_webserver started c s =
     (let s1 = s\<lparr>hs_user := ch_user c, hs_password := ch_password c\<rparr>
      in if \<not> started then (False, s1)
         else (True, if hs_register_cb s1 then s1\<lparr>hs_registered := hs_registered s1 + 1\<rparr> else s1))"

definition hts_enable_http_server :: "bool \<Rightarrow> cfg_http option \<Rightarrow> hts \<Rightarrow> hts" where
  "hts_enable_http_server started co s =
     (case co of
        Some c \<Rightarrow>
          if ch_enable c then
            (if \<not> hs_server s then (case start_webserver started c s of (h, s1) \<Rightarrow> s1\<lparr>hs_server := h\<rparr>) else s)
          else if hs_server s then s\<lparr>hs_server := False\<rparr> else s
      | None \<Rightarrow> if hs_server s then s\<lparr>hs_server := False\<rparr> else s)"

definition hts_setup :: "bool \<Rightarrow> cfg_http option \<Rightarrow> hts \<Rightarrow> hts" where
  "hts_setup = hts_enable_http_server"

section \<open>Serving content\<close>

record 'w httpd_resp =
  hr_set_type :: "string \<Rightarrow> 'w \<Rightarrow> bool \<times> 'w"
  hr_set_hdr :: "string \<Rightarrow> string \<Rightarrow> 'w \<Rightarrow> bool \<times> 'w"
  hr_send_chunk :: "string \<Rightarrow> 'w \<Rightarrow> bool \<times> 'w"
  hr_send :: "string \<Rightarrow> 'w \<Rightarrow> bool \<times> 'w"

record 'w content_reader =
  cr_open :: "string option \<Rightarrow> string option \<Rightarrow> 'w \<Rightarrow> int \<times> 'w"
  cr_read :: "int \<Rightarrow> nat \<Rightarrow> 'w \<Rightarrow> int \<times> string \<times> 'w"
  cr_close :: "int \<Rightarrow> 'w \<Rightarrow> 'w"

text \<open>The reader of files, on the system calls.\<close>

definition file_content_reader :: "(string \<Rightarrow> 'w \<Rightarrow> int \<times> 'w) \<Rightarrow> (int \<Rightarrow> nat \<Rightarrow> 'w \<Rightarrow> int \<times> string \<times> 'w) \<Rightarrow> (int \<Rightarrow> 'w \<Rightarrow> 'w) \<Rightarrow> 'w content_reader" where
  "file_content_reader sys_open sys_read sys_close =
     \<lparr>cr_open = \<lambda>name query w. (case name of None \<Rightarrow> (-1, w) | Some n \<Rightarrow> sys_open n w), cr_read = sys_read, cr_close = sys_close\<rparr>"

record 'w file_map =
  fm_type :: "string option"
  fm_content :: "string option"
  fm_encoding :: "string option"
  fm_length :: nat
  fm_reader :: "'w content_reader option"

definition set_hdrs :: "'w httpd_resp \<Rightarrow> 'w file_map \<Rightarrow> 'w \<Rightarrow> bool \<times> 'w" where
  "set_hdrs hr fm w =
     (case (case fm_type fm of None \<Rightarrow> (True, w) | Some t \<Rightarrow> hr_set_type hr t w) of
        (False, w1) \<Rightarrow> (False, w1)
      | (True, w1) \<Rightarrow> (case fm_encoding fm of None \<Rightarrow> (True, w1) | Some e \<Rightarrow> hr_set_hdr hr ''content-encoding'' e w1))"

text \<open>Headers, and then a send; the result is whether both succeeded.\<close>

definition with_hdrs :: "'w httpd_resp \<Rightarrow> 'w file_map \<Rightarrow> ('w \<Rightarrow> bool \<times> 'w) \<Rightarrow> 'w \<Rightarrow> bool \<times> 'w" where
  "with_hdrs hr fm send w = (case set_hdrs hr fm w of (ok, w1) \<Rightarrow> if ok then send w1 else (False, w1))"

partial_function (option) respond_loop :: "'w httpd_resp \<Rightarrow> 'w file_map \<Rightarrow> 'w content_reader \<Rightarrow> int \<Rightarrow> 'w \<Rightarrow> (bool \<times> 'w) option" where
  "respond_loop hr fm cr fd w =
     (case cr_read cr fd 256 w of (n, bytes, w1) \<Rightarrow>
        if n < 0 then Some (False, snd (with_hdrs hr fm (hr_send_chunk hr []) w1))
        else (case with_hdrs hr fm (hr_send_chunk hr bytes) w1 of (ok, w2) \<Rightarrow>
          if \<not> ok then Some (False, w2)
          else if n = 0 then Some (True, w2)
          else respond_loop hr fm cr fd w2))"

text \<open>
  \<open>query\<close> is the query of the request when it fits the buffer of 128 bytes. The descriptor is
  closed on every way out. Content without a length is a terminated string.
\<close>

definition respond_file :: "'w httpd_resp \<Rightarrow> string option \<Rightarrow> 'w file_map \<Rightarrow> 'w \<Rightarrow> (bool \<times> 'w) option" where
  "respond_file hr query fm w =
     (case fm_reader fm of
        Some cr \<Rightarrow>
          (case cr_open cr (fm_content fm) query w of (fd, w1) \<Rightarrow>
             map_option (\<lambda>(ok, w2). (ok, cr_close cr fd w2)) (if fd < 0 then Some (False, w1) else respond_loop hr fm cr fd w1))
      | None \<Rightarrow>
          (case fm_content fm of
             None \<Rightarrow> Some (False, w)
           | Some c \<Rightarrow>
               if fm_length fm \<noteq> 0
               then (if fm_length fm \<le> length c then Some (with_hdrs hr fm (hr_send hr (take (fm_length fm) c)) w) else None)
               else Some (with_hdrs hr fm (hr_send hr (c_str c)) w)))"

section \<open>Web sockets\<close>

record ws_clients =
  ws_fds :: "int set"
  ws_nfds :: int

record ws_send_arg =
  wa_json :: string
  wa_len :: nat
  wa_fd :: int

text \<open>The frame has the first \<open>wa_len\<close> characters of the copied text; it goes to the clients from \<open>fd\<close> on.\<close>

fun ws_broadcast_loop :: "(int \<Rightarrow> string \<Rightarrow> 'w \<Rightarrow> bool \<times> 'w) \<Rightarrow> string \<Rightarrow> int list \<Rightarrow> ws_clients \<Rightarrow> 'w \<Rightarrow> ws_clients \<times> 'w" where
  "ws_broadcast_loop send json [] c w = (c, w)"
| "ws_broadcast_loop send json (fd # fds) c w =
     (if \<not> fd < ws_nfds c then (c, w)
      else if fd \<notin> ws_fds c then ws_broadcast_loop send json fds c w
      else (case send fd json w of (ok, w1) \<Rightarrow>
        ws_broadcast_loop send json fds
          (if ok then c else \<lparr>ws_fds = ws_fds c - {fd}, ws_nfds = (if ws_nfds c = fd + 1 then fd else ws_nfds c)\<rparr>) w1))"

definition ws_async_broadcast :: "(int \<Rightarrow> string \<Rightarrow> 'w \<Rightarrow> bool \<times> 'w) \<Rightarrow> ws_send_arg \<Rightarrow> ws_clients \<Rightarrow> 'w \<Rightarrow> (ws_clients \<times> 'w) option" where
  "ws_async_broadcast send a c w =
     (if wa_len a \<le> length (wa_json a) + 1
      then Some (ws_broadcast_loop send (take (wa_len a) (wa_json a @ [NUL])) [0..ws_nfds c - 1] c w) else None)"

text \<open>A message is copied and queued for the server's task.\<close>

definition ws_trigger_send :: "string \<Rightarrow> nat \<Rightarrow> int \<Rightarrow> ws_send_arg list \<Rightarrow> ws_send_arg list" where
  "ws_trigger_send json len fd q = q @ [\<lparr>wa_json = json, wa_len = len, wa_fd = fd\<rparr>]"

definition ws_send_json :: "string \<Rightarrow> int \<Rightarrow> ws_send_arg list \<Rightarrow> ws_send_arg list" where
  "ws_send_json json len q = ws_trigger_send json (if len \<ge> 0 then nat len else length json) (-1) q"

end
