(* ===== verification/HttpProps.thy ===== *)
theory HttpProps
  imports HttpServer
begin

text \<open>The properties of the HTTP server.\<close>

section \<open>Access\<close>

lemma strneq_prefix: "no_nul s \<Longrightarrow> length s \<le> length t \<Longrightarrow> strneq (length s) s t \<longleftrightarrow> take (length s) t = s"
proof
  assume s: "no_nul s" "length s \<le> length t" and e: "strneq (length s) s t"
  then have c: "c_str (take (length s) t) = s" by (simp add: strneq_def c_str_no_nul)
  have "length (c_str (take (length s) t)) = length (take (length s) t)" unfolding c using s by simp
  then have "c_str (take (length s) t) = take (length s) t"
    unfolding c_str_def by (metis takeWhile_eq_all_conv takeWhile_eq_take take_all order_refl)
  with c show "take (length s) t = s" by simp
next
  assume "no_nul s" "take (length s) t = s"
  then show "strneq (length s) s t" by (simp add: strneq_def)
qed

lemma verify_split:
  assumes "no_nul (hs_user s)" "no_nul (hs_password s)"
  shows "verify_userName_and_passWord s up \<longleftrightarrow> (\<exists>c. up = hs_user s @ [c] @ hs_password s)"
proof
  assume v: "verify_userName_and_passWord s up"
  then have l: "length up = length (hs_user s) + 1 + length (hs_password s)" by (auto simp: verify_userName_and_passWord_def split: if_splits)
  have u: "take (length (hs_user s)) up = hs_user s"
    using v l strneq_prefix [OF assms(1), of up] by (auto simp: verify_userName_and_passWord_def)
  have p: "drop (length (hs_user s) + 1) up = hs_password s"
    using v l strneq_prefix [OF assms(2), of "drop (length (hs_user s) + 1) up"] by (auto simp: verify_userName_and_passWord_def)
  have "up = take (length (hs_user s)) up @ [up ! length (hs_user s)] @ drop (length (hs_user s) + 1) up"
    using l id_take_nth_drop [of "length (hs_user s)" up] by simp
  then show "\<exists>c. up = hs_user s @ [c] @ hs_password s" unfolding u p by blast
next
  assume "\<exists>c. up = hs_user s @ [c] @ hs_password s"
  then show "verify_userName_and_passWord s up" by (auto simp: verify_userName_and_passWord_def strneq_def)
qed

text \<open>A server with credentials, by its user name and password.\<close>

lemma access_checked:
  assumes "no_nul (hs_user s)" "no_nul (hs_password s)" "\<not> (hs_user s = [] \<and> hs_password s = [])"
  shows "check_access_allowed b64 s auth got = (case auth of
      None \<Rightarrow> Some (False, reqest_authorization)
    | Some v \<Rightarrow> if got \<and> 0 < length v \<and> length v < 6 then None
        else if got \<and> 6 \<le> length v \<and> length v \<le> 256 \<and> (\<exists>c. b64 128 (drop 6 v) = Some (hs_user s @ [c] @ hs_password s)) then Some (True, [])
        else Some (False, reqest_authorization))"
proof -
  have a: "check_access_allowed b64 s x g =
      map_option (\<lambda>ok. if ok then (True, []) else (False, reqest_authorization)) (verify_authorization b64 s x g)" for x g
    using assms(3) by (auto simp: check_access_allowed_def is_access_allowed_def)
  show ?thesis
  proof (cases auth)
    case None
    then show ?thesis unfolding a by (simp add: verify_authorization_def)
  next
    case (Some v)
    then have "verify_authorization b64 s auth got =
        (if got \<and> 0 < length v \<and> length v < 6 then None
         else Some (got \<and> 6 \<le> length v \<and> length v \<le> 256 \<and> (\<exists>c. b64 128 (drop 6 v) = Some (hs_user s @ [c] @ hs_password s))))"
      using verify_split [OF assms(1,2)] by (auto simp: verify_authorization_def MAX_LOGIN_LEN_def Let_def split: option.split)
    then show ?thesis unfolding a Some by simp
  qed
qed

text \<open>C21: The decision about a request, for any decoder: without credentials it is let in. With them a request is let in when its Authorization header, of 6 to
  256 characters, can be copied and decodes, from its seventh character on, to the user name, any one character, and the password; a header of 1 to 5
  characters that can be copied makes the server hand the decoder a wrapped-around length, so it reads outside of the header, the result None; every other
  request is answered with a request for a login.\<close>

theorem http_access_decision:
  assumes "no_nul (hs_user s)" "no_nul (hs_password s)"
  shows "check_access_allowed b64 s auth got =
    (if hs_user s = [] \<and> hs_password s = [] then Some (True, [])
     else (case auth of
        None \<Rightarrow> Some (False, reqest_authorization)
      | Some v \<Rightarrow> if got \<and> 0 < length v \<and> length v < 6 then None
          else if got \<and> 6 \<le> length v \<and> length v \<le> 256 \<and> (\<exists>c. b64 128 (drop 6 v) = Some (hs_user s @ [c] @ hs_password s)) then Some (True, [])
          else Some (False, reqest_authorization)))"
proof (cases "hs_user s = [] \<and> hs_password s = []")
  case True
  then show ?thesis by (simp add: check_access_allowed_def is_access_allowed_def)
next
  case False
  show ?thesis by (simp only: access_checked [OF assms False] False if_False)
qed

theorem http_access_decision_witness:
  "check_access_allowed (\<lambda>n t. Some t) \<lparr>hs_user = ''me'', hs_password = ''pw'', hs_server = True, hs_register_cb = False, hs_registered = 0\<rparr> (Some ''Basic me+pw'') True = Some (True, []) \<and>
   check_access_allowed (\<lambda>n t. Some t) \<lparr>hs_user = ''me'', hs_password = ''pw'', hs_server = True, hs_register_cb = False, hs_registered = 0\<rparr> (Some ''Basic'') True = None"
  using http_access_decision [of "\<lparr>hs_user = ''me'', hs_password = ''pw'', hs_server = True, hs_register_cb = False, hs_registered = 0\<rparr>" "\<lambda>n t. Some t"] by auto

section \<open>Content\<close>










section \<open>Web sockets\<close>

lemma ws_broadcast_loop_result:
  assumes ok: "\<And>fd w. fst (send fd json w) = okf fd"
  shows "sorted_wrt (<) fds \<Longrightarrow> \<forall>k \<in> ws_fds c. k < ws_nfds c \<Longrightarrow>
    \<exists>c'. ws_broadcast_loop send json fds c w = (c', fold (\<lambda>fd w. snd (send fd json w)) (filter (\<lambda>fd. fd \<in> ws_fds c) fds) w) \<and>
      ws_fds c' = {k \<in> ws_fds c. k \<in> set fds \<longrightarrow> okf k} \<and> (\<forall>k \<in> ws_fds c'. k < ws_nfds c')"
proof (induction fds arbitrary: c w)
  case Nil
  then show ?case by simp
next
  case (Cons fd fds)
  have s: "sorted_wrt (<) fds" "\<forall>k \<in> set fds. fd < k" using Cons.prems(1) by simp_all
  consider "\<not> fd < ws_nfds c" | "fd < ws_nfds c" "fd \<notin> ws_fds c" | "fd < ws_nfds c" "fd \<in> ws_fds c" by blast
  then show ?case
  proof cases
    case 1
    then have out: "k \<notin> ws_fds c" if "k \<in> set (fd # fds)" for k using s(2) Cons.prems(2) that by fastforce
    then have "filter (\<lambda>fd. fd \<in> ws_fds c) (fd # fds) = []" by (simp add: filter_empty_conv)
    then show ?thesis using 1 out Cons.prems(2) by auto
  next
    case 2
    from Cons.IH [OF s(1) Cons.prems(2), of w] 2 show ?thesis by (auto simp del: set_filter)
  next
    case 3
    let ?c = "if okf fd then c else \<lparr>ws_fds = ws_fds c - {fd}, ws_nfds = (if ws_nfds c = fd + 1 then fd else ws_nfds c)\<rparr>"
    have b: "\<forall>k \<in> ws_fds ?c. k < ws_nfds ?c" using Cons.prems(2) by (cases "okf fd") auto
    have f: "filter (\<lambda>k. k \<in> ws_fds ?c) fds = filter (\<lambda>k. k \<in> ws_fds c) fds" using s(2) by (intro filter_cong) auto
    obtain c' where c': "ws_broadcast_loop send json fds ?c (snd (send fd json w)) =
        (c', fold (\<lambda>fd w. snd (send fd json w)) (filter (\<lambda>k. k \<in> ws_fds c) fds) (snd (send fd json w)))"
      "ws_fds c' = {k \<in> ws_fds ?c. k \<in> set fds \<longrightarrow> okf k}" "\<forall>k \<in> ws_fds c'. k < ws_nfds c'"
      using Cons.IH [OF s(1) b, of "snd (send fd json w)"] unfolding f by blast
    have "ws_fds c' = {k \<in> ws_fds c. k \<in> set (fd # fds) \<longrightarrow> okf k}" unfolding c'(2) using s(2) by auto
    moreover have "ws_broadcast_loop send json (fd # fds) c w = ws_broadcast_loop send json fds ?c (snd (send fd json w))"
      using 3 ok [of fd w] by (simp add: split_beta)
    ultimately show ?thesis using c'(1,3) 3(2) by (intro exI [of _ c']) simp
  qed
qed

text \<open>A message pushed to the web sockets is sent once to every client, in the order of the descriptors;
  exactly the clients it could not be sent to are dropped, and all others stay within reach of the next message.\<close>

lemma ws_message_pushed:
  assumes "\<And>fd w. fst (send fd (wa_json a) w) = okf fd" "\<forall>fd \<in> ws_fds c. 0 \<le> fd \<and> fd < ws_nfds c" "wa_len a = length (wa_json a)"
  shows "\<exists>c'. ws_async_broadcast send a c w =
      Some (c', fold (\<lambda>fd w. snd (send fd (wa_json a) w)) (sorted_list_of_set (ws_fds c)) w) \<and>
    ws_fds c' = {fd \<in> ws_fds c. okf fd} \<and> (\<forall>fd \<in> ws_fds c'. 0 \<le> fd \<and> fd < ws_nfds c')"
proof -
  have fin: "finite (ws_fds c)" by (rule finite_subset [of _ "{0..<ws_nfds c}"]) (use assms(2) in auto)
  have l: "filter (\<lambda>fd. fd \<in> ws_fds c) [0..ws_nfds c - 1] = sorted_list_of_set (ws_fds c)"
    by (rule sorted_distinct_set_unique) (use assms(2) fin in \<open>auto intro: sorted_wrt_filter simp: sorted_upto\<close>)
  have "sorted_wrt (<) [0..ws_nfds c - 1]" by (simp add: sorted_wrt_upto)
  from ws_broadcast_loop_result [of send "wa_json a" okf, OF assms(1) this, of c w] assms(2) obtain c' where
    "ws_broadcast_loop send (wa_json a) [0..ws_nfds c - 1] c w = (c', fold (\<lambda>fd w. snd (send fd (wa_json a) w)) (sorted_list_of_set (ws_fds c)) w)"
    "ws_fds c' = {k \<in> ws_fds c. k \<in> set [0..ws_nfds c - 1] \<longrightarrow> okf k}" "\<forall>k \<in> ws_fds c'. k < ws_nfds c'"
    unfolding l by blast
  then show ?thesis using assms(2,3) by (intro exI [of _ c']) (auto simp: ws_async_broadcast_def)
qed

lemma ws_message_pushed_witness:
  "\<exists>c'. ws_async_broadcast (\<lambda>fd j w. (fd \<noteq> 5, w @ [(fd, j)])) \<lparr>wa_json = ''{}'', wa_len = 2, wa_fd = -1\<rparr> \<lparr>ws_fds = {3, 5}, ws_nfds = 6\<rparr> [] =
     Some (c', [(3, ''{}''), (5, ''{}'')]) \<and> ws_fds c' = {3}"
proof -
  have "sorted_list_of_set {3, 5 :: int} = [3, 5]" by simp
  moreover have "{fd \<in> {3, 5 :: int}. fd \<noteq> 5} = {3}" by auto
  ultimately show ?thesis
    using ws_message_pushed [of "\<lambda>fd j w. (fd \<noteq> 5, w @ [(fd, j)])" "\<lparr>wa_json = ''{}'', wa_len = 2, wa_fd = -1\<rparr>" "\<lambda>fd. fd \<noteq> 5"
        "\<lparr>ws_fds = {3, 5}, ws_nfds = 6\<rparr>" "[]"] by auto
qed

end
