(* ===== verification/CString.thy ===== *)
theory CString
  imports Prelude "HOL-Library.Monad_Syntax"
begin

text \<open>
  Owned C strings (utils_misc/cstring_utils.*): the functions csu_..., the class csut and the bounded
  copies. The heap maps addresses to blocks; \<open>alloc\<close> says which sizes can be allocated. None stands
  for a fault: a null pointer or freed block that is used, or the error handler of the copies.
\<close>

section \<open>The heap\<close>

record heap =
  hp_blocks :: "nat \<Rightarrow> char list option"
  hp_next :: nat

definition h_malloc :: "(nat \<Rightarrow> bool) \<Rightarrow> char list \<Rightarrow> heap \<Rightarrow> nat option \<times> heap" where
  "h_malloc alloc m h =
     (if alloc (length m) then (Some (hp_next h), \<lparr>hp_blocks = (hp_blocks h)(hp_next h := Some m), hp_next = Suc (hp_next h)\<rparr>)
      else (None, h))"

definition h_free :: "nat option \<Rightarrow> heap \<Rightarrow> heap option" where
  "h_free p h = (case p of None \<Rightarrow> Some h
     | Some a \<Rightarrow> if hp_blocks h a = None then None else Some (h\<lparr>hp_blocks := (hp_blocks h)(a := None)\<rparr>))"

section \<open>Functions\<close>

text \<open>The block of a string is allocated and filled at once.\<close>

definition csu_create :: "(nat \<Rightarrow> bool) \<Rightarrow> string \<Rightarrow> heap \<Rightarrow> nat option \<times> heap" where
  "csu_create alloc src h = h_malloc alloc (src @ [NUL]) h"

definition csu_delete :: "nat option \<Rightarrow> heap \<Rightarrow> heap option" where
  "csu_delete p h = h_free p h"

definition csu_destroy :: "nat option \<Rightarrow> heap \<Rightarrow> (nat option \<times> heap) option" where
  "csu_destroy p h = map_option (Pair None) (csu_delete p h)"

definition csu_read :: "nat option \<Rightarrow> heap \<Rightarrow> string option" where
  "csu_read p h = (case p of None \<Rightarrow> None | Some a \<Rightarrow> map_option c_str (hp_blocks h a))"

text \<open>The result has the pointer. When realloc fails the old block stays.\<close>

definition csu_assign :: "(nat \<Rightarrow> bool) \<Rightarrow> nat option \<Rightarrow> string \<Rightarrow> heap \<Rightarrow> (bool \<times> nat option \<times> heap) option" where
  "csu_assign alloc dst src h =
     (if dst \<noteq> None \<and> csu_read dst h = None then None
      else if dst \<noteq> None \<and> csu_read dst h = Some src then Some (True, dst, h)
      else if length src + 1 = 1 then map_option (\<lambda>h1. (True, None, h1)) (h_free dst h)
      else (case h_malloc alloc (src @ [NUL]) h of
          (None, h1) \<Rightarrow> Some (False, dst, h1)
        | (Some a, h1) \<Rightarrow> map_option (\<lambda>h2. (True, Some a, h2)) (h_free dst h1)))"

definition csu_get :: "nat option \<Rightarrow> heap \<Rightarrow> string option" where
  "csu_get p h = (if p = None then Some [] else csu_read p h)"

text \<open>The first occurrence of the needle decides; lengths are subtracted as unsigned numbers.\<close>

fun strstr :: "string \<Rightarrow> string \<Rightarrow> nat option" where
  "strstr hay needle =
     (if prefix needle hay then Some 0
      else (case hay of [] \<Rightarrow> None | c # cs \<Rightarrow> map_option Suc (strstr cs needle)))"

declare strstr.simps [simp del]

definition csu_endsWith :: "string \<Rightarrow> string \<Rightarrow> bool" where
  "csu_endsWith hay needle =
     (if hay = [] \<or> needle = [] then False
      else (case strstr hay needle of
          None \<Rightarrow> False
        | Some p \<Rightarrow> (word_of_nat p :: u32) = word_of_nat (length hay) - word_of_nat (length needle)))"

definition csu_startsWith :: "string \<Rightarrow> string \<Rightarrow> bool" where
  "csu_startsWith hay needle = (if hay = [] \<or> needle = [] then False else strstr hay needle = Some 0)"

definition csu_areEqual :: "string \<Rightarrow> string \<Rightarrow> bool" where
  "csu_areEqual a b = (if a = [] \<or> b = [] then False else a = b)"

section \<open>Bounded copies\<close>

text \<open>Into a block: the first \<open>src_len\<close> characters at most, or the whole string.\<close>

definition csu_copy_len :: "char list \<Rightarrow> nat \<Rightarrow> string \<Rightarrow> nat \<Rightarrow> char list option" where
  "csu_copy_len dst dst_size src src_len =
     (if src_len \<ge> dst_size then None
      else if src_len \<ge> length src then mem_copy dst 0 (src @ [NUL])
      else mem_copy dst 0 (take src_len src @ [NUL]))"

definition csu_copy_size :: "char list \<Rightarrow> nat \<Rightarrow> string \<Rightarrow> char list option" where
  "csu_copy_size dst dst_size src = (if length src \<ge> dst_size then None else mem_copy dst 0 (src @ [NUL]))"

definition csu_copy_arr :: "char list \<Rightarrow> string \<Rightarrow> char list option" where
  "csu_copy_arr dst src = csu_copy_size dst (length dst) src"

section \<open>The class\<close>

text \<open>The allocator: when there is no new block, reallocating frees the old one.\<close>

definition am_allocate :: "(nat \<Rightarrow> bool) \<Rightarrow> char list \<Rightarrow> heap \<Rightarrow> nat option \<times> heap" where
  "am_allocate alloc m h = h_malloc alloc m h"

definition am_deallocate :: "nat option \<Rightarrow> heap \<Rightarrow> heap option" where
  "am_deallocate p h = h_free p h"

definition am_reallocate :: "(nat \<Rightarrow> bool) \<Rightarrow> nat option \<Rightarrow> char list \<Rightarrow> heap \<Rightarrow> (nat option \<times> heap) option" where
  "am_reallocate alloc old m h =
     (case h_malloc alloc m h of (p, h1) \<Rightarrow> map_option (Pair p) (if p = None then am_deallocate old h1 else h_free old h1))"

text \<open>The assignment of the class: the pointer is only set when there is a new block.\<close>

definition csut_csu_assign :: "bool \<Rightarrow> (nat \<Rightarrow> bool) \<Rightarrow> nat option \<Rightarrow> string \<Rightarrow> heap \<Rightarrow> (bool \<times> nat option \<times> heap) option" where
  "csut_csu_assign hasRealloc alloc dst src h =
     (if dst \<noteq> None \<and> csu_read dst h = None then None
      else if dst \<noteq> None \<and> csu_read dst h = Some src then Some (True, dst, h)
      else if length src + 1 = 1 then map_option (\<lambda>h1. (True, None, h1)) (am_deallocate dst h)
      else if hasRealloc then do {
        (p, h1) \<leftarrow> am_reallocate alloc dst (src @ [NUL]) h;
        (case p of Some a \<Rightarrow> Some (True, Some a, h1) | None \<Rightarrow> Some (False, dst, h1)) }
      else do {
        h1 \<leftarrow> am_deallocate dst h;
        (case am_allocate alloc (src @ [NUL]) h1 of (p, h2) \<Rightarrow> Some (p \<noteq> None, p, h2)) })"

text \<open>Objects by name, each with its pointer.\<close>

record csu_world =
  cw_heap :: heap
  cw_obj :: "nat \<Rightarrow> nat option option"

datatype csu_op =
    NewEmpty nat | NewStr nat string | NewPart nat string nat | NewCopy nat nat | NewMove nat nat
  | Assign nat string | MoveAssign nat nat | Delete nat

definition set_obj :: "nat \<Rightarrow> nat option \<Rightarrow> heap \<Rightarrow> csu_world \<Rightarrow> csu_world" where
  "set_obj x p h w = w\<lparr>cw_heap := h, cw_obj := (cw_obj w)(x := Some p)\<rparr>"

definition csut_assign :: "(nat \<Rightarrow> bool) \<Rightarrow> nat \<Rightarrow> nat option \<Rightarrow> string \<Rightarrow> csu_world \<Rightarrow> (bool \<times> csu_world) option" where
  "csut_assign alloc x p src w = do {
     (ok, p', h) \<leftarrow> csut_csu_assign True alloc p src (cw_heap w);
     Some (ok, set_obj x p' h w) }"

definition csut_part :: "(nat \<Rightarrow> bool) \<Rightarrow> nat \<Rightarrow> string \<Rightarrow> nat \<Rightarrow> csu_world \<Rightarrow> (bool \<times> csu_world) option" where
  "csut_part alloc x s n w =
     (if n > length s + 1 then None
      else (case am_allocate alloc (take n (s @ [NUL]) @ [NUL]) (cw_heap w) of
          (None, h) \<Rightarrow> None
        | (p, h) \<Rightarrow> Some (True, set_obj x p h w)))"

definition csut_copy :: "(nat \<Rightarrow> bool) \<Rightarrow> nat \<Rightarrow> nat \<Rightarrow> csu_world \<Rightarrow> (bool \<times> csu_world) option" where
  "csut_copy alloc x y w = do {
     q \<leftarrow> cw_obj w y;
     s \<leftarrow> csu_read q (cw_heap w);
     csut_assign alloc x None s w }"

definition csut_move :: "nat \<Rightarrow> nat \<Rightarrow> csu_world \<Rightarrow> (bool \<times> csu_world) option" where
  "csut_move x y w = do {
     q \<leftarrow> cw_obj w y;
     Some (True, w\<lparr>cw_obj := (cw_obj w)(x := Some q, y := Some None)\<rparr>) }"

definition csut_move_assign :: "nat \<Rightarrow> nat \<Rightarrow> csu_world \<Rightarrow> (bool \<times> csu_world) option" where
  "csut_move_assign x y w = (if x = y then Some (True, w) else csut_move x y w)"

definition csut_delete :: "nat \<Rightarrow> csu_world \<Rightarrow> (bool \<times> csu_world) option" where
  "csut_delete x w = do {
     p \<leftarrow> cw_obj w x;
     h \<leftarrow> am_deallocate p (cw_heap w);
     Some (True, w\<lparr>cw_heap := h, cw_obj := (cw_obj w)(x := None)\<rparr>) }"

fun csu_exec :: "(nat \<Rightarrow> bool) \<Rightarrow> csu_op \<Rightarrow> csu_world \<Rightarrow> (bool \<times> csu_world) option" where
  "csu_exec alloc (NewEmpty x) w = Some (True, set_obj x None (cw_heap w) w)"
| "csu_exec alloc (NewStr x s) w = csut_assign alloc x None s w"
| "csu_exec alloc (NewPart x s n) w = csut_part alloc x s n w"
| "csu_exec alloc (NewCopy x y) w = csut_copy alloc x y w"
| "csu_exec alloc (NewMove x y) w = csut_move x y w"
| "csu_exec alloc (Assign x s) w = do { p \<leftarrow> cw_obj w x; csut_assign alloc x p s w }"
| "csu_exec alloc (MoveAssign x y) w = csut_move_assign x y w"
| "csu_exec alloc (Delete x) w = csut_delete x w"

definition csut_eq :: "csu_world \<Rightarrow> nat \<Rightarrow> nat \<Rightarrow> bool option" where
  "csut_eq w x y = do {
     p \<leftarrow> cw_obj w x;
     q \<leftarrow> cw_obj w y;
     if p = None \<or> q = None then Some (p = q)
     else do { s \<leftarrow> csu_read p (cw_heap w); t \<leftarrow> csu_read q (cw_heap w); Some (s = t) } }"

definition csut_ptr :: "csu_world \<Rightarrow> nat \<Rightarrow> string option" where
  "csut_ptr w x = do { p \<leftarrow> cw_obj w x; csu_get p (cw_heap w) }"

end
