(* ===== verification/CStringProps.thy ===== *)
theory CStringProps
  imports CString
begin

text \<open>Owned strings behave as string variables, and nothing leaks.\<close>

text \<open>Every block has exactly one owner, and every pointer a block.\<close>

definition csu_inv :: "csu_world \<Rightarrow> bool" where
  "csu_inv w \<longleftrightarrow> (\<forall>a \<ge> hp_next (cw_heap w). hp_blocks (cw_heap w) a = None) \<and>
     (\<forall>x y a. cw_obj w x = Some (Some a) \<longrightarrow> cw_obj w y = Some (Some a) \<longrightarrow> x = y) \<and>
     (\<forall>a. hp_blocks (cw_heap w) a \<noteq> None \<longleftrightarrow> (\<exists>x. cw_obj w x = Some (Some a)))"

text \<open>The objects an operation needs and the strings it may get.\<close>

fun csu_op_ok :: "csu_world \<Rightarrow> csu_op \<Rightarrow> bool" where
  "csu_op_ok w (NewEmpty x) \<longleftrightarrow> cw_obj w x = None"
| "csu_op_ok w (NewStr x s) \<longleftrightarrow> cw_obj w x = None \<and> no_nul s"
| "csu_op_ok w (NewPart x s n) \<longleftrightarrow> cw_obj w x = None \<and> no_nul s"
| "csu_op_ok w (NewCopy x y) \<longleftrightarrow> cw_obj w x = None"
| "csu_op_ok w (NewMove x y) \<longleftrightarrow> cw_obj w x = None"
| "csu_op_ok w (Assign x s) \<longleftrightarrow> no_nul s"
| "csu_op_ok w (MoveAssign x y) \<longleftrightarrow> x = y \<or> cw_obj w x = Some None"
| "csu_op_ok w (Delete x) \<longleftrightarrow> True"

fun csu_spec :: "csu_op \<Rightarrow> (nat \<Rightarrow> string option) \<Rightarrow> nat \<Rightarrow> string option" where
  "csu_spec (NewEmpty x) t = t(x := Some [])"
| "csu_spec (NewStr x s) t = t(x := Some s)"
| "csu_spec (NewPart x s n) t = t(x := Some (take n s))"
| "csu_spec (NewCopy x y) t = t(x := t y)"
| "csu_spec (NewMove x y) t = t(x := t y, y := Some [])"
| "csu_spec (Assign x s) t = t(x := Some s)"
| "csu_spec (MoveAssign x y) t = (if x = y then t else t(x := t y, y := Some []))"
| "csu_spec (Delete x) t = t(x := None)"

text \<open>An object whose pointer \<open>p\<close> is set aside, that gets the block \<open>m\<close> instead, or none.\<close>

lemma owner_upd: "(\<exists>y. (f(x := v)) y = c) \<longleftrightarrow> v = c \<or> (\<exists>y. y \<noteq> x \<and> f y = c)"
proof
  assume "\<exists>y. (f(x := v)) y = c"
  then obtain y where "(f(x := v)) y = c" by (rule exE)
  then show "v = c \<or> (\<exists>y. y \<noteq> x \<and> f y = c)" by (cases "y = x") auto
next
  assume "v = c \<or> (\<exists>y. y \<noteq> x \<and> f y = c)"
  then show "\<exists>y. (f(x := v)) y = c"
  proof
    assume "v = c" then show ?thesis by (intro exI [of _ x]) simp
  next
    assume "\<exists>y. y \<noteq> x \<and> f y = c"
    then obtain y where "y \<noteq> x \<and> f y = c" by (rule exE)
    then show ?thesis by (intro exI [of _ y]) simp
  qed
qed

lemma owner_same: "(\<exists>y. f y = c) \<longleftrightarrow> f x = c \<or> (\<exists>y. y \<noteq> x \<and> f y = c)"
  using owner_upd [of f x "f x" c] by simp

lemma inv_replace:
  assumes inv: "csu_inv w" and p: "cw_obj w x = Some p \<or> cw_obj w x = None \<and> p = None"
    and free: "h_free p (\<lparr>hp_blocks = (hp_blocks (cw_heap w))(hp_next (cw_heap w) := Some m), hp_next = Suc (hp_next (cw_heap w))\<rparr>) = Some h"
  shows "csu_inv (set_obj x (Some (hp_next (cw_heap w))) h w) \<and> csut_ptr (set_obj x (Some (hp_next (cw_heap w))) h w) = (csut_ptr w)(x := Some (c_str m))"
proof -
  let ?n = "hp_next (cw_heap w)" let ?b = "hp_blocks (cw_heap w)"
  have fresh: "?b a = None" if "?n \<le> a" for a using inv that by (simp add: csu_inv_def)
  have own: "?b a \<noteq> None \<longleftrightarrow> (\<exists>x. cw_obj w x = Some (Some a))" for a using inv by (simp add: csu_inv_def)
  have uniq: "cw_obj w x = Some (Some a) \<Longrightarrow> cw_obj w y = Some (Some a) \<Longrightarrow> x = y" for x y a using inv by (simp add: csu_inv_def)
  have lt: "a < ?n" if "cw_obj w y = Some (Some a)" for y a using own [of a] fresh [of a] that by (cases "?n \<le> a") auto
  have h: "hp_next h = Suc ?n" "hp_blocks h = (case p of None \<Rightarrow> ?b(?n := Some m) | Some a \<Rightarrow> ?b(?n := Some m, a := None))"
    using free by (auto simp: h_free_def split: option.splits if_splits)
  have pn: "p \<noteq> Some ?n" using p lt by auto
  have hb: "hp_blocks h a = (if a = ?n then Some m else if p = Some a then None else ?b a)" for a
    using h(2) pn by (auto split: option.split)
  let ?w = "set_obj x (Some ?n) h w"
  have "csu_inv ?w"
    unfolding csu_inv_def
  proof (intro conjI allI impI)
    show "hp_blocks (cw_heap ?w) a = None" if "hp_next (cw_heap ?w) \<le> a" for a
      using that h(1) fresh [of a] by (simp add: set_obj_def hb)
    show "y = z" if "cw_obj ?w y = Some (Some a)" "cw_obj ?w z = Some (Some a)" for y z a
      using that uniq [of y a z] lt [of y a] lt [of z a] by (auto simp: set_obj_def split: if_splits)
    show "hp_blocks (cw_heap ?w) a \<noteq> None \<longleftrightarrow> (\<exists>y. cw_obj ?w y = Some (Some a))" for a
    proof (cases "a = ?n \<or> p = Some a")
      case True
      then show ?thesis
      proof
        assume "a = ?n"
        then show ?thesis by (simp add: set_obj_def hb owner_upd del: fun_upd_apply)
      next
        assume a: "p = Some a"
        then have "cw_obj w x = Some (Some a)" using p by simp
        then have "\<not> (\<exists>y. y \<noteq> x \<and> cw_obj w y = Some (Some a))" using uniq [of x a] by blast
        then show ?thesis using a pn by (auto simp: set_obj_def hb owner_upd)
      qed
    next
      case False
      then have "cw_obj w x \<noteq> Some (Some a)" using p by auto
      then have "hp_blocks (cw_heap w) a \<noteq> None \<longleftrightarrow> (\<exists>y. y \<noteq> x \<and> cw_obj w y = Some (Some a))"
        using own [of a] owner_same [of "cw_obj w" "Some (Some a)" x] by simp
      then show ?thesis using False by (simp add: set_obj_def hb owner_upd del: fun_upd_apply)
    qed
  qed
  moreover have "csut_ptr ?w y = ((csut_ptr w)(x := Some (c_str m))) y" for y
  proof (cases "y = x")
    case True
    then show ?thesis by (simp add: csut_ptr_def set_obj_def csu_get_def csu_read_def hb)
  next
    case False
    have "hp_blocks h a = ?b a" if "cw_obj w y = Some (Some a)" for a
      using that lt [of y a] uniq [of y a x] p False by (auto simp: hb)
    then show ?thesis using False by (cases "cw_obj w y") (auto simp: csut_ptr_def set_obj_def csu_get_def csu_read_def)
  qed
  ultimately show ?thesis by auto
qed

lemma inv_drop:
  assumes inv: "csu_inv w" and p: "cw_obj w x = Some p \<or> cw_obj w x = None \<and> p = None" and free: "h_free p (cw_heap w) = Some h" and q: "q = None \<or> q = Some None"
  shows "csu_inv (w\<lparr>cw_heap := h, cw_obj := (cw_obj w)(x := q)\<rparr>) \<and> csut_ptr (w\<lparr>cw_heap := h, cw_obj := (cw_obj w)(x := q)\<rparr>) = (csut_ptr w)(x := map_option (\<lambda>_. []) q)"
proof -
  let ?b = "hp_blocks (cw_heap w)" let ?w = "w\<lparr>cw_heap := h, cw_obj := (cw_obj w)(x := q)\<rparr>"
  have own: "?b a \<noteq> None \<longleftrightarrow> (\<exists>x. cw_obj w x = Some (Some a))" for a using inv by (simp add: csu_inv_def)
  have uniq: "cw_obj w x = Some (Some a) \<Longrightarrow> cw_obj w y = Some (Some a) \<Longrightarrow> x = y" for x y a using inv by (simp add: csu_inv_def)
  have h: "hp_next h = hp_next (cw_heap w)" "\<And>a. hp_blocks h a = (if p = Some a then None else ?b a)"
    using free by (auto simp: h_free_def split: option.splits if_splits)
  have "csu_inv ?w"
    unfolding csu_inv_def
  proof (intro conjI allI impI)
    show "hp_blocks (cw_heap ?w) a = None" if "hp_next (cw_heap ?w) \<le> a" for a
      using that h inv by (simp add: csu_inv_def)
    show "y = z" if "cw_obj ?w y = Some (Some a)" "cw_obj ?w z = Some (Some a)" for y z a
    proof -
      have "y \<noteq> x" "z \<noteq> x" using that q by auto
      then show ?thesis using that uniq [of y a z] by simp
    qed
    show "hp_blocks (cw_heap ?w) a \<noteq> None \<longleftrightarrow> (\<exists>y. cw_obj ?w y = Some (Some a))" for a
    proof (cases "p = Some a")
      case True
      then have "cw_obj w x = Some (Some a)" using p by simp
      then have "\<not> (\<exists>y. y \<noteq> x \<and> cw_obj w y = Some (Some a))" using uniq [of x a] by blast
      moreover have "q \<noteq> Some (Some a)" using q by auto
      moreover have "hp_blocks h a = None" using True by (simp add: h)
      ultimately show ?thesis by (simp add: owner_upd del: fun_upd_apply)
    next
      case False
      then have "cw_obj w x \<noteq> Some (Some a)" using p by auto
      then have "hp_blocks h a \<noteq> None \<longleftrightarrow> (\<exists>y. y \<noteq> x \<and> cw_obj w y = Some (Some a))"
        using own [of a] owner_same [of "cw_obj w" "Some (Some a)" x] False by (simp add: h)
      moreover have "q \<noteq> Some (Some a)" using q by auto
      ultimately show ?thesis by (simp add: owner_upd del: fun_upd_apply)
    qed
  qed
  moreover have "csut_ptr ?w y = ((csut_ptr w)(x := map_option (\<lambda>_. []) q)) y" for y
  proof (cases "y = x")
    case True
    then show ?thesis using q by (auto simp: csut_ptr_def csu_get_def)
  next
    case False
    have "hp_blocks h a = ?b a" if "cw_obj w y = Some (Some a)" for a
      using that uniq [of y a x] p False by (auto simp: h)
    then show ?thesis using False by (cases "cw_obj w y") (auto simp: csut_ptr_def csu_get_def csu_read_def)
  qed
  ultimately show ?thesis by auto
qed

lemma inv_same: "cw_obj w x = Some p \<Longrightarrow> set_obj x p (cw_heap w) w = w"
  by (simp add: set_obj_def fun_upd_idem)

lemma assign_ok:
  assumes inv: "csu_inv w" and p: "cw_obj w x = Some p \<or> cw_obj w x = None \<and> p = None" and s: "no_nul s"
    and r: "csut_assign alloc x p s w = Some (True, w')"
  shows "csu_inv w' \<and> csut_ptr w' = (csut_ptr w)(x := Some s)"
proof -
  obtain p' h where a: "csut_csu_assign True alloc p s (cw_heap w) = Some (True, p', h)" "w' = set_obj x p' h w"
    using r by (auto simp: csut_assign_def split: bind_splits)
  consider (same) "p \<noteq> None" "csu_read p (cw_heap w) = Some s" "p' = p" "h = cw_heap w"
    | (empty) "s = []" "p' = None" "h_free p (cw_heap w) = Some h"
    | (new) "p' = Some (hp_next (cw_heap w))" "h_free p \<lparr>hp_blocks = (hp_blocks (cw_heap w))(hp_next (cw_heap w) := Some (s @ [NUL])), hp_next = Suc (hp_next (cw_heap w))\<rparr> = Some h"
  proof (cases "p \<noteq> None \<and> csu_read p (cw_heap w) = Some s")
    case True
    then have "csut_csu_assign True alloc p s (cw_heap w) = Some (True, p, cw_heap w)" by (simp add: csut_csu_assign_def)
    then have "p' = p" "h = cw_heap w" using a(1) by auto
    then show ?thesis using True by (intro same) simp_all
  next
    case False
    then have b: "\<not> (p \<noteq> None \<and> csu_read p (cw_heap w) = None)" using a(1) by (auto simp: csut_csu_assign_def split: if_splits)
    show ?thesis
    proof (cases "s = []")
      case True
      then have "csut_csu_assign True alloc p s (cw_heap w) = map_option (\<lambda>h. (True, None, h)) (h_free p (cw_heap w))"
        using b False by (cases p) (auto simp: csut_csu_assign_def am_deallocate_def)
      then have "p' = None" "h_free p (cw_heap w) = Some h" using a(1) by (cases "h_free p (cw_heap w)"; simp)+
      then show ?thesis using True by (intro empty) simp_all
    next
      case s: False
      have m: "alloc (Suc (length s))" using a(1) b False s
        by (cases "alloc (Suc (length s))") (auto simp: csut_csu_assign_def am_reallocate_def h_malloc_def split: if_splits bind_splits)
      let ?h1 = "\<lparr>hp_blocks = (hp_blocks (cw_heap w))(hp_next (cw_heap w) := Some (s @ [NUL])), hp_next = Suc (hp_next (cw_heap w))\<rparr>"
      have "csut_csu_assign True alloc p s (cw_heap w) = map_option (\<lambda>h. (True, Some (hp_next (cw_heap w)), h)) (h_free p ?h1)"
        using b False s m by (cases p; cases "h_free p ?h1") (auto simp: csut_csu_assign_def am_reallocate_def h_malloc_def)
      then have "p' = Some (hp_next (cw_heap w))" "h_free p ?h1 = Some h" using a(1) by (cases "h_free p ?h1"; simp)+
      then show ?thesis by (rule new)
    qed
  qed
  then show ?thesis
  proof cases
    case same
    then have x: "cw_obj w x = Some p" using p by auto
    then have "w' = w" using same a(2) inv_same [OF x] by simp
    moreover have "csut_ptr w x = Some s" using x same(1,2) by (cases p) (simp_all add: csut_ptr_def csu_get_def)
    ultimately show ?thesis using inv by (simp add: fun_upd_idem)
  next
    case empty
    then show ?thesis using inv_drop [OF inv p empty(3), of "Some None"] a(2) by (simp add: set_obj_def)
  next
    case new
    then show ?thesis using inv_replace [OF inv p new(2)] a(2) s by (simp add: c_str_append_nul)
  qed
qed

lemma move_ok:
  assumes inv: "csu_inv w" and x: "cw_obj w x = None \<or> cw_obj w x = Some None" and r: "csut_move x y w = Some (True, w')" and ne: "x \<noteq> y"
  shows "csu_inv w' \<and> csut_ptr w' = (csut_ptr w)(x := csut_ptr w y, y := Some [])"
proof -
  obtain q where q: "cw_obj w y = Some q" "w' = w\<lparr>cw_obj := (cw_obj w)(x := Some q, y := Some None)\<rparr>"
    using r by (auto simp: csut_move_def split: bind_splits)
  have "csu_inv w'"
    unfolding csu_inv_def
  proof (intro conjI allI impI)
    show "hp_blocks (cw_heap w') a = None" if "hp_next (cw_heap w') \<le> a" for a using that inv q(2) by (simp add: csu_inv_def)
    show "u = v" if "cw_obj w' u = Some (Some a)" "cw_obj w' v = Some (Some a)" for u v a
    proof -
      have i: "cw_obj w (if u = x then y else u) = Some (Some a)" "cw_obj w (if v = x then y else v) = Some (Some a)" "u \<noteq> y" "v \<noteq> y"
        using that q by (auto split: if_splits)
      then have "(if u = x then y else u) = (if v = x then y else v)" using inv unfolding csu_inv_def by blast
      with i show ?thesis by (auto split: if_splits)
    qed
    show "hp_blocks (cw_heap w') a \<noteq> None \<longleftrightarrow> (\<exists>u. cw_obj w' u = Some (Some a))" for a
    proof -
      have "(\<exists>u. cw_obj w' u = Some (Some a)) \<longleftrightarrow> (\<exists>u. cw_obj w u = Some (Some a))"
      proof
        assume "\<exists>u. cw_obj w' u = Some (Some a)"
        then show "\<exists>u. cw_obj w u = Some (Some a)" using q by (auto split: if_splits)
      next
        assume "\<exists>u. cw_obj w u = Some (Some a)"
        then obtain u where "cw_obj w u = Some (Some a)" by blast
        then have "cw_obj w' (if u = y then x else u) = Some (Some a)" using q x ne by auto
        then show "\<exists>u. cw_obj w' u = Some (Some a)" by blast
      qed
      then show ?thesis using inv q(2) by (simp add: csu_inv_def)
    qed
  qed
  moreover have "csut_ptr w' = (csut_ptr w)(x := csut_ptr w y, y := Some [])"
    using q ne by (auto simp: csut_ptr_def csu_get_def fun_eq_iff)
  ultimately show ?thesis by simp
qed

text \<open>C23: Owned strings behave as string variables: an operation that succeeds changes the text of its objects
  as specified and no other text, keeps every block of the heap owned by exactly one object, so that nothing leaks and nothing is
  freed twice. A move assignment is allowed to an empty object only, since it does not free.\<close>

theorem csu_strings_owned:
  assumes "csu_inv w" "csu_op_ok w op" "csu_exec alloc op w = Some (True, w')"
  shows "csu_inv w' \<and> csut_ptr w' = csu_spec op (csut_ptr w)"
proof (cases op)
  case (NewEmpty x)
  then have "w' = w\<lparr>cw_heap := cw_heap w, cw_obj := (cw_obj w)(x := Some None)\<rparr>" using assms(3) by (simp add: set_obj_def)
  then show ?thesis using inv_drop [OF assms(1), of x None "cw_heap w" "Some None"] assms(2) NewEmpty by (simp add: h_free_def)
next
  case (NewStr x s)
  then show ?thesis using assign_ok [OF assms(1), of x None s alloc w'] assms(2,3) by simp
next
  case (NewPart x s n)
  then have "h_free None \<lparr>hp_blocks = (hp_blocks (cw_heap w))(hp_next (cw_heap w) := Some (take n (s @ [NUL]) @ [NUL])), hp_next = Suc (hp_next (cw_heap w))\<rparr> =
      Some \<lparr>hp_blocks = (hp_blocks (cw_heap w))(hp_next (cw_heap w) := Some (take n (s @ [NUL]) @ [NUL])), hp_next = Suc (hp_next (cw_heap w))\<rparr>"
    by (simp add: h_free_def)
  note i = inv_replace [OF assms(1) _ this, of x]
  have w': "n \<le> length s + 1" "w' = set_obj x (Some (hp_next (cw_heap w)))
      \<lparr>hp_blocks = (hp_blocks (cw_heap w))(hp_next (cw_heap w) := Some (take n (s @ [NUL]) @ [NUL])), hp_next = Suc (hp_next (cw_heap w))\<rparr> w"
    using assms(3) NewPart by (auto simp: csut_part_def am_allocate_def h_malloc_def split: if_splits)
  have "no_nul (take n s)" using assms(2) NewPart by (auto simp: no_nul_def dest: in_set_takeD)
  then have "c_str (take n (s @ [NUL]) @ [NUL]) = take n s"
    using c_str_append_nul [of "take n s" "take (n - length s) [NUL] @ [NUL]"] c_str_append_nul [of "take n s" "[]"] w'(1)
    by (cases "n \<le> length s") (auto simp: le_Suc_eq c_str_append_nul)
  then show ?thesis using i w' assms(2) NewPart by simp
next
  case (NewCopy x y)
  obtain q s where q: "cw_obj w y = Some q" "csu_read q (cw_heap w) = Some s" "csut_assign alloc x None s w = Some (True, w')"
    using assms(3) NewCopy by (auto simp: csut_copy_def split: bind_splits)
  then have s: "no_nul s" "csut_ptr w y = Some s" by (auto simp: csu_read_def csut_ptr_def csu_get_def split: option.splits)
  show ?thesis using assign_ok [OF assms(1) _ s(1) q(3)] s(2) assms(2) NewCopy by simp
next
  case (NewMove x y)
  have "x \<noteq> y" using assms(2,3) NewMove by (auto simp: csut_move_def)
  then show ?thesis using move_ok [OF assms(1), of x y w'] assms(2,3) NewMove by simp
next
  case (Assign x s)
  then show ?thesis using assign_ok [OF assms(1), of x _ s alloc w'] assms(2,3) by (auto split: bind_splits)
next
  case (MoveAssign x y)
  then show ?thesis using move_ok [OF assms(1), of x y w'] assms by (auto simp: csut_move_assign_def split: if_splits)
next
  case (Delete x)
  obtain p h where p: "cw_obj w x = Some p" "h_free p (cw_heap w) = Some h" "w' = w\<lparr>cw_heap := h, cw_obj := (cw_obj w)(x := None)\<rparr>"
    using assms(3) Delete by (auto simp: csut_delete_def am_deallocate_def split: bind_splits)
  then show ?thesis using inv_drop [OF assms(1) _ p(2), of x None] Delete by simp
qed

definition empty_world :: csu_world where
  "empty_world = \<lparr>cw_heap = \<lparr>hp_blocks = (\<lambda>a. None), hp_next = 0\<rparr>, cw_obj = (\<lambda>x. None)\<rparr>"

theorem csu_strings_owned_witness:
  "\<exists>w. csu_exec (\<lambda>n. True) (NewStr 1 ''abc'') empty_world = Some (True, w) \<and> csu_inv w \<and> csut_ptr w 1 = Some ''abc'' \<and> csut_ptr w 2 = None"
proof -
  have i: "csu_inv empty_world" by (simp add: csu_inv_def empty_world_def)
  obtain w where w: "csu_exec (\<lambda>n. True) (NewStr 1 ''abc'') empty_world = Some (True, w)"
    by (auto simp: csut_assign_def csut_csu_assign_def am_reallocate_def h_malloc_def h_free_def)
  have o: "csu_op_ok empty_world (NewStr 1 ''abc'')" by (simp add: empty_world_def no_nul_def)
  have e: "csut_ptr empty_world = (\<lambda>x. None)" by (simp add: empty_world_def csut_ptr_def fun_eq_iff)
  show ?thesis using csu_strings_owned [OF i o w] w by (intro exI [of _ w]) (simp add: e del: csu_exec.simps)
qed

section \<open>Failures and searches\<close>

text \<open>When there is no memory for the new text, the pointer keeps the address of a block that is free.\<close>

lemma csut_assign_failure_dangles:
  assumes "csut_csu_assign True alloc (Some a) s h = Some (False, p, h')"
  shows "p = Some a \<and> csu_read p h' = None"
proof -
  have n: "csu_read (Some a) h \<noteq> None" "csu_read (Some a) h \<noteq> Some s" "s \<noteq> []"
    using assms by (auto simp: csut_csu_assign_def am_deallocate_def split: if_splits)
  have "am_reallocate alloc (Some a) (s @ [NUL]) h \<bind>
      (\<lambda>(p, h1). case p of Some a' \<Rightarrow> Some (True, Some a', h1) | None \<Rightarrow> Some (False, Some a, h1)) = Some (False, p, h')"
    using assms n by (simp add: csut_csu_assign_def)
  then have "am_reallocate alloc (Some a) (s @ [NUL]) h = Some (None, h')" "p = Some a"
    by (auto split: bind_splits option.splits)
  moreover from this(1) have "am_deallocate (Some a) h = Some h'"
    by (auto simp: am_reallocate_def h_malloc_def split: if_splits)
  ultimately show ?thesis by (auto simp: am_deallocate_def h_free_def csu_read_def split: if_splits)
qed

lemma strstr_zero: "strstr hay needle = Some 0 \<longleftrightarrow> prefix needle hay"
  by (subst strstr.simps) (auto split: list.split)

lemma csu_startsWith_prefix: "csu_startsWith hay needle \<longleftrightarrow> hay \<noteq> [] \<and> needle \<noteq> [] \<and> prefix needle hay"
  by (simp add: csu_startsWith_def strstr_zero)

text \<open>A needle that occurs earlier as well is not found at the end.\<close>

lemma csu_endsWith_first_only: "\<not> csu_endsWith ''abcabc'' ''abc''"
  by code_simp

end
