(* ===== verification/Base64.thy ===== *)
theory Base64
  imports Prelude "HOL-Library.Monad_Syntax"
begin

text \<open>
  The base64 encoder and decoder (utils_misc/base64.c). A destination is null or a block of bytes; None stands for
  an access outside of a block or table. The result has the return code, the length written to \<open>olen\<close>, and the
  destination.
\<close>

section \<open>Tables\<close>

definition base64_enc_map :: "u8 list" where
  "base64_enc_map = map byte_of_char ''ABCDEFGHIJKLMNOPQRSTUVWXYZabcdefghijklmnopqrstuvwxyz0123456789+/''"

definition base64_dec_map :: "u8 list" where
  "base64_dec_map =
    [127, 127, 127, 127, 127, 127, 127, 127, 127, 127,
     127, 127, 127, 127, 127, 127, 127, 127, 127, 127,
     127, 127, 127, 127, 127, 127, 127, 127, 127, 127,
     127, 127, 127, 127, 127, 127, 127, 127, 127, 127,
     127, 127, 127,  62, 127, 127, 127,  63,  52,  53,
      54,  55,  56,  57,  58,  59,  60,  61, 127, 127,
     127,  64, 127, 127, 127,   0,   1,   2,   3,   4,
       5,   6,   7,   8,   9,  10,  11,  12,  13,  14,
      15,  16,  17,  18,  19,  20,  21,  22,  23,  24,
      25, 127, 127, 127, 127, 127, 127,  26,  27,  28,
      29,  30,  31,  32,  33,  34,  35,  36,  37,  38,
      39,  40,  41,  42,  43,  44,  45,  46,  47,  48,
      49,  50,  51, 127, 127, 127, 127, 127]"

definition ERR_BUFFER_TOO_SMALL :: int where "ERR_BUFFER_TOO_SMALL = - 0x2A"
definition ERR_INVALID_CHARACTER :: int where "ERR_INVALID_CHARACTER = - 0x2C"
definition SIZE_T_MAX :: nat where "SIZE_T_MAX = 2 ^ 64 - 1"

definition enc_at :: "u32 \<Rightarrow> u8" where
  "enc_at i = base64_enc_map ! unat i"

definition dec_at :: "u8 \<Rightarrow> u8 option" where
  "dec_at c = (if unat c < 128 then Some (base64_dec_map ! unat c) else None)"

section \<open>Encoding\<close>

text \<open>The bytes are read into int variables. Groups of three bytes, then the rest with its padding.\<close>

definition encode_group :: "u8 \<Rightarrow> u8 \<Rightarrow> u8 \<Rightarrow> u8 list" where
  "encode_group b1 b2 b3 =
     (let C1 = ucast b1 :: u32; C2 = ucast b2 :: u32; C3 = ucast b3 :: u32 in
      [enc_at (drop_bit 2 C1 AND 0x3F),
       enc_at ((push_bit 4 (C1 AND 3) + drop_bit 4 C2) AND 0x3F),
       enc_at ((push_bit 2 (C2 AND 15) + drop_bit 6 C3) AND 0x3F),
       enc_at (C3 AND 0x3F)])"

definition encode_tail :: "u8 list \<Rightarrow> u8 list" where
  "encode_tail src =
     (let C1 = ucast (src ! 0) :: u32; C2 = (if 1 < length src then ucast (src ! 1) else 0) :: u32 in
      [enc_at (drop_bit 2 C1 AND 0x3F),
       enc_at ((push_bit 4 (C1 AND 3) + drop_bit 4 C2) AND 0x3F),
       (if 1 < length src then enc_at (push_bit 2 (C2 AND 15) AND 0x3F) else 0x3D),
       0x3D])"

fun encode_loop :: "u8 list \<Rightarrow> nat \<Rightarrow> u8 list \<Rightarrow> (nat \<times> u8 list) option" where
  "encode_loop dst p (b1 # b2 # b3 # src) = do {
     m \<leftarrow> mem_copy dst p (encode_group b1 b2 b3);
     encode_loop m (p + 4) src }"
| "encode_loop dst p [] = Some (p, dst)"
| "encode_loop dst p src = do {
     m \<leftarrow> mem_copy dst p (encode_tail src);
     Some (p + 4, m) }"

definition mbedtls_base64_encode :: "u8 list option \<Rightarrow> nat \<Rightarrow> nat \<Rightarrow> u8 list \<Rightarrow> (int \<times> nat \<times> u8 list option) option" where
  "mbedtls_base64_encode dst dlen olen src =
     (let slen = length src; n = slen div 3 + (if slen mod 3 \<noteq> 0 then 1 else 0) in
      if slen = 0 then Some (0, 0, dst)
      else if n > (SIZE_T_MAX - 1) div 4 then Some (ERR_BUFFER_TOO_SMALL, SIZE_T_MAX, dst)
      else if dlen < n * 4 + 1 \<or> dst = None then Some (ERR_BUFFER_TOO_SMALL, n * 4 + 1, dst)
      else do {
        d \<leftarrow> dst;
        (p, m) \<leftarrow> encode_loop d 0 src;
        m' \<leftarrow> mem_put m p 0;
        Some (0, p, Some m') })"

section \<open>Decoding\<close>

text \<open>
  The first pass counts the characters and the padding. Spaces are skipped in front of a line end or the end only.
\<close>

lemma dropWhile_Cons_less: "c # cs = dropWhile P xs \<Longrightarrow> length cs < length xs"
  using length_dropWhile_le [of P xs] by (metis Suc_le_lessD length_Cons)

function decode_scan :: "u8 list \<Rightarrow> nat \<Rightarrow> nat \<Rightarrow> (nat \<times> nat) option" where
  "decode_scan src n j =
     (let r = dropWhile (\<lambda>c. c = 0x20) src; x = length src - length r in
      case r of
        [] \<Rightarrow> Some (n, j)
      | c # cs \<Rightarrow>
          if c = 0x0D \<and> cs \<noteq> [] \<and> hd cs = 0x0A then decode_scan cs n j
          else if c = 0x0A then decode_scan cs n j
          else if x \<noteq> 0 then None
          else (let j1 = (if c = 0x3D then j + 1 else j) in
            if c = 0x3D \<and> j1 > 2 then None
            else if c > 127 \<or> base64_dec_map ! unat c = 127 then None
            else if base64_dec_map ! unat c < 64 \<and> j1 \<noteq> 0 then None
            else decode_scan cs (n + 1) j1))"
  by pat_completeness auto
termination
  by (relation "measure (\<lambda>(src, n, j). length src)") (simp_all add: dropWhile_Cons_less)

declare decode_scan.simps [simp del]

definition decoded_size :: "nat \<Rightarrow> nat \<Rightarrow> nat" where
  "decoded_size n j = 6 * (n div 8) + (6 * (n mod 8) + 7) div 8 - j"

text \<open>The second pass: \<open>j\<close> counts down from 3 with the padding, \<open>x\<close> collects the bits.\<close>

definition store_if :: "bool \<Rightarrow> u8 \<Rightarrow> nat \<times> u8 list \<Rightarrow> (nat \<times> u8 list) option" where
  "store_if c b s = (case s of (p, d) \<Rightarrow> if c then map_option (Pair (p + 1)) (mem_put d p b) else Some (p, d))"

fun decode_loop :: "u8 list \<Rightarrow> u32 \<Rightarrow> nat \<Rightarrow> u32 \<Rightarrow> nat \<times> u8 list \<Rightarrow> (nat \<times> u8 list) option" where
  "decode_loop [] j n x s = Some s"
| "decode_loop (c # cs) j n x s =
     (if c = 0x0D \<or> c = 0x0A \<or> c = 0x20 then decode_loop cs j n x s
      else do {
        v \<leftarrow> dec_at c;
        let j1 = (if v = 64 then j - 1 else j);
        let x1 = (push_bit 6 x OR (ucast v AND 0x3F));
        if n + 1 = 4 then do {
          s1 \<leftarrow> store_if (j1 > 0) (ucast (drop_bit 16 x1)) s;
          s2 \<leftarrow> store_if (j1 > 1) (ucast (drop_bit 8 x1)) s1;
          s3 \<leftarrow> store_if (j1 > 2) (ucast x1) s2;
          decode_loop cs j1 0 x1 s3 }
        else decode_loop cs j1 (n + 1) x1 s })"

declare decode_loop.simps(2) [simp del]

definition mbedtls_base64_decode :: "u8 list option \<Rightarrow> nat \<Rightarrow> nat \<Rightarrow> u8 list \<Rightarrow> (int \<times> nat \<times> u8 list option) option" where
  "mbedtls_base64_decode dst dlen olen src =
     (case decode_scan src 0 0 of
        None \<Rightarrow> Some (ERR_INVALID_CHARACTER, olen, dst)
      | Some (n, j) \<Rightarrow>
          if n = 0 then Some (0, 0, dst)
          else if dst = None \<or> dlen < decoded_size n j then Some (ERR_BUFFER_TOO_SMALL, decoded_size n j, dst)
          else do {
            d \<leftarrow> dst;
            (p, m) \<leftarrow> decode_loop src 3 0 0 (0, d);
            Some (0, p, Some m) })"

end
