(* ===== verification/Base64Props.thy ===== *)
theory Base64Props
  imports Base64
begin

text \<open>The properties of the base64 encoder and decoder.\<close>

section \<open>Characters\<close>

definition plain_char :: "u8 \<Rightarrow> bool" where
  "plain_char c \<longleftrightarrow> c \<le> 127 \<and> c \<noteq> 0x0D \<and> c \<noteq> 0x0A \<and> c \<noteq> 0x20 \<and> c \<noteq> 0x3D \<and> base64_dec_map ! unat c < 64"

lemma base64_enc_map_bytes:
  "base64_enc_map =
    [65, 66, 67, 68, 69, 70, 71, 72, 73, 74, 75, 76, 77, 78, 79, 80, 81, 82, 83, 84, 85, 86, 87, 88, 89, 90, 97, 98, 99, 100, 101, 102, 103, 104, 105, 106, 107, 108, 109, 110, 111, 112, 113, 114, 115, 116, 117, 118, 119, 120, 121, 122, 48, 49, 50, 51, 52, 53, 54, 55, 56, 57, 43, 47]"
  by (simp add: base64_enc_map_def byte_of_char_def)

lemma table_check: "\<forall>i \<in> set [0..<64]. plain_char (base64_enc_map ! i) \<and> base64_dec_map ! unat (base64_enc_map ! i) = word_of_nat i"
  unfolding base64_enc_map_bytes by code_simp

lemma enc_map_plain: "i < 64 \<Longrightarrow> plain_char (base64_enc_map ! i)"
  using table_check by simp

lemma dec_enc_map: "i < 64 \<Longrightarrow> base64_dec_map ! unat (base64_enc_map ! i) = word_of_nat i"
  using table_check by simp

lemma and_63: "(x :: u32) AND 0x3F = take_bit 6 x"
  by (simp add: take_bit_eq_mask mask_numeral)

lemma sextet_less: "unat (take_bit 6 (x :: u32)) < 64"
  using take_bit_nat_less_exp [of 6 "unat x"] by (simp add: unsigned_take_bit_eq)

lemma enc_at_plain: "plain_char (enc_at (take_bit 6 x))"
  by (simp add: enc_at_def enc_map_plain sextet_less)

lemma dec_at_plain: "plain_char c \<Longrightarrow> dec_at c = Some (base64_dec_map ! unat c)"
  by (auto simp: dec_at_def plain_char_def word_le_nat_alt)

lemma dec_at_enc_at: "dec_at (enc_at (take_bit 6 x)) = Some (ucast (take_bit 6 x))"
proof -
  have "base64_dec_map ! unat (enc_at (take_bit 6 x)) = ucast (take_bit 6 x)"
    unfolding enc_at_def dec_enc_map [OF sextet_less] by (simp add: unsigned_ucast_eq of_nat_unat)
  then show ?thesis using dec_at_plain [OF enc_at_plain] by simp
qed

lemma sextet_back: "(ucast (ucast (take_bit 6 (x :: u32)) :: u8) AND 0x3F :: u32) = take_bit 6 x"
  unfolding and_63 by (rule bit_word_eqI) (auto simp: bit_simps)

section \<open>Groups\<close>

text \<open>The bits of the four characters of a group of three bytes.\<close>

lemma u8_bits: "bit (x :: u8) n \<Longrightarrow> n < 8"
  using bit_imp_le_length [of x n] by simp

lemma bits_2:
  "(push_bit 4 ((ucast b1 :: u32) AND 3) + drop_bit 4 (ucast (b2 :: u8))) AND 0x3F = take_bit 6 (push_bit 4 (take_bit 2 (ucast (b1 :: u8))) OR drop_bit 4 (ucast b2))"
proof -
  have "(ucast b1 :: u32) AND 3 = take_bit 2 (ucast b1)" by (simp add: take_bit_eq_mask mask_numeral)
  moreover have "push_bit 4 (take_bit 2 (ucast b1 :: u32)) + drop_bit 4 (ucast b2) = push_bit 4 (take_bit 2 (ucast b1)) OR drop_bit 4 (ucast b2)"
    by (rule disjunctive_add) (auto simp: bit_simps dest: u8_bits)
  ultimately show ?thesis by (simp add: and_63)
qed

lemma bits_3:
  "(push_bit 2 ((ucast b2 :: u32) AND 15) + drop_bit 6 (ucast (b3 :: u8))) AND 0x3F = take_bit 6 (push_bit 2 (take_bit 4 (ucast (b2 :: u8))) OR drop_bit 6 (ucast b3))"
proof -
  have "(ucast b2 :: u32) AND 15 = take_bit 4 (ucast b2)" by (simp add: take_bit_eq_mask mask_numeral)
  moreover have "push_bit 2 (take_bit 4 (ucast b2 :: u32)) + drop_bit 6 (ucast b3) = push_bit 2 (take_bit 4 (ucast b2)) OR drop_bit 6 (ucast b3)"
    by (rule disjunctive_add) (auto simp: bit_simps dest: u8_bits)
  ultimately show ?thesis by (simp add: and_63)
qed

definition sextets :: "u8 \<Rightarrow> u8 \<Rightarrow> u8 \<Rightarrow> u32 list" where
  "sextets b1 b2 b3 =
     [take_bit 6 (drop_bit 2 (ucast b1)), take_bit 6 (push_bit 4 (take_bit 2 (ucast b1)) OR drop_bit 4 (ucast b2)),
      take_bit 6 (push_bit 2 (take_bit 4 (ucast b2)) OR drop_bit 6 (ucast b3)), take_bit 6 (ucast b3)]"

lemma encode_group_sextets: "encode_group b1 b2 b3 = map enc_at (sextets b1 b2 b3)"
  unfolding encode_group_def Let_def bits_2 bits_3 sextets_def by (simp add: and_63)

definition collect :: "u32 \<Rightarrow> u32 list \<Rightarrow> u32" where
  "collect x ss = foldl (\<lambda>x s. push_bit 6 x OR s) x ss"

lemma collect_bytes:
  "ucast (drop_bit 16 (collect x (sextets b1 b2 b3))) = b1"
  "ucast (drop_bit 8 (collect x (sextets b1 b2 b3))) = b2"
  "ucast (collect x (sextets b1 b2 b3)) = b3"
proof -
  have s [simp]: "2 \<le> n \<Longrightarrow> Suc (Suc (n - 2)) = n" "\<not> n < 2 \<Longrightarrow> Suc (Suc (n - 2)) = n" for n :: nat by simp_all
  show "ucast (drop_bit 16 (collect x (sextets b1 b2 b3))) = b1"
    by (rule bit_word_eqI) (auto dest: u8_bits simp: collect_def sextets_def bit_simps)
  show "ucast (drop_bit 8 (collect x (sextets b1 b2 b3))) = b2"
    by (rule bit_word_eqI) (auto dest: u8_bits simp: collect_def sextets_def bit_simps)
  show "ucast (collect x (sextets b1 b2 b3)) = b3"
    by (rule bit_word_eqI) (auto dest: u8_bits simp: collect_def sextets_def bit_simps)
qed

section \<open>Encoding\<close>

text \<open>The text of a list of bytes.\<close>

fun b64_text :: "u8 list \<Rightarrow> u8 list" where
  "b64_text (b1 # b2 # b3 # src) = encode_group b1 b2 b3 @ b64_text src"
| "b64_text [] = []"
| "b64_text [b] = encode_tail [b]"
| "b64_text [b, c] = encode_tail [b, c]"

lemma length_encode_group [simp]: "length (encode_group b1 b2 b3) = 4"
  by (simp add: encode_group_def Let_def)

lemma length_encode_tail [simp]: "length (encode_tail src) = 4"
  by (simp add: encode_tail_def Let_def)

lemma length_b64_text: "length (b64_text src) = 4 * (length src div 3 + (if length src mod 3 \<noteq> 0 then 1 else 0))"
  by (induction src rule: b64_text.induct) (auto simp: div_add_self1)

lemma encode_loop_text:
  "p + length (b64_text src) \<le> length dst \<Longrightarrow>
    encode_loop dst p src = Some (p + length (b64_text src), take p dst @ b64_text src @ drop (p + length (b64_text src)) dst)"
proof (induction dst p src rule: encode_loop.induct)
  case (1 dst p b1 b2 b3 src)
  let ?m = "take p dst @ encode_group b1 b2 b3 @ drop (p + 4) dst"
  have m: "mem_copy dst p (encode_group b1 b2 b3) = Some ?m" using 1(2) by (simp add: mem_copy_def)
  have l: "p + 4 + length (b64_text src) \<le> length ?m" using 1(2) by simp
  have t: "take (p + 4) ?m = take p dst @ encode_group b1 b2 b3" using 1(2) by (simp add: min_def)
  have d: "drop (p + 4 + length (b64_text src)) ?m = drop (p + 4 + length (b64_text src)) dst"
    using 1(2) by (simp add: min_def add.commute add.left_commute)
  show ?case using 1(1) [OF m l] m t d by (simp add: add.assoc)
next
  case (2 dst p)
  then show ?case by simp
qed (simp_all add: mem_copy_def)

text \<open>The code of the last group.\<close>

lemma encode_tail_text:
  "encode_tail [b] = map enc_at (take 2 (sextets b 0 0)) @ [0x3D, 0x3D]"
  "encode_tail [b, c] = map enc_at (take 3 (sextets b c 0)) @ [0x3D]"
proof -
  have z: "(push_bit 2 ((ucast c :: u32) AND 15)) AND 0x3F = take_bit 6 (push_bit 2 (take_bit 4 (ucast (c :: u8))))" for c
    by (simp add: and_63) (simp add: take_bit_eq_mask mask_numeral ac_simps)
  show "encode_tail [b] = map enc_at (take 2 (sextets b 0 0)) @ [0x3D, 0x3D]"
    using bits_2 [of b 0] by (simp add: encode_tail_def Let_def sextets_def and_63)
  show "encode_tail [b, c] = map enc_at (take 3 (sextets b c 0)) @ [0x3D]"
    using bits_2 [of b c] z [of c] by (simp add: encode_tail_def Let_def sextets_def and_63)
qed

section \<open>Decoding a text\<close>

lemma scan_nil [simp]: "decode_scan [] n j = Some (n, j)"
  by (subst decode_scan.simps) simp

lemma scan_plain: "plain_char c \<Longrightarrow> decode_scan (c # cs) n 0 = decode_scan cs (n + 1) 0"
  by (subst decode_scan.simps) (auto simp: plain_char_def)

lemma scan_pad: "j < 2 \<Longrightarrow> decode_scan (0x3D # cs) n j = decode_scan cs (n + 1) (j + 1)"
  by (subst decode_scan.simps) (simp add: base64_dec_map_def)

lemma sextets_cases:
  obtains y1 y2 y3 y4 where "sextets b1 b2 b3 = [take_bit 6 y1, take_bit 6 y2, take_bit 6 y3, take_bit 6 y4]"
    "b3 = 0 \<longrightarrow> take_bit 6 y4 = 0" "b3 = 0 \<and> b2 = 0 \<longrightarrow> take_bit 6 y3 = 0"
  by (rule that [OF sextets_def]) simp_all

lemma scan_group: "decode_scan (encode_group b1 b2 b3 @ cs) n 0 = decode_scan cs (n + 4) 0"
proof -
  have n: "n + 4 = Suc (Suc (Suc (Suc n)))" by simp
  show ?thesis by (rule sextets_cases [of b1 b2 b3]) (simp add: encode_group_sextets scan_plain [OF enc_at_plain] n)
qed

lemma scan_text: "decode_scan (b64_text src) n 0 = Some (n + length (b64_text src), (3 - length src mod 3) mod 3)"
proof (induction src arbitrary: n rule: b64_text.induct)
  case (1 b1 b2 b3 src)
  then show ?case by (simp add: scan_group)
next
  case (3 v)
  then show ?case by (rule sextets_cases [of v 0 0]) (simp add: encode_tail_text scan_plain [OF enc_at_plain] scan_pad)
next
  case (4 v vb)
  then show ?case by (rule sextets_cases [of v vb 0]) (simp add: encode_tail_text scan_plain [OF enc_at_plain] scan_pad)
qed simp

lemma plain_not_blank: "plain_char c \<Longrightarrow> \<not> (c = 0x0D \<or> c = 0x0A \<or> c = 0x20)"
  by (auto simp: plain_char_def)

lemma sextet_not_64: "(ucast (take_bit 6 (y :: u32)) :: u8) \<noteq> 64"
proof
  assume "(ucast (take_bit 6 y) :: u8) = 64"
  then have "bit (ucast (take_bit 6 y) :: u8) 6 = bit (64 :: u8) 6" by simp
  then show False by (simp add: bit_simps)
qed

lemma loop_enc:
  "decode_loop (enc_at (take_bit 6 y) # cs) 3 n x s =
     (let x1 = push_bit 6 x OR take_bit 6 y in
      if n = 3 then do {
        s1 \<leftarrow> store_if True (ucast (drop_bit 16 x1)) s;
        s2 \<leftarrow> store_if True (ucast (drop_bit 8 x1)) s1;
        s3 \<leftarrow> store_if True (ucast x1) s2;
        decode_loop cs 3 0 x1 s3 }
      else decode_loop cs 3 (n + 1) x1 s)"
  using plain_not_blank [OF enc_at_plain [of y]]
  by (simp add: decode_loop.simps(2) dec_at_enc_at sextet_not_64 sextet_back Let_def word_less_nat_alt)

lemma loop_group:
  assumes "p + 3 \<le> length d"
  shows "decode_loop (encode_group b1 b2 b3 @ cs) 3 0 x (p, d) =
    decode_loop cs 3 0 (collect x (sextets b1 b2 b3)) (p + 3, take p d @ [b1, b2, b3] @ drop (p + 3) d)"
proof -
  have "d[p := b1, p + 1 := b2, p + 2 := b3] = take p d @ [b1, b2, b3] @ drop (p + 3) d"
    using assms by (intro nth_equalityI) (auto simp: nth_list_update nth_append nth_Cons' less_Suc_eq)
  then have d: "d[p := b1, Suc p := b2, Suc (Suc p) := b3] = take p d @ [b1, b2, b3] @ drop (p + 3) d" by simp
  show ?thesis
  proof (rule sextets_cases [of b1 b2 b3])
    fix y1 y2 y3 y4
    assume y: "sextets b1 b2 b3 = [take_bit 6 y1, take_bit 6 y2, take_bit 6 y3, take_bit 6 y4]"
    let ?x = "collect x (sextets b1 b2 b3)"
    have "decode_loop (encode_group b1 b2 b3 @ cs) 3 0 x (p, d) = do {
        s1 \<leftarrow> store_if True (ucast (drop_bit 16 ?x)) (p, d);
        s2 \<leftarrow> store_if True (ucast (drop_bit 8 ?x)) s1;
        s3 \<leftarrow> store_if True (ucast ?x) s2;
        decode_loop cs 3 0 ?x s3 }"
      by (simp add: encode_group_sextets y collect_def loop_enc Let_def)
    then show ?thesis using assms unfolding collect_bytes by (simp add: store_if_def d eval_nat_numeral)
  qed
qed

lemma dec_at_pad: "dec_at 0x3D = Some 64"
  by (simp add: dec_at_def base64_dec_map_def)

lemma loop_pad:
  "decode_loop (0x3D # cs) j n x s =
     (if n = 3 then do {
        s1 \<leftarrow> store_if (j - 1 > 0) (ucast (drop_bit 16 (push_bit 6 x))) s;
        s2 \<leftarrow> store_if (j - 1 > 1) (ucast (drop_bit 8 (push_bit 6 x))) s1;
        s3 \<leftarrow> store_if (j - 1 > 2) (ucast (push_bit 6 x)) s2;
        decode_loop cs (j - 1) 0 (push_bit 6 x) s3 }
      else decode_loop cs (j - 1) (n + 1) (push_bit 6 x) s)"
  by (simp add: decode_loop.simps(2) dec_at_pad Let_def)

text \<open>The bytes of a text, from a destination that can take them.\<close>

lemma loop_text:
  "p + length src \<le> length d \<Longrightarrow>
    decode_loop (b64_text src) 3 0 x (p, d) = Some (p + length src, take p d @ src @ drop (p + length src) d)"
proof (induction src arbitrary: p d x rule: b64_text.induct)
  case (1 b1 b2 b3 src)
  let ?d = "take p d @ [b1, b2, b3] @ drop (p + 3) d"
  have l: "p + 3 \<le> length d" "p + 3 + length src \<le> length ?d" using "1.prems" by simp_all
  have t: "take (p + 3) ?d = take p d @ [b1, b2, b3]" using l by (simp add: min_def)
  have r: "drop (p + 3 + length src) ?d = drop (p + 3 + length src) d"
    using l drop_append [of "p + 3 + length src" "take p d @ [b1, b2, b3]" "drop (p + 3) d"] by (simp add: min_def add.commute add.left_commute)
  show ?case using 1(1) [OF l(2)] loop_group [OF l(1)] t r by (simp add: numeral_3_eq_3)
next
  case 2
  then show ?case by simp
next
  case (3 b)
  then have d: "d[p := b] = take p d @ b # drop (Suc p) d" by (simp add: upd_conv_take_nth_drop)
  show ?case
  proof (rule sextets_cases [of b 0 0])
    fix y1 y2 y3 y4
    assume y: "sextets b 0 0 = [take_bit 6 y1, take_bit 6 y2, take_bit 6 y3, take_bit 6 y4]"
      "(0 :: u8) = 0 \<longrightarrow> take_bit 6 y4 = 0" "(0 :: u8) = 0 \<and> (0 :: u8) = 0 \<longrightarrow> take_bit 6 y3 = 0"
    have "decode_loop (encode_tail [b]) 3 0 x (p, d) =
        store_if True (ucast (drop_bit 16 (collect x (sextets b 0 0)))) (p, d)"
      using y by (simp add: encode_tail_text collect_def loop_enc loop_pad Let_def store_if_def)
    then show ?thesis using 3 unfolding collect_bytes by (simp add: store_if_def d)
  qed
next
  case (4 b c)
  then have d: "d[p := b, Suc p := c] = take p d @ b # c # drop (Suc (Suc p)) d"
    by (simp add: upd_conv_take_nth_drop)
  show ?case
  proof (rule sextets_cases [of b c 0])
    fix y1 y2 y3 y4
    assume y: "sextets b c 0 = [take_bit 6 y1, take_bit 6 y2, take_bit 6 y3, take_bit 6 y4]"
      "(0 :: u8) = 0 \<longrightarrow> take_bit 6 y4 = 0"
    have "decode_loop (encode_tail [b, c]) 3 0 x (p, d) = do {
        s \<leftarrow> store_if True (ucast (drop_bit 16 (collect x (sextets b c 0)))) (p, d);
        store_if True (ucast (drop_bit 8 (collect x (sextets b c 0)))) s }"
      using y by (simp add: encode_tail_text collect_def loop_enc loop_pad Let_def store_if_def)
    then show ?thesis using 4 unfolding collect_bytes by (simp add: store_if_def d)
  qed
qed

section \<open>Bounds of decoding\<close>

text \<open>What the first pass accepts: plain characters, then at most two characters of padding, among blanks.\<close>

definition blank :: "u8 \<Rightarrow> bool" where
  "blank c \<longleftrightarrow> c = 0x0D \<or> c = 0x0A \<or> c = 0x20"

definition sig_chars :: "u8 list \<Rightarrow> u8 list" where
  "sig_chars src = filter (\<lambda>c. \<not> blank c) src"

lemma sig_chars_simps [simp]:
  "sig_chars [] = []" "sig_chars (c # cs) = (if blank c then sig_chars cs else c # sig_chars cs)"
  by (simp_all add: sig_chars_def)

lemma sig_chars_spaces: "sig_chars (dropWhile (\<lambda>c. c = 0x20) src) = sig_chars src"
  by (induction src) (auto simp: blank_def)

lemma dec_table_check: "\<forall>i \<in> set [0..<128]. base64_dec_map ! i < 64 \<and> i \<notin> {13, 10, 32, 61} \<or> base64_dec_map ! i = 127 \<or> i = 61"
  by code_simp

lemma plain_char_table:
  assumes "\<not> c > (127 :: u8)" "base64_dec_map ! unat c \<noteq> 127" "c \<noteq> 0x3D"
  shows "plain_char c"
proof -
  have n: "unat c < 128" "unat c \<noteq> 61" using assms(1,3) by (simp_all add: word_less_nat_alt word_unat_eq_iff)
  then have "base64_dec_map ! unat c < 64 \<and> unat c \<notin> {13, 10, 32, 61}" using dec_table_check assms(2) by force
  then show ?thesis using assms(1) by (auto simp: plain_char_def word_unat_eq_iff not_less)
qed

lemma scan_sig:
  "decode_scan src n j = Some (n', j') \<Longrightarrow> j \<le> 2 \<Longrightarrow>
    \<exists>as. sig_chars src = as @ replicate (j' - j) 0x3D \<and> list_all plain_char as \<and> n' = n + length (sig_chars src) \<and> j \<le> j' \<and> j' \<le> 2 \<and> (0 < j \<longrightarrow> as = [])"
proof (induction "length src" arbitrary: src n j rule: less_induct)
  case less
  let ?r = "dropWhile (\<lambda>c. c = 0x20) src"
  have sig: "sig_chars src = sig_chars ?r" by (simp add: sig_chars_spaces)
  show ?case
  proof (cases ?r)
    case Nil
    then have "decode_scan src n j = Some (n, j)" by (subst decode_scan.simps) (simp only: Nil Let_def list.case)
    then show ?thesis using less.prems sig Nil by simp
  next
    case r: (Cons c cs)
    have step: "decode_scan src n j =
        (if c = 0x0D \<and> cs \<noteq> [] \<and> hd cs = 0x0A \<or> c = 0x0A then decode_scan cs n j
         else if length src \<noteq> length ?r then None
         else (let j1 = (if c = 0x3D then j + 1 else j) in
           if c = 0x3D \<and> j1 > 2 \<or> c > 127 \<or> base64_dec_map ! unat c = 127 \<or> base64_dec_map ! unat c < 64 \<and> j1 \<noteq> 0 then None
           else decode_scan cs (n + 1) j1))"
      using r length_dropWhile_le [of "\<lambda>c. c = 0x20" src] by (subst decode_scan.simps) (simp add: Let_def)
    have l: "length cs < length src" by (rule dropWhile_Cons_less [OF r [symmetric]])
    consider (skip) "blank c" "decode_scan cs n j = Some (n', j')" | (pad) "c = 0x3D" "j + 1 \<le> 2" "decode_scan cs (n + 1) (j + 1) = Some (n', j')"
      | (plain) "plain_char c" "j = 0" "decode_scan cs (n + 1) 0 = Some (n', j')"
    proof (cases "c = 0x0D \<and> cs \<noteq> [] \<and> hd cs = 0x0A \<or> c = 0x0A")
      case True
      then have "decode_scan cs n j = Some (n', j')" "blank c" using step less.prems(1) by (auto simp: blank_def)
      then show ?thesis by (rule skip [rotated])
    next
      case no: False
      show ?thesis
      proof (cases "c = 0x3D")
        case True
        then have "j + 1 \<le> 2" "decode_scan cs (n + 1) (j + 1) = Some (n', j')"
          using no step less.prems(1) by (auto simp: Let_def split: if_splits)
        with True show ?thesis by (rule pad)
      next
        case False
        then have c: "\<not> c > 127" "base64_dec_map ! unat c \<noteq> 127" "base64_dec_map ! unat c < 64 \<longrightarrow> j = 0" "decode_scan cs (n + 1) j = Some (n', j')"
          using no step less.prems(1) by (auto simp: Let_def split: if_splits)
        have "plain_char c" using c(1,2) False by (rule plain_char_table)
        moreover from this have "j = 0" using c(3) by (simp add: plain_char_def)
        ultimately show ?thesis using c(4) by (intro plain) simp_all
      qed
    qed
    then show ?thesis
    proof cases
      case skip
      from less.hyps [OF l skip(2) less.prems(2)] show ?thesis using skip(1) r by (simp add: sig)
    next
      case pad
      from less.hyps [OF l pad(3,2)] have "sig_chars cs = replicate (j' - (j + 1)) 0x3D" "n' = n + 1 + length (sig_chars cs)" "j + 1 \<le> j'" "j' \<le> 2"
        by auto
      moreover from this(3) have "replicate (j' - j) (0x3D :: u8) = 0x3D # replicate (j' - (j + 1)) 0x3D"
        by (simp flip: replicate_Suc add: Suc_diff_Suc)
      ultimately show ?thesis using pad(1) r by (intro exI [of _ "[]"]) (simp add: sig blank_def)
    next
      case plain
      from less.hyps [OF l plain(3)] obtain as where "sig_chars cs = as @ replicate j' 0x3D" "list_all plain_char as"
        "n' = n + 1 + length (sig_chars cs)" "j' \<le> 2" by auto
      then show ?thesis using plain(1,2) plain_not_blank [OF plain(1)] r
        by (intro exI [of _ "c # as"]) (simp add: sig blank_def)
    qed
  qed
qed

lemma loop_sig: "decode_loop src = decode_loop (sig_chars src)"
proof (induction src)
  case (Cons c src)
  show ?case
    by (intro ext) (simp add: Cons.IH [symmetric] blank_def decode_loop.simps(2) Let_def cong: if_cong)
qed simp

text \<open>The destination and the position keep to \<open>end\<close> and what is behind it stays.\<close>

definition within :: "nat \<Rightarrow> u8 list \<Rightarrow> nat \<times> u8 list \<Rightarrow> bool" where
  "within e d s \<longleftrightarrow> fst s \<le> e \<and> length (snd s) = length d \<and> drop (fst s) (snd s) = drop (fst s) d"

lemma store_if_False [simp]: "store_if False b s = Some s"
  by (cases s) (simp add: store_if_def)

lemma store_within:
  assumes "within e d s" "c \<longrightarrow> fst s < e" "e \<le> length d"
  shows "\<exists>s'. store_if c b s = Some s' \<and> within e d s' \<and> fst s' = fst s + (if c then 1 else 0)"
proof (cases c)
  case True
  obtain p m where s: "s = (p, m)" by (cases s)
  have "drop (Suc p) (m[p := b]) = drop (Suc p) d"
    using assms(1) s by (simp add: within_def) (metis drop_Suc tl_drop)
  then show ?thesis using assms True s by (simp add: store_if_def within_def)
qed (use assms in \<open>cases s; simp add: store_if_def\<close>)

lemma store3_within:
  assumes "within e d s" "e \<le> length d" "fst s + (if c1 then 1 else 0) + (if c2 then 1 else 0) + (if c3 then 1 else 0) \<le> e"
  shows "\<exists>s'. do { s1 \<leftarrow> store_if c1 b1 s; s2 \<leftarrow> store_if c2 b2 s1; s3 \<leftarrow> store_if c3 b3 s2; f s3 } = f s' \<and> within e d s' \<and>
    fst s' = fst s + (if c1 then 1 else 0) + (if c2 then 1 else 0) + (if c3 then 1 else 0)"
proof -
  obtain s1 where 1: "store_if c1 b1 s = Some s1" "within e d s1" "fst s1 = fst s + (if c1 then 1 else 0)"
    using store_within [OF assms(1) _ assms(2), of c1 b1] assms(3) by (auto split: if_splits)
  obtain s2 where 2: "store_if c2 b2 s1 = Some s2" "within e d s2" "fst s2 = fst s1 + (if c2 then 1 else 0)"
    using store_within [OF 1(2) _ assms(2), of c2 b2] assms(3) 1(3) by (auto split: if_splits)
  obtain s3 where 3: "store_if c3 b3 s2 = Some s3" "within e d s3" "fst s3 = fst s2 + (if c3 then 1 else 0)"
    using store_within [OF 2(2) _ assms(2), of c3 b3] assms(3) 1(3) 2(3) by (auto split: if_splits)
  show ?thesis
  proof (intro exI [of _ s3] conjI)
    show "fst s3 = fst s + (if c1 then 1 else 0) + (if c2 then 1 else 0) + (if c3 then 1 else 0)" using 1(3) 2(3) 3(3) by simp
  qed (simp_all add: 1(1) 2(1) 3(1,2))
qed

lemma loop_plain:
  "list_all plain_char as \<Longrightarrow> within e d s \<Longrightarrow> e \<le> length d \<Longrightarrow> n < 4 \<Longrightarrow> fst s + 3 * ((n + length as) div 4) \<le> e \<Longrightarrow>
    \<exists>x' s'. decode_loop (as @ bs) 3 n x s = decode_loop bs 3 ((n + length as) mod 4) x' s' \<and> within e d s' \<and>
      fst s' = fst s + 3 * ((n + length as) div 4)"
proof (induction as arbitrary: n x s)
  case Nil
  then show ?case by (intro exI [of _ x] exI [of _ s]) simp
next
  case (Cons c as)
  let ?v = "base64_dec_map ! unat c" let ?x = "push_bit 6 x OR (ucast ?v AND 0x3F)"
  have c: "plain_char c" "list_all plain_char as" using Cons.prems(1) by simp_all
  then have v: "dec_at c = Some ?v" "?v \<noteq> 64" by (auto simp: dec_at_plain plain_char_def)
  have step: "decode_loop ((c # as) @ bs) 3 n x s =
      (if n = 3 then do {
        s1 \<leftarrow> store_if True (ucast (drop_bit 16 ?x)) s;
        s2 \<leftarrow> store_if True (ucast (drop_bit 8 ?x)) s1;
        s3 \<leftarrow> store_if True (ucast ?x) s2;
        decode_loop (as @ bs) 3 0 ?x s3 }
      else decode_loop (as @ bs) 3 (n + 1) ?x s)"
    using plain_not_blank [OF c(1)] v by (simp add: decode_loop.simps(2) Let_def word_less_nat_alt)
  show ?case
  proof (cases "n = 3")
    case True
    have "Suc (Suc (Suc (fst s))) \<le> e" using Cons.prems(5) True by (simp add: div_add_self1)
    then have "fst s + (if True then 1 else 0) + (if True then 1 else 0) + (if True then 1 else 0) \<le> e" by simp
    from store3_within [OF Cons.prems(2,3) this]
    have "\<exists>s'. decode_loop ((c # as) @ bs) 3 n x s = decode_loop (as @ bs) 3 0 ?x s' \<and> within e d s' \<and>
        fst s' = fst s + (if True then 1 else 0) + (if True then 1 else 0) + (if True then 1 else 0)"
      unfolding step if_P [OF True] .
    then obtain s' where s': "decode_loop ((c # as) @ bs) 3 n x s = decode_loop (as @ bs) 3 0 ?x s'" "within e d s'" "fst s' = fst s + 3"
      by (elim exE conjE) (rule that, assumption+, simp)
    have "fst s' + 3 * ((0 + length as) div 4) \<le> e" using Cons.prems(5) True s'(3) by (simp add: div_add_self1)
    from Cons.IH [OF c(2) s'(2) Cons.prems(3) _ this, of ?x] show ?thesis using s' True by (auto simp: div_add_self1 add.assoc)
  next
    case False
    then have "n + 1 < 4" "fst s + 3 * ((n + 1 + length as) div 4) \<le> e" using Cons.prems(4,5) by simp_all
    from Cons.IH [OF c(2) Cons.prems(2,3) this, of ?x] show ?thesis using step False by auto
  qed
qed

definition written :: "nat \<Rightarrow> nat \<Rightarrow> nat" where
  "written n j = (if n mod 4 = 2 \<and> j = 2 then 1 else if n mod 4 = 3 \<and> 0 < j then 2 else 0)"

lemma loop_pads_none: "n + k < 4 \<Longrightarrow> decode_loop (replicate k 0x3D) j n x s = Some s"
  by (induction k arbitrary: j n x) (simp_all add: loop_pad)

lemma loop_pads:
  assumes "within e d s" "e \<le> length d" "n < 4" "j \<le> 2" "fst s + written n j \<le> e"
  shows "\<exists>s'. decode_loop (replicate j 0x3D) 3 n x s = Some s' \<and> within e d s' \<and> fst s' = fst s + written n j"
proof -
  consider "n + j < 4" | (two) "n = 2" "j = 2" | (three) "n = 3" "0 < j" using assms(3,4) by linarith
  then show ?thesis
  proof cases
    case 1
    then have "written n j = 0" by (auto simp: written_def)
    then show ?thesis using assms(1) loop_pads_none [OF 1] by auto
  next
    case two
    obtain s' where "store_if True (ucast (drop_bit 16 (push_bit 12 x))) s = Some s'" "within e d s'" "fst s' = fst s + 1"
      using store_within [OF assms(1) _ assms(2), of True "ucast (drop_bit 16 (push_bit 12 x))"] assms(5) two by (auto simp: written_def)
    then show ?thesis unfolding two by (simp add: numeral_2_eq_2 loop_pad written_def)
  next
    case three
    then obtain k where k: "j = Suc k" "k < 4" using assms(4) by (cases j) auto
    obtain s1 where 1: "store_if True (ucast (drop_bit 16 (push_bit 6 x))) s = Some s1" "within e d s1" "fst s1 = fst s + 1"
      using store_within [OF assms(1) _ assms(2), of True "ucast (drop_bit 16 (push_bit 6 x))"] assms(5) three by (auto simp: written_def)
    obtain s2 where 2: "store_if True (ucast (drop_bit 8 (push_bit 6 x))) s1 = Some s2" "within e d s2" "fst s2 = fst s1 + 1"
      using store_within [OF 1(2) _ assms(2), of True "ucast (drop_bit 8 (push_bit 6 x))"] assms(5) three 1(3) by (auto simp: written_def)
    show ?thesis using 1 2 k(2) unfolding three k by (simp add: loop_pad loop_pads_none written_def)
  qed
qed

lemma written_le: "j \<le> 2 \<Longrightarrow> 3 * (n div 4) + written (n mod 4) j \<le> decoded_size (n + j) j"
proof -
  assume j: "j \<le> 2"
  obtain q r where n: "n = 8 * q + r" "r < 8" using mult_div_mod_eq [of 8 n] mod_less_divisor [of 8 n] by (metis zero_less_numeral)
  have f: "(8 * q + r) div 4 = 2 * q + r div 4" "(8 * q + r) mod 4 = r mod 4" "(8 * q + m) div 8 = q + m div 8"
    "(8 * q + m) mod 8 = m mod 8" for q r m :: nat by presburger+
  have e: "(8 * q + r) div 4 = 2 * q + r div 4" "(8 * q + r) mod 4 = r mod 4" "(8 * q + r + j) div 8 = q + (r + j) div 8"
    "(8 * q + r + j) mod 8 = (r + j) mod 8" by (simp_all only: f add.assoc)
  have "\<forall>r \<in> set [0..<8]. \<forall>j \<in> set [0..<3]. 3 * (r div 4) + written (r mod 4) j + j \<le> 6 * ((r + j) div 8) + (6 * ((r + j) mod 8) + 7) div 8"
    by code_simp
  then have "3 * (r div 4) + written (r mod 4) j + j \<le> 6 * ((r + j) div 8) + (6 * ((r + j) mod 8) + 7) div 8"
    using n(2) j by simp
  then have "3 * (2 * q + r div 4) + written (r mod 4) j + j \<le> 6 * (q + (r + j) div 8) + (6 * ((r + j) mod 8) + 7) div 8" by simp
  then show ?thesis unfolding n(1) decoded_size_def e by (rule add_le_imp_le_diff)
qed

text \<open>Any input: the destination is only written up to the announced size.\<close>

lemma decode_within:
  assumes "decode_scan src 0 0 = Some (n, j)" "decoded_size n j \<le> length d"
  shows "\<exists>s'. decode_loop src 3 0 0 (0, d) = Some s' \<and> within (decoded_size n j) d s'"
proof -
  obtain as where as: "sig_chars src = as @ replicate j 0x3D" "list_all plain_char as" "n = length as + j" "j \<le> 2"
    using scan_sig [OF assms(1)] by auto
  let ?e = "decoded_size n j"
  have w: "within ?e d (0, d)" by (simp add: within_def)
  have le: "3 * (length as div 4) + written (length as mod 4) j \<le> ?e" using written_le [OF as(4)] as(3) by simp
  then have "fst (0 :: nat, d) + 3 * ((0 + length as) div 4) \<le> ?e" by simp
  from loop_plain [OF as(2) w assms(2) _ this] obtain x' s1 where
    1: "decode_loop (as @ replicate j 0x3D) 3 0 0 (0, d) = decode_loop (replicate j 0x3D) 3 (length as mod 4) x' s1"
      "within ?e d s1" "fst s1 = 3 * (length as div 4)" by force
  have "fst s1 + written (length as mod 4) j \<le> ?e" using 1(3) le by simp
  moreover have "decode_loop src 3 0 0 (0, d) = decode_loop (replicate j 0x3D) 3 (length as mod 4) x' s1"
    by (subst loop_sig) (simp only: as(1) 1(1))
  ultimately show ?thesis using loop_pads [OF 1(2) assms(2) _ as(4), of "length as mod 4" x'] by auto
qed

section \<open>Properties\<close>

lemma encode_text:
  assumes "src \<noteq> []" "length (b64_text src) < dlen" "dlen \<le> length d" "length (b64_text src) < SIZE_T_MAX"
  shows "mbedtls_base64_encode (Some d) dlen o1 src =
    Some (0, length (b64_text src), Some ((b64_text src @ drop (length (b64_text src)) d)[length (b64_text src) := 0]))"
proof -
  let ?n = "length (b64_text src)"
  have "?n div 4 \<le> (SIZE_T_MAX - 1) div 4" using assms(4) by (intro div_le_mono) simp
  then have c: "\<not> length src div 3 + (if length src mod 3 \<noteq> 0 then 1 else 0) > (SIZE_T_MAX - 1) div 4"
    by (simp add: length_b64_text)
  have "encode_loop d 0 src = Some (?n, b64_text src @ drop ?n d)" using encode_loop_text [of 0 src d] assms(2,3) by simp
  moreover have "mem_put (b64_text src @ drop ?n d) ?n 0 = Some ((b64_text src @ drop ?n d)[?n := 0])" using assms(2,3) by simp
  moreover have "\<not> dlen < (length src div 3 + (if length src mod 3 \<noteq> 0 then 1 else 0)) * 4 + 1" using assms(2) by (simp add: length_b64_text)
  ultimately show ?thesis using c assms(1) by (simp add: mbedtls_base64_encode_def Let_def)
qed

lemma encode_Some:
  assumes "mbedtls_base64_encode (Some d) dlen o1 src = Some (0, n, Some d')" "dlen \<le> length d" "src \<noteq> []"
  shows "n = length (b64_text src) \<and> d' = (b64_text src @ drop n d)[n := 0] \<and> n < length d"
proof -
  let ?n = "length (b64_text src)"
  have c: "\<not> length src div 3 + (if length src mod 3 \<noteq> 0 then 1 else 0) > (SIZE_T_MAX - 1) div 4" "\<not> dlen < ?n + 1"
    using assms(1,3) by (auto simp: mbedtls_base64_encode_def Let_def length_b64_text ERR_BUFFER_TOO_SMALL_def mult.commute split: if_splits)
  then have "?n div 4 \<le> (SIZE_T_MAX - 1) div 4" by (simp add: length_b64_text)
  then have "?n < SIZE_T_MAX" using mult_div_mod_eq [of 4 ?n] by (simp add: length_b64_text SIZE_T_MAX_def)
  with c encode_text [OF assms(3) _ assms(2), of o1] assms show ?thesis by simp
qed

lemma decoded_size_text: "decoded_size (length (b64_text src)) ((3 - length src mod 3) mod 3) = length src"
proof -
  obtain q r where n: "length src = 6 * q + r" "r < 6" using mult_div_mod_eq [of 6 "length src"] mod_less_divisor [of 6 "length src"] by (metis zero_less_numeral)
  have r: "r = 0 \<or> r = 1 \<or> r = 2 \<or> r = 3 \<or> r = 4 \<or> r = 5" using n(2) by linarith
  have e: "(6 * q + r) div 3 = 2 * q + r div 3" "(6 * q + r) mod 3 = r mod 3" "(8 * q + m) div 8 = q + m div 8" "(8 * q + m) mod 8 = m mod 8" for m
    by presburger+
  have k: "4 * (2 * q + r div 3 + k) = 8 * q + 4 * (r div 3 + k)" for k by simp
  show ?thesis using r unfolding decoded_size_def length_b64_text n(1) e k by (elim disjE) simp_all
qed

lemma decode_text:
  assumes "length src \<le> length e"
  shows "mbedtls_base64_decode (Some e) (length e) o2 (b64_text src) = Some (0, length src, Some (src @ drop (length src) e))"
proof (cases "src = []")
  case False
  then have "0 < length src" by simp
  moreover have "0 < k \<Longrightarrow> k div 3 + (if k mod 3 \<noteq> 0 then 1 else 0) \<noteq> 0" for k :: nat by presburger
  ultimately have n: "length (b64_text src) \<noteq> 0" unfolding length_b64_text by simp
  obtain m j where m: "m = length (b64_text src)" "j = (3 - length src mod 3) mod 3" by simp
  have "decode_scan (b64_text src) 0 0 = Some (m, j)" "decoded_size m j = length src" "m \<noteq> 0"
    "decode_loop (b64_text src) 3 0 0 (0, e) = Some (length src, src @ drop (length src) e)"
    using scan_text [of src 0] decoded_size_text [of src] loop_text [of 0 src e 0] assms n unfolding m by simp_all
  then show ?thesis using assms by (simp add: mbedtls_base64_decode_def)
qed (simp add: mbedtls_base64_decode_def)

text \<open>C24: Decoding what was encoded gives back the bytes: the encoder writes four characters for each started group of
  three bytes and terminates its text, and the decoder writes exactly the original bytes into a destination of at least
  their number, leaving the rest as it was.\<close>

theorem base64_roundtrip:
  assumes "mbedtls_base64_encode (Some d) dlen o1 src = Some (0, n, Some d')" "dlen \<le> length d" "length src \<le> length e"
  shows "n = 4 * ((length src + 2) div 3) \<and> (src \<noteq> [] \<longrightarrow> d' ! n = 0) \<and>
    mbedtls_base64_decode (Some e) (length e) o2 (take n d') = Some (0, length src, Some (src @ drop (length src) e))"
proof (cases "src = []")
  case True
  then have "n = 0" using assms(1) by (simp add: mbedtls_base64_encode_def)
  then show ?thesis using True decode_text [of "[]" e o2] by simp
next
  case False
  have c: "n = length (b64_text src)" "d' = (b64_text src @ drop n d)[n := 0]" "n < length d"
    using encode_Some [OF assms(1,2) False] by blast+
  have "length src div 3 + (if length src mod 3 \<noteq> 0 then 1 else 0) = (length src + 2) div 3" by presburger
  then have "n = 4 * ((length src + 2) div 3)" using c(1) by (simp only: length_b64_text)
  moreover have "d' ! n = 0" "take n d' = b64_text src" using c by simp_all
  ultimately show ?thesis using decode_text [OF assms(3)] by simp
qed

theorem base64_roundtrip_witness:
  "\<exists>d'. mbedtls_base64_encode (Some (replicate 9 1)) 9 0 [0xFF, 0, 0x41, 0x42] = Some (0, 8, Some d') \<and>
     mbedtls_base64_decode (Some [7, 7, 7, 7, 7]) 5 0 (take 8 d') = Some (0, 4, Some [0xFF, 0, 0x41, 0x42, 7])"
proof -
  obtain d' where d: "mbedtls_base64_encode (Some (replicate 9 1)) 9 0 [0xFF, 0, 0x41, 0x42] = Some (0, 8, Some d')"
    using encode_text [of "[0xFF, 0, 0x41, 0x42]" 9 "replicate 9 1" 0] by (auto simp: length_b64_text SIZE_T_MAX_def)
  have l: "length [7, 7, 7, 7, 7 :: u8] = 5" "length [0xFF, 0, 0x41, 0x42 :: u8] = 4" by simp_all
  show ?thesis using base64_roundtrip [OF d, of "[7, 7, 7, 7, 7]" 0] d unfolding l by auto
qed

text \<open>C25: Whatever it is given, the decoder stays inside its tables and its destination: it always returns, it writes
  nothing unless it succeeds, then only the first bytes, as many as it reports and never more than the destination has;
  and a destination of the size that it asks for is large enough.\<close>

theorem base64_decode_bounds:
  assumes "\<forall>d. dst = Some d \<longrightarrow> dlen \<le> length d"
  shows "\<exists>rc m dst'. mbedtls_base64_decode dst dlen olen src = Some (rc, m, dst') \<and>
    (rc = 0 \<and> (\<forall>d. dst = Some d \<longrightarrow> (\<exists>d'. dst' = Some d' \<and> m \<le> dlen \<and> length d' = length d \<and> drop m d' = drop m d)) \<or>
     rc = ERR_INVALID_CHARACTER \<and> dst' = dst \<or>
     rc = ERR_BUFFER_TOO_SMALL \<and> dst' = dst \<and> (\<forall>d. length d = m \<longrightarrow> (\<exists>r. mbedtls_base64_decode (Some d) m olen src = Some (0, r))))"
proof (cases "decode_scan src 0 0")
  case None
  then show ?thesis by (simp add: mbedtls_base64_decode_def)
next
  case (Some s)
  obtain n j where nj: "decode_scan src 0 0 = Some (n, j)" using Some by (cases s) auto
  have ok: "\<exists>p m. decode_loop src 3 0 0 (0, d) = Some (p, m) \<and> p \<le> decoded_size n j \<and> length m = length d \<and> drop p m = drop p d"
    if "decoded_size n j \<le> length d" for d
    using decode_within [OF nj that] by (auto simp: within_def)
  consider (1) "n = 0" | (small) "n \<noteq> 0" "dst = None \<or> dlen < decoded_size n j" | (big) d where "n \<noteq> 0" "dst = Some d" "decoded_size n j \<le> dlen"
  proof (cases dst)
    case (Some d)
    then show ?thesis using 1 small [OF _ disjI2] big [OF _ Some] by (cases "n = 0"; cases "dlen < decoded_size n j") auto
  qed auto
  then show ?thesis
  proof cases
    case 1
    then show ?thesis using nj by (cases dst) (simp_all add: mbedtls_base64_decode_def)
  next
    case small
    have "\<exists>r. mbedtls_base64_decode (Some d) (decoded_size n j) olen src = Some (0, r)" if "length d = decoded_size n j" for d
      using ok [of d] that nj small(1) by (auto simp: mbedtls_base64_decode_def)
    then show ?thesis using nj small by (simp add: mbedtls_base64_decode_def)
  next
    case big
    then have "decoded_size n j \<le> length d" using assms by auto
    from ok [OF this] show ?thesis using nj big by (auto simp: mbedtls_base64_decode_def)
  qed
qed

theorem base64_decode_bounds_witness:
  "\<exists>rc m dst'. mbedtls_base64_decode (Some [0, 0]) 2 0 [0x59, 0x57, 0x49, 0x3D] = Some (rc, m, dst') \<and> rc = 0 \<and> m \<le> 2"
proof -
  obtain r where "mbedtls_base64_decode (Some [0, 0]) 2 0 [0x59, 0x57, 0x49, 0x3D] = Some (0, r)"
    by (rule that, code_simp)
  then show ?thesis
    using base64_decode_bounds [of "Some [0, 0]" 2 0 "[0x59, 0x57, 0x49, 0x3D]"] by (cases r) (auto simp: ERR_INVALID_CHARACTER_def ERR_BUFFER_TOO_SMALL_def)
qed

end
