(* ===== verification/Settings.thy ===== *)
theory Settings
  imports ConfigKvs
begin

text \<open>
  The table of settings (config_kvs/settings.hh, settings_template.hh, comp_settings.hh,
  register_settings.hh) and what the components register in it (their comp_glue.hh).

  The enumeration of the options, otok, belongs to the application: the members that the components name are
  constructors, the others \<open>k_app\<close>. A result None stands for an access outside of the table.
\<close>

datatype KvsType = CBT_none | CBT_i8 | CBT_u8 | CBT_i16 | CBT_u16 | CBT_i32 | CBT_u32 | CBT_i64 | CBT_u64 | CBT_str | CBT_f | CBT_blob | CBT_end

datatype StoreFun = STF_none | STF_direct | STF_direct_hex | STF_direct_bool

datatype otok = otok_NONE | k_wlan_ssid | k_wlan_password | k_ntp_server | k_lan_phy | k_lan_pwr_gpio | k_verbose | k_mqtt_enable | k_mqtt_url
  | k_mqtt_user | k_mqtt_password | k_mqtt_client_id | k_mqtt_root_topic | k_http_enable | k_http_user | k_http_password
  | k_stm32_bootgpio_inv | k_app nat

datatype soCfgFun = soCfg_VERBOSE | soCfg_WLAN_SSID | soCfg_WLAN_PASSWORD | soCfg_NTP_SERVER | soCfg_LAN_PHY | soCfg_LAN_PWR_GPIO
  | soCfg_MQTT_ENABLE | soCfg_MQTT_URL | soCfg_MQTT_USER | soCfg_MQTT_PASSWORD | soCfg_MQTT_CLIENT_ID | soCfg_MQTT_ROOT_TOPIC
  | soCfg_HTTP_ENABLE | soCfg_HTTP_USER | soCfg_HTTP_PASSWORD | soCfg_STM32_BOOTGPIO_INV

record SettingsData =
  kvs_key :: "string option"
  so_cfg_fun :: "soCfgFun option"
  opt_key :: otok
  kvs_type :: KvsType
  store_fun :: StoreFun
  id_bit :: u8

section \<open>The template\<close>

text \<open>A table for the items from \<open>Offset\<close> on. An item is the number of its enumerator.\<close>

record settings =
  Offset :: nat
  m_data :: "SettingsData list"

text \<open>Unset entries have the option of the number 0, \<open>otok0\<close>.\<close>

definition settings_new :: "otok \<Rightarrow> nat \<Rightarrow> nat \<Rightarrow> settings" where
  "settings_new otok0 sz off = \<lparr>Offset = off, m_data = replicate sz
     \<lparr>kvs_key = None, so_cfg_fun = None, opt_key = otok0, kvs_type = CBT_none, store_fun = STF_none, id_bit = 0\<rparr>\<rparr>"

definition data_at :: "settings \<Rightarrow> int \<Rightarrow> SettingsData option" where
  "data_at st i = (if 0 \<le> i \<and> nat i < length (m_data st) then Some (m_data st ! nat i) else None)"

definition item_data :: "settings \<Rightarrow> int \<Rightarrow> SettingsData option" where
  "item_data st item = data_at st (item - int (Offset st))"

definition get_SettingsData :: "settings \<Rightarrow> int \<Rightarrow> SettingsData option option" where
  "get_SettingsData st item = (if item < 0 then Some None else map_option Some (item_data st item))"

definition get_kvsKey :: "settings \<Rightarrow> int \<Rightarrow> string option option" where
  "get_kvsKey st item = (if item < 0 then Some None else map_option kvs_key (item_data st item))"

definition get_kvsType :: "settings \<Rightarrow> int \<Rightarrow> KvsType option" where
  "get_kvsType st item = (if item < 0 then Some CBT_none else map_option kvs_type (item_data st item))"

definition get_optKey :: "settings \<Rightarrow> int \<Rightarrow> otok option" where
  "get_optKey st item = (if item < 0 then Some otok_NONE else map_option opt_key (item_data st item))"

definition get_optKeyStr :: "(otok \<Rightarrow> string) \<Rightarrow> settings \<Rightarrow> int \<Rightarrow> string option option" where
  "get_optKeyStr otok_strings st item = (if item < 0 then Some None else map_option (\<lambda>d. Some (otok_strings (opt_key d))) (item_data st item))"

definition get_soCfgFun :: "settings \<Rightarrow> int \<Rightarrow> soCfgFun option option" where
  "get_soCfgFun st item = (if item < 0 then Some None else map_option so_cfg_fun (item_data st item))"

definition get_storeFun :: "settings \<Rightarrow> int \<Rightarrow> StoreFun option" where
  "get_storeFun st item = (if item < 0 then Some STF_none else map_option store_fun (item_data st item))"

fun otok_loop :: "otok \<Rightarrow> SettingsData list \<Rightarrow> int \<Rightarrow> int" where
  "otok_loop key [] i = -1"
| "otok_loop key (d # ds) i = (if key = opt_key d then i else otok_loop key ds (i + 1))"

definition otok2idx :: "settings \<Rightarrow> otok \<Rightarrow> int" where
  "otok2idx st key = (if key \<noteq> otok_NONE then otok_loop key (m_data st) 0 else -1)"

definition get_soCfgFun_otok :: "settings \<Rightarrow> otok \<Rightarrow> soCfgFun option" where
  "get_soCfgFun_otok st key = (let idx = otok2idx st key in if idx \<ge> 0 then so_cfg_fun (m_data st ! nat idx) else None)"

definition get_storeFun_otok :: "settings \<Rightarrow> otok \<Rightarrow> StoreFun" where
  "get_storeFun_otok st key = (let idx = otok2idx st key in if idx \<ge> 0 then store_fun (m_data st ! nat idx) else STF_none)"

text \<open>The items of the components have the type int8_t.\<close>

definition to_item :: "int \<Rightarrow> int" where
  "to_item i = sint (word_of_int i :: 8 word)"

definition get_item :: "settings \<Rightarrow> otok \<Rightarrow> int" where
  "get_item st key = (let idx = otok2idx st key in if idx \<ge> 0 then to_item (idx + int (Offset st)) else -1)"

definition get_kvsKey_otok :: "settings \<Rightarrow> otok \<Rightarrow> string option option" where
  "get_kvsKey_otok st key = get_kvsKey st (get_item st key)"

definition get_kvsType_otok :: "settings \<Rightarrow> otok \<Rightarrow> KvsType option" where
  "get_kvsType_otok st key = get_kvsType st (get_item st key)"

definition get_SettingsData_otok :: "settings \<Rightarrow> otok \<Rightarrow> SettingsData option option" where
  "get_SettingsData_otok st key = get_SettingsData st (get_item st key)"

text \<open>Shifting by 64 and more is undefined.\<close>

definition get_bitMask :: "settings \<Rightarrow> otok \<Rightarrow> u64 option" where
  "get_bitMask st key = (let n = get_item st key in if n \<ge> 0 then (if n < 64 then Some (push_bit (nat n) 1) else None) else Some 0)"

definition initField :: "int \<Rightarrow> string \<Rightarrow> otok \<Rightarrow> KvsType \<Rightarrow> soCfgFun option \<Rightarrow> StoreFun \<Rightarrow> settings \<Rightarrow> settings option" where
  "initField ai key optk typ cfg stf st =
     (let idx = word_of_int (ai - int (Offset st)) :: u8
      in if unat idx < length (m_data st)
         then Some (st\<lparr>m_data := (m_data st)[unat idx :=
           \<lparr>kvs_key = Some key, so_cfg_fun = cfg, opt_key = optk, kvs_type = typ, store_fun = stf, id_bit = idx\<rparr>]\<rparr>)
         else None)"

section \<open>The items of the components\<close>

text \<open>The build configuration, by its CONFIG macros.\<close>

record build =
  USE_WLAN :: bool
  USE_MQTT :: bool
  USE_HTTP :: bool
  USE_NTP :: bool
  USE_LAN :: bool
  USE_STM32 :: bool

datatype configItem = CB_VERBOSE | CB_WIFI_SSID | CB_WIFI_PASSWD | CB_MQTT_URL | CB_MQTT_USER | CB_MQTT_PASSWD | CB_MQTT_CLIENT_ID
  | CB_MQTT_ROOT_TOPIC | CB_MQTT_ENABLE | CB_HTTP_USER | CB_HTTP_PASSWD | CB_HTTP_ENABLE | CB_NTP_SERVER | CB_LAN_PHY | CB_LAN_PWR_GPIO
  | CB_STM32_INV_BOOTPIN

definition config_items :: "build \<Rightarrow> configItem list" where
  "config_items b = [CB_VERBOSE] @
     (if USE_WLAN b then [CB_WIFI_SSID, CB_WIFI_PASSWD] else []) @
     (if USE_MQTT b then [CB_MQTT_URL, CB_MQTT_USER, CB_MQTT_PASSWD, CB_MQTT_CLIENT_ID, CB_MQTT_ROOT_TOPIC, CB_MQTT_ENABLE] else []) @
     (if USE_HTTP b then [CB_HTTP_USER, CB_HTTP_PASSWD, CB_HTTP_ENABLE] else []) @
     (if USE_NTP b then [CB_NTP_SERVER] else []) @
     (if USE_LAN b then [CB_LAN_PHY, CB_LAN_PWR_GPIO] else []) @
     (if USE_STM32 b then [CB_STM32_INV_BOOTPIN] else [])"

definition CB_size :: "build \<Rightarrow> nat" where
  "CB_size b = length (config_items b)"

text \<open>The number of an enumerator is its position.\<close>

definition item_no :: "build \<Rightarrow> configItem \<Rightarrow> int" where
  "item_no b it = int (length (takeWhile (\<lambda>x. x \<noteq> it) (config_items b)))"

text \<open>The calls of initField by each component, with the arguments in their order.\<close>

type_synonym reg = "configItem \<times> string \<times> otok \<times> KvsType \<times> soCfgFun option \<times> StoreFun"

definition txtio_register_settings :: "build \<Rightarrow> reg list" where
  "txtio_register_settings b = [(CB_VERBOSE, ''C_VERBOSE'', k_verbose, CBT_i8, Some soCfg_VERBOSE, STF_direct)]"

definition net_register_settings :: "build \<Rightarrow> reg list" where
  "net_register_settings b =
     (if USE_WLAN b then
       [(CB_WIFI_SSID, ''C_WIFI_SSID'', k_wlan_ssid, CBT_str, Some soCfg_WLAN_SSID, STF_direct),
        (CB_WIFI_PASSWD, ''C_WIFI_PASSWD'', k_wlan_password, CBT_str, Some soCfg_WLAN_PASSWORD, STF_direct)] else []) @
     (if USE_NTP b then [(CB_NTP_SERVER, ''C_NTP_SERVER'', k_ntp_server, CBT_str, Some soCfg_NTP_SERVER, STF_direct)] else []) @
     (if USE_LAN b then
       [(CB_LAN_PHY, ''C_LAN_PHY'', k_lan_phy, CBT_i8, Some soCfg_LAN_PHY, STF_none),
        (CB_LAN_PWR_GPIO, ''C_LAN_PWR_GPIO'', k_lan_pwr_gpio, CBT_i8, Some soCfg_LAN_PWR_GPIO, STF_none)] else [])"

definition net_http_server_register_settings :: "build \<Rightarrow> reg list" where
  "net_http_server_register_settings b =
     (if USE_HTTP b then
       [(CB_HTTP_ENABLE, ''C_HTTP_ENABLE'', k_http_enable, CBT_i8, Some soCfg_HTTP_ENABLE, STF_direct_bool),
        (CB_HTTP_USER, ''C_HTTP_USER'', k_http_user, CBT_str, Some soCfg_HTTP_USER, STF_direct),
        (CB_HTTP_PASSWD, ''C_HTTP_PASSWD'', k_http_password, CBT_str, Some soCfg_HTTP_PASSWORD, STF_direct)] else [])"

definition netMqtt_register_settings :: "build \<Rightarrow> reg list" where
  "netMqtt_register_settings b =
     (if USE_MQTT b then
       [(CB_MQTT_ENABLE, ''C_MQTT_ENABLE'', k_mqtt_enable, CBT_i8, Some soCfg_MQTT_ENABLE, STF_direct_bool),
        (CB_MQTT_URL, ''C_MQTT_URL'', k_mqtt_url, CBT_str, Some soCfg_MQTT_URL, STF_direct),
        (CB_MQTT_USER, ''C_MQTT_USER'', k_mqtt_user, CBT_str, Some soCfg_MQTT_USER, STF_direct),
        (CB_MQTT_PASSWD, ''C_MQTT_PASSWD'', k_mqtt_password, CBT_str, Some soCfg_MQTT_PASSWORD, STF_direct),
        (CB_MQTT_CLIENT_ID, ''C_MQTT_CID'', k_mqtt_client_id, CBT_str, Some soCfg_MQTT_CLIENT_ID, STF_direct),
        (CB_MQTT_ROOT_TOPIC, ''C_MQTT_RTOPIC'', k_mqtt_root_topic, CBT_str, Some soCfg_MQTT_ROOT_TOPIC, STF_direct)] else [])"

definition stm32_register_settings :: "build \<Rightarrow> reg list" where
  "stm32_register_settings b =
     (if USE_STM32 b then [(CB_STM32_INV_BOOTPIN, ''C_STM_INV_BP'', k_stm32_bootgpio_inv, CBT_i8, Some soCfg_STM32_BOOTGPIO_INV, STF_direct)] else [])"

fun init_fields :: "build \<Rightarrow> reg list \<Rightarrow> settings \<Rightarrow> settings option" where
  "init_fields b [] st = Some st"
| "init_fields b ((it, key, optk, typ, cfg, stf) # rs) st =
     (case initField (item_no b it) key optk typ cfg stf st of None \<Rightarrow> None | Some st1 \<Rightarrow> init_fields b rs st1)"

definition registrations :: "build \<Rightarrow> reg list" where
  "registrations b = net_http_server_register_settings b @ net_register_settings b @ netMqtt_register_settings b @
     stm32_register_settings b @ txtio_register_settings b"

definition register_settings :: "build \<Rightarrow> settings \<Rightarrow> settings option" where
  "register_settings b st = init_fields b (registrations b) st"

definition comp_settings :: "otok \<Rightarrow> build \<Rightarrow> settings option" where
  "comp_settings otok0 b = register_settings b (settings_new otok0 (CB_size b) 0)"

end
