(* ===== verification/ConfigGlue.thy ===== *)
theory ConfigGlue
  imports Settings CliOut HttpServer "HOL-Library.Monad_Syntax"
begin

text \<open>
  Reading the configuration of the components by the table of settings (config_kvs.h, comp_settings.hh and the
  comp_glue.hh of each component), over any provider of the key-value store.

  \<open>st\<close> is the table comp_sett, \<open>b\<close> the build configuration that numbers the items. A null key or an item outside of
  the table is \<open>BadAccess\<close>. The numbers of the CONFIG macros come in as the configuration that is to be filled.
\<close>

definition kvsKey :: "settings \<Rightarrow> int \<Rightarrow> kvs_fail + string" where
  "kvsKey st item = (case get_kvsKey st item of Some (Some k) \<Rightarrow> Inr k | _ \<Rightarrow> Inl BadAccess)"

section \<open>Reading single items in a session\<close>

definition kvsRead_i8 :: "('w, 'h) kvs_ops \<Rightarrow> settings \<Rightarrow> 'h \<Rightarrow> int \<Rightarrow> u8 \<Rightarrow> 'w \<Rightarrow> kvs_fail + u8 \<times> 'w" where
  "kvsRead_i8 ops st h cb v w =
     (case kvsKey st cb of Inl e \<Rightarrow> Inl e
      | Inr k \<Rightarrow> (case op_get_i8 ops h k v w of Inl e \<Rightarrow> Inl e | Inr ((v1, _), w1) \<Rightarrow> Inr (v1, w1)))"

definition kvsRead_u32 :: "('w, 'h) kvs_ops \<Rightarrow> settings \<Rightarrow> 'h \<Rightarrow> int \<Rightarrow> u32 \<Rightarrow> 'w \<Rightarrow> kvs_fail + u32 \<times> 'w" where
  "kvsRead_u32 ops st h cb v w =
     (case kvsKey st cb of Inl e \<Rightarrow> Inl e
      | Inr k \<Rightarrow> (case op_get_u32 ops h k v w of Inl e \<Rightarrow> Inl e | Inr ((v1, _), w1) \<Rightarrow> Inr (v1, w1)))"

definition kvsRead_blob :: "('w, 'h) kvs_ops \<Rightarrow> settings \<Rightarrow> 'h \<Rightarrow> int \<Rightarrow> u8 list \<Rightarrow> 'w \<Rightarrow> kvs_fail + (bool \<times> u8 list) \<times> 'w" where
  "kvsRead_blob ops st h cb v w = (case kvsKey st cb of Inl e \<Rightarrow> Inl e | Inr k \<Rightarrow> op_get_blob ops h k v w)"

definition kvsRead_charArray :: "('w, 'h) kvs_ops \<Rightarrow> settings \<Rightarrow> 'h \<Rightarrow> int \<Rightarrow> char list \<Rightarrow> 'w \<Rightarrow> kvs_fail + (bool \<times> char list) \<times> 'w" where
  "kvsRead_charArray ops st h cb d w = (case kvsKey st cb of Inl e \<Rightarrow> Inl e | Inr k \<Rightarrow> op_get_str ops h k d w)"

definition kvsWrite_blob :: "('w, 'h) kvs_ops \<Rightarrow> settings \<Rightarrow> 'h \<Rightarrow> int \<Rightarrow> u8 list \<Rightarrow> 'w \<Rightarrow> kvs_fail + bool \<times> 'w" where
  "kvsWrite_blob ops st h cb v w = (case kvsKey st cb of Inl e \<Rightarrow> Inl e | Inr k \<Rightarrow> op_set_blob ops h k v w)"

text \<open>Reading into a member of a configuration, given by its selector and its update.\<close>

definition char_field ::
  "('w, 'h) kvs_ops \<Rightarrow> settings \<Rightarrow> int \<Rightarrow> ('c \<Rightarrow> char list) \<Rightarrow> ((char list \<Rightarrow> char list) \<Rightarrow> 'c \<Rightarrow> 'c) \<Rightarrow> 'h \<Rightarrow> 'c \<Rightarrow> 'w \<Rightarrow> kvs_fail + 'c \<times> 'w" where
  "char_field ops st cb get upd h c w =
     (case kvsRead_charArray ops st h cb (get c) w of Inl e \<Rightarrow> Inl e | Inr ((_, d), w1) \<Rightarrow> Inr (upd (\<lambda>_. d) c, w1))"

definition i8_field ::
  "('w, 'h) kvs_ops \<Rightarrow> settings \<Rightarrow> int \<Rightarrow> ('c \<Rightarrow> u8) \<Rightarrow> ((u8 \<Rightarrow> u8) \<Rightarrow> 'c \<Rightarrow> 'c) \<Rightarrow> 'h \<Rightarrow> 'c \<Rightarrow> 'w \<Rightarrow> kvs_fail + 'c \<times> 'w" where
  "i8_field ops st cb get upd h c w =
     (case kvsRead_i8 ops st h cb (get c) w of Inl e \<Rightarrow> Inl e | Inr (v, w1) \<Rightarrow> Inr (upd (\<lambda>_. v) c, w1))"

fun read_fields :: "('h \<Rightarrow> 'c \<Rightarrow> 'w \<Rightarrow> kvs_fail + 'c \<times> 'w) list \<Rightarrow> 'h \<Rightarrow> 'c \<Rightarrow> 'w \<Rightarrow> kvs_fail + 'c \<times> 'w" where
  "read_fields [] h c w = Inr (c, w)"
| "read_fields (r # rs) h c w = (case r h c w of Inl e \<Rightarrow> Inl e | Inr (c1, w1) \<Rightarrow> read_fields rs h c1 w1)"

text \<open>The session that all configurations are read in.\<close>

definition read_session ::
  "('w, 'h) kvs_ops \<Rightarrow> string \<Rightarrow> ('h \<Rightarrow> 'c \<Rightarrow> 'w \<Rightarrow> kvs_fail + 'c \<times> 'w) list \<Rightarrow> 'c \<Rightarrow> 'w \<Rightarrow> kvs_fail + 'c \<times> 'w" where
  "read_session ops ns rs c w =
     (case op_open ops ns kvs_flag_READ w of
        (None, w1) \<Rightarrow> Inr (c, w1)
      | (Some h, w1) \<Rightarrow> (case read_fields rs h c w1 of Inl e \<Rightarrow> Inl e | Inr (c1, w2) \<Rightarrow> Inr (c1, op_close ops h w2)))"

section \<open>The configurations of the components\<close>

record cfg_mqtt =
  mq_url :: "char list"
  mq_user :: "char list"
  mq_password :: "char list"
  mq_client_id :: "char list"
  mq_root_topic :: "char list"
  mq_enable :: u8

record http_cfg =
  ht_user :: "char list"
  ht_password :: "char list"
  ht_enable :: u8

record cfg_wlan =
  wl_SSID :: "char list"
  wl_password :: "char list"

record cfg_ntp =
  nt_server :: "char list"

record cfg_lan =
  la_phy :: u8
  la_pwr_gpio :: u8

record cfg_txtio =
  tx_verbose :: u8

definition config_read_mqttClient :: "('w, 'h) kvs_ops \<Rightarrow> string \<Rightarrow> settings \<Rightarrow> build \<Rightarrow> cfg_mqtt \<Rightarrow> 'w \<Rightarrow> kvs_fail + cfg_mqtt \<times> 'w" where
  "config_read_mqttClient ops ns st b = read_session ops ns
     [char_field ops st (item_no b CB_MQTT_URL) mq_url mq_url_update,
      char_field ops st (item_no b CB_MQTT_USER) mq_user mq_user_update,
      char_field ops st (item_no b CB_MQTT_PASSWD) mq_password mq_password_update,
      char_field ops st (item_no b CB_MQTT_CLIENT_ID) mq_client_id mq_client_id_update,
      char_field ops st (item_no b CB_MQTT_ROOT_TOPIC) mq_root_topic mq_root_topic_update,
      i8_field ops st (item_no b CB_MQTT_ENABLE) mq_enable mq_enable_update]"

definition config_read_httpServer :: "('w, 'h) kvs_ops \<Rightarrow> string \<Rightarrow> settings \<Rightarrow> build \<Rightarrow> http_cfg \<Rightarrow> 'w \<Rightarrow> kvs_fail + http_cfg \<times> 'w" where
  "config_read_httpServer ops ns st b = read_session ops ns
     [char_field ops st (item_no b CB_HTTP_USER) ht_user ht_user_update,
      char_field ops st (item_no b CB_HTTP_PASSWD) ht_password ht_password_update,
      i8_field ops st (item_no b CB_HTTP_ENABLE) ht_enable ht_enable_update]"

definition config_read_wifiStation :: "('w, 'h) kvs_ops \<Rightarrow> string \<Rightarrow> settings \<Rightarrow> build \<Rightarrow> cfg_wlan \<Rightarrow> 'w \<Rightarrow> kvs_fail + cfg_wlan \<times> 'w" where
  "config_read_wifiStation ops ns st b = read_session ops ns
     [char_field ops st (item_no b CB_WIFI_SSID) wl_SSID wl_SSID_update,
      char_field ops st (item_no b CB_WIFI_PASSWD) wl_password wl_password_update]"

definition config_read_ntpClient :: "('w, 'h) kvs_ops \<Rightarrow> string \<Rightarrow> settings \<Rightarrow> build \<Rightarrow> cfg_ntp \<Rightarrow> 'w \<Rightarrow> kvs_fail + cfg_ntp \<times> 'w" where
  "config_read_ntpClient ops ns st b = read_session ops ns [char_field ops st (item_no b CB_NTP_SERVER) nt_server nt_server_update]"

definition config_read_ethernet :: "('w, 'h) kvs_ops \<Rightarrow> string \<Rightarrow> settings \<Rightarrow> build \<Rightarrow> cfg_lan \<Rightarrow> 'w \<Rightarrow> kvs_fail + cfg_lan \<times> 'w" where
  "config_read_ethernet ops ns st b = read_session ops ns
     [i8_field ops st (item_no b CB_LAN_PHY) la_phy la_phy_update,
      i8_field ops st (item_no b CB_LAN_PWR_GPIO) la_pwr_gpio la_pwr_gpio_update]"

definition config_read_txtio :: "('w, 'h) kvs_ops \<Rightarrow> string \<Rightarrow> settings \<Rightarrow> build \<Rightarrow> cfg_txtio \<Rightarrow> 'w \<Rightarrow> kvs_fail + cfg_txtio \<times> 'w" where
  "config_read_txtio ops ns st b = read_session ops ns [i8_field ops st (item_no b CB_VERBOSE) tx_verbose tx_verbose_update]"

text \<open>What is read is handed to the component; the HTTP server takes the texts and the truth value.\<close>

definition config_setup_httpServer ::
  "('w, 'h) kvs_ops \<Rightarrow> string \<Rightarrow> settings \<Rightarrow> build \<Rightarrow> bool \<Rightarrow> http_cfg \<Rightarrow> hts \<Rightarrow> 'w \<Rightarrow> kvs_fail + hts \<times> 'w" where
  "config_setup_httpServer ops ns st b started c0 s w =
     (case config_read_httpServer ops ns st b c0 w of
        Inl e \<Rightarrow> Inl e
      | Inr (c, w1) \<Rightarrow> Inr (hts_setup started (Some \<lparr>ch_user = c_str (ht_user c), ch_password = c_str (ht_password c), ch_enable = (ht_enable c \<noteq> 0)\<rparr>) s, w1))"

section \<open>Reading by the type of the item\<close>

text \<open>The value has a type \<open>cast\<close> converts to; a float is its four bytes, with its conversions as parameters.\<close>

definition config_read_item ::
  "(int \<Rightarrow> u8 list) \<Rightarrow> (u8 list \<Rightarrow> int) \<Rightarrow> ('w, 'h) kvs_ops \<Rightarrow> string \<Rightarrow> settings \<Rightarrow> (int \<Rightarrow> int) \<Rightarrow> int \<Rightarrow> int \<Rightarrow> 'w \<Rightarrow> kvs_fail + int \<times> 'w" where
  "config_read_item i2f f2i ops ns st cast item def w =
     (case get_kvsType st item of
        Some CBT_u32 \<Rightarrow> (case kvsKey st item of Inl e \<Rightarrow> Inl e
          | Inr k \<Rightarrow> map_sum id (map_prod (\<lambda>v. cast (uint v)) id) (config_read_item_u32 ops ns k (word_of_int def) w))
      | Some CBT_i8 \<Rightarrow> (case kvsKey st item of Inl e \<Rightarrow> Inl e
          | Inr k \<Rightarrow> map_sum id (map_prod (\<lambda>v. cast (sint v)) id) (config_read_item_i8 ops ns k (word_of_int def) w))
      | Some CBT_f \<Rightarrow> (case kvsKey st item of Inl e \<Rightarrow> Inl e
          | Inr k \<Rightarrow> map_sum id (map_prod (\<lambda>v. cast (f2i v)) id) (config_read_item_f ops ns k (i2f def) w))
      | None \<Rightarrow> Inl BadAccess
      | _ \<Rightarrow> Inl AssertFailed)"

text \<open>The version for buffers of characters.\<close>

definition config_read_item_p ::
  "('w, 'h) kvs_ops \<Rightarrow> string \<Rightarrow> settings \<Rightarrow> int \<Rightarrow> char list \<Rightarrow> string option \<Rightarrow> 'w \<Rightarrow> kvs_fail + string option \<times> 'w" where
  "config_read_item_p ops ns st item d def w =
     (case get_kvsType st item of
        Some CBT_str \<Rightarrow> (case kvsKey st item of Inl e \<Rightarrow> Inl e | Inr k \<Rightarrow> config_read_item_s ops ns k d def w)
      | Some CBT_blob \<Rightarrow> (case kvsKey st item of Inl e \<Rightarrow> Inl e
          | Inr k \<Rightarrow> map_sum id (map_prod (map_option (map char_of_byte)) id)
              (config_read_item_b ops ns k (map byte_of_char d) (map_option (map byte_of_char) def) w))
      | None \<Rightarrow> Inl BadAccess
      | _ \<Rightarrow> Inl AssertFailed)"

text \<open>The readers of single items. int8_t and int are the types of the values.\<close>

definition to_int8 :: "int \<Rightarrow> int" where
  "to_int8 v = sint (word_of_int v :: u8)"

definition config_read_verbose ::
  "(int \<Rightarrow> u8 list) \<Rightarrow> (u8 list \<Rightarrow> int) \<Rightarrow> ('w, 'h) kvs_ops \<Rightarrow> string \<Rightarrow> settings \<Rightarrow> build \<Rightarrow> 'w \<Rightarrow> kvs_fail + int \<times> 'w" where
  "config_read_verbose i2f f2i ops ns st b = config_read_item i2f f2i ops ns st to_int32 (item_no b CB_VERBOSE) 3"

definition config_read_http_enable ::
  "(int \<Rightarrow> u8 list) \<Rightarrow> (u8 list \<Rightarrow> int) \<Rightarrow> ('w, 'h) kvs_ops \<Rightarrow> string \<Rightarrow> settings \<Rightarrow> build \<Rightarrow> http_cfg \<Rightarrow> 'w \<Rightarrow> kvs_fail + bool \<times> 'w" where
  "config_read_http_enable i2f f2i ops ns st b c0 w =
     map_sum id (map_prod (\<lambda>v. v \<noteq> 0) id) (config_read_item i2f f2i ops ns st to_int8 (item_no b CB_HTTP_ENABLE) (sint (ht_enable c0)) w)"

definition config_read_stm32_inv_bootpin ::
  "(int \<Rightarrow> u8 list) \<Rightarrow> (u8 list \<Rightarrow> int) \<Rightarrow> ('w, 'h) kvs_ops \<Rightarrow> string \<Rightarrow> settings \<Rightarrow> build \<Rightarrow> 'w \<Rightarrow> kvs_fail + bool \<times> 'w" where
  "config_read_stm32_inv_bootpin i2f f2i ops ns st b w =
     map_sum id (map_prod (\<lambda>v. v \<noteq> 0) id) (config_read_item i2f f2i ops ns st to_int32 (item_no b CB_STM32_INV_BOOTPIN) 0 w)"

definition config_read_ntp_server ::
  "('w, 'h) kvs_ops \<Rightarrow> string \<Rightarrow> settings \<Rightarrow> build \<Rightarrow> cfg_ntp \<Rightarrow> char list \<Rightarrow> 'w \<Rightarrow> kvs_fail + string option \<times> 'w" where
  "config_read_ntp_server ops ns st b c0 d = config_read_item_p ops ns st (item_no b CB_NTP_SERVER) d (Some (c_str (nt_server c0)))"

definition config_read_wifi_ssid ::
  "('w, 'h) kvs_ops \<Rightarrow> string \<Rightarrow> settings \<Rightarrow> build \<Rightarrow> cfg_wlan \<Rightarrow> char list \<Rightarrow> 'w \<Rightarrow> kvs_fail + string option \<times> 'w" where
  "config_read_wifi_ssid ops ns st b c0 d = config_read_item_p ops ns st (item_no b CB_WIFI_SSID) d (Some (c_str (wl_SSID c0)))"

definition config_read_wifi_passwd ::
  "('w, 'h) kvs_ops \<Rightarrow> string \<Rightarrow> settings \<Rightarrow> build \<Rightarrow> cfg_wlan \<Rightarrow> char list \<Rightarrow> 'w \<Rightarrow> kvs_fail + string option \<times> 'w" where
  "config_read_wifi_passwd ops ns st b c0 d = config_read_item_p ops ns st (item_no b CB_WIFI_PASSWD) d (Some (c_str (wl_password c0)))"

section \<open>Printing the configuration\<close>

text \<open>What the printing functions use: the store, the table, the texts of the options, and the writer's sink.\<close>

record ('w, 'h, 's) so_env =
  se_ops :: "('w, 'h) kvs_ops"
  se_ns :: string
  se_st :: settings
  se_b :: build
  se_strings :: "otok \<Rightarrow> string"
  se_out :: "'s sink"
  se_alloc :: "nat \<Rightarrow> bool"
  se_msgid :: u16

definition opt_str :: "('w, 'h, 's) so_env \<Rightarrow> configItem \<Rightarrow> string option" where
  "opt_str env it = (case get_optKeyStr (se_strings env) (se_st env) (item_no (se_b env) it) of Some k \<Rightarrow> k | None \<Rightarrow> None)"

definition print_text :: "('w, 'h, 's) so_env \<Rightarrow> configItem \<Rightarrow> string \<Rightarrow> 's uout_writer \<Rightarrow> 's uout_writer option" where
  "print_text env it val u = (case opt_str env it of None \<Rightarrow> None | Some k \<Rightarrow> so_print_s (se_out env) (se_alloc env) (se_msgid env) k val u)"

definition print_num :: "('w, 'h, 's) so_env \<Rightarrow> configItem \<Rightarrow> int \<Rightarrow> 's uout_writer \<Rightarrow> 's uout_writer option" where
  "print_num env it val u = (case opt_str env it of None \<Rightarrow> None | Some k \<Rightarrow> so_print_d (se_out env) (se_alloc env) (se_msgid env) k val u)"

definition hidden :: "char list \<Rightarrow> string" where
  "hidden pw = (if c_str pw \<noteq> [] then ''*'' else [])"

text \<open>A configuration is read, then printed. None is a program stop.\<close>

definition read_and_print ::
  "('w \<Rightarrow> kvs_fail + 'c \<times> 'w) \<Rightarrow> ('c \<Rightarrow> 's uout_writer \<Rightarrow> 's uout_writer option) \<Rightarrow> 'w \<times> 's uout_writer \<Rightarrow> ('w \<times> 's uout_writer) option" where
  "read_and_print rd pr = (\<lambda>(w, u). case rd w of Inl e \<Rightarrow> None | Inr (c, w1) \<Rightarrow> map_option (Pair w1) (pr c u))"

definition soCfg_mqtt :: "('w, 'h, 's) so_env \<Rightarrow> cfg_mqtt \<Rightarrow> soCfgFun \<Rightarrow> 'w \<times> 's uout_writer \<Rightarrow> ('w \<times> 's uout_writer) option" where
  "soCfg_mqtt env c0 f = read_and_print (config_read_mqttClient (se_ops env) (se_ns env) (se_st env) (se_b env) c0)
     (\<lambda>c. case f of
        soCfg_MQTT_ENABLE \<Rightarrow> print_num env CB_MQTT_ENABLE (sint (mq_enable c))
      | soCfg_MQTT_URL \<Rightarrow> print_text env CB_MQTT_URL (c_str (mq_url c))
      | soCfg_MQTT_USER \<Rightarrow> print_text env CB_MQTT_USER (c_str (mq_user c))
      | soCfg_MQTT_PASSWORD \<Rightarrow> print_text env CB_MQTT_PASSWD (hidden (mq_password c))
      | soCfg_MQTT_CLIENT_ID \<Rightarrow> print_text env CB_MQTT_CLIENT_ID (c_str (mq_client_id c))
      | soCfg_MQTT_ROOT_TOPIC \<Rightarrow> print_text env CB_MQTT_ROOT_TOPIC (c_str (mq_root_topic c))
      | _ \<Rightarrow> Some)"

definition soCfg_MQTT :: "('w, 'h, 's) so_env \<Rightarrow> cfg_mqtt \<Rightarrow> bool \<Rightarrow> 'w \<times> 's uout_writer \<Rightarrow> ('w \<times> 's uout_writer) option" where
  "soCfg_MQTT env c0 backup = read_and_print (config_read_mqttClient (se_ops env) (se_ns env) (se_st env) (se_b env) c0)
     (\<lambda>c u. do {
        u \<leftarrow> print_text env CB_MQTT_URL (c_str (mq_url c)) u;
        u \<leftarrow> print_text env CB_MQTT_USER (c_str (mq_user c)) u;
        u \<leftarrow> (if \<not> backup then print_text env CB_MQTT_PASSWD (hidden (mq_password c)) u else Some u);
        u \<leftarrow> print_text env CB_MQTT_CLIENT_ID (c_str (mq_client_id c)) u;
        u \<leftarrow> print_text env CB_MQTT_ROOT_TOPIC (c_str (mq_root_topic c)) u;
        print_num env CB_MQTT_ENABLE (sint (mq_enable c)) u })"

definition soCfg_http :: "('w, 'h, 's) so_env \<Rightarrow> http_cfg \<Rightarrow> soCfgFun \<Rightarrow> 'w \<times> 's uout_writer \<Rightarrow> ('w \<times> 's uout_writer) option" where
  "soCfg_http env c0 f = read_and_print (config_read_httpServer (se_ops env) (se_ns env) (se_st env) (se_b env) c0)
     (\<lambda>c. case f of
        soCfg_HTTP_ENABLE \<Rightarrow> print_num env CB_HTTP_ENABLE (sint (ht_enable c))
      | soCfg_HTTP_USER \<Rightarrow> print_text env CB_HTTP_USER (c_str (ht_user c))
      | soCfg_HTTP_PASSWORD \<Rightarrow> print_text env CB_HTTP_PASSWD (hidden (ht_password c))
      | _ \<Rightarrow> Some)"

definition soCfg_HTTP :: "('w, 'h, 's) so_env \<Rightarrow> http_cfg \<Rightarrow> 'w \<times> 's uout_writer \<Rightarrow> ('w \<times> 's uout_writer) option" where
  "soCfg_HTTP env c0 = read_and_print (config_read_httpServer (se_ops env) (se_ns env) (se_st env) (se_b env) c0)
     (\<lambda>c u. do {
        u \<leftarrow> print_text env CB_HTTP_USER (c_str (ht_user c)) u;
        u \<leftarrow> print_text env CB_HTTP_PASSWD (hidden (ht_password c)) u;
        print_num env CB_HTTP_ENABLE (sint (ht_enable c)) u })"

text \<open>The kind of the PHY indexes an array of four names without a check.\<close>

definition cfg_args_lanPhy :: "string list" where
  "cfg_args_lanPhy = [''none'', ''lan8720'', ''rtl8201'', ''ip101'']"

definition soCfg_lan :: "('w, 'h, 's) so_env \<Rightarrow> cfg_lan \<Rightarrow> soCfgFun \<Rightarrow> 'w \<times> 's uout_writer \<Rightarrow> ('w \<times> 's uout_writer) option" where
  "soCfg_lan env c0 f = read_and_print (config_read_ethernet (se_ops env) (se_ns env) (se_st env) (se_b env) c0)
     (\<lambda>c u. case f of
        soCfg_LAN_PHY \<Rightarrow> (if 0 \<le> sint (la_phy c) \<and> nat (sint (la_phy c)) < length cfg_args_lanPhy
          then print_text env CB_LAN_PHY (cfg_args_lanPhy ! nat (sint (la_phy c))) u else None)
      | soCfg_LAN_PWR_GPIO \<Rightarrow> print_num env CB_LAN_PWR_GPIO (sint (la_pwr_gpio c)) u
      | _ \<Rightarrow> Some u)"

definition soCfg_wlan :: "('w, 'h, 's) so_env \<Rightarrow> cfg_wlan \<Rightarrow> soCfgFun \<Rightarrow> 'w \<times> 's uout_writer \<Rightarrow> ('w \<times> 's uout_writer) option" where
  "soCfg_wlan env c0 f = read_and_print (config_read_wifiStation (se_ops env) (se_ns env) (se_st env) (se_b env) c0)
     (\<lambda>c. case f of
        soCfg_WLAN_SSID \<Rightarrow> print_text env CB_WIFI_SSID (c_str (wl_SSID c))
      | soCfg_WLAN_PASSWORD \<Rightarrow> print_text env CB_WIFI_PASSWD (hidden (wl_password c))
      | _ \<Rightarrow> Some)"

definition soCfg_ntp :: "('w, 'h, 's) so_env \<Rightarrow> cfg_ntp \<Rightarrow> 'w \<times> 's uout_writer \<Rightarrow> ('w \<times> 's uout_writer) option" where
  "soCfg_ntp env c0 = read_and_print (config_read_ntpClient (se_ops env) (se_ns env) (se_st env) (se_b env) c0)
     (\<lambda>c. print_text env CB_NTP_SERVER (c_str (nt_server c)))"

definition soCfg_verbose :: "(int \<Rightarrow> u8 list) \<Rightarrow> (u8 list \<Rightarrow> int) \<Rightarrow> ('w, 'h, 's) so_env \<Rightarrow> 'w \<times> 's uout_writer \<Rightarrow> ('w \<times> 's uout_writer) option" where
  "soCfg_verbose i2f f2i env = read_and_print (config_read_verbose i2f f2i (se_ops env) (se_ns env) (se_st env) (se_b env)) (print_num env CB_VERBOSE)"

definition soCfg_stm32_bootgpio_inv :: "(int \<Rightarrow> u8 list) \<Rightarrow> (u8 list \<Rightarrow> int) \<Rightarrow> ('w, 'h, 's) so_env \<Rightarrow> 'w \<times> 's uout_writer \<Rightarrow> ('w \<times> 's uout_writer) option" where
  "soCfg_stm32_bootgpio_inv i2f f2i env = read_and_print (config_read_stm32_inv_bootpin i2f f2i (se_ops env) (se_ns env) (se_st env) (se_b env))
     (\<lambda>v. print_num env CB_STM32_INV_BOOTPIN (of_bool v))"

end
