(* ===== verification/SettingsProps.thy ===== *)
theory SettingsProps
  imports ConfigGlue
begin

text \<open>
  The properties of the table of settings and of reading a configuration by it: what the components register is a
  table without collisions, and a configuration that is read has what the store has for its items.
\<close>

section \<open>The registrations\<close>

text \<open>What is registered for an item, over all components.\<close>

fun item_reg :: "configItem \<Rightarrow> string \<times> otok \<times> KvsType \<times> soCfgFun option \<times> StoreFun" where
  "item_reg CB_VERBOSE = (''C_VERBOSE'', k_verbose, CBT_i8, Some soCfg_VERBOSE, STF_direct)"
| "item_reg CB_WIFI_SSID = (''C_WIFI_SSID'', k_wlan_ssid, CBT_str, Some soCfg_WLAN_SSID, STF_direct)"
| "item_reg CB_WIFI_PASSWD = (''C_WIFI_PASSWD'', k_wlan_password, CBT_str, Some soCfg_WLAN_PASSWORD, STF_direct)"
| "item_reg CB_MQTT_URL = (''C_MQTT_URL'', k_mqtt_url, CBT_str, Some soCfg_MQTT_URL, STF_direct)"
| "item_reg CB_MQTT_USER = (''C_MQTT_USER'', k_mqtt_user, CBT_str, Some soCfg_MQTT_USER, STF_direct)"
| "item_reg CB_MQTT_PASSWD = (''C_MQTT_PASSWD'', k_mqtt_password, CBT_str, Some soCfg_MQTT_PASSWORD, STF_direct)"
| "item_reg CB_MQTT_CLIENT_ID = (''C_MQTT_CID'', k_mqtt_client_id, CBT_str, Some soCfg_MQTT_CLIENT_ID, STF_direct)"
| "item_reg CB_MQTT_ROOT_TOPIC = (''C_MQTT_RTOPIC'', k_mqtt_root_topic, CBT_str, Some soCfg_MQTT_ROOT_TOPIC, STF_direct)"
| "item_reg CB_MQTT_ENABLE = (''C_MQTT_ENABLE'', k_mqtt_enable, CBT_i8, Some soCfg_MQTT_ENABLE, STF_direct_bool)"
| "item_reg CB_HTTP_USER = (''C_HTTP_USER'', k_http_user, CBT_str, Some soCfg_HTTP_USER, STF_direct)"
| "item_reg CB_HTTP_PASSWD = (''C_HTTP_PASSWD'', k_http_password, CBT_str, Some soCfg_HTTP_PASSWORD, STF_direct)"
| "item_reg CB_HTTP_ENABLE = (''C_HTTP_ENABLE'', k_http_enable, CBT_i8, Some soCfg_HTTP_ENABLE, STF_direct_bool)"
| "item_reg CB_NTP_SERVER = (''C_NTP_SERVER'', k_ntp_server, CBT_str, Some soCfg_NTP_SERVER, STF_direct)"
| "item_reg CB_LAN_PHY = (''C_LAN_PHY'', k_lan_phy, CBT_i8, Some soCfg_LAN_PHY, STF_none)"
| "item_reg CB_LAN_PWR_GPIO = (''C_LAN_PWR_GPIO'', k_lan_pwr_gpio, CBT_i8, Some soCfg_LAN_PWR_GPIO, STF_none)"
| "item_reg CB_STM32_INV_BOOTPIN = (''C_STM_INV_BP'', k_stm32_bootgpio_inv, CBT_i8, Some soCfg_STM32_BOOTGPIO_INV, STF_direct)"

definition item_key :: "configItem \<Rightarrow> string" where
  "item_key it = fst (item_reg it)"

definition item_opt :: "configItem \<Rightarrow> otok" where
  "item_opt it = fst (snd (item_reg it))"

definition item_type :: "configItem \<Rightarrow> KvsType" where
  "item_type it = fst (snd (snd (item_reg it)))"

definition entry :: "build \<Rightarrow> configItem \<Rightarrow> SettingsData" where
  "entry b it = (case item_reg it of (key, optk, typ, cfg, stf) \<Rightarrow>
     \<lparr>kvs_key = Some key, so_cfg_fun = cfg, opt_key = optk, kvs_type = typ, store_fun = stf, id_bit = word_of_int (item_no b it)\<rparr>)"

lemmas register_defs = txtio_register_settings_def net_register_settings_def net_http_server_register_settings_def
  netMqtt_register_settings_def stm32_register_settings_def

lemma register_items:
  "map fst (txtio_register_settings b) = [CB_VERBOSE]"
  "map fst (net_register_settings b) = (if USE_WLAN b then [CB_WIFI_SSID, CB_WIFI_PASSWD] else []) @
     (if USE_NTP b then [CB_NTP_SERVER] else []) @ (if USE_LAN b then [CB_LAN_PHY, CB_LAN_PWR_GPIO] else [])"
  "map fst (net_http_server_register_settings b) = (if USE_HTTP b then [CB_HTTP_ENABLE, CB_HTTP_USER, CB_HTTP_PASSWD] else [])"
  "map fst (netMqtt_register_settings b) = (if USE_MQTT b then
     [CB_MQTT_ENABLE, CB_MQTT_URL, CB_MQTT_USER, CB_MQTT_PASSWD, CB_MQTT_CLIENT_ID, CB_MQTT_ROOT_TOPIC] else [])"
  "map fst (stm32_register_settings b) = (if USE_STM32 b then [CB_STM32_INV_BOOTPIN] else [])"
  by (simp_all add: register_defs)

lemma registrations_items: "fst ` set (registrations b) = set (config_items b)"
proof -
  have h: "set (if USE_HTTP b then [CB_HTTP_ENABLE, CB_HTTP_USER, CB_HTTP_PASSWD] else []) =
    set (if USE_HTTP b then [CB_HTTP_USER, CB_HTTP_PASSWD, CB_HTTP_ENABLE] else [])" by auto
  have m: "set (if USE_MQTT b then [CB_MQTT_ENABLE, CB_MQTT_URL, CB_MQTT_USER, CB_MQTT_PASSWD, CB_MQTT_CLIENT_ID, CB_MQTT_ROOT_TOPIC] else []) =
    set (if USE_MQTT b then [CB_MQTT_URL, CB_MQTT_USER, CB_MQTT_PASSWD, CB_MQTT_CLIENT_ID, CB_MQTT_ROOT_TOPIC, CB_MQTT_ENABLE] else [])" by auto
  show ?thesis
    unfolding registrations_def config_items_def set_append image_Un image_set register_items h m by blast
qed

lemma registered_as:
  "r \<in> set (txtio_register_settings b) \<Longrightarrow> snd r = item_reg (fst r)" "r \<in> set (net_register_settings b) \<Longrightarrow> snd r = item_reg (fst r)"
  "r \<in> set (net_http_server_register_settings b) \<Longrightarrow> snd r = item_reg (fst r)"
  "r \<in> set (netMqtt_register_settings b) \<Longrightarrow> snd r = item_reg (fst r)" "r \<in> set (stm32_register_settings b) \<Longrightarrow> snd r = item_reg (fst r)"
  by (auto simp: register_defs split: if_splits)

lemma registrations_reg: "r \<in> set (registrations b) \<Longrightarrow> fst r \<in> set (config_items b) \<and> snd r = item_reg (fst r)"
  using registrations_items [of b] registered_as [of r b] unfolding registrations_def set_append by blast

lemma registrations_all: "it \<in> set (config_items b) \<Longrightarrow> it \<in> fst ` set (registrations b)"
  by (simp only: registrations_items)

lemma config_items_distinct: "distinct (config_items b)"
  by (auto simp: config_items_def)

lemma CB_size_bound: "0 < CB_size b \<and> CB_size b \<le> 16"
  by (simp add: CB_size_def config_items_def)

lemma item_opt_inj: "item_opt x = item_opt y \<Longrightarrow> x = y"
  by (cases x; cases y) (simp_all add: item_opt_def)

lemma item_key_inj: "item_key x = item_key y \<Longrightarrow> x = y"
  by (cases x; cases y) (simp_all add: item_key_def)

lemma item_key_ok: "key_ok (item_key it) \<and> item_key it \<noteq> [] \<and> item_opt it \<noteq> otok_NONE \<and> (item_type it = CBT_str \<or> item_type it = CBT_i8)"
  by (cases it) (simp_all add: item_key_def item_opt_def item_type_def key_ok_def MAX_KEY_LEN_def)

text \<open>Numbers and items.\<close>

lemma takeWhile_index: "x \<in> set xs \<Longrightarrow> length (takeWhile (\<lambda>y. y \<noteq> x) xs) < length xs \<and> xs ! length (takeWhile (\<lambda>y. y \<noteq> x) xs) = x"
  by (induction xs) auto

lemma takeWhile_index_nth: "distinct xs \<Longrightarrow> i < length xs \<Longrightarrow> length (takeWhile (\<lambda>y. y \<noteq> xs ! i) xs) = i"
proof (induction xs arbitrary: i)
  case (Cons x xs)
  then show ?case by (cases i) auto
qed simp

lemma item_no_bounds: "it \<in> set (config_items b) \<Longrightarrow> 0 \<le> item_no b it \<and> item_no b it < int (CB_size b) \<and> config_items b ! nat (item_no b it) = it"
  using takeWhile_index [of it "config_items b"] by (simp add: item_no_def CB_size_def)

lemma item_no_nth: "i < CB_size b \<Longrightarrow> item_no b (config_items b ! i) = int i"
  by (simp add: item_no_def CB_size_def takeWhile_index_nth [OF config_items_distinct])

section \<open>The table that is built\<close>

lemma initField_item:
  assumes "it \<in> set (config_items b)" "length ds = CB_size b"
  shows "(case item_reg it of (key, optk, typ, cfg, stf) \<Rightarrow> initField (item_no b it) key optk typ cfg stf \<lparr>Offset = 0, m_data = ds\<rparr>) =
    Some \<lparr>Offset = 0, m_data = ds[nat (item_no b it) := entry b it]\<rparr>"
proof -
  have n: "0 \<le> item_no b it" "item_no b it < 16" "nat (item_no b it) < length ds"
    using item_no_bounds [OF assms(1)] CB_size_bound [of b] assms(2) by auto
  then have "unat (word_of_int (item_no b it) :: u8) = nat (item_no b it)" by (simp add: unat_eq_nat_uint uint_word_of_int)
  then show ?thesis using n(3) by (simp add: initField_def entry_def split: prod.splits)
qed

lemma init_fields_table:
  assumes "\<And>r. r \<in> set rs \<Longrightarrow> fst r \<in> set (config_items b) \<and> snd r = item_reg (fst r)" "length ds = CB_size b"
  shows "\<exists>ds'. init_fields b rs \<lparr>Offset = 0, m_data = ds\<rparr> = Some \<lparr>Offset = 0, m_data = ds'\<rparr> \<and> length ds' = CB_size b \<and>
    (\<forall>i < CB_size b. ds' ! i = (if config_items b ! i \<in> fst ` set rs then entry b (config_items b ! i) else ds ! i))"
  using assms
proof (induction rs arbitrary: ds)
  case (Cons r rs)
  obtain it key optk ty cfg stf where r: "r = (it, key, optk, ty, cfg, stf)" by (cases r) auto
  have it: "it \<in> set (config_items b)" "item_reg it = (key, optk, ty, cfg, stf)" using Cons.prems(1) [of r] r by auto
  have i: "init_fields b (r # rs) \<lparr>Offset = 0, m_data = ds\<rparr> = init_fields b rs \<lparr>Offset = 0, m_data = ds[nat (item_no b it) := entry b it]\<rparr>"
    using initField_item [OF it(1) Cons.prems(2)] it(2) r by simp
  have "length (ds[nat (item_no b it) := entry b it]) = CB_size b" using Cons.prems(2) by simp
  from Cons.IH [OF _ this] Cons.prems(1) [OF list.set_intros(2)] obtain ds' where ds': "init_fields b rs \<lparr>Offset = 0, m_data = ds[nat (item_no b it) := entry b it]\<rparr> =
      Some \<lparr>Offset = 0, m_data = ds'\<rparr>" "length ds' = CB_size b"
    "\<forall>i < CB_size b. ds' ! i = (if config_items b ! i \<in> fst ` set rs then entry b (config_items b ! i) else ds[nat (item_no b it) := entry b it] ! i)"
    by blast
  have "ds' ! i = (if config_items b ! i \<in> fst ` set (r # rs) then entry b (config_items b ! i) else ds ! i)" if "i < CB_size b" for i
    using ds'(3) that item_no_bounds [OF it(1)] item_no_nth [OF that] Cons.prems(2) r by (cases "i = nat (item_no b it)") auto
  then show ?case using ds'(1,2) i by auto
qed simp

lemma comp_settings_table: "comp_settings otok0 b = Some \<lparr>Offset = 0, m_data = map (entry b) (config_items b)\<rparr>"
proof -
  obtain ds' where ds': "comp_settings otok0 b = Some \<lparr>Offset = 0, m_data = ds'\<rparr>" "length ds' = CB_size b"
    "\<forall>i < CB_size b. config_items b ! i \<in> fst ` set (registrations b) \<longrightarrow> ds' ! i = entry b (config_items b ! i)"
    unfolding comp_settings_def register_settings_def settings_new_def
    using init_fields_table [OF registrations_reg length_replicate, of "registrations b" b] by (metis (no_types, lifting))
  have "ds' = map (entry b) (config_items b)"
    using ds'(2,3) registrations_all [of _ b] by (intro nth_equalityI) (simp_all add: CB_size_def)
  then show ?thesis using ds'(1) by simp
qed


section \<open>What the table answers\<close>

lemma table_item:
  assumes "it \<in> set (config_items b)" "comp_settings otok0 b = Some st"
  shows "item_data st (item_no b it) = Some (entry b it)"
  using assms item_no_bounds [OF assms(1)] by (auto simp: comp_settings_table item_data_def data_at_def CB_size_def)

lemma entry_simps [simp]:
  "kvs_key (entry b it) = Some (item_key it)" "opt_key (entry b it) = item_opt it" "kvs_type (entry b it) = item_type it"
  "id_bit (entry b it) = word_of_int (item_no b it)"
  by (simp_all add: entry_def item_key_def item_opt_def item_type_def split: prod.splits)

lemma otok_loop_distinct:
  "distinct (map opt_key ds) \<Longrightarrow> j < length ds \<Longrightarrow> otok_loop (opt_key (ds ! j)) ds i = i + int j"
proof (induction ds arbitrary: i j)
  case (Cons d ds)
  show ?case
  proof (cases j)
    case (Suc k)
    then have "opt_key (ds ! k) \<in> opt_key ` set ds" using Cons.prems(2) by simp
    then have "opt_key (ds ! k) \<noteq> opt_key d" using Cons.prems(1) by (metis distinct.simps(2) list.simps(9) set_map)
    then show ?thesis using Suc Cons by simp
  qed simp
qed simp

lemma get_item_opt:
  assumes "it \<in> set (config_items b)" "comp_settings otok0 b = Some st"
  shows "get_item st (item_opt it) = item_no b it"
proof -
  note n = item_no_bounds [OF assms(1)]
  have st: "st = \<lparr>Offset = 0, m_data = map (entry b) (config_items b)\<rparr>" using assms(2) by (simp add: comp_settings_table)
  have "distinct (map (\<lambda>x. item_opt x) (config_items b))" using config_items_distinct [of b] item_opt_inj by (simp add: distinct_map inj_on_def)
  then have "otok_loop (opt_key (m_data st ! nat (item_no b it))) (m_data st) 0 = 0 + int (nat (item_no b it))"
    using n by (intro otok_loop_distinct) (simp_all add: st o_def CB_size_def nat_less_iff)
  then have "otok_loop (item_opt it) (m_data st) 0 = item_no b it" using n by (simp add: st CB_size_def nat_less_iff)
  moreover have "to_item (item_no b it) = item_no b it"
    using n CB_size_bound [of b] by (simp add: to_item_def signed_take_bit_int_eq_self sint_sbintrunc')
  ultimately show ?thesis using item_key_ok [of it] n by (simp add: get_item_def otok2idx_def st)
qed

text \<open>C26: In every build the components' registrations fill the table of settings without collision: building it stays
  inside the table, each item has a key that the key-value store accepts, the type text or 8-bit number, and its own
  number as id; different items have different keys, and looking an item's option up gives the item and its bit.\<close>

theorem settings_registered:
  "\<exists>st. comp_settings otok0 b = Some st \<and> length (m_data st) = CB_size b \<and>
    (\<forall>x \<in> set (config_items b). \<exists>d. get_SettingsData st (item_no b x) = Some (Some d) \<and> (\<exists>k. kvs_key d = Some k \<and> k \<noteq> [] \<and> key_ok k) \<and>
      kvs_type d \<in> {CBT_str, CBT_i8} \<and> id_bit d = word_of_int (item_no b x) \<and> get_item st (opt_key d) = item_no b x \<and>
      get_bitMask st (opt_key d) = Some (push_bit (nat (item_no b x)) 1) \<and>
      (\<forall>y \<in> set (config_items b). get_kvsKey st (item_no b y) = get_kvsKey st (item_no b x) \<longrightarrow> y = x))"
proof -
  let ?st = "\<lparr>Offset = 0, m_data = map (entry b) (config_items b)\<rparr>"
  have c: "comp_settings otok0 b = Some ?st" by (rule comp_settings_table)
  have "\<exists>d. get_SettingsData ?st (item_no b x) = Some (Some d) \<and> (\<exists>k. kvs_key d = Some k \<and> k \<noteq> [] \<and> key_ok k) \<and>
      kvs_type d \<in> {CBT_str, CBT_i8} \<and> id_bit d = word_of_int (item_no b x) \<and> get_item ?st (opt_key d) = item_no b x \<and>
      get_bitMask ?st (opt_key d) = Some (push_bit (nat (item_no b x)) 1) \<and>
      (\<forall>y \<in> set (config_items b). get_kvsKey ?st (item_no b y) = get_kvsKey ?st (item_no b x) \<longrightarrow> y = x)"
    if x: "x \<in> set (config_items b)" for x
  proof (intro exI [of _ "entry b x"] conjI)
    note n = item_no_bounds [OF x] CB_size_bound [of b]
    show "get_SettingsData ?st (item_no b x) = Some (Some (entry b x))" using n by (simp add: get_SettingsData_def table_item [OF x c])
    show "get_bitMask ?st (opt_key (entry b x)) = Some (push_bit (nat (item_no b x)) 1)"
      using n by (simp add: get_bitMask_def get_item_opt [OF x c])
    show "\<forall>y \<in> set (config_items b). get_kvsKey ?st (item_no b y) = get_kvsKey ?st (item_no b x) \<longrightarrow> y = x"
      using n item_no_bounds by (auto simp: get_kvsKey_def table_item [OF x c] table_item [OF _ c] dest: item_key_inj split: if_splits)
  qed (use item_key_ok [of x] get_item_opt [OF x c] in auto)
  then show ?thesis by (intro exI [of _ ?st] conjI c) (simp_all add: CB_size_def)
qed

section \<open>Reading a configuration\<close>

text \<open>The text the store has for a key, and what reading it makes of a buffer or a number.\<close>

definition stored_str :: "kcontent \<Rightarrow> string \<Rightarrow> string \<Rightarrow> string option" where
  "stored_str C n k = map_option (map char_of_byte) (bytes_of (C n k) KVS_TYPE_STR)"

definition char_fits :: "kcontent \<Rightarrow> string \<Rightarrow> string \<Rightarrow> char list \<Rightarrow> bool" where
  "char_fits C n k d \<longleftrightarrow> (case stored_str C n k of None \<Rightarrow> True | Some s \<Rightarrow> no_nul s \<and> s \<noteq> [] \<and> length s < length d)"

definition char_val :: "kcontent \<Rightarrow> string \<Rightarrow> string \<Rightarrow> char list \<Rightarrow> char list" where
  "char_val C n k d = (case stored_str C n k of None \<Rightarrow> d | Some s \<Rightarrow> s @ NUL # drop (Suc (length s)) d)"

definition i8_val :: "kcontent \<Rightarrow> string \<Rightarrow> string \<Rightarrow> u8 \<Rightarrow> u8" where
  "i8_val C n k v = (case int_of (C n k) KVS_TYPE_i8 of Some x \<Rightarrow> ucast x | None \<Rightarrow> v)"

lemma stored_str_kstr:
  assumes "stored_str C n k = Some s"
  shows "C n k = Some (kstr s)"
proof -
  obtain bs where "C n k = Some (KBytes KVS_TYPE_STR bs)" "s = map char_of_byte bs"
    using assms by (auto simp: stored_str_def bytes_of_def split: option.splits kval.splits if_splits)
  then show ?thesis by (simp add: kstr_def map_idI)
qed

lemma stored_str_none: "stored_str C n k = None \<longleftrightarrow> bytes_of (C n k) KVS_TYPE_STR = None"
  by (simp add: stored_str_def)

lemma vals_empty: "C n = Map.empty \<Longrightarrow> char_val C n k d = d \<and> i8_val C n k v = v"
  by (simp add: char_val_def i8_val_def stored_str_def)

context kvs_contract
begin

lemma item_keys: "keys (item_key it)"
  using keys item_key_ok by blast

lemma char_field_reads:
  assumes "opened w h n wr C" "kvsKey st item = Inr k" "keys k" "char_fits C n k (get c)"
  shows "\<exists>w1. char_field ops st item get upd h c w = Inr (upd (\<lambda>_. char_val C n k (get c)) c, w1) \<and> opened w1 h n wr C"
proof (cases "stored_str C n k")
  case None
  with get_str_none [OF assms(1,3) None [unfolded stored_str_none], of "get c"] show ?thesis
    by (auto simp: char_field_def kvsRead_charArray_def assms(2) char_val_def None)
next
  case (Some s)
  with assms(4) have "no_nul s" "s \<noteq> []" "length s < length (get c)" by (simp_all add: char_fits_def)
  from get_str [OF assms(1,3) stored_str_kstr [OF Some] this] show ?thesis
    by (auto simp: char_field_def kvsRead_charArray_def assms(2) char_val_def Some)
qed

lemma i8_field_reads:
  assumes "opened w h n wr C" "kvsKey st item = Inr k" "keys k"
  shows "\<exists>w1. i8_field ops st item get upd h c w = Inr (upd (\<lambda>_. i8_val C n k (get c)) c, w1) \<and> opened w1 h n wr C"
  using get_i8 [OF assms(1,3), of "get c"] by (auto simp: i8_field_def kvsRead_i8_def assms(2) i8_val_def)

lemma read_fields_Cons:
  assumes "\<exists>w1. r h c w = Inr (c1, w1) \<and> opened w1 h n wr C"
    and "\<And>w1. opened w1 h n wr C \<Longrightarrow> \<exists>w2. read_fields rs h c1 w1 = Inr (c2, w2) \<and> opened w2 h n wr C"
  shows "\<exists>w2. read_fields (r # rs) h c w = Inr (c2, w2) \<and> opened w2 h n wr C"
  using assms by auto

lemma read_fields_Nil: "opened w h n wr C \<Longrightarrow> \<exists>w2. read_fields [] h c w = Inr (c, w2) \<and> opened w2 h n wr C"
  by simp

lemma read_session_fields:
  assumes "idle w C" "names n" "C n = Map.empty \<Longrightarrow> c' = c"
    and "\<And>h w1. opened w1 h n False C \<Longrightarrow> \<exists>w2. read_fields rs h c w1 = Inr (c', w2) \<and> opened w2 h n False C"
  shows "\<exists>w'. read_session ops n rs c w = Inr (c', w') \<and> idle w' C"
  using open_read [OF assms(1,2)]
proof (elim disjE exE conjE)
  fix w1 assume "op_open ops n kvs_flag_READ w = (None, w1)" "idle w1 C" "C n = Map.empty"
  then show ?thesis using assms(3) by (simp add: read_session_def)
next
  fix h w1 assume o1: "op_open ops n kvs_flag_READ w = (Some h, w1)" "opened w1 h n False C"
  from assms(4) [OF o1(2)] o1(1) close show ?thesis by (auto simp: read_session_def)
qed

end

lemma kvsKey_item:
  assumes "comp_settings otok0 b = Some st" "it \<in> set (config_items b)"
  shows "kvsKey st (item_no b it) = Inr (item_key it)"
  using table_item [OF assms(2,1)] item_no_bounds [OF assms(2)] by (simp add: kvsKey_def get_kvsKey_def)

lemma mqtt_items: "USE_MQTT b \<Longrightarrow>
  {CB_MQTT_URL, CB_MQTT_USER, CB_MQTT_PASSWD, CB_MQTT_CLIENT_ID, CB_MQTT_ROOT_TOPIC, CB_MQTT_ENABLE} \<subseteq> set (config_items b)"
  by (simp add: config_items_def)

lemma http_items: "USE_HTTP b \<Longrightarrow> {CB_HTTP_USER, CB_HTTP_PASSWD, CB_HTTP_ENABLE} \<subseteq> set (config_items b)"
  by (simp add: config_items_def)

section \<open>The configuration of the MQTT client\<close>

definition mqtt_str :: "configItem \<Rightarrow> cfg_mqtt \<Rightarrow> char list" where
  "mqtt_str it c = (case it of CB_MQTT_URL \<Rightarrow> mq_url c | CB_MQTT_USER \<Rightarrow> mq_user c | CB_MQTT_PASSWD \<Rightarrow> mq_password c
     | CB_MQTT_CLIENT_ID \<Rightarrow> mq_client_id c | CB_MQTT_ROOT_TOPIC \<Rightarrow> mq_root_topic c | _ \<Rightarrow> [])"

definition mqtt_strs :: "configItem set" where
  "mqtt_strs = {CB_MQTT_URL, CB_MQTT_USER, CB_MQTT_PASSWD, CB_MQTT_CLIENT_ID, CB_MQTT_ROOT_TOPIC}"

definition mqtt_fits :: "kcontent \<Rightarrow> string \<Rightarrow> cfg_mqtt \<Rightarrow> bool" where
  "mqtt_fits C n c \<longleftrightarrow> (\<forall>it \<in> mqtt_strs. char_fits C n (item_key it) (mqtt_str it c))"

definition mqtt_read :: "kcontent \<Rightarrow> string \<Rightarrow> cfg_mqtt \<Rightarrow> cfg_mqtt" where
  "mqtt_read C n c = \<lparr>mq_url = char_val C n (item_key CB_MQTT_URL) (mq_url c), mq_user = char_val C n (item_key CB_MQTT_USER) (mq_user c),
     mq_password = char_val C n (item_key CB_MQTT_PASSWD) (mq_password c),
     mq_client_id = char_val C n (item_key CB_MQTT_CLIENT_ID) (mq_client_id c),
     mq_root_topic = char_val C n (item_key CB_MQTT_ROOT_TOPIC) (mq_root_topic c),
     mq_enable = i8_val C n (item_key CB_MQTT_ENABLE) (mq_enable c)\<rparr>"

lemma mqtt_str_read: "it \<in> mqtt_strs \<Longrightarrow> mqtt_str it (mqtt_read C n c) = char_val C n (item_key it) (mqtt_str it c)"
  by (auto simp: mqtt_strs_def mqtt_str_def mqtt_read_def)

context kvs_contract
begin

lemma config_read_mqtt:
  assumes "comp_settings otok0 b = Some st" "USE_MQTT b" "idle w C" "mqtt_fits C n c" "names n"
  shows "\<exists>w'. config_read_mqttClient ops n st b c w = Inr (mqtt_read C n c, w') \<and> idle w' C"
  unfolding config_read_mqttClient_def
proof (rule read_session_fields [OF assms(3,5)])
  show "C n = Map.empty \<Longrightarrow> mqtt_read C n c = c" by (simp add: mqtt_read_def vals_empty)
  note k = kvsKey_item [OF assms(1) subsetD [OF mqtt_items [OF assms(2)]]]
  have f: "char_fits C n (item_key CB_MQTT_URL) (mq_url c)" "char_fits C n (item_key CB_MQTT_USER) (mq_user c)"
    "char_fits C n (item_key CB_MQTT_PASSWD) (mq_password c)" "char_fits C n (item_key CB_MQTT_CLIENT_ID) (mq_client_id c)"
    "char_fits C n (item_key CB_MQTT_ROOT_TOPIC) (mq_root_topic c)" using assms(4) by (simp_all add: mqtt_fits_def mqtt_strs_def mqtt_str_def)
  fix h w1 assume o: "opened w1 h n False C"
  show "\<exists>w2. read_fields
      [char_field ops st (item_no b CB_MQTT_URL) mq_url mq_url_update, char_field ops st (item_no b CB_MQTT_USER) mq_user mq_user_update,
       char_field ops st (item_no b CB_MQTT_PASSWD) mq_password mq_password_update,
       char_field ops st (item_no b CB_MQTT_CLIENT_ID) mq_client_id mq_client_id_update,
       char_field ops st (item_no b CB_MQTT_ROOT_TOPIC) mq_root_topic mq_root_topic_update,
       i8_field ops st (item_no b CB_MQTT_ENABLE) mq_enable mq_enable_update] h c w1 = Inr (mqtt_read C n c, w2) \<and> opened w2 h n False C"
    by (rule read_fields_Cons, rule char_field_reads [OF o k], simp, rule item_keys, simp add: f)
      ((rule read_fields_Cons, rule char_field_reads [OF _ k], assumption, simp, rule item_keys, simp add: f)+,
       rule read_fields_Cons, rule i8_field_reads [OF _ k], assumption, simp, rule item_keys, simp add: mqtt_read_def)
qed

end

section \<open>Saving an item and reading the configuration\<close>

lemma char_val_upd: "C' = C(n := (C n)(k \<mapsto> kstr s)) \<Longrightarrow> char_val C' n k' d = (if k' = k then s @ NUL # drop (Suc (length s)) d else char_val C n k' d)"
  by (simp add: char_val_def stored_str_def kstr_def)

lemma char_fits_upd:
  "C' = C(n := (C n)(k \<mapsto> kstr s)) \<Longrightarrow> char_fits C' n k' d \<longleftrightarrow> (if k' = k then no_nul s \<and> s \<noteq> [] \<and> length s < length d else char_fits C n k' d)"
  by (simp add: char_fits_def stored_str_def kstr_def)

lemma i8_val_upd: "C' = C(n := (C n)(k \<mapsto> kstr s)) \<Longrightarrow> k' \<noteq> k \<Longrightarrow> i8_val C' n k' v = i8_val C n k' v"
  by (simp add: i8_val_def)

lemma item_key_eq [simp]: "item_key x = item_key y \<longleftrightarrow> x = y"
  using item_key_inj by blast

text \<open>Changing a text of the MQTT configuration: saving it under the key that the table has for the item makes the next
  reading of the configuration deliver it in the item's member, and all other members as before.\<close>

lemma mqtt_setting_roundtrip:
  assumes "kw_idle w C" "comp_settings otok0 b = Some st" "USE_MQTT b" "mqtt_fits C n c" "it \<in> mqtt_strs"
    "get_kvsKey st (item_no b it) = Some (Some k)" "no_nul s" "s \<noteq> []" "length s < length (mqtt_str it c)" "length s < 65536"
  shows "\<exists>w1 w2 w3 c1 c2. config_read_mqttClient host_kvs n st b c w = Inr (c1, w1) \<and> config_save_item_s host_kvs n k s w1 = Inr (True, w2) \<and>
    config_read_mqttClient host_kvs n st b c w2 = Inr (c2, w3) \<and> c_str (mqtt_str it c2) = s \<and>
    (\<forall>x \<in> mqtt_strs - {it}. mqtt_str x c2 = mqtt_str x c1) \<and> mq_enable c2 = mq_enable c1"
proof -
  have it: "it \<in> set (config_items b)" using assms(5) mqtt_items [OF assms(3)] by (auto simp: mqtt_strs_def)
  have k: "k = item_key it" using kvsKey_item [OF assms(2) it] assms(6) by (simp add: kvsKey_def)
  let ?C = "C(n := (C n)(k \<mapsto> kstr s))"
  obtain w1 where w1: "config_read_mqttClient host_kvs n st b c w = Inr (mqtt_read C n c, w1)" "kw_idle w1 C"
    using host.config_read_mqtt [OF assms(2,3,1,4) TrueI] by blast
  obtain w2 where w2: "config_save_item_s host_kvs n k s w1 = Inr (True, w2)" "kw_idle w2 ?C"
    using host.save_s [OF w1(2) _ assms(7,10) TrueI] item_key_ok [of it] k by blast
  have "mqtt_fits ?C n c" using assms(4,7,8,9) by (auto simp: mqtt_fits_def char_fits_upd [OF refl] k)
  from host.config_read_mqtt [OF assms(2,3) w2(2) this TrueI] obtain w3 where
    w3: "config_read_mqttClient host_kvs n st b c w2 = Inr (mqtt_read ?C n c, w3)" by blast
  have "c_str (mqtt_str it (mqtt_read ?C n c)) = s"
    by (simp add: mqtt_str_read [OF assms(5)] char_val_upd [OF refl] k c_str_append_nul [OF assms(7)])
  moreover have "\<forall>x \<in> mqtt_strs - {it}. mqtt_str x (mqtt_read ?C n c) = mqtt_str x (mqtt_read C n c)"
    by (simp add: mqtt_str_read char_val_upd [OF refl] k)
  moreover have "mq_enable (mqtt_read ?C n c) = mq_enable (mqtt_read C n c)"
    using assms(5) by (auto simp: mqtt_read_def k mqtt_strs_def intro: i8_val_upd [OF refl])
  ultimately show ?thesis using w1(1) w2(1) w3 by blast
qed

section \<open>Reading by the type of the item\<close>

context kvs_contract
begin

lemma item_read:
  assumes "comp_settings otok0 b = Some st" "it \<in> set (config_items b)" "idle w C" "names n"
  shows "item_type it = CBT_i8 \<Longrightarrow> \<exists>w'. config_read_item i2f f2i ops n st cast (item_no b it) v w =
      Inr (cast (sint (i8_val C n (item_key it) (word_of_int v))), w') \<and> idle w' C"
    and "item_type it = CBT_str \<Longrightarrow> char_fits C n (item_key it) d \<Longrightarrow> \<exists>w'. config_read_item_p ops n st (item_no b it) d def w =
      Inr (case stored_str C n (item_key it) of None \<Rightarrow> def | Some s \<Rightarrow> Some s, w') \<and> idle w' C"
    and "item_type it = CBT_i8 \<Longrightarrow> config_read_item_p ops n st (item_no b it) d def w = Inl AssertFailed"
    and "item_type it = CBT_str \<Longrightarrow> config_read_item i2f f2i ops n st cast (item_no b it) v w = Inl AssertFailed"
proof -
  have t: "get_kvsType st (item_no b it) = Some (item_type it)"
    using table_item [OF assms(2,1)] item_no_bounds [OF assms(2)] by (simp add: get_kvsType_def)
  note k = kvsKey_item [OF assms(1,2)]
  note ok = item_keys [of it]
  show "item_type it = CBT_i8 \<Longrightarrow> \<exists>w'. config_read_item i2f f2i ops n st cast (item_no b it) v w =
      Inr (cast (sint (i8_val C n (item_key it) (word_of_int v))), w') \<and> idle w' C"
    using read_i8 [OF assms(3) ok assms(4), of "word_of_int v"] by (auto simp: config_read_item_def t k i8_val_def)
  show "item_type it = CBT_str \<Longrightarrow> char_fits C n (item_key it) d \<Longrightarrow> \<exists>w'. config_read_item_p ops n st (item_no b it) d def w =
      Inr (case stored_str C n (item_key it) of None \<Rightarrow> def | Some s \<Rightarrow> Some s, w') \<and> idle w' C"
  proof (cases "stored_str C n (item_key it)")
    case None
    then show "item_type it = CBT_str \<Longrightarrow> ?thesis" using read_s_default [OF assms(3) ok None [unfolded stored_str_none] assms(4), of d "def"]
      by (auto simp: config_read_item_p_def t k)
  next
    case (Some s)
    assume "item_type it = CBT_str" "char_fits C n (item_key it) d"
    then show ?thesis using read_s [OF assms(3) ok stored_str_kstr [OF Some] _ _ _ assms(4), of d "def"] Some
      by (auto simp: config_read_item_p_def t k char_fits_def)
  qed
  show "item_type it = CBT_i8 \<Longrightarrow> config_read_item_p ops n st (item_no b it) d def w = Inl AssertFailed"
    "item_type it = CBT_str \<Longrightarrow> config_read_item i2f f2i ops n st cast (item_no b it) v w = Inl AssertFailed"
    by (simp_all add: config_read_item_def config_read_item_p_def t)
qed

end

text \<open>Reading an item by its registered type: in every build each item has one of two forms of config_read_item that
  delivers what the store has for its key, or the default, and never stops the program - the numeric form for 8-bit
  items, truncating a default to 8 bits, the form with a buffer for texts; the other form fails its assertion.\<close>

lemma config_item_read_typed:
  assumes "comp_settings otok0 b = Some st" "it \<in> set (config_items b)" "get_kvsKey st (item_no b it) = Some (Some k)" "kw_idle w C" "char_fits C n k d"
  shows "(\<exists>w'. kw_idle w' C \<and> config_read_item i2f f2i host_kvs n st cast (item_no b it) v w = Inr (cast (sint (i8_val C n k (word_of_int v))), w') \<and>
        config_read_item_p host_kvs n st (item_no b it) d def w = Inl AssertFailed) \<noteq>
      (\<exists>w'. kw_idle w' C \<and> config_read_item_p host_kvs n st (item_no b it) d def w =
          Inr (case stored_str C n k of None \<Rightarrow> def | Some s \<Rightarrow> Some s, w') \<and>
        config_read_item i2f f2i host_kvs n st cast (item_no b it) v w = Inl AssertFailed)"
proof -
  have k: "k = item_key it" using kvsKey_item [OF assms(1,2)] assms(3) by (simp add: kvsKey_def)
  note r = host.item_read [OF assms(1,2,4) TrueI]
  show ?thesis
  proof (cases "item_type it = CBT_i8")
    case True
    with r(1) [OF True, of i2f f2i n cast v] r(3) [OF True, of n d "def"] show ?thesis by (auto simp: k)
  next
    case False
    then have t: "item_type it = CBT_str" using item_key_ok [of it] by simp
    with r(2) [OF t, of n d "def"] r(4) [OF t, of i2f f2i n cast v] assms(5) show ?thesis by (auto simp: k)
  qed
qed

section \<open>Printing a configuration\<close>

lemma hidden_nonempty: "c_str p \<noteq> [] \<Longrightarrow> c_str q \<noteq> [] \<Longrightarrow> hidden p = hidden q"
  by (simp add: hidden_def)

text \<open>C27: Printing the MQTT configuration does not disclose the password: two stores whose settings differ only in the text
  of a password lead to the same output of all the functions that print one of its items, and of the one that prints all.\<close>

theorem mqtt_password_not_shown:
  assumes "comp_settings otok0 b = Some st" "USE_MQTT b" "kw_idle w1 C1" "kw_idle w2 C2" "mqtt_fits C1 n c0" "mqtt_fits C2 n c0"
    "\<forall>k. k \<noteq> item_key CB_MQTT_PASSWD \<longrightarrow> C1 n k = C2 n k"
    "stored_str C1 n (item_key CB_MQTT_PASSWD) = Some p1" "stored_str C2 n (item_key CB_MQTT_PASSWD) = Some p2"
    "se_ops env = host_kvs" "se_ns env = n" "se_st env = st" "se_b env = b"
  shows "map_option snd (soCfg_mqtt env c0 f (w1, u)) = map_option snd (soCfg_mqtt env c0 f (w2, u)) \<and>
    map_option snd (soCfg_MQTT env c0 backup (w1, u)) = map_option snd (soCfg_MQTT env c0 backup (w2, u))"
proof -
  obtain v1 v2 where r: "config_read_mqttClient host_kvs n st b c0 w1 = Inr (mqtt_read C1 n c0, v1)"
    "config_read_mqttClient host_kvs n st b c0 w2 = Inr (mqtt_read C2 n c0, v2)"
    using host.config_read_mqtt [OF assms(1,2,3,5) TrueI] host.config_read_mqtt [OF assms(1,2,4,6) TrueI] by blast
  have v: "char_val C1 n (item_key x) d = char_val C2 n (item_key x) d" "i8_val C1 n (item_key x) i = i8_val C2 n (item_key x) i"
    if "x \<noteq> CB_MQTT_PASSWD" for x d i
    using assms(7) that by (simp_all add: char_val_def i8_val_def stored_str_def)
  have "no_nul p1" "p1 \<noteq> []" "no_nul p2" "p2 \<noteq> []" using assms(5,6,8,9) by (auto simp: mqtt_fits_def mqtt_strs_def char_fits_def)
  then have h: "hidden (mq_password (mqtt_read C1 n c0)) = hidden (mq_password (mqtt_read C2 n c0))"
    by (intro hidden_nonempty) (simp_all add: mqtt_read_def char_val_def assms(8,9) c_str_append_nul)
  have e: "mq_url (mqtt_read C1 n c0) = mq_url (mqtt_read C2 n c0)" "mq_user (mqtt_read C1 n c0) = mq_user (mqtt_read C2 n c0)"
    "mq_client_id (mqtt_read C1 n c0) = mq_client_id (mqtt_read C2 n c0)" "mq_root_topic (mqtt_read C1 n c0) = mq_root_topic (mqtt_read C2 n c0)"
    "mq_enable (mqtt_read C1 n c0) = mq_enable (mqtt_read C2 n c0)" by (simp_all add: mqtt_read_def v)
  show ?thesis
    by (cases f) (simp_all add: soCfg_mqtt_def soCfg_MQTT_def read_and_print_def assms(10-13) r h e option.map_comp o_def cong: if_cong)
qed

section \<open>Witnesses\<close>

definition full_build :: build where
  "full_build = \<lparr>USE_WLAN = True, USE_MQTT = True, USE_HTTP = True, USE_NTP = True, USE_LAN = True, USE_STM32 = True\<rparr>"

definition mqtt_default :: cfg_mqtt where
  "mqtt_default = \<lparr>mq_url = replicate 64 NUL, mq_user = replicate 16 NUL, mq_password = replicate 31 NUL, mq_client_id = replicate 32 NUL,
     mq_root_topic = replicate 32 NUL, mq_enable = 0\<rparr>"

definition full_table :: settings where
  "full_table = \<lparr>Offset = 0, m_data = map (entry full_build) (config_items full_build)\<rparr>"

lemma full_table: "comp_settings otok_NONE full_build = Some full_table"
  by (simp add: comp_settings_table full_table_def)

lemma full_build_all: "it \<in> set (config_items full_build)"
  by (cases it) (simp_all add: config_items_def full_build_def)

lemma full_table_key: "get_kvsKey full_table (item_no full_build it) = Some (Some (item_key it))"
  using table_item [OF full_build_all full_table, of it] item_no_bounds [OF full_build_all, of it] by (simp add: get_kvsKey_def)

lemma char_fits_empty: "char_fits (\<lambda>_. Map.empty) n k d"
  by (simp add: char_fits_def stored_str_def)

theorem settings_registered_witness:
  "\<exists>st. comp_settings (k_app 0) full_build = Some st \<and> length (m_data st) = 16 \<and> CB_LAN_PWR_GPIO \<in> set (config_items full_build)"
proof -
  have "CB_size full_build = 16" by (simp add: CB_size_def config_items_def full_build_def)
  then show ?thesis using settings_registered [of "k_app 0" full_build] full_build_all by metis
qed

lemma mqtt_setting_roundtrip_witness:
  "\<exists>c1 c2 w1 w2 w3. config_read_mqttClient host_kvs ''cfg'' full_table full_build mqtt_default kworld_init = Inr (c1, w1) \<and>
    config_read_mqttClient host_kvs ''cfg'' full_table full_build mqtt_default w2 = Inr (c2, w3) \<and> c_str (mqtt_str CB_MQTT_USER c2) = ''me''"
proof -
  have f: "mqtt_fits (\<lambda>_. Map.empty) ''cfg'' mqtt_default" by (simp add: mqtt_fits_def char_fits_empty)
  have "\<exists>w1 w2 w3 c1 c2. config_read_mqttClient host_kvs ''cfg'' full_table full_build mqtt_default kworld_init = Inr (c1, w1) \<and>
    config_save_item_s host_kvs ''cfg'' (item_key CB_MQTT_USER) ''me'' w1 = Inr (True, w2) \<and>
    config_read_mqttClient host_kvs ''cfg'' full_table full_build mqtt_default w2 = Inr (c2, w3) \<and> c_str (mqtt_str CB_MQTT_USER c2) = ''me'' \<and>
    (\<forall>x \<in> mqtt_strs - {CB_MQTT_USER}. mqtt_str x c2 = mqtt_str x c1) \<and> mq_enable c2 = mq_enable c1"
    by (rule mqtt_setting_roundtrip [OF kw_idle_init full_table _ f _ full_table_key])
      (simp_all add: full_build_def mqtt_strs_def mqtt_str_def mqtt_default_def)
  then show ?thesis by blast
qed

lemma config_item_read_typed_witness:
  "\<exists>w'. config_read_item (\<lambda>_. []) (\<lambda>_. 0) host_kvs ''cfg'' full_table id (item_no full_build CB_VERBOSE) 3 kworld_init = Inr (3, w') \<and>
    config_read_item_p host_kvs ''cfg'' full_table (item_no full_build CB_VERBOSE) ''xxxx'' None kworld_init = Inl AssertFailed"
proof -
  have "item_type CB_VERBOSE = CBT_i8" by (simp add: item_type_def)
  then have "\<not> (\<exists>w'. config_read_item_p host_kvs ''cfg'' full_table (item_no full_build CB_VERBOSE) ''xxxx'' None kworld_init = Inr w')"
    using host.item_read(3) [OF full_table full_build_all kw_idle_init TrueI] by simp
  moreover have "sint (i8_val (\<lambda>_. Map.empty) ''cfg'' (item_key CB_VERBOSE) (word_of_int 3)) = 3" by (simp add: i8_val_def)
  ultimately show ?thesis
    using config_item_read_typed [OF full_table full_build_all full_table_key kw_idle_init char_fits_empty,
        where it = CB_VERBOSE and ?i2f = "\<lambda>_. []" and ?f2i = "\<lambda>_. 0" and n = "''cfg''" and cast = id and v = 3 and d = "''xxxx''" and def = None] by auto
qed

text \<open>Two stores with different passwords, as the host store makes them.\<close>

definition test_env :: "(kworld, nat, string) so_env" where
  "test_env = \<lparr>se_ops = host_kvs, se_ns = ''cfg'', se_st = full_table, se_b = full_build, se_strings = (\<lambda>_. ''k''),
     se_out = (\<lambda>st s fin. (int (length s), st @ s)), se_alloc = (\<lambda>_. True), se_msgid = 0\<rparr>"


theorem mqtt_password_not_shown_witness:
  "\<exists>w1 w2. config_save_item_s host_kvs ''cfg'' (item_key CB_MQTT_PASSWD) ''a'' kworld_init = Inr (True, w1) \<and>
    config_save_item_s host_kvs ''cfg'' (item_key CB_MQTT_PASSWD) ''bcd'' kworld_init = Inr (True, w2) \<and>
    (\<forall>u. map_option snd (soCfg_MQTT test_env mqtt_default False (w1, u)) = map_option snd (soCfg_MQTT test_env mqtt_default False (w2, u)))"
proof -
  define C where "C p = (\<lambda>_. Map.empty)(''cfg'' := [item_key CB_MQTT_PASSWD \<mapsto> kstr p])" for p
  have s: "\<exists>w. config_save_item_s host_kvs ''cfg'' (item_key CB_MQTT_PASSWD) p kworld_init = Inr (True, w) \<and> kw_idle w (C p)"
    if "no_nul p" "length p < 65536" for p
    using host.save_s [OF kw_idle_init _ that TrueI, of "item_key CB_MQTT_PASSWD" "''cfg''"] item_key_ok [of CB_MQTT_PASSWD] by (simp add: C_def)
  obtain w1 where w1: "config_save_item_s host_kvs ''cfg'' (item_key CB_MQTT_PASSWD) ''a'' kworld_init = Inr (True, w1)" "kw_idle w1 (C ''a'')"
    using s [of "''a''"] by auto
  obtain w2 where w2: "config_save_item_s host_kvs ''cfg'' (item_key CB_MQTT_PASSWD) ''bcd'' kworld_init = Inr (True, w2)" "kw_idle w2 (C ''bcd'')"
    using s [of "''bcd''"] by auto
  have st: "stored_str (C p) ''cfg'' (item_key x) = (if x = CB_MQTT_PASSWD then Some p else None)" for p x
    by (simp add: stored_str_def C_def kstr_def)
  have fits: "mqtt_fits (C p) ''cfg'' mqtt_default" if "no_nul p" "p \<noteq> []" "length p < 31" for p
    using that by (simp add: mqtt_fits_def char_fits_def st mqtt_strs_def mqtt_str_def mqtt_default_def)
  have "map_option snd (soCfg_MQTT test_env mqtt_default False (w1, u)) = map_option snd (soCfg_MQTT test_env mqtt_default False (w2, u))" for u
    by (rule mqtt_password_not_shown [OF full_table _ w1(2) w2(2), where n = "''cfg''" and f = soCfg_MQTT_PASSWORD, THEN conjunct2])
      (use st [of "''a''" CB_MQTT_PASSWD] st [of "''bcd''" CB_MQTT_PASSWD] in \<open>simp_all add: full_build_def test_env_def fits [simplified], simp_all add: C_def\<close>)
  then show ?thesis using w1(1) w2(1) by blast
qed

end
