(* ===== verification/ConfigLogin.thy ===== *)
theory ConfigLogin
  imports SettingsProps HttpProps
begin

text \<open>
  The settings of the HTTP server from the store to the answer of a login: saving items, reading the configuration by
  the table of settings, setting up the server, and deciding about a request.
\<close>

definition http_read :: "kcontent \<Rightarrow> string \<Rightarrow> http_cfg \<Rightarrow> http_cfg" where
  "http_read C n c = \<lparr>ht_user = char_val C n (item_key CB_HTTP_USER) (ht_user c),
     ht_password = char_val C n (item_key CB_HTTP_PASSWD) (ht_password c), ht_enable = i8_val C n (item_key CB_HTTP_ENABLE) (ht_enable c)\<rparr>"

definition http_fits :: "kcontent \<Rightarrow> string \<Rightarrow> http_cfg \<Rightarrow> bool" where
  "http_fits C n c \<longleftrightarrow> char_fits C n (item_key CB_HTTP_USER) (ht_user c) \<and> char_fits C n (item_key CB_HTTP_PASSWD) (ht_password c)"

context kvs_contract
begin

lemma config_read_http:
  assumes "comp_settings otok0 b = Some st" "USE_HTTP b" "idle w C" "http_fits C n c" "names n"
  shows "\<exists>w'. config_read_httpServer ops n st b c w = Inr (http_read C n c, w') \<and> idle w' C"
  unfolding config_read_httpServer_def
proof (rule read_session_fields [OF assms(3,5)])
  show "C n = Map.empty \<Longrightarrow> http_read C n c = c" by (simp add: http_read_def vals_empty)
  note k = kvsKey_item [OF assms(1) subsetD [OF http_items [OF assms(2)]]]
  note f = assms(4) [unfolded http_fits_def]
  fix h w1 assume o: "opened w1 h n False C"
  show "\<exists>w2. read_fields
      [char_field ops st (item_no b CB_HTTP_USER) ht_user ht_user_update, char_field ops st (item_no b CB_HTTP_PASSWD) ht_password ht_password_update,
       i8_field ops st (item_no b CB_HTTP_ENABLE) ht_enable ht_enable_update] h c w1 = Inr (http_read C n c, w2) \<and> opened w2 h n False C"
    by (rule read_fields_Cons, rule char_field_reads [OF o k], simp, rule item_keys, simp add: f)
      (rule read_fields_Cons, rule char_field_reads [OF _ k], assumption, simp, rule item_keys, simp add: f,
       rule read_fields_Cons, rule i8_field_reads [OF _ k], assumption, simp, rule item_keys, simp add: http_read_def)
qed

text \<open>Saving the credentials and enabling the server.\<close>

lemma http_saved:
  assumes "idle w C" "no_nul user" "user \<noteq> []" "length user < length (ht_user c)" "length user < cap"
    "no_nul pw" "pw \<noteq> []" "length pw < length (ht_password c)" "length pw < cap" "names n"
  shows "\<exists>w1 w2 w3 C'. config_save_item_s ops n (item_key CB_HTTP_USER) user w = Inr (True, w1) \<and>
    config_save_item_s ops n (item_key CB_HTTP_PASSWD) pw w1 = Inr (True, w2) \<and>
    config_save_item_n_i8 ops n (item_key CB_HTTP_ENABLE) 1 w2 = Inr (True, w3) \<and> idle w3 C' \<and> http_fits C' n c \<and>
    c_str (ht_user (http_read C' n c)) = user \<and> c_str (ht_password (http_read C' n c)) = pw \<and> ht_enable (http_read C' n c) = 1"
proof -
  have ok: "keys (item_key CB_HTTP_USER)" "keys (item_key CB_HTTP_PASSWD)" "keys (item_key CB_HTTP_ENABLE)"
    by (rule item_keys)+
  obtain w1 where w1: "config_save_item_s ops n (item_key CB_HTTP_USER) user w = Inr (True, w1)"
    "idle w1 (C(n := (C n)(item_key CB_HTTP_USER \<mapsto> kstr user)))" using save_s [OF assms(1) ok(1) assms(2,5,10)] by blast
  obtain w2 C2 where w2: "config_save_item_s ops n (item_key CB_HTTP_PASSWD) pw w1 = Inr (True, w2)" "idle w2 C2"
    "C2 = (C(n := (C n)(item_key CB_HTTP_USER \<mapsto> kstr user, item_key CB_HTTP_PASSWD \<mapsto> kstr pw)))"
    using save_s [OF w1(2) ok(2) assms(6,9,10)] by auto
  obtain w3 C3 where w3: "config_save_item_n_i8 ops n (item_key CB_HTTP_ENABLE) 1 w2 = Inr (True, w3)" "idle w3 C3"
    "C3 = C2(n := (C2 n)(item_key CB_HTTP_ENABLE \<mapsto> KInt KVS_TYPE_i8 (ucast (1 :: u8))))"
    using save_i8 [OF w2(2) ok(3) assms(10), of 1] by blast
  have s: "stored_str C3 n (item_key CB_HTTP_USER) = Some user" "stored_str C3 n (item_key CB_HTTP_PASSWD) = Some pw"
    by (simp_all add: stored_str_def w3(3) w2(3) kstr_def)
  have "http_fits C3 n c" using assms by (simp add: http_fits_def char_fits_def s)
  moreover have "c_str (ht_user (http_read C3 n c)) = user" "c_str (ht_password (http_read C3 n c)) = pw"
    by (simp_all add: http_read_def char_val_def s c_str_append_nul assms(2,6))
  moreover have "ht_enable (http_read C3 n c) = 1" by (simp add: http_read_def i8_val_def w3(3))
  ultimately show ?thesis using w1(1) w2(1) w3(1,2) by blast
qed

end

text \<open>C28: The credentials of the HTTP server from the settings to a request: saving a user name, a password and the enabling flag under the keys the table has
  for these items succeeds, and setting the server up from the store gives a server that was not running these credentials, whether the SDK can start it or not;
  a server that runs already is left as it is, with the credentials it had. With them a request is let in exactly when its Authorization header can be copied, has 6 to
  256 characters, and decodes from the seventh on, with whatever decoder, to that name, one character and that password (names of up to 15 and passwords of up
  to 30 characters, not empty); one of 1 to 5 characters makes the decoder read outside of the header, all others are asked to log in.\<close>

theorem http_login_configured:
  assumes "kw_idle w C" "comp_settings otok0 b = Some st" "USE_HTTP b"
    "get_kvsKey st (item_no b CB_HTTP_USER) = Some (Some ku)" "get_kvsKey st (item_no b CB_HTTP_PASSWD) = Some (Some kp)"
    "get_kvsKey st (item_no b CB_HTTP_ENABLE) = Some (Some ke)"
    "length (ht_user c) = 16" "no_nul user" "user \<noteq> []" "length user < 16" "length (ht_password c) = 31" "no_nul pw" "pw \<noteq> []" "length pw < 31"
  shows "\<exists>w1 w2 w3 w4 s1. config_save_item_s host_kvs n ku user w = Inr (True, w1) \<and> config_save_item_s host_kvs n kp pw w1 = Inr (True, w2) \<and>
    config_save_item_n_i8 host_kvs n ke 1 w2 = Inr (True, w3) \<and> config_setup_httpServer host_kvs n st b started c s w3 = Inr (s1, w4) \<and>
    (if hs_server s then s1 = s
     else hs_server s1 = started \<and>
       check_access_allowed b64 s1 auth got = (case auth of
          None \<Rightarrow> Some (False, reqest_authorization)
        | Some v \<Rightarrow> if got \<and> 0 < length v \<and> length v < 6 then None
            else if got \<and> 6 \<le> length v \<and> length v \<le> 256 \<and> (\<exists>ch. b64 128 (drop 6 v) = Some (user @ [ch] @ pw)) then Some (True, [])
            else Some (False, reqest_authorization)))"
proof -
  note i = subsetD [OF http_items [OF assms(3)]]
  have k: "ku = item_key CB_HTTP_USER" "kp = item_key CB_HTTP_PASSWD" "ke = item_key CB_HTTP_ENABLE"
    using kvsKey_item [OF assms(2) i, of CB_HTTP_USER] kvsKey_item [OF assms(2) i, of CB_HTTP_PASSWD]
      kvsKey_item [OF assms(2) i, of CB_HTTP_ENABLE] assms(4,5,6) by (simp_all add: kvsKey_def)
  obtain w1 w2 w3 C' where h: "config_save_item_s host_kvs n ku user w = Inr (True, w1)" "config_save_item_s host_kvs n kp pw w1 = Inr (True, w2)"
    "config_save_item_n_i8 host_kvs n ke 1 w2 = Inr (True, w3)" "kw_idle w3 C'" "http_fits C' n c"
    "c_str (ht_user (http_read C' n c)) = user" "c_str (ht_password (http_read C' n c)) = pw" "ht_enable (http_read C' n c) = 1"
    using host.http_saved [OF assms(1,8,9) _ _ assms(12,13) _ _ TrueI, of c n] assms(7,10,11,14) unfolding k by fastforce
  obtain w4 where w4: "config_read_httpServer host_kvs n st b c w3 = Inr (http_read C' n c, w4)"
    using host.config_read_http [OF assms(2,3) h(4,5) TrueI] by blast
  define s1 where "s1 = hts_setup started (Some \<lparr>ch_user = user, ch_password = pw, ch_enable = True\<rparr>) s"
  have "config_setup_httpServer host_kvs n st b started c s w3 = Inr (s1, w4)" by (simp add: config_setup_httpServer_def w4 h(6,7,8) s1_def)
  moreover have "hs_server s \<Longrightarrow> s1 = s" by (simp add: s1_def hts_setup_def hts_enable_http_server_def)
  moreover have "\<not> hs_server s \<Longrightarrow> hs_server s1 = started \<and> hs_user s1 = user \<and> hs_password s1 = pw"
    by (simp add: s1_def hts_setup_def hts_enable_http_server_def start_webserver_def Let_def)
  ultimately show ?thesis using h(1,2,3) access_checked [of s1 b64 auth got] assms(8,9,12) by (cases "hs_server s") auto
qed

definition http_default :: http_cfg where
  "http_default = \<lparr>ht_user = replicate 16 NUL, ht_password = replicate 31 NUL, ht_enable = 0\<rparr>"

theorem http_login_configured_witness:
  "\<exists>w3 w4 s1. config_setup_httpServer host_kvs ''cfg'' full_table full_build True http_default hts_init w3 = Inr (s1, w4) \<and>
     check_access_allowed (\<lambda>n t. Some t) s1 (Some ''Basic me:pw'') True = Some (True, [])"
proof -
  have "\<exists>w1 w2 w3 w4 s1. config_save_item_s host_kvs ''cfg'' (item_key CB_HTTP_USER) ''me'' kworld_init = Inr (True, w1) \<and>
    config_save_item_s host_kvs ''cfg'' (item_key CB_HTTP_PASSWD) ''pw'' w1 = Inr (True, w2) \<and>
    config_save_item_n_i8 host_kvs ''cfg'' (item_key CB_HTTP_ENABLE) 1 w2 = Inr (True, w3) \<and>
    config_setup_httpServer host_kvs ''cfg'' full_table full_build True http_default hts_init w3 = Inr (s1, w4) \<and>
    (if hs_server hts_init then s1 = hts_init
     else hs_server s1 = True \<and>
       check_access_allowed (\<lambda>n t. Some t) s1 (Some ''Basic me:pw'') True = (case Some ''Basic me:pw'' of
          None \<Rightarrow> Some (False, reqest_authorization)
        | Some v \<Rightarrow> if True \<and> 0 < length v \<and> length v < 6 then None
            else if True \<and> 6 \<le> length v \<and> length v \<le> 256 \<and> (\<exists>ch. Some (drop 6 v) = Some (''me'' @ [ch] @ ''pw'')) then Some (True, [])
            else Some (False, reqest_authorization)))"
    by (rule http_login_configured [OF kw_idle_init full_table _ full_table_key full_table_key full_table_key])
      (simp_all add: full_build_def hts_init_def http_default_def)
  then show ?thesis by (auto simp: hts_init_def)
qed

end
