(* ===== verification/TxtIo.thy ===== *)
theory TxtIo
  imports CStd "HOL-Library.Monad_Syntax"
begin

text \<open>
  Text input and output through the two function pointers of the console (txtio/inout.cc, utils_misc itoa.c).

  The pointers are a record of functions on the state \<open>'w\<close> of the console, None for a null pointer. A result
  None stands for a write behind a local or given buffer. The mutex, the float printer and printf are not modelled.
\<close>

record 'w txtio =
  io_putc_fun :: "(char \<Rightarrow> 'w \<Rightarrow> int \<times> 'w) option"
  io_getc_fun :: "('w \<Rightarrow> int \<times> 'w) option"

section \<open>Numbers as text\<close>

text \<open>sprintf into a buffer of \<open>sz\<close> characters. A long has \<open>long_bits\<close> bits.\<close>

definition sprintf_buf :: "nat \<Rightarrow> string \<Rightarrow> string option" where
  "sprintf_buf sz txt = (if length txt < sz then Some txt else None)"

definition itoa :: "int \<Rightarrow> nat \<Rightarrow> nat \<Rightarrow> string option" where
  "itoa val sz radix = sprintf_buf sz (if radix = 10 then print_int val else print_hex (nat (val mod 2 ^ 32)))"

definition ltoa :: "nat \<Rightarrow> int \<Rightarrow> nat \<Rightarrow> nat \<Rightarrow> string option" where
  "ltoa long_bits val sz radix = sprintf_buf sz (if radix = 10 then print_int val else print_hex (nat (val mod 2 ^ long_bits)))"

section \<open>Characters and strings\<close>

definition io_putc :: "'w txtio \<Rightarrow> char \<Rightarrow> 'w \<Rightarrow> int \<times> 'w" where
  "io_putc io c w = (case io_putc_fun io of None \<Rightarrow> (-1, w) | Some f \<Rightarrow> f c w)"

definition io_getc :: "'w txtio \<Rightarrow> 'w \<Rightarrow> int \<times> 'w" where
  "io_getc io w = (case io_getc_fun io of None \<Rightarrow> (-1, w) | Some f \<Rightarrow> f w)"

definition io_putlf :: "'w txtio \<Rightarrow> 'w \<Rightarrow> int \<times> 'w" where
  "io_putlf io w = io_putc io (CHR 0x0A) w"

text \<open>The counter of io_puts is never incremented.\<close>

fun puts_loop :: "(char \<Rightarrow> 'w \<Rightarrow> int \<times> 'w) \<Rightarrow> string \<Rightarrow> 'w \<Rightarrow> int \<times> 'w" where
  "puts_loop f [] w = (0, w)"
| "puts_loop f (c # cs) w = (case f c w of (r, w1) \<Rightarrow> if r = -1 then (-1, w1) else puts_loop f cs w1)"

definition io_puts :: "'w txtio \<Rightarrow> string \<Rightarrow> 'w \<Rightarrow> int \<times> 'w" where
  "io_puts io s w = (case io_putc_fun io of None \<Rightarrow> (-1, w) | Some f \<Rightarrow> puts_loop f s w)"

text \<open>The loop of io_write returns the result and what is left of the length.\<close>

fun write_loop :: "(char \<Rightarrow> 'w \<Rightarrow> int \<times> 'w) \<Rightarrow> string \<Rightarrow> nat \<Rightarrow> int \<Rightarrow> 'w \<Rightarrow> ((int \<times> nat) \<times> 'w) option" where
  "write_loop f s 0 res w = Some ((res, 0), w)"
| "write_loop f [] (Suc len) res w = None"
| "write_loop f (c # cs) (Suc len) res w =
     (case f c w of (r, w1) \<Rightarrow> if r = -1 then Some ((-1, Suc len), w1) else write_loop f cs len res w1)"

definition io_write :: "'w txtio \<Rightarrow> string \<Rightarrow> nat \<Rightarrow> 'w \<Rightarrow> (int \<times> 'w) option" where
  "io_write io s len w =
     (case io_putc_fun io of None \<Rightarrow> Some (-1, w)
      | Some f \<Rightarrow> map_option (\<lambda>((res, left), w1). (res - int left, w1)) (write_loop f s len (int len) w))"

section \<open>Printing numbers\<close>

text \<open>The results of io_puts are ignored.\<close>

definition putz :: "'w txtio \<Rightarrow> string \<Rightarrow> 'w \<Rightarrow> 'w" where
  "putz io s w = snd (io_puts io s w)"

definition put_comma :: "'w txtio \<Rightarrow> bool \<Rightarrow> 'w \<Rightarrow> 'w" where
  "put_comma io comma w = (if comma then putz io '', '' w else w)"

definition io_putx8 :: "'w txtio \<Rightarrow> u8 \<Rightarrow> 'w \<Rightarrow> 'w option" where
  "io_putx8 io n w = do {
     s \<leftarrow> (if n AND 0xf0 \<noteq> 0 then itoa (uint n) 3 16 else map_option ((#) (CHR ''0'')) (itoa (uint n) 2 16));
     Some (putz io s w) }"

definition io_print_hex_8 :: "'w txtio \<Rightarrow> u8 \<Rightarrow> bool \<Rightarrow> 'w \<Rightarrow> 'w option" where
  "io_print_hex_8 io n comma w = do {
     s \<leftarrow> itoa (uint n) 3 16;
     Some (put_comma io comma (putz io s (putz io (if n AND 0xF0 \<noteq> 0 then ''0x'' else ''0x0'') w))) }"

definition io_print_hex_16 :: "'w txtio \<Rightarrow> u16 \<Rightarrow> bool \<Rightarrow> 'w \<Rightarrow> 'w option" where
  "io_print_hex_16 io n comma w = do {
     s \<leftarrow> itoa (uint n) 5 16;
     Some (put_comma io comma (putz io s (putz io
       (if n AND 0xFFF0 = 0 then ''0x000'' else if n AND 0xFF00 = 0 then ''0x00'' else if n AND 0xF000 = 0 then ''0x0'' else ''0x'') w))) }"

definition io_print_hex_32 :: "nat \<Rightarrow> 'w txtio \<Rightarrow> u32 \<Rightarrow> bool \<Rightarrow> 'w \<Rightarrow> 'w option" where
  "io_print_hex_32 long_bits io n comma w = do {
     s \<leftarrow> ltoa long_bits (uint n) 10 16;
     Some (put_comma io comma (putz io s (putz io
       (if n AND 0xFFFFFFF0 = 0 then ''0x0000000'' else if n AND 0xFFFFFF00 = 0 then ''0x000000''
        else if n AND 0xFFFFF000 = 0 then ''0x00000'' else if n AND 0xFFFF0000 = 0 then ''0x0000''
        else if n AND 0xFFF00000 = 0 then ''0x000'' else if n AND 0xFF000000 = 0 then ''0x00''
        else if n AND 0xF0000000 = 0 then ''0x0'' else ''0x'') w))) }"

definition io_print_hex :: "nat \<Rightarrow> 'w txtio \<Rightarrow> u32 \<Rightarrow> bool \<Rightarrow> 'w \<Rightarrow> 'w option" where
  "io_print_hex long_bits io n prefx w = do {
     s \<leftarrow> ltoa long_bits (uint n) 10 16;
     Some (putz io s (if prefx then putz io ''0x'' w else w)) }"

definition io_print_dec_32 :: "nat \<Rightarrow> 'w txtio \<Rightarrow> 32 word \<Rightarrow> bool \<Rightarrow> 'w \<Rightarrow> 'w option" where
  "io_print_dec_32 long_bits io n comma w = do {
     s \<leftarrow> ltoa long_bits (sint n) 12 10;
     Some (put_comma io comma (putz io s w)) }"

definition io_print_dec_16 :: "'w txtio \<Rightarrow> 16 word \<Rightarrow> bool \<Rightarrow> 'w \<Rightarrow> 'w option" where
  "io_print_dec_16 io n comma w = do {
     s \<leftarrow> itoa (sint n) 10 10;
     Some (put_comma io comma (putz io s w)) }"

definition io_putn :: "'w txtio \<Rightarrow> 32 word \<Rightarrow> nat \<Rightarrow> 'w \<Rightarrow> 'w option" where
  "io_putn io n radix w = do { s \<leftarrow> itoa (sint n) 10 radix; Some (putz io s w) }"

definition io_putl :: "nat \<Rightarrow> 'w txtio \<Rightarrow> 32 word \<Rightarrow> nat \<Rightarrow> 'w \<Rightarrow> 'w option" where
  "io_putl long_bits io n radix w = do { s \<leftarrow> ltoa long_bits (sint n) 13 radix; Some (putz io s w) }"

definition io_putd :: "'w txtio \<Rightarrow> 32 word \<Rightarrow> 'w \<Rightarrow> 'w option" where
  "io_putd io n w = io_putn io n 10 w"

definition io_putld :: "nat \<Rightarrow> 'w txtio \<Rightarrow> 32 word \<Rightarrow> 'w \<Rightarrow> 'w option" where
  "io_putld long_bits io n w = io_putl long_bits io n 10 w"

definition printBCD :: "'w txtio \<Rightarrow> u8 \<Rightarrow> 'w \<Rightarrow> 'w option" where
  "printBCD io bcd w = do {
     s \<leftarrow> itoa (uint (drop_bit 4 bcd AND 0x0f)) 10 16;
     t \<leftarrow> itoa (uint (bcd AND 0x0f)) 10 16;
     Some (putz io t (putz io s w)) }"

fun array_loop :: "'w txtio \<Rightarrow> (u8 \<Rightarrow> u8) \<Rightarrow> u8 list \<Rightarrow> nat \<Rightarrow> 'w \<Rightarrow> 'w option" where
  "array_loop io f src 0 w = Some w"
| "array_loop io f [] (Suc len) w = None"
| "array_loop io f (b # src) (Suc len) w = do { w1 \<leftarrow> io_print_hex_8 io (f b) True w; array_loop io f src len w1 }"

definition print_array_8 :: "'w txtio \<Rightarrow> u8 list \<Rightarrow> nat \<Rightarrow> 'w \<Rightarrow> 'w option" where
  "print_array_8 io src len w = do { w1 \<leftarrow> array_loop io id src len w; Some (snd (io_putlf io w1)) }"

definition print_array_8_inv :: "'w txtio \<Rightarrow> u8 list \<Rightarrow> nat \<Rightarrow> 'w \<Rightarrow> 'w option" where
  "print_array_8_inv io src len w = do { w1 \<leftarrow> array_loop io (\<lambda>b. NOT b) src len w; Some (snd (io_putlf io w1)) }"

section \<open>Input\<close>

text \<open>A line ends with a semicolon or when the buffer is full. \<open>n\<close> counts the turns that are left.\<close>

fun getline_loop :: "('w \<Rightarrow> int \<times> 'w) \<Rightarrow> nat \<Rightarrow> char list \<Rightarrow> nat \<Rightarrow> 'w \<Rightarrow> ((int \<times> char list) \<times> 'w) option" where
  "getline_loop f 0 buf i w = map_option (\<lambda>m. ((int i, m), w)) (mem_put buf i NUL)"
| "getline_loop f (Suc n) buf i w =
     (case f w of (c, w1) \<Rightarrow>
        if c = -1 then Some ((-1, buf), w1)
        else if c = 0x3B then map_option (\<lambda>m. ((int i, m), w1)) (mem_put buf i NUL)
        else do { m \<leftarrow> mem_put buf i (char_of (nat (c mod 256))); getline_loop f n m (i + 1) w1 })"

definition io_getline :: "'w txtio \<Rightarrow> char list \<Rightarrow> nat \<Rightarrow> 'w \<Rightarrow> ((int \<times> char list) \<times> 'w) option" where
  "io_getline io buf buf_size w =
     (case io_getc_fun io of None \<Rightarrow> Some ((-1, buf), w) | Some f \<Rightarrow> getline_loop f (buf_size - 1) buf 0 w)"

end
