(* ===== verification/TxtIoProps.thy ===== *)
theory TxtIoProps
  imports TxtIo
begin

text \<open>The properties of the console's text input and output.\<close>

section \<open>Numbers of fixed width\<close>

primrec hex_digits :: "nat \<Rightarrow> nat \<Rightarrow> string" where
  "hex_digits 0 n = []"
| "hex_digits (Suc k) n = hex_digits k (n div 16) @ [digit_char (n mod 16)]"

lemma digit_char_values:
  "digit_char (Suc 0) = CHR ''1''" "digit_char 10 = CHR ''a''" "digit_char 11 = CHR ''b''" "digit_char 12 = CHR ''c''"
  "digit_char 13 = CHR ''d''" "digit_char 14 = CHR ''e''" "digit_char 15 = CHR ''f''"
  by code_simp+

lemma hex_digits_0: "hex_digits k 0 = replicate k (CHR ''0'')"
  by (induction k) (simp_all add: digit_chars replicate_append_same)

lemma print_hex_pad: "n < 16 ^ Suc k \<Longrightarrow> \<exists>m. hex_digits (Suc k) n = replicate m (CHR ''0'') @ print_hex n \<and> length (print_hex n) + m = Suc k"
proof (induction k arbitrary: n)
  case 0
  then show ?case by (subst (1 2) print_hex.simps) simp
next
  case (Suc k)
  show ?case
  proof (cases "n < 16")
    case True
    then show ?thesis
      by (intro exI [of _ "Suc k"]) (subst (1 2) print_hex.simps, simp add: hex_digits_0 digit_chars replicate_append_same)
  next
    case False
    have "n div 16 < 16 ^ Suc k" using Suc.prems by (simp add: less_mult_imp_div_less)
    from Suc.IH [OF this] obtain m where "hex_digits (Suc k) (n div 16) = replicate m (CHR ''0'') @ print_hex (n div 16)"
      "length (print_hex (n div 16)) + m = Suc k" by blast
    then show ?thesis using False by (intro exI [of _ m]) (subst (1 2) print_hex.simps, simp)
  qed
qed

lemma print_hex_length: "print_hex n \<noteq> [] \<and> (n < 16 ^ k \<longrightarrow> 0 < k \<longrightarrow> length (print_hex n) \<le> k) \<and> (16 ^ k \<le> n \<longrightarrow> k < length (print_hex n))"
proof (induction k arbitrary: n)
  case 0
  then show ?case by (subst (1 2 3) print_hex.simps) simp
next
  case (Suc k)
  have d: "n div 16 < 16 ^ k \<longleftrightarrow> n < 16 ^ Suc k" by (simp add: div_less_iff_less_mult mult.commute)
  show ?case
  proof (cases "n < 16")
    case True
    then have "\<not> 16 ^ Suc k \<le> n" using one_le_power [of "16 :: nat" k] unfolding power_Suc by linarith
    then show ?thesis using True by (subst (1 2 3) print_hex.simps) simp
  next
    case False
    then have "0 < k \<or> \<not> n < 16 ^ Suc k" by (cases k) simp_all
    then show ?thesis using False Suc [of "n div 16"] d by (subst (1 2 3) print_hex.simps) (auto simp: not_less)
  qed
qed

lemma hex_digits_print:
  assumes "n < 16 ^ k" "l < k" "n < 16 ^ Suc l" "16 ^ l \<le> n \<or> l = 0"
  shows "hex_digits k n = replicate (k - Suc l) (CHR ''0'') @ print_hex n"
proof -
  obtain k' where k: "k = Suc k'" using assms(2) by (cases k) auto
  obtain m where m: "hex_digits k n = replicate m (CHR ''0'') @ print_hex n" "length (print_hex n) + m = k"
    using print_hex_pad [of n k'] assms(1) unfolding k by blast
  have "length (print_hex n) = Suc l"
    using print_hex_length [of n "Suc l"] print_hex_length [of n l] assms(3,4) by (auto simp: Suc_le_eq simp flip: length_greater_0_conv)
  with m have "m = k - Suc l" by simp
  with m(1) show ?thesis by simp
qed

lemma and_high_bits: "(n :: 'a::len word) AND NOT (mask k) = 0 \<longleftrightarrow> unat n < 2 ^ k"
proof -
  have "n AND NOT (mask k) = push_bit k (drop_bit k n)" by (rule bit_word_eqI) (auto simp: bit_simps)
  also have "\<dots> = 0 \<longleftrightarrow> drop_bit k n = 0"
  proof
    assume "push_bit k (drop_bit k n) = 0"
    then have "drop_bit k (push_bit k (drop_bit k n)) = 0" by simp
    moreover have "drop_bit k (push_bit k (drop_bit k n)) = drop_bit k n" by (rule bit_word_eqI) (auto simp: bit_simps dest: bit_imp_le_length)
    ultimately show "drop_bit k n = 0" by simp
  qed simp
  also have "\<dots> \<longleftrightarrow> unat (drop_bit k n) = 0" by (simp only: unsigned_eq_0_iff)
  also have "\<dots> \<longleftrightarrow> unat n < 2 ^ k" by (simp only: unat_drop_bit_eq) (simp add: drop_bit_eq_div div_eq_0_iff)
  finally show ?thesis .
qed

section \<open>Output\<close>

text \<open>A console that takes every character; \<open>out\<close> is the text it has got.\<close>

definition takes_all :: "'w txtio \<Rightarrow> ('w \<Rightarrow> string) \<Rightarrow> bool" where
  "takes_all io out \<longleftrightarrow> (\<exists>f. io_putc_fun io = Some f \<and> (\<forall>c w. fst (f c w) \<noteq> -1 \<and> out (snd (f c w)) = out w @ [c]))"

lemma puts_out:
  assumes "takes_all io out"
  shows "out (putz io s w) = out w @ s"
proof -
  obtain f where f: "io_putc_fun io = Some f" "\<And>c w. fst (f c w) \<noteq> -1 \<and> out (snd (f c w)) = out w @ [c]"
    using assms by (auto simp: takes_all_def)
  have "out (snd (puts_loop f s w)) = out w @ s"
  proof (induction s arbitrary: w)
    case (Cons c s)
    then show ?case using f(2) [of c w] by (cases "f c w") simp
  qed simp
  then show ?thesis by (simp add: putz_def io_puts_def f(1))
qed

lemma comma_out: "takes_all io out \<Longrightarrow> out (put_comma io c w) = out w @ (if c then '', '' else [])"
  by (simp add: put_comma_def puts_out)

lemma itoa_hex: "n < 2 ^ 32 \<Longrightarrow> itoa (int n) sz 16 = sprintf_buf sz (print_hex n)"
  by (simp add: itoa_def)

lemma ltoa_hex: "n < 2 ^ 32 \<Longrightarrow> 32 \<le> b \<Longrightarrow> ltoa b (int n) sz 16 = sprintf_buf sz (print_hex n)"
proof -
  assume n: "n < 2 ^ 32" and b: "32 \<le> b"
  have "(2 :: int) ^ 32 \<le> 2 ^ b" by (rule power_increasing [OF b]) simp
  moreover have "int n < 2 ^ 32" using n by simp
  ultimately have "int n < 2 ^ b" by (rule order.strict_trans2 [rotated])
  then show ?thesis by (simp add: ltoa_def)
qed

lemma masks_8: "(0xF0 :: u8) = NOT (mask 4)"
  by code_simp

lemma masks_16: "(0xFFF0 :: u16) = NOT (mask 4)" "(0xFF00 :: u16) = NOT (mask 8)" "(0xF000 :: u16) = NOT (mask 12)"
  by code_simp+

lemma masks_32:
  "(0xFFFFFFF0 :: u32) = NOT (mask 4)" "(0xFFFFFF00 :: u32) = NOT (mask 8)" "(0xFFFFF000 :: u32) = NOT (mask 12)" "(0xFFFF0000 :: u32) = NOT (mask 16)"
  "(0xFFF00000 :: u32) = NOT (mask 20)" "(0xFF000000 :: u32) = NOT (mask 24)" "(0xF0000000 :: u32) = NOT (mask 28)"
  by code_simp+

lemma hex_8_text: "(if (n :: u8) AND 0xF0 \<noteq> 0 then s else s @ ''0'') @ print_hex (unat n) = s @ hex_digits 2 (unat n)"
proof -
  have "unat n < 16 ^ 2" using unsigned_less [of n, where 'a = nat] by simp
  then show ?thesis
    unfolding masks_8 and_high_bits using hex_digits_print [of "unat n" 2 0] hex_digits_print [of "unat n" 2 1] by (simp add: not_less)
qed

lemma zeros:
  "replicate 0 (CHR ''0'') = []" "replicate 1 (CHR ''0'') = ''0''" "replicate 2 (CHR ''0'') = ''00''" "replicate 3 (CHR ''0'') = ''000''"
  "replicate 4 (CHR ''0'') = ''0000''" "replicate 5 (CHR ''0'') = ''00000''" "replicate 6 (CHR ''0'') = ''000000''" "replicate 7 (CHR ''0'') = ''0000000''"
  by code_simp+

lemma hex_4_pad:
  assumes "n < 16 ^ 4"
  shows "hex_digits 4 n = (if n < 2 ^ 4 then ''000'' else if n < 2 ^ 8 then ''00'' else if n < 2 ^ 12 then ''0'' else []) @ print_hex n"
proof -
  have h: "hex_digits 4 n = replicate m (CHR ''0'') @ print_hex n" if "n < 16 ^ Suc l" "16 ^ l \<le> n \<or> l = 0" "l < 4" "m = 3 - l" for l m
    using hex_digits_print [OF assms that(3,1,2)] that(4) by simp
  show ?thesis
    using h [of 0 3] h [of 1 2] h [of 2 1] h [of 3 0] assms unfolding zeros by (simp add: not_less)
qed

lemma hex_8_pad:
  assumes "n < 16 ^ 8"
  shows "hex_digits 8 n = (if n < 2 ^ 4 then ''0000000'' else if n < 2 ^ 8 then ''000000'' else if n < 2 ^ 12 then ''00000''
    else if n < 2 ^ 16 then ''0000'' else if n < 2 ^ 20 then ''000'' else if n < 2 ^ 24 then ''00'' else if n < 2 ^ 28 then ''0'' else []) @ print_hex n"
proof -
  have h: "hex_digits 8 n = replicate m (CHR ''0'') @ print_hex n" if "n < 16 ^ Suc l" "16 ^ l \<le> n \<or> l = 0" "l < 8" "m = 7 - l" for l m
    using hex_digits_print [OF assms that(3,1,2)] that(4) by simp
  have "n < 2 ^ 32" using assms by simp
  then consider (1) "n < 2 ^ 4" | (2) "2 ^ 4 \<le> n" "n < 2 ^ 8" | (3) "2 ^ 8 \<le> n" "n < 2 ^ 12" | (4) "2 ^ 12 \<le> n" "n < 2 ^ 16" | (5) "2 ^ 16 \<le> n" "n < 2 ^ 20" | (6) "2 ^ 20 \<le> n" "n < 2 ^ 24" | (7) "2 ^ 24 \<le> n" "n < 2 ^ 28" | (8) "2 ^ 28 \<le> n" "n < 2 ^ 32"
    by (metis not_less)
  then show ?thesis
  proof cases
    case 1
    have "hex_digits 8 n = replicate 7 (CHR ''0'') @ print_hex n" by (rule h [of 0]) (use 1 in simp_all)
    then show ?thesis using 1 unfolding zeros by simp
  next
    case 2
    have "hex_digits 8 n = replicate 6 (CHR ''0'') @ print_hex n" by (rule h [of 1]) (use 2 in simp_all)
    then show ?thesis using 2 unfolding zeros by simp
  next
    case 3
    have "hex_digits 8 n = replicate 5 (CHR ''0'') @ print_hex n" by (rule h [of 2]) (use 3 in simp_all)
    then show ?thesis using 3 unfolding zeros by simp
  next
    case 4
    have "hex_digits 8 n = replicate 4 (CHR ''0'') @ print_hex n" by (rule h [of 3]) (use 4 in simp_all)
    then show ?thesis using 4 unfolding zeros by simp
  next
    case 5
    have "hex_digits 8 n = replicate 3 (CHR ''0'') @ print_hex n" by (rule h [of 4]) (use 5 in simp_all)
    then show ?thesis using 5 unfolding zeros by simp
  next
    case 6
    have "hex_digits 8 n = replicate 2 (CHR ''0'') @ print_hex n" by (rule h [of 5]) (use 6 in simp_all)
    then show ?thesis using 6 unfolding zeros by simp
  next
    case 7
    have "hex_digits 8 n = replicate 1 (CHR ''0'') @ print_hex n" by (rule h [of 6]) (use 7 in simp_all)
    then show ?thesis using 7 unfolding zeros by simp
  next
    case 8
    have "hex_digits 8 n = replicate 0 (CHR ''0'') @ print_hex n" by (rule h [of 7]) (use 8 in simp_all)
    then show ?thesis using 8 unfolding zeros by simp
  qed
qed

lemma hex_16_text:
  "(if (n :: u16) AND 0xFFF0 = 0 then ''0x000'' else if n AND 0xFF00 = 0 then ''0x00'' else if n AND 0xF000 = 0 then ''0x0'' else ''0x'') @
    print_hex (unat n) = ''0x'' @ hex_digits 4 (unat n)"
proof -
  have "unat n < 16 ^ 4" using unsigned_less [of n, where 'a = nat] by simp
  then show ?thesis unfolding masks_16 and_high_bits by (simp only: hex_4_pad) simp
qed

lemma hex_32_text:
  "(if (n :: u32) AND 0xFFFFFFF0 = 0 then ''0x0000000'' else if n AND 0xFFFFFF00 = 0 then ''0x000000''
        else if n AND 0xFFFFF000 = 0 then ''0x00000'' else if n AND 0xFFFF0000 = 0 then ''0x0000''
        else if n AND 0xFFF00000 = 0 then ''0x000'' else if n AND 0xFF000000 = 0 then ''0x00''
        else if n AND 0xF0000000 = 0 then ''0x0'' else ''0x'') @ print_hex (unat n) = ''0x'' @ hex_digits 8 (unat n)"
proof -
  have "unat n < 16 ^ 8" using unsigned_less [of n, where 'a = nat] by simp
  then show ?thesis unfolding masks_32 and_high_bits by (simp only: hex_8_pad) simp
qed

text \<open>On a console that takes all characters, the hexadecimal printers write numbers of every width with all their digits:
  two, four or eight hexadecimal digits with leading zeros, behind 0x and in front of an optional comma; no local buffer is too
  small for them, however long a long is.\<close>

lemma hex_printed_fixed_width:
  assumes "takes_all io out" "32 \<le> long_bits"
  shows "map_option out (io_putx8 io b w) = Some (out w @ hex_digits 2 (unat b)) \<and>
    map_option out (io_print_hex_8 io b comma w) = Some (out w @ ''0x'' @ hex_digits 2 (unat b) @ (if comma then '', '' else [])) \<and>
    map_option out (io_print_hex_16 io h comma w) = Some (out w @ ''0x'' @ hex_digits 4 (unat h) @ (if comma then '', '' else [])) \<and>
    map_option out (io_print_hex_32 long_bits io n comma w) = Some (out w @ ''0x'' @ hex_digits 8 (unat n) @ (if comma then '', '' else []))"
proof (intro conjI)
  note u = unsigned_less [where 'a = nat]
  have b: "unat b < 16 ^ 2" "length (print_hex (unat b)) \<le> 2" "unat b < 2 ^ 32"
    using u [of b] print_hex_length [of "unat b" 2] by simp_all
  have h: "length (print_hex (unat h)) \<le> 4" "unat h < 2 ^ 32" using u [of h] print_hex_length [of "unat h" 4] by simp_all
  have n: "length (print_hex (unat n)) \<le> 8" "unat n < 2 ^ 32" using u [of n] print_hex_length [of "unat n" 8] by simp_all
  have i: "itoa (uint b) 3 16 = Some (print_hex (unat b))" "itoa (uint h) 5 16 = Some (print_hex (unat h))"
    "ltoa long_bits (uint n) 10 16 = Some (print_hex (unat n))"
    using itoa_hex [OF b(3), of 3] itoa_hex [OF h(2), of 5] ltoa_hex [OF n(2) assms(2), of 10] b(2) h(1) n(1)
    by (simp_all add: sprintf_buf_def)
  show "map_option out (io_putx8 io b w) = Some (out w @ hex_digits 2 (unat b))"
  proof (cases "b AND 0xf0 = 0")
    case True
    then have "unat b < 16" unfolding masks_8 and_high_bits by simp
    then have "itoa (uint b) 2 16 = Some (print_hex (unat b))"
      using itoa_hex [OF b(3), of 2] print_hex_length [of "unat b" 1] by (simp add: sprintf_buf_def)
    then show ?thesis using True hex_8_text [of b "[]"] by (simp add: io_putx8_def puts_out [OF assms(1)])
  next
    case False
    then show ?thesis using hex_8_text [of b "[]"] i(1) by (simp add: io_putx8_def puts_out [OF assms(1)])
  qed
  show "map_option out (io_print_hex_8 io b comma w) = Some (out w @ ''0x'' @ hex_digits 2 (unat b) @ (if comma then '', '' else []))"
    using hex_8_text [of b "''0x''"] by (simp add: io_print_hex_8_def i(1) puts_out [OF assms(1)] comma_out [OF assms(1)] split: if_splits)
  show "map_option out (io_print_hex_16 io h comma w) = Some (out w @ ''0x'' @ hex_digits 4 (unat h) @ (if comma then '', '' else []))"
    unfolding append_assoc [of "''0x''", symmetric] hex_16_text [symmetric]
    by (simp only: io_print_hex_16_def i(2) bind.simps option.map puts_out [OF assms(1)] comma_out [OF assms(1)] append_assoc)
  show "map_option out (io_print_hex_32 long_bits io n comma w) = Some (out w @ ''0x'' @ hex_digits 8 (unat n) @ (if comma then '', '' else []))"
    unfolding append_assoc [of "''0x''", symmetric] hex_32_text [symmetric]
    by (simp only: io_print_hex_32_def i(3) bind.simps option.map puts_out [OF assms(1)] comma_out [OF assms(1)] append_assoc)
qed

text \<open>A console that keeps the text, and one that reads from a list.\<close>

definition text_console :: "string txtio" where
  "text_console = \<lparr>io_putc_fun = Some (\<lambda>c w. (1, w @ [c])), io_getc_fun = Some (\<lambda>w. case w of [] \<Rightarrow> (-1, []) | c # cs \<Rightarrow> (of_char c, cs))\<rparr>"

lemma text_console_takes_all: "takes_all text_console id"
  by (simp add: takes_all_def text_console_def)

lemma hex_printed_fixed_width_witness:
  "io_print_hex_32 32 text_console 0xBEEF True ''n='' = Some ''n=0x0000beef, ''"
proof -
  have "(8 :: nat) = Suc (Suc (Suc (Suc (Suc (Suc (Suc (Suc 0)))))))" by simp
  then have d: "hex_digits 8 (unat (0xBEEF :: u32)) = ''0000beef''" by (simp only:) (simp add: digit_chars digit_char_values)
  have "map_option id (io_print_hex_32 32 text_console 0xBEEF True ''n='') =
      Some (id ''n='' @ ''0x'' @ hex_digits 8 (unat (0xBEEF :: u32)) @ (if True then '', '' else []))"
    by (rule hex_printed_fixed_width [OF text_console_takes_all, of 32 0 "''n=''" True 0 "0xBEEF", THEN conjunct2, THEN conjunct2, THEN conjunct2]) simp
  then show ?thesis unfolding d by (simp add: option.map_id)
qed

section \<open>Decimal numbers\<close>

lemma dec_nat_length: "length (print_nat n) \<le> Suc k \<longleftrightarrow> n < 10 ^ Suc k"
proof (induction k arbitrary: n)
  case 0
  show ?case
  proof (cases "n < 10")
    case False
    then show ?thesis by (subst print_nat.simps) (simp add: Suc_le_eq)
  qed (subst print_nat.simps, simp)
next
  case (Suc k)
  show ?case
  proof (cases "n < 10")
    case True
    then have "n < 10 ^ Suc (Suc k)" using one_le_power [of "10 :: nat" "Suc k"] unfolding power_Suc [of _ "Suc k"] by linarith
    then show ?thesis using True by (subst print_nat.simps) simp
  next
    case False
    then show ?thesis using Suc [of "n div 10"] by (subst print_nat.simps) (simp add: div_less_iff_less_mult mult.commute)
  qed
qed

lemma dec_int_length: "length (print_int i) \<le> Suc (Suc k) \<longleftrightarrow> - (10 ^ Suc k) < i \<and> i < 10 ^ Suc (Suc k)"
proof (cases "i < 0")
  case True
  have "nat (- i) < 10 ^ Suc k \<longleftrightarrow> - (10 ^ Suc k) < i" using True by (simp add: nat_less_iff) linarith
  moreover have "i < 10 ^ Suc (Suc k)" using True by (smt (verit) zero_less_power)
  ultimately show ?thesis using True dec_nat_length [of "nat (- i)" k] by (simp add: print_int_def)
next
  case False
  have "nat i < 10 ^ Suc (Suc k) \<longleftrightarrow> i < 10 ^ Suc (Suc k)" using False by (simp add: nat_less_iff)
  moreover have "- (10 ^ Suc k) < i" using False by (smt (verit) zero_less_power)
  ultimately show ?thesis using False dec_nat_length [of "nat i" "Suc k"] by (simp add: print_int_def)
qed

text \<open>The decimal printers and their buffers: 16-bit and 32-bit numbers always fit those of io_print_dec_16,
  io_print_dec_32 and io_putl, whose text is the number; io_putn writes behind its buffer of ten characters exactly for
  numbers of ten or more characters.\<close>

lemma decimal_print_buffers:
  assumes "takes_all io out"
  shows "map_option out (io_print_dec_16 io h comma w) = Some (out w @ print_int (sint h) @ (if comma then '', '' else [])) \<and>
    map_option out (io_print_dec_32 long_bits io n comma w) = Some (out w @ print_int (sint n) @ (if comma then '', '' else [])) \<and>
    map_option out (io_putld long_bits io n w) = Some (out w @ print_int (sint n)) \<and>
    map_option out (io_putd io n w) = (if - 100000000 < sint n \<and> sint n < 1000000000 then Some (out w @ print_int (sint n)) else None)"
proof -
  have h: "- (2 ^ 15) \<le> sint h" "sint h < 2 ^ 15" and n: "- (2 ^ 31) \<le> sint n" "sint n < 2 ^ 31"
    using sint_ge [of h] sint_lt [of h] sint_ge [of n] sint_lt [of n] by simp_all
  have "length (print_int (sint h)) \<le> 9" "length (print_int (sint n)) \<le> 11"
    using dec_int_length [of "sint h" 7] dec_int_length [of "sint n" 9] h n by simp_all
  then have t: "itoa (sint h) 10 10 = Some (print_int (sint h))" "ltoa long_bits (sint n) 12 10 = Some (print_int (sint n))"
    "ltoa long_bits (sint n) 13 10 = Some (print_int (sint n))" by (simp_all add: itoa_def ltoa_def sprintf_buf_def)
  have d: "itoa (sint n) 10 10 = (if - 100000000 < sint n \<and> sint n < 1000000000 then Some (print_int (sint n)) else None)"
    using dec_int_length [of "sint n" 7] less_Suc_eq_le [of "length (print_int (sint n))" 9] by (simp add: itoa_def sprintf_buf_def)
  show ?thesis
    by (simp add: io_print_dec_16_def io_print_dec_32_def io_putld_def io_putl_def io_putd_def io_putn_def t d puts_out [OF assms] comma_out [OF assms])
qed

lemma decimal_print_buffers_witness:
  "io_putd text_console (-1000000000) [] = None \<and> io_putld 32 text_console (-2147483648) [] = Some ''-2147483648''"
proof -
  note d = decimal_print_buffers [OF text_console_takes_all, of 0 False "[]" 32]
  have n: "sint (-2147483648 :: 32 word) = -2147483648" "sint (-1000000000 :: 32 word) = -1000000000" by code_simp+
  have t: "print_int (-2147483648) = ''-2147483648''" by (simp add: print_int_def print_nat.simps digit_chars digit_char_values)
  have "map_option id (io_putd text_console (-1000000000) []) = None"
    using d [of "-1000000000", THEN conjunct2, THEN conjunct2, THEN conjunct2] unfolding n by simp
  moreover have "map_option id (io_putld 32 text_console (-2147483648) []) = Some ''-2147483648''"
    using d [of "-2147483648", THEN conjunct2, THEN conjunct2, THEN conjunct1] unfolding n t by simp
  ultimately show ?thesis by (simp add: option.map_id)
qed

section \<open>Input\<close>

text \<open>The characters that the input still has: the next call delivers the first of them, or fails.\<close>

definition reads_from :: "('w \<Rightarrow> int \<times> 'w) \<Rightarrow> ('w \<Rightarrow> string) \<Rightarrow> bool" where
  "reads_from f inp \<longleftrightarrow> (\<forall>w. inp (snd (f w)) = tl (inp w) \<and> fst (f w) = (if inp w = [] then -1 else of_char (hd (inp w))))"

lemma reads_from_step:
  assumes "reads_from f inp" "inp w = c # cs"
  shows "\<exists>w1. f w = (of_char c, w1) \<and> inp w1 = cs"
  using assms by (auto simp: reads_from_def prod_eq_iff)

lemma char_code_back: "(of_char c :: int) \<noteq> -1 \<and> char_of (nat (of_char c mod 256)) = c"
proof -
  have c: "(of_char c :: int) = int (of_char c)" by (simp add: of_nat_of_char)
  then have "(of_char c :: int) \<noteq> -1" by linarith
  moreover have "nat (of_char c mod 256) = (of_char c :: nat)" unfolding c of_char_mod_256 using c by simp
  ultimately show ?thesis by simp
qed

lemma char_code_not_semicolon: "(of_char c :: int) = 0x3B \<longleftrightarrow> c = CHR '';''"
  using of_char_eq_iff [of c "CHR '';''", where 'a = int] by simp

lemma getline_loop_line:
  assumes "reads_from f inp" "CHR '';'' \<notin> set line"
  shows "inp w = line @ CHR '';'' # rest \<Longrightarrow> length line < n \<Longrightarrow> i + length line < length buf \<Longrightarrow>
    \<exists>w1. inp w1 = rest \<and> getline_loop f n buf i w =
      Some ((int (i + length line), take i buf @ line @ NUL # drop (Suc (i + length line)) buf), w1)"
  using assms(2)
proof (induction line arbitrary: n buf i w)
  case Nil
  then obtain n' w1 where "n = Suc n'" "f w = (0x3B, w1)" "inp w1 = rest"
    using reads_from_step [OF assms(1), of w "CHR '';''" rest] by (cases n) auto
  then show ?case using Nil by (intro exI [of _ w1]) (simp add: mem_put_def upd_conv_take_nth_drop)
next
  case (Cons c line)
  then obtain n' w1 where n: "n = Suc n'" and w1: "f w = (of_char c, w1)" "inp w1 = line @ CHR '';'' # rest"
    using reads_from_step [OF assms(1), of w c "line @ CHR '';'' # rest"] by (cases n) auto
  have c: "(of_char c :: int) \<noteq> 0x3B" "(of_char c :: int) \<noteq> -1" "char_of (nat (of_char c mod 256)) = c"
    using Cons.prems(4) char_code_not_semicolon [of c] char_code_back [of c] by (simp_all add: eq_commute [of "CHR '';''"])
  have "\<exists>w2. inp w2 = rest \<and> getline_loop f n' (buf[i := c]) (i + 1) w1 =
      Some ((int (i + 1 + length line), take (i + 1) (buf[i := c]) @ line @ NUL # drop (Suc (i + 1 + length line)) (buf[i := c])), w2)"
    by (rule Cons.IH) (use Cons.prems n w1 in simp_all)
  moreover have "take (Suc i) (buf[i := c]) = take i buf @ [c]" using Cons.prems(3) by (simp add: take_Suc_conv_app_nth)
  ultimately show ?case using Cons.prems c n w1 by (simp add: mem_put_def drop_update_cancel)
qed

text \<open>io_getline on an input that holds a line and its semicolon returns the length of the line when it fits the
  buffer, with the line and a NUL at the start of the buffer, and leaves the input behind the semicolon: the next call
  reads the next line.\<close>

lemma getline_reads_lines:
  assumes "io_getc_fun io = Some f" "reads_from f inp" "inp w = line @ CHR '';'' # rest" "CHR '';'' \<notin> set line"
    "length line + 1 < buf_size" "length buf = buf_size"
  shows "\<exists>w1. inp w1 = rest \<and> io_getline io buf buf_size w = Some ((int (length line), line @ NUL # drop (length line + 1) buf), w1)"
  using getline_loop_line [OF assms(2,4,3), of "buf_size - 1" 0 buf] assms by (auto simp: io_getline_def)

lemma getline_reads_lines_witness:
  "\<exists>w1. w1 = ''b;'' \<and> io_getline text_console ''zzzzz'' 5 ''a1;b;'' = Some ((2, [CHR ''a'', CHR ''1'', NUL, CHR ''z'', CHR ''z'']), w1)"
proof -
  obtain f where f: "io_getc_fun text_console = Some f" "reads_from f (\<lambda>w. w)"
    by (auto simp: text_console_def reads_from_def split: list.splits)
  show ?thesis using getline_reads_lines [OF f, of "''a1;b;''" "''a1''" "''b;''" 5 "''zzzzz''"] by simp
qed

end
