(* ===== verification/Mqtt.thy ===== *)
theory Mqtt
  imports ConfigGlue UoCallbacks
begin

text \<open>
  The MQTT client (net_mqtt_client/mqtt.cc, esp32/mqtt.cc, comp_glue.hh). The client library of the SDK is a record of
  functions on its state \<open>'e\<close>. The model keeps the calls to the library, the log messages and the calls of the
  application's object in the order in which they are made.
\<close>

section \<open>Topics\<close>

text \<open>The topic is a block of characters with a length of its own. The length is compared as an unsigned number; a
  topic that is too short for it is an access outside of the block.\<close>

definition unsigned_len :: "int \<Rightarrow> nat" where
  "unsigned_len n = nat (n mod 2 ^ 64)"

definition topic_startsWith :: "char list \<Rightarrow> int \<Rightarrow> string \<Rightarrow> bool option" where
  "topic_startsWith topic topic_len s =
     (if unsigned_len topic_len \<ge> length s
      then (if length s \<le> length topic then Some (strneq (length s) topic s) else None)
      else Some False)"

definition topic_endsWith :: "char list \<Rightarrow> int \<Rightarrow> string \<Rightarrow> bool option" where
  "topic_endsWith topic topic_len s =
     (if unsigned_len topic_len \<ge> length s
      then (let i = topic_len - int (length s)
            in if 0 \<le> i \<and> nat i + length s \<le> length topic then Some (strneq (length s) (drop (nat i) topic) s) else None)
      else Some False)"

section \<open>The state\<close>

record 'e esp_mqtt =
  em_init :: "cfg_mqtt \<Rightarrow> 'e \<Rightarrow> nat option \<times> 'e"
  em_register_event :: "nat \<Rightarrow> 'e \<Rightarrow> bool \<times> 'e"
  em_start :: "nat \<Rightarrow> 'e \<Rightarrow> bool \<times> 'e"
  em_stop :: "nat \<Rightarrow> 'e \<Rightarrow> 'e"
  em_destroy :: "nat \<Rightarrow> 'e \<Rightarrow> 'e"
  em_subscribe :: "nat \<Rightarrow> string \<Rightarrow> int \<Rightarrow> 'e \<Rightarrow> int \<times> 'e"
  em_unsubscribe :: "nat \<Rightarrow> string \<Rightarrow> 'e \<Rightarrow> int \<times> 'e"
  em_publish :: "nat \<Rightarrow> string \<Rightarrow> string \<Rightarrow> int \<Rightarrow> bool \<Rightarrow> 'e \<Rightarrow> int \<times> 'e"

text \<open>The calls of the object of the application.\<close>

datatype mq_callback = Connected | Disconnected | Subscribed string int | Unsubscribed string int | Published int | Received string int string int

datatype mq_effect = MLog log_message | MCall mq_callback | MInit cfg_mqtt "nat option" | MRegister nat | MStart nat | MStop nat | MDestroy nat
  | MSubscribe nat string int | MUnsubscribe nat string | MPublish nat string string int bool

record 'e mqtt_world =
  mw_lib :: 'e
  mw_client :: "nat option"
  mw_connected :: bool
  mw_trace :: "mq_effect list"

definition mqtt_init :: "'e \<Rightarrow> 'e mqtt_world" where
  "mqtt_init e = \<lparr>mw_lib = e, mw_client = None, mw_connected = False, mw_trace = []\<rparr>"

definition emit :: "mq_effect \<Rightarrow> 'e mqtt_world \<Rightarrow> 'e mqtt_world" where
  "emit x w = w\<lparr>mw_trace := mw_trace w @ [x]\<rparr>"

section \<open>Log messages\<close>

definition mqtt_log :: "string \<Rightarrow> nat \<Rightarrow> 'e mqtt_world \<Rightarrow> 'e mqtt_world" where
  "mqtt_log s lvl = emit (MLog \<lparr>lm_tag = ''mqtt_client'', lm_txt = s, lm_level = lvl\<rparr>)"

text \<open>snprintf into 128 characters: it is published when the length of the whole text is at most 128.\<close>

definition mqtt_log_buf :: "string \<Rightarrow> 'e mqtt_world \<Rightarrow> 'e mqtt_world" where
  "mqtt_log_buf s w = (if 128 \<ge> length s then mqtt_log (take 127 s) 0 w else w)"

section \<open>Events\<close>

datatype mqtt_error = MQTT_ERROR_TYPE_NONE | MQTT_ERROR_TYPE_ESP_TLS int | MQTT_ERROR_TYPE_CONNECTION_REFUSED connect_return_code
  and connect_return_code = MQTT_CONNECTION_ACCEPTED | MQTT_CONNECTION_REFUSE_PROTOCOL | MQTT_CONNECTION_REFUSE_ID_REJECTED
  | MQTT_CONNECTION_REFUSE_SERVER_UNAVAILABLE | MQTT_CONNECTION_REFUSE_BAD_USERNAME | MQTT_CONNECTION_REFUSE_NOT_AUTHORIZED

datatype mqtt_event = MQTT_EVENT_CONNECTED | MQTT_EVENT_DISCONNECTED | MQTT_EVENT_SUBSCRIBED int string int | MQTT_EVENT_UNSUBSCRIBED int string int
  | MQTT_EVENT_PUBLISHED int | MQTT_EVENT_DATA string int string int | MQTT_EVENT_ERROR "mqtt_error option" | MQTT_EVENT_OTHER

text \<open>A precision of printf: a negative one counts as none.\<close>

definition prec :: "int \<Rightarrow> string \<Rightarrow> string" where
  "prec n s = (if n < 0 then c_str s else c_str (take (nat n) s))"

text \<open>With the library's reports of transport errors the text is a local buffer that is out of its scope when it is
  published.\<close>

definition error_txt :: "bool \<Rightarrow> mqtt_error option \<Rightarrow> string option" where
  "error_txt tls_reports e =
     (case e of
        Some (MQTT_ERROR_TYPE_ESP_TLS code) \<Rightarrow> if tls_reports then None else Some ''TLS error''
      | Some (MQTT_ERROR_TYPE_CONNECTION_REFUSED rc) \<Rightarrow> Some (case rc of
            MQTT_CONNECTION_ACCEPTED \<Rightarrow> ''error''
          | MQTT_CONNECTION_REFUSE_PROTOCOL \<Rightarrow> ''MQTT connection refused reason: Wrong protocol''
          | MQTT_CONNECTION_REFUSE_ID_REJECTED \<Rightarrow> ''MQTT connection refused reason: ID rejected''
          | MQTT_CONNECTION_REFUSE_SERVER_UNAVAILABLE \<Rightarrow> ''MQTT connection refused reason: Server unavailable''
          | MQTT_CONNECTION_REFUSE_BAD_USERNAME \<Rightarrow> ''MQTT connection refused reason: Wrong user''
          | MQTT_CONNECTION_REFUSE_NOT_AUTHORIZED \<Rightarrow> ''MQTT connection refused reason: Wrong username or password'')
      | _ \<Rightarrow> Some ''error'')"

definition mqtt_event_handler :: "bool \<Rightarrow> mqtt_event \<Rightarrow> 'e mqtt_world \<Rightarrow> 'e mqtt_world option" where
  "mqtt_event_handler tls_reports ev w =
     (case ev of
        MQTT_EVENT_CONNECTED \<Rightarrow> Some (emit (MCall Connected) (mqtt_log ''connected'' 0 (w\<lparr>mw_connected := True\<rparr>)))
      | MQTT_EVENT_DISCONNECTED \<Rightarrow> Some (emit (MCall Disconnected) ((mqtt_log ''disconnected'' 0 w)\<lparr>mw_connected := False\<rparr>))
      | MQTT_EVENT_SUBSCRIBED mid topic len \<Rightarrow>
          Some (emit (MCall (Subscribed topic len)) (mqtt_log_buf (''subscribed: msg_id='' @ print_int mid) w))
      | MQTT_EVENT_UNSUBSCRIBED mid topic len \<Rightarrow>
          Some (emit (MCall (Unsubscribed topic len)) (mqtt_log_buf (''unsubscribed: msg_id='' @ print_int mid) w))
      | MQTT_EVENT_PUBLISHED mid \<Rightarrow> Some (emit (MCall (Published mid)) (mqtt_log_buf (''published: msg_id='' @ print_int mid) w))
      | MQTT_EVENT_DATA topic tlen dat dlen \<Rightarrow>
          Some (emit (MCall (Received topic tlen dat dlen))
            (mqtt_log_buf (''received: TOPIC=<'' @ prec tlen topic @ ''>, DATA=<'' @ prec dlen dat @ ''>'') w))
      | MQTT_EVENT_ERROR e \<Rightarrow> map_option (\<lambda>s. mqtt_log s 2 w) (error_txt tls_reports e)
      | MQTT_EVENT_OTHER \<Rightarrow> Some w)"

section \<open>Operations\<close>

definition mqtt_subscribe :: "'e esp_mqtt \<Rightarrow> string \<Rightarrow> int \<Rightarrow> 'e mqtt_world \<Rightarrow> 'e mqtt_world" where
  "mqtt_subscribe em topic qos w =
     (case mw_client w of
        None \<Rightarrow> w
      | Some h \<Rightarrow>
          if \<not> mw_connected w then w
          else (case em_subscribe em h topic qos (mw_lib w) of (mid, e) \<Rightarrow>
            mqtt_log_buf (''subscribe: msg_id='' @ print_int mid @ '', TOPIC=<'' @ topic @ ''>, QOS=<'' @ print_int qos @ ''>'')
              (emit (MSubscribe h topic qos) (w\<lparr>mw_lib := e\<rparr>))))"

definition mqtt_unsubscribe :: "'e esp_mqtt \<Rightarrow> string \<Rightarrow> 'e mqtt_world \<Rightarrow> 'e mqtt_world" where
  "mqtt_unsubscribe em topic w =
     (case mw_client w of
        None \<Rightarrow> w
      | Some h \<Rightarrow>
          if \<not> mw_connected w then w
          else (case em_unsubscribe em h topic (mw_lib w) of (mid, e) \<Rightarrow>
            mqtt_log_buf (''subscribe: msg_id='' @ print_int mid @ '', TOPIC=<'' @ topic @ ''>'')
              (emit (MUnsubscribe h topic) (w\<lparr>mw_lib := e\<rparr>))))"

definition publish_txt :: "int \<Rightarrow> string \<Rightarrow> string \<Rightarrow> bool \<Rightarrow> string" where
  "publish_txt mid topic shown retain = ''publish: msg_id='' @ print_int mid @ '', TOPIC=<'' @ topic @ ''>, DATA=<'' @ shown @
     ''>, QOS='' @ print_int 1 @ '', RET='' @ print_int (of_bool retain)"

definition mqtt_publish :: "'e esp_mqtt \<Rightarrow> string \<Rightarrow> string \<Rightarrow> bool \<Rightarrow> 'e mqtt_world \<Rightarrow> 'e mqtt_world" where
  "mqtt_publish em topic dat retain w =
     (case mw_client w of
        None \<Rightarrow> w
      | Some h \<Rightarrow>
          if \<not> mw_connected w then w
          else (case em_publish em h topic dat 1 retain (mw_lib w) of (mid, e) \<Rightarrow>
            (let w1 = emit (MPublish h topic dat 1 retain) (w\<lparr>mw_lib := e\<rparr>)
             in if 128 \<ge> length (publish_txt mid topic dat retain) then mqtt_log_buf (publish_txt mid topic dat retain) w1
                else mqtt_log_buf (publish_txt mid topic ''...'' retain) w1)))"

section \<open>Setting the client up\<close>

definition io_mqtt_create_client :: "'e esp_mqtt \<Rightarrow> cfg_mqtt \<Rightarrow> 'e mqtt_world \<Rightarrow> bool \<times> 'e mqtt_world" where
  "io_mqtt_create_client em c w =
     (if c_str (mq_url c) = [] then (False, w)
      else (case em_init em c (mw_lib w) of (ho, e) \<Rightarrow>
        (let w1 = emit (MInit c ho) (w\<lparr>mw_lib := e, mw_client := ho\<rparr>)
         in case ho of
              None \<Rightarrow> (False, w1)
            | Some h \<Rightarrow> (case em_register_event em h (mw_lib w1) of (ok, e1) \<Rightarrow> (ok, emit (MRegister h) (w1\<lparr>mw_lib := e1\<rparr>))))))"

definition io_mqtt_stop_and_destroy :: "'e esp_mqtt \<Rightarrow> 'e mqtt_world \<Rightarrow> 'e mqtt_world" where
  "io_mqtt_stop_and_destroy em w =
     (case mw_client w of
        None \<Rightarrow> w
      | Some h \<Rightarrow>
          (let w1 = emit (MStop h) (w\<lparr>mw_lib := em_stop em h (mw_lib w)\<rparr>);
               w2 = emit (MDestroy h) (w1\<lparr>mw_lib := em_destroy em h (mw_lib w1)\<rparr>)
           in w2\<lparr>mw_client := None, mw_connected := False\<rparr>))"

text \<open>The result of creating the client is ignored: whether there is a client decides.\<close>

definition io_mqtt_create_and_start :: "'e esp_mqtt \<Rightarrow> cfg_mqtt \<Rightarrow> 'e mqtt_world \<Rightarrow> bool \<times> 'e mqtt_world" where
  "io_mqtt_create_and_start em c w =
     (let w1 = snd (io_mqtt_create_client em c (io_mqtt_stop_and_destroy em w))
      in case mw_client w1 of
           None \<Rightarrow> (False, w1)
         | Some h \<Rightarrow> (case em_start em h (mw_lib w1) of (ok, e) \<Rightarrow> (ok, emit (MStart h) (w1\<lparr>mw_lib := e\<rparr>))))"

definition io_mqtt_setup :: "'e esp_mqtt \<Rightarrow> cfg_mqtt option \<Rightarrow> 'e mqtt_world \<Rightarrow> 'e mqtt_world" where
  "io_mqtt_setup em co w =
     (case co of
        Some c \<Rightarrow> if mq_enable c \<noteq> 0 then snd (io_mqtt_create_and_start em c w) else io_mqtt_stop_and_destroy em w
      | None \<Rightarrow> io_mqtt_stop_and_destroy em w)"

text \<open>Setting up from the settings; the argument of the function is not used, \<open>c0\<close> is the configuration of the macros.\<close>

definition config_setup_mqttClient ::
  "('w, 'h) kvs_ops \<Rightarrow> string \<Rightarrow> settings \<Rightarrow> build \<Rightarrow> cfg_mqtt \<Rightarrow> 'e esp_mqtt \<Rightarrow> 'e mqtt_world \<Rightarrow> 'w \<Rightarrow> kvs_fail + 'e mqtt_world \<times> 'w" where
  "config_setup_mqttClient ops ns st b c0 em mw w =
     (case config_read_mqttClient ops ns st b c0 w of
        Inl e \<Rightarrow> Inl e
      | Inr (c, w1) \<Rightarrow> Inr (io_mqtt_setup em (Some c) mw, w1))"

section \<open>Runs\<close>

text \<open>The program sets the client up and uses it, the library reports events of the client while there is one.\<close>

inductive mqtt_reachable :: "'e esp_mqtt \<Rightarrow> 'e \<Rightarrow> bool \<Rightarrow> 'e mqtt_world \<Rightarrow> bool" for em e0 tls where
  begins: "mqtt_reachable em e0 tls (mqtt_init e0)"
| sets_up: "mqtt_reachable em e0 tls w \<Longrightarrow> mqtt_reachable em e0 tls (io_mqtt_setup em co w)"
| reports: "mqtt_reachable em e0 tls w \<Longrightarrow> mw_client w \<noteq> None \<Longrightarrow> mqtt_event_handler tls ev w = Some w1 \<Longrightarrow> mqtt_reachable em e0 tls w1"
| subscribes: "mqtt_reachable em e0 tls w \<Longrightarrow> mqtt_reachable em e0 tls (mqtt_subscribe em topic qos w)"
| unsubscribes: "mqtt_reachable em e0 tls w \<Longrightarrow> mqtt_reachable em e0 tls (mqtt_unsubscribe em topic w)"
| publishes: "mqtt_reachable em e0 tls w \<Longrightarrow> mqtt_reachable em e0 tls (mqtt_publish em topic dat retain w)"

end
