(* ===== verification/MqttProps.thy ===== *)
theory MqttProps
  imports Mqtt SettingsProps
begin

text \<open>
  The properties of the MQTT client: the protocol of the client library is kept in every run, and the settings decide
  about the client.
\<close>

section \<open>The protocol of the library\<close>

text \<open>What the library requires: a client is created when there is none, used while it lives, stopped and then destroyed.\<close>

datatype lib_state = NoClient | Client nat | Stopped nat

fun lib_step :: "lib_state \<Rightarrow> mq_effect \<Rightarrow> lib_state option" where
  "lib_step s (MLog m) = Some s"
| "lib_step s (MCall c) = Some s"
| "lib_step s (MInit c ho) = (if s = NoClient then Some (case ho of None \<Rightarrow> NoClient | Some h \<Rightarrow> Client h) else None)"
| "lib_step s (MRegister h) = (if s = Client h then Some s else None)"
| "lib_step s (MStart h) = (if s = Client h then Some s else None)"
| "lib_step s (MSubscribe h topic qos) = (if s = Client h then Some s else None)"
| "lib_step s (MUnsubscribe h topic) = (if s = Client h then Some s else None)"
| "lib_step s (MPublish h topic dat qos retain) = (if s = Client h then Some s else None)"
| "lib_step s (MStop h) = (if s = Client h then Some (Stopped h) else None)"
| "lib_step s (MDestroy h) = (if s = Stopped h then Some NoClient else None)"

fun lib_from :: "lib_state \<Rightarrow> mq_effect list \<Rightarrow> lib_state option" where
  "lib_from s [] = Some s"
| "lib_from s (x # xs) = (case lib_step s x of None \<Rightarrow> None | Some s1 \<Rightarrow> lib_from s1 xs)"

definition lib_run :: "mq_effect list \<Rightarrow> lib_state option" where
  "lib_run tr = lib_from NoClient tr"

lemma lib_from_append: "lib_from s (xs @ ys) = (case lib_from s xs of None \<Rightarrow> None | Some s1 \<Rightarrow> lib_from s1 ys)"
  by (induction xs arbitrary: s) (auto split: option.splits)

lemma lib_run_simps [simp]:
  "lib_run [] = Some NoClient" "lib_run (tr @ xs) = (case lib_run tr of None \<Rightarrow> None | Some s \<Rightarrow> lib_from s xs)"
  by (simp_all add: lib_run_def lib_from_append)

definition client_state :: "nat option \<Rightarrow> lib_state" where
  "client_state ho = (case ho of None \<Rightarrow> NoClient | Some h \<Rightarrow> Client h)"

definition mqtt_inv :: "'e mqtt_world \<Rightarrow> bool" where
  "mqtt_inv w \<longleftrightarrow> lib_run (mw_trace w) = Some (client_state (mw_client w)) \<and> (mw_connected w \<longrightarrow> mw_client w \<noteq> None)"

lemma emit_simps [simp]:
  "mw_trace (emit x w) = mw_trace w @ [x]" "mw_client (emit x w) = mw_client w" "mw_connected (emit x w) = mw_connected w" "mw_lib (emit x w) = mw_lib w"
  by (simp_all add: emit_def)

lemma log_buf_client [simp]:
  "mw_client (mqtt_log_buf s w) = mw_client w" "mw_connected (mqtt_log_buf s w) = mw_connected w" "mw_lib (mqtt_log_buf s w) = mw_lib w"
  by (simp_all add: mqtt_log_buf_def mqtt_log_def)

lemma log_buf_run [simp]: "lib_run (mw_trace (mqtt_log_buf s w)) = lib_run (mw_trace w)"
  by (cases "lib_run (mw_trace w)") (simp_all add: mqtt_log_buf_def mqtt_log_def)

lemma event_inv: "mqtt_inv w \<Longrightarrow> mw_client w \<noteq> None \<Longrightarrow> mqtt_event_handler tls ev w = Some w1 \<Longrightarrow> mqtt_inv w1"
  by (cases ev) (auto simp: mqtt_inv_def mqtt_event_handler_def mqtt_log_def)

lemma subscribe_inv: "mqtt_inv w \<Longrightarrow> mqtt_inv (mqtt_subscribe em topic qos w)"
  by (auto simp: mqtt_inv_def mqtt_subscribe_def client_state_def split: option.splits prod.splits)

lemma unsubscribe_inv: "mqtt_inv w \<Longrightarrow> mqtt_inv (mqtt_unsubscribe em topic w)"
  by (auto simp: mqtt_inv_def mqtt_unsubscribe_def client_state_def split: option.splits prod.splits)

lemma mqtt_publish_inv: "mqtt_inv w \<Longrightarrow> mqtt_inv (mqtt_publish em topic dat retain w)"
  by (auto simp: mqtt_inv_def mqtt_publish_def client_state_def Let_def split: option.splits prod.splits)

lemma stop_inv: "mqtt_inv w \<Longrightarrow> mqtt_inv (io_mqtt_stop_and_destroy em w) \<and>
    mw_client (io_mqtt_stop_and_destroy em w) = None \<and> \<not> mw_connected (io_mqtt_stop_and_destroy em w)"
  by (auto simp: mqtt_inv_def io_mqtt_stop_and_destroy_def client_state_def Let_def split: option.splits)

lemma create_inv:
  assumes "mqtt_inv w" "mw_client w = None"
  shows "mqtt_inv (snd (io_mqtt_create_client em c w))"
  using assms by (auto simp: mqtt_inv_def io_mqtt_create_client_def client_state_def Let_def split: option.splits prod.splits)

lemma create_and_start_inv: "mqtt_inv w \<Longrightarrow> mqtt_inv (snd (io_mqtt_create_and_start em c w))"
  using create_inv [of "io_mqtt_stop_and_destroy em w" em c] stop_inv [of w em]
  by (auto simp: io_mqtt_create_and_start_def Let_def mqtt_inv_def client_state_def split: option.splits prod.splits)

lemma setup_inv: "mqtt_inv w \<Longrightarrow> mqtt_inv (io_mqtt_setup em co w)"
  using stop_inv [of w em] create_and_start_inv [of w em] by (simp add: io_mqtt_setup_def split: option.split)

lemma init_inv: "mqtt_inv (mqtt_init e)"
  by (simp add: mqtt_inv_def mqtt_init_def client_state_def)

text \<open>C29: In every run, whatever the calls of the library return, the client library is used as it requires: a client is
  created only when there is none, registered, started and used for subscriptions and messages only while it lives, and
  stopped and then destroyed once; the client is marked as connected only while there is one.\<close>

theorem mqtt_library_protocol:
  assumes "mqtt_reachable em e0 tls w"
  shows "lib_run (mw_trace w) = Some (client_state (mw_client w)) \<and> (mw_connected w \<longrightarrow> mw_client w \<noteq> None)"
proof -
  have "mqtt_inv w" using assms
    by induction (auto simp: init_inv
        intro: setup_inv event_inv subscribe_inv unsubscribe_inv mqtt_publish_inv)
  then show ?thesis by (simp add: mqtt_inv_def)
qed

text \<open>A library that numbers its clients, and a run with it.\<close>

definition test_mqtt :: "nat esp_mqtt" where
  "test_mqtt = \<lparr>em_init = (\<lambda>c n. (Some n, Suc n)), em_register_event = (\<lambda>h n. (True, n)), em_start = (\<lambda>h n. (True, n)), em_stop = (\<lambda>h n. n),
     em_destroy = (\<lambda>h n. n), em_subscribe = (\<lambda>h topic qos n. (7, n)), em_unsubscribe = (\<lambda>h topic n. (8, n)), em_publish = (\<lambda>h topic dat qos r n. (9, n))\<rparr>"

definition test_cfg :: cfg_mqtt where
  "test_cfg = mqtt_default\<lparr>mq_url := ''mqtt://h'' @ replicate 55 NUL, mq_enable := 1\<rparr>"

definition test_run :: "nat mqtt_world option" where
  "test_run = map_option (\<lambda>w. io_mqtt_setup test_mqtt (Some test_cfg) (mqtt_publish test_mqtt ''t'' ''d'' False w))
     (mqtt_event_handler False MQTT_EVENT_CONNECTED (io_mqtt_setup test_mqtt (Some test_cfg) (mqtt_init 0)))"

lemma test_cfg_simps: "c_str (mq_url test_cfg) \<noteq> []" "mq_enable test_cfg = 1"
  by (simp_all add: test_cfg_def mqtt_default_def c_str_def)

lemma test_setup: "mw_client (io_mqtt_setup test_mqtt (Some test_cfg) (mqtt_init 0)) = Some 0"
  by (simp add: io_mqtt_setup_def io_mqtt_create_and_start_def io_mqtt_create_client_def io_mqtt_stop_and_destroy_def test_cfg_simps
      mqtt_init_def test_mqtt_def Let_def emit_def)

theorem mqtt_library_protocol_witness:
  "\<exists>w. test_run = Some w \<and> lib_run (mw_trace w) = Some (client_state (mw_client w))"
proof -
  obtain w1 where w1: "mqtt_event_handler False MQTT_EVENT_CONNECTED (io_mqtt_setup test_mqtt (Some test_cfg) (mqtt_init 0)) = Some w1"
    by (simp add: mqtt_event_handler_def)
  have "mqtt_reachable test_mqtt 0 False w1"
    by (rule reports [OF sets_up [OF begins] _ w1]) (simp add: test_setup)
  from mqtt_library_protocol [OF sets_up [OF publishes [OF this]], of "Some test_cfg" "''t''" "''d''" False]
  show ?thesis by (simp add: test_run_def w1)
qed

section \<open>From the settings to the client\<close>

definition stop_effects :: "nat option \<Rightarrow> mq_effect list" where
  "stop_effects ho = (case ho of None \<Rightarrow> [] | Some h \<Rightarrow> [MStop h, MDestroy h])"

definition start_effects :: "cfg_mqtt \<Rightarrow> nat option \<Rightarrow> mq_effect list" where
  "start_effects c ho = MInit c ho # (case ho of None \<Rightarrow> [] | Some h \<Rightarrow> [MRegister h, MStart h])"

lemma stop_simps:
  "mw_trace (io_mqtt_stop_and_destroy em w) = mw_trace w @ stop_effects (mw_client w)" "mw_client (io_mqtt_stop_and_destroy em w) = None"
  by (simp_all add: io_mqtt_stop_and_destroy_def stop_effects_def Let_def split: option.split)

lemma create_and_start_simps:
  assumes "c_str (mq_url c) \<noteq> []"
  shows "mw_trace (snd (io_mqtt_create_and_start em c w)) = mw_trace w @ stop_effects (mw_client w) @
      start_effects c (mw_client (snd (io_mqtt_create_and_start em c w)))"
  using assms by (auto simp: io_mqtt_create_and_start_def io_mqtt_create_client_def start_effects_def stop_simps Let_def split: option.split prod.split)

lemma create_and_start_empty:
  assumes "c_str (mq_url c) = []"
  shows "snd (io_mqtt_create_and_start em c w) = io_mqtt_stop_and_destroy em w"
  using assms by (simp add: io_mqtt_create_and_start_def io_mqtt_create_client_def stop_simps)

text \<open>Setting the MQTT client up from the stored settings: the old client is stopped and destroyed in any case; with the
  client enabled and a URL in the settings a new one is created with the stored configuration, registered and started, and
  it is the client; otherwise there is no client. The store is not changed.\<close>

lemma mqtt_setup_from_settings:
  assumes "kw_idle w C" "comp_settings otok0 b = Some st" "USE_MQTT b" "mqtt_fits C n c0"
  shows "\<exists>w1 mw1. config_setup_mqttClient host_kvs n st b c0 em mw w = Inr (mw1, w1) \<and> kw_idle w1 C \<and>
    (if mq_enable (mqtt_read C n c0) \<noteq> 0 \<and> c_str (mq_url (mqtt_read C n c0)) \<noteq> []
     then mw_trace mw1 = mw_trace mw @ stop_effects (mw_client mw) @ start_effects (mqtt_read C n c0) (mw_client mw1)
     else mw_trace mw1 = mw_trace mw @ stop_effects (mw_client mw) \<and> mw_client mw1 = None)"
proof -
  obtain w1 where w1: "config_read_mqttClient host_kvs n st b c0 w = Inr (mqtt_read C n c0, w1)" "kw_idle w1 C"
    using host.config_read_mqtt [OF assms(2,3,1,4) TrueI] by blast
  then show ?thesis
    by (intro exI [of _ w1] exI [of _ "io_mqtt_setup em (Some (mqtt_read C n c0)) mw"])
      (simp add: config_setup_mqttClient_def io_mqtt_setup_def create_and_start_simps create_and_start_empty stop_simps)
qed

lemma mqtt_setup_from_settings_witness:
  "\<exists>w1 mw1. config_setup_mqttClient host_kvs ''cfg'' full_table full_build test_cfg test_mqtt (mqtt_init 5) kworld_init = Inr (mw1, w1) \<and>
    mw_trace mw1 = start_effects test_cfg (mw_client mw1)"
proof -
  have "mqtt_read (\<lambda>_. Map.empty) ''cfg'' test_cfg = test_cfg" by (simp add: mqtt_read_def vals_empty)
  then show ?thesis
    using mqtt_setup_from_settings [OF kw_idle_init full_table _ , of "''cfg''" test_cfg test_mqtt "mqtt_init 5"] test_cfg_simps
    by (auto simp: mqtt_fits_def char_fits_empty full_build_def mqtt_init_def stop_effects_def)
qed

section \<open>Topics\<close>

text \<open>For a topic with its own length and without NUL the tests are those for a prefix and a suffix.\<close>

lemma strneq_texts: "no_nul s \<Longrightarrow> no_nul t \<Longrightarrow> strneq (length s) t s \<longleftrightarrow> take (length s) t = s"
proof -
  assume "no_nul s" "no_nul t"
  moreover from this have "no_nul (take (length s) t)" by (auto simp: no_nul_def dest: in_set_takeD)
  ultimately show ?thesis by (simp add: strneq_def c_str_no_nul)
qed

lemma topic_tests:
  assumes "no_nul topic" "no_nul s" "length topic < 2 ^ 31"
  shows "topic_startsWith topic (int (length topic)) s = Some (prefix s topic)"
    and "topic_endsWith topic (int (length topic)) s = Some (suffix s topic)"
proof -
  have u: "unsigned_len (int (length topic)) = length topic" using assms(3) by (simp add: unsigned_len_def)
  show "topic_startsWith topic (int (length topic)) s = Some (prefix s topic)"
    using strneq_texts [OF assms(2,1)] by (auto simp: topic_startsWith_def u prefix_def append_eq_conv_conj) (metis append_take_drop_id)
  have "no_nul (drop k topic)" for k using assms(1) by (auto simp: no_nul_def dest: in_set_dropD)
  then have "strneq (length s) (drop (length topic - length s) topic) s \<longleftrightarrow> drop (length topic - length s) topic = s" if "length s \<le> length topic"
    using strneq_texts [OF assms(2)] that by simp
  then show "topic_endsWith topic (int (length topic)) s = Some (suffix s topic)"
    by (auto simp: topic_endsWith_def u suffix_def Let_def nat_diff_distrib dest: suffix_length_le) (metis append_take_drop_id)
qed

end
