(* ===== verification/HttpClient.thy ===== *)
theory HttpClient
  imports CStd "HOL-Library.Monad_Syntax"
begin

text \<open>
  The HTTP client of the host build (net/host/http_client.hh, http_client.cc): a request built into a buffer, the
  response read into the same buffer or one of the caller, and separated into headers and content. None stands for an
  access outside of a block. The socket calls are a record of functions on the state \<open>'w\<close> of the network.

  The second part is the client of the device (net/esp32/http_client.cc), whose library reports a transfer as events.
\<close>

section \<open>The URL\<close>

text \<open>
  The match of the regular expression of parse_url. All of its classes exclude the character #, its last group takes
  everything else, so it matches exactly the texts without #, and the groups are found from left to right without
  stepping back: a scheme is what precedes the first of the characters : / ? #, if it is not empty and this
  character is a colon; then comes // and a host, if they are there, and then a colon and digits.
\<close>

definition url_word :: "char \<Rightarrow> bool" where
  "url_word c \<longleftrightarrow> c \<noteq> CHR '':'' \<and> c \<noteq> CHR ''/'' \<and> c \<noteq> CHR ''?'' \<and> c \<noteq> CHR ''#''"

definition match_scheme :: "string \<Rightarrow> string option \<times> string" where
  "match_scheme s = (let w = takeWhile url_word s; r = dropWhile url_word s
     in if w \<noteq> [] \<and> r \<noteq> [] \<and> hd r = CHR '':'' then (Some w, tl r) else (None, s))"

definition match_host :: "string \<Rightarrow> string option \<times> string" where
  "match_host s = (let r = drop 2 s; w = takeWhile url_word r
     in if take 2 s = ''//'' \<and> w \<noteq> [] then (Some w, dropWhile url_word r) else (None, s))"

definition match_port :: "string \<Rightarrow> string option \<times> string" where
  "match_port s = (let r = tl s; d = takeWhile is_digit r
     in if s \<noteq> [] \<and> hd s = CHR '':'' \<and> d \<noteq> [] then (Some d, dropWhile is_digit r) else (None, s))"

text \<open>The four groups; a group that takes no part in the match is None.\<close>

definition url_match :: "string \<Rightarrow> string option \<times> string option \<times> string option \<times> string option" where
  "url_match url =
     (if CHR ''#'' \<in> set url then (None, None, None, None)
      else (case match_scheme url of (scheme, r1) \<Rightarrow>
        (case match_host r1 of
           (None, r2) \<Rightarrow> (scheme, None, None, Some r2)
         | (Some host, r2) \<Rightarrow> (case match_port r2 of (port, r3) \<Rightarrow> (scheme, Some host, port, Some r3)))))"

section \<open>The client\<close>

record rbuf =
  rb_scheme :: string
  rb_host_name :: string
  rb_url_data :: string
  rb_port :: string
  rb_sock :: int
  rb_buf :: "char list"
  rb_buf_idx :: nat
  rb_header :: bool
  rb_body :: "nat option"
  rb_body_size :: nat
  rb_resp_idx :: nat

text \<open>\<open>rb_header\<close> tells whether there are headers; they start at the response. The body is its index in the response.\<close>

definition rbuf_new :: "nat \<Rightarrow> rbuf" where
  "rbuf_new buf_size = \<lparr>rb_scheme = [], rb_host_name = [], rb_url_data = [], rb_port = [], rb_sock = -1, rb_buf = replicate buf_size NUL,
     rb_buf_idx = 0, rb_header = False, rb_body = None, rb_body_size = 0, rb_resp_idx = 0\<rparr>"

definition parse_url :: "string \<Rightarrow> rbuf \<Rightarrow> bool \<times> rbuf" where
  "parse_url url rb =
     (case url_match url of (scheme, host, port, url_data) \<Rightarrow>
       (True, rb\<lparr>rb_scheme := (case scheme of Some m \<Rightarrow> m | None \<Rightarrow> ''http''),
         rb_host_name := (case host of Some m \<Rightarrow> m | None \<Rightarrow> rb_host_name rb),
         rb_port := (case port of Some m \<Rightarrow> m | None \<Rightarrow> ''80''),
         rb_url_data := (case url_data of Some m \<Rightarrow> m | None \<Rightarrow> rb_url_data rb)\<rparr>))"

definition put_char :: "char \<Rightarrow> rbuf \<Rightarrow> bool \<times> rbuf" where
  "put_char c rb =
     (if rb_buf_idx rb + 1 \<ge> length (rb_buf rb) then (False, rb)
      else (True, rb\<lparr>rb_buf := (rb_buf rb)[rb_buf_idx rb := c, rb_buf_idx rb + 1 := NUL], rb_buf_idx := rb_buf_idx rb + 1\<rparr>))"

fun put_cstr :: "string \<Rightarrow> rbuf \<Rightarrow> bool \<times> rbuf" where
  "put_cstr [] rb = (True, rb)"
| "put_cstr (c # s) rb = (case put_char c rb of (ok, rb1) \<Rightarrow> if ok then put_cstr s rb1 else (False, rb1))"

text \<open>The version for std::string goes on when a character did not fit.\<close>

fun put_string :: "string \<Rightarrow> rbuf \<Rightarrow> bool \<times> rbuf" where
  "put_string [] rb = (True, rb)"
| "put_string (c # s) rb = put_string s (snd (put_char c rb))"

definition CRLF :: string where
  "CRLF = [CHR 0x0D, CHR 0x0A]"

definition build_request_GET :: "string \<Rightarrow> rbuf \<Rightarrow> bool \<times> rbuf" where
  "build_request_GET hdr_accept rb =
     (let rb = rb\<lparr>rb_buf_idx := 0\<rparr>;
          rb = snd (put_cstr ''GET '' rb);
          rb = snd (put_string (rb_url_data rb) rb);
          rb = snd (put_cstr (''  HTTP/1.1'' @ CRLF @ ''Host: '') rb);
          rb = snd (put_string (rb_host_name rb) rb);
          rb = snd (put_cstr (CRLF @ ''User-Agent: Mozilla/4.0'' @ CRLF @ ''Accept: '') rb);
          rb = snd (put_cstr hdr_accept rb)
      in (True, snd (put_cstr (CRLF @ ''Connection: close'' @ CRLF @ CRLF @ CRLF) rb)))"

section \<open>The connection\<close>

text \<open>An address is a number; None of getaddrinfo is an error. A read delivers a count and the characters.\<close>

record 'w net =
  nt_getaddrinfo :: "string \<Rightarrow> string \<Rightarrow> 'w \<Rightarrow> nat list option \<times> 'w"
  nt_socket :: "nat \<Rightarrow> 'w \<Rightarrow> int \<times> 'w"
  nt_connect :: "int \<Rightarrow> nat \<Rightarrow> 'w \<Rightarrow> bool \<times> 'w"
  nt_write :: "int \<Rightarrow> string \<Rightarrow> 'w \<Rightarrow> int \<times> 'w"
  nt_read :: "int \<Rightarrow> nat \<Rightarrow> 'w \<Rightarrow> int \<times> string \<times> 'w"
  nt_shutdown :: "int \<Rightarrow> 'w \<Rightarrow> 'w"
  nt_close :: "int \<Rightarrow> 'w \<Rightarrow> 'w"

fun connect_loop :: "'w net \<Rightarrow> nat list \<Rightarrow> 'w \<Rightarrow> int \<times> 'w" where
  "connect_loop nt [] w = (-1, w)"
| "connect_loop nt (a # as) w =
     (case nt_socket nt a w of (sfd, w1) \<Rightarrow>
        if sfd = -1 then connect_loop nt as w1
        else (case nt_connect nt sfd a w1 of (ok, w2) \<Rightarrow>
          if ok then (sfd, w2) else connect_loop nt as (nt_close nt sfd w2)))"

definition do_connect :: "'w net \<Rightarrow> string \<Rightarrow> string \<Rightarrow> 'w \<Rightarrow> int \<times> 'w" where
  "do_connect nt host service w =
     (case nt_getaddrinfo nt host service w of
        (None, w1) \<Rightarrow> (-1, w1)
      | (Some as, w1) \<Rightarrow> connect_loop nt as w1)"

definition open_connection :: "'w net \<Rightarrow> rbuf \<Rightarrow> 'w \<Rightarrow> (bool \<times> rbuf) \<times> 'w" where
  "open_connection nt rb w =
     (if rb_host_name rb = [] \<or> rb_port rb = [] then ((False, rb), w)
      else (case do_connect nt (rb_host_name rb) (rb_port rb) w of (s, w1) \<Rightarrow> ((s \<ge> 0, rb\<lparr>rb_sock := s\<rparr>), w1)))"

definition close_connection :: "'w net \<Rightarrow> rbuf \<Rightarrow> 'w \<Rightarrow> rbuf \<times> 'w" where
  "close_connection nt rb w = (rb\<lparr>rb_sock := -1\<rparr>, nt_close nt (rb_sock rb) (nt_shutdown nt (rb_sock rb) w))"

definition send_request :: "'w net \<Rightarrow> rbuf \<Rightarrow> 'w \<Rightarrow> bool \<times> 'w" where
  "send_request nt rb w =
     (case nt_write nt (rb_sock rb) (take (rb_buf_idx rb) (rb_buf rb)) w of (written, w1) \<Rightarrow> (written = int (rb_buf_idx rb), w1))"

text \<open>
  The loop of get_response on the block \<open>m\<close>: \<open>i\<close> characters are read, \<open>rem\<close> are left of the size. A read that
  delivers more than it was asked for is an access outside of the block. Every turn reads a character or ends,
  so the size of the block plus one is enough fuel.
\<close>

fun response_loop :: "'w net \<Rightarrow> int \<Rightarrow> nat \<Rightarrow> nat \<Rightarrow> nat \<Rightarrow> char list \<Rightarrow> 'w \<Rightarrow> ((bool \<times> nat \<times> char list) \<times> 'w) option" where
  "response_loop nt sock 0 i rem m w = None"
| "response_loop nt sock (Suc fuel) i rem m w =
     (if i < length m then
        (case nt_read nt sock (rem - 1) w of (ct, s, w1) \<Rightarrow>
           if ct > 0 then
             (if ct = int (length s) \<and> length s \<le> rem - 1
              then do { m1 \<leftarrow> mem_copy m i s; m2 \<leftarrow> mem_put m1 (i + length s) NUL;
                        response_loop nt sock fuel (i + length s) (rem - length s) m2 w1 }
              else None)
           else Some ((ct = 0 \<and> i \<noteq> 0, i, m), w1))
      else Some ((True, i, m), w))"

definition get_response :: "'w net \<Rightarrow> int \<Rightarrow> char list \<Rightarrow> 'w \<Rightarrow> ((bool \<times> nat \<times> char list) \<times> 'w) option" where
  "get_response nt sock m w = response_loop nt sock (Suc (length m)) 0 (length m) m w"

text \<open>The first place of a text in a C string.\<close>

fun strstr_at :: "string \<Rightarrow> string \<Rightarrow> nat option" where
  "strstr_at [] t = (if t = [] then Some 0 else None)"
| "strstr_at (c # s) t = (if prefix t (c # s) then Some 0 else map_option Suc (strstr_at s t))"

definition ok_string :: string where
  "ok_string = ''HTTP/1.1 200 OK'' @ CRLF"

definition separate_header_and_body :: "nat \<Rightarrow> char list \<Rightarrow> rbuf \<Rightarrow> (bool \<times> char list) \<times> rbuf" where
  "separate_header_and_body idx m rb =
     (if \<not> strneq (length ok_string) m ok_string then ((False, m), rb\<lparr>rb_header := True, rb_body := None\<rparr>)
      else (case strstr_at (c_str m) (CRLF @ CRLF) of
              None \<Rightarrow> ((False, m), rb)
            | Some sep \<Rightarrow> ((True, m[sep + 2 := NUL]), rb\<lparr>rb_header := True, rb_body := Some (sep + 4), rb_body_size := idx - sep - 4\<rparr>)))"

text \<open>
  fetch with the buffer of the caller, if there is one: the response goes there, the request is built in the own one. The
  result is the index of the body in the response, and the response.
\<close>

definition fetch :: "'w net \<Rightarrow> string \<Rightarrow> string \<Rightarrow> char list option \<Rightarrow> rbuf \<Rightarrow> 'w \<Rightarrow> ((nat option \<times> char list option) \<times> rbuf \<times> 'w) option" where
  "fetch nt url accept_content buffer rb w =
     (case parse_url url rb of (_, rb1) \<Rightarrow>
       (case open_connection nt rb1 w of ((opened, rb2), w1) \<Rightarrow>
          if \<not> opened then Some ((None, buffer), rb2, w1)
          else (case build_request_GET accept_content rb2 of (_, rb3) \<Rightarrow>
            (case send_request nt rb3 w1 of (sent, w2) \<Rightarrow>
               if \<not> sent then Some ((None, buffer), rb3, w2)
               else do {
                 ((ok, idx, m), w3) \<leftarrow> get_response nt (rb_sock rb3) (case buffer of Some b \<Rightarrow> b | None \<Rightarrow> rb_buf rb3) w2;
                 (let put = (\<lambda>m rb. case buffer of Some _ \<Rightarrow> rb | None \<Rightarrow> rb\<lparr>rb_buf := m\<rparr>);
                      res = (\<lambda>m. case buffer of Some _ \<Rightarrow> Some m | None \<Rightarrow> None);
                      rb4 = put m (rb3\<lparr>rb_resp_idx := idx\<rparr>)
                  in if \<not> ok then Some ((None, res m), rb4, w3)
                     else (case separate_header_and_body idx m rb4 of ((sep, m1), rb5) \<Rightarrow>
                       if \<not> sep then Some ((None, res m1), put m1 rb5, w3)
                       else (case close_connection nt (put m1 rb5) w3 of (rb6, w4) \<Rightarrow> Some ((rb_body rb6, res m1), rb6, w4)))) }))))"

definition httpClient_getToBuffer :: "'w net \<Rightarrow> string \<Rightarrow> char list \<Rightarrow> rbuf \<Rightarrow> 'w \<Rightarrow> ((bool \<times> char list) \<times> rbuf \<times> 'w) option" where
  "httpClient_getToBuffer nt url buf rb w = do {
     ((body, _), rb1, w1) \<leftarrow> fetch nt url ''*/*'' None rb w;
     (case body of
        None \<Rightarrow> Some ((False, buf), rb1, w1)
      | Some b \<Rightarrow>
          (let len = rb_body_size rb1
           in if len \<ge> length buf then Some ((False, buf), rb1, w1)
              else if b + len > length (rb_buf rb1) then None
              else do { m \<leftarrow> mem_copy buf 0 (take len (drop b (rb_buf rb1))); m1 \<leftarrow> mem_put m len NUL; Some ((True, m1), rb1, w1) })) }"

section \<open>The client of the device\<close>

text \<open>The library calls the handler for each event of a transfer; \<open>stops\<close> tells whether it ends it when the handler fails.\<close>

datatype http_event = HTTP_EVENT_ERROR | HTTP_EVENT_ON_CONNECTED | HTTP_EVENT_HEADER_SENT | HTTP_EVENT_ON_HEADER | HTTP_EVENT_ON_DATA string
  | HTTP_EVENT_ON_FINISH | HTTP_EVENT_DISCONNECTED | HTTP_EVENT_REDIRECT

fun run_events :: "(http_event \<Rightarrow> 'u \<Rightarrow> (bool \<times> 'u) option) \<Rightarrow> bool \<Rightarrow> http_event list \<Rightarrow> 'u \<Rightarrow> 'u option" where
  "run_events handler stops [] u = Some u"
| "run_events handler stops (e # es) u =
     (case handler e u of
        None \<Rightarrow> None
      | Some (ok, u1) \<Rightarrow> if \<not> ok \<and> stops then Some u1 else run_events handler stops es u1)"

record user_data =
  ud_buf :: "char list"
  ud_buf_pos :: nat

definition buffer_handler :: "http_event \<Rightarrow> user_data \<Rightarrow> (bool \<times> user_data) option" where
  "buffer_handler e u =
     (case e of
        HTTP_EVENT_ON_DATA d \<Rightarrow>
          if ud_buf_pos u + length d \<ge> length (ud_buf u) then Some (False, u)
          else map_option (\<lambda>m. (True, u\<lparr>ud_buf := m, ud_buf_pos := ud_buf_pos u + length d\<rparr>)) (mem_copy (ud_buf u) (ud_buf_pos u) d)
      | HTTP_EVENT_ON_FINISH \<Rightarrow> map_option (\<lambda>m. (True, u\<lparr>ud_buf := m\<rparr>)) (mem_put (ud_buf u) (ud_buf_pos u) NUL)
      | _ \<Rightarrow> Some (True, u))"

text \<open>The events, and whether the transfer as a whole succeeded, come from the library.\<close>

definition esp_getToBuffer :: "bool \<Rightarrow> http_event list \<Rightarrow> bool \<Rightarrow> char list \<Rightarrow> (bool \<times> char list) option" where
  "esp_getToBuffer stops evs performed buf =
     map_option (\<lambda>u. (performed, ud_buf u)) (run_events buffer_handler stops evs \<lparr>ud_buf = buf, ud_buf_pos = 0\<rparr>)"

text \<open>Downloading to a file. The descriptor is a static variable of the handler: it is kept between transfers.\<close>

record 'w http_files =
  hf_open :: "string \<Rightarrow> 'w \<Rightarrow> int \<times> 'w"
  hf_write :: "int \<Rightarrow> string \<Rightarrow> 'w \<Rightarrow> 'w"
  hf_close :: "int \<Rightarrow> 'w \<Rightarrow> 'w"

definition file_handler :: "'w http_files \<Rightarrow> string \<Rightarrow> http_event \<Rightarrow> int \<times> 'w \<Rightarrow> (bool \<times> int \<times> 'w) option" where
  "file_handler hf dst e = (\<lambda>(fd, w).
     (case e of
        HTTP_EVENT_ON_DATA d \<Rightarrow>
          (case (if fd = -1 then hf_open hf dst w else (fd, w)) of (fd1, w1) \<Rightarrow>
            Some (True, fd1, if fd1 \<ge> 0 then hf_write hf fd1 d w1 else w1))
      | HTTP_EVENT_ON_FINISH \<Rightarrow> Some (True, if fd \<ge> 0 then (-1, hf_close hf fd w) else (fd, w))
      | _ \<Rightarrow> Some (True, fd, w)))"

definition esp_downloadFile :: "'w http_files \<Rightarrow> bool \<Rightarrow> http_event list \<Rightarrow> bool \<Rightarrow> string \<Rightarrow> int \<times> 'w \<Rightarrow> (bool \<times> int \<times> 'w) option" where
  "esp_downloadFile hf stops evs performed dst s = map_option (Pair performed) (run_events (file_handler hf dst) stops evs s)"

end
