(* ===== verification/HttpClientProps.thy ===== *)
theory HttpClientProps
  imports HttpClient
begin

text \<open>The properties of the HTTP client: its URLs, its request, and the content it delivers.\<close>

section \<open>URLs\<close>

lemma takeWhile_word: "\<forall>c \<in> set w. url_word c \<Longrightarrow> r = [] \<or> \<not> url_word (hd r) \<Longrightarrow> takeWhile url_word (w @ r) = w \<and> dropWhile url_word (w @ r) = r"
  by (cases r) (auto simp: takeWhile_append dropWhile_append3)

lemma takeWhile_digits: "\<forall>c \<in> set w. is_digit c \<Longrightarrow> r = [] \<or> \<not> is_digit (hd r) \<Longrightarrow> takeWhile is_digit (w @ r) = w \<and> dropWhile is_digit (w @ r) = r"
  by (cases r) (auto simp: takeWhile_append dropWhile_append3)

definition port_part :: "string option \<Rightarrow> string" where
  "port_part port = (case port of Some p \<Rightarrow> CHR '':'' # p | None \<Rightarrow> [])"

text \<open>C30: A URL made of a scheme, a host, an optional port and a path is taken apart into them, whatever was parsed before; 80
  is the port if there is none.\<close>

theorem url_parse_roundtrip:
  assumes "scheme \<noteq> []" "\<forall>c \<in> set scheme. url_word c" "host \<noteq> []" "\<forall>c \<in> set host. url_word c"
    "\<forall>p. port = Some p \<longrightarrow> p \<noteq> [] \<and> (\<forall>c \<in> set p. is_digit c)" "path = [] \<or> hd path = CHR ''/'' \<or> hd path = CHR ''?''" "CHR ''#'' \<notin> set path"
  shows "parse_url (scheme @ ''://'' @ host @ port_part port @ path) rb =
    (True, rb\<lparr>rb_scheme := scheme, rb_host_name := host, rb_port := (case port of Some p \<Rightarrow> p | None \<Rightarrow> ''80''), rb_url_data := path\<rparr>)"
proof -
  let ?r = "port_part port @ path"
  have d: "\<not> is_digit (CHR ''/'')" "\<not> is_digit (CHR ''?'')" "\<not> is_digit (CHR ''#'')" by (simp_all add: is_digit_def Let_def)
  have r: "?r = [] \<or> \<not> url_word (hd ?r)" using assms(6) by (cases port) (auto simp: port_part_def url_word_def)
  have "\<not> url_word (CHR ''#'')" by (simp add: url_word_def)
  then have "CHR ''#'' \<notin> set scheme" "CHR ''#'' \<notin> set host" using assms(2,4) by blast+
  moreover have "CHR ''#'' \<notin> set (port_part port)" using assms(5) d(3) by (cases port) (auto simp: port_part_def)
  ultimately have h: "CHR ''#'' \<notin> set (scheme @ ''://'' @ host @ ?r)" using assms(7) by simp
  have s: "match_scheme (scheme @ ''://'' @ host @ ?r) = (Some scheme, ''//'' @ host @ ?r)"
    using takeWhile_word [OF assms(2), of "''://'' @ host @ ?r"] assms(1) by (simp add: match_scheme_def url_word_def)
  have m: "match_host (''//'' @ host @ ?r) = (Some host, ?r)"
    using takeWhile_word [OF assms(4) r] assms(3) by (simp add: match_host_def)
  have p: "match_port ?r = (port, path)"
  proof (cases port)
    case None
    then show ?thesis using assms(6) by (cases path) (auto simp: match_port_def port_part_def)
  next
    case (Some q)
    have "path = [] \<or> \<not> is_digit (hd path)" using assms(6) d by auto
    then show ?thesis using takeWhile_digits [of q path] assms(5) Some by (simp add: match_port_def port_part_def)
  qed
  have "url_match (scheme @ ''://'' @ host @ ?r) = (Some scheme, Some host, port, Some path)"
    using h unfolding url_match_def s prod.case m option.case p by (simp only: if_False)
  then show ?thesis by (simp only: parse_url_def prod.case option.case)
qed

theorem url_parse_roundtrip_witness:
  "rb_host_name (snd (parse_url ''http://h.de:8080/w?q=1'' (rbuf_new 100))) = ''h.de'' \<and> rb_port (snd (parse_url ''http://h.de:8080/w?q=1'' (rbuf_new 100))) = ''8080''"
  using url_parse_roundtrip [of "''http''" "''h.de''" "Some ''8080''" "''/w?q=1''" "rbuf_new 100"]
  by (simp add: port_part_def url_word_def is_digit_def Let_def)

text \<open>A URL with a fragment is not matched: the host and the path of the URL before are used.\<close>

lemma url_fragment_keeps_old:
  "CHR ''#'' \<in> set url \<Longrightarrow> rb_host_name (snd (parse_url url rb)) = rb_host_name rb \<and> rb_url_data (snd (parse_url url rb)) = rb_url_data rb"
  by (simp add: parse_url_def url_match_def)

section \<open>The request\<close>

definition req_text :: "rbuf \<Rightarrow> string" where
  "req_text rb = take (rb_buf_idx rb) (rb_buf rb)"

text \<open>Writing text at the end, as far as it fits, with nothing else changed.\<close>

definition puts_to :: "rbuf \<Rightarrow> string \<Rightarrow> rbuf \<Rightarrow> bool" where
  "puts_to rb s rb1 \<longleftrightarrow> req_text rb1 = take (length (rb_buf rb) - 1) (req_text rb @ s) \<and> length (rb_buf rb1) = length (rb_buf rb) \<and>
     rb_buf_idx rb1 = min (length (rb_buf rb) - 1) (rb_buf_idx rb + length s) \<and>
     rb1\<lparr>rb_buf := rb_buf rb, rb_buf_idx := rb_buf_idx rb\<rparr> = rb"

lemma puts_to_refl: "rb_buf_idx rb < length (rb_buf rb) \<Longrightarrow> puts_to rb [] rb"
  by (simp add: puts_to_def req_text_def min_absorb2)

lemma take_take_append: "take n (take n xs @ ys) = take n (xs @ ys)"
  by (simp add: min_def)

lemma puts_to_trans:
  assumes "puts_to rb s rb1" "puts_to rb1 t rb2"
  shows "puts_to rb (s @ t) rb2"
proof -
  have a: "req_text rb2 = take (length (rb_buf rb) - 1) (req_text rb @ s @ t)"
  proof -
    let ?n = "length (rb_buf rb) - 1"
    have "req_text rb2 = take ?n (req_text rb1 @ t)" "req_text rb1 = take ?n (req_text rb @ s)" using assms by (simp_all add: puts_to_def)
    then have "req_text rb2 = take ?n (take ?n (req_text rb @ s) @ t)" by (simp only:)
    then show ?thesis unfolding take_take_append append_assoc .
  qed
  have b: "rb_buf_idx rb2 = min (length (rb_buf rb) - 1) (rb_buf_idx rb + length (s @ t))"
    using assms unfolding puts_to_def length_append by linarith
  have "rb2\<lparr>rb_buf := rb_buf rb, rb_buf_idx := rb_buf_idx rb\<rparr> =
      rb2\<lparr>rb_buf := rb_buf rb1, rb_buf_idx := rb_buf_idx rb1\<rparr>\<lparr>rb_buf := rb_buf rb, rb_buf_idx := rb_buf_idx rb\<rparr>" by simp
  also have "\<dots> = rb1\<lparr>rb_buf := rb_buf rb, rb_buf_idx := rb_buf_idx rb\<rparr>" using assms(2) unfolding puts_to_def by (simp only:)
  also have "\<dots> = rb" using assms(1) by (simp only: puts_to_def)
  finally have d: "rb2\<lparr>rb_buf := rb_buf rb, rb_buf_idx := rb_buf_idx rb\<rparr> = rb" .
  have e: "length (rb_buf rb2) = length (rb_buf rb)" using assms by (simp add: puts_to_def)
  show ?thesis unfolding puts_to_def using a b d e by blast
qed

lemma puts_to_at_end:
  assumes "length (rb_buf rb) = Suc (rb_buf_idx rb)"
  shows "puts_to rb s rb"
  using assms by (simp add: puts_to_def req_text_def)

lemma put_char_to:
  assumes "rb_buf_idx rb < length (rb_buf rb)"
  shows "puts_to rb [c] (snd (put_char c rb))"
proof (cases "rb_buf_idx rb + 1 \<ge> length (rb_buf rb)")
  case True
  then have "length (rb_buf rb) = Suc (rb_buf_idx rb)" using assms by linarith
  then show ?thesis using puts_to_at_end by (simp add: put_char_def)
next
  case False
  have "take (Suc (rb_buf_idx rb)) ((rb_buf rb)[rb_buf_idx rb := c, Suc (rb_buf_idx rb) := NUL]) = take (rb_buf_idx rb) (rb_buf rb) @ [c]"
    using False by (simp add: take_Suc_conv_app_nth)
  then show ?thesis using False by (simp add: put_char_def puts_to_def req_text_def min_def)
qed

lemma puts_to_bound: "puts_to rb s rb1 \<Longrightarrow> rb_buf rb \<noteq> [] \<Longrightarrow> rb_buf_idx rb1 < length (rb_buf rb1) \<and> rb_buf rb1 \<noteq> []"
  by (auto simp: puts_to_def min_def)

lemma put_string_to: "rb_buf_idx rb < length (rb_buf rb) \<Longrightarrow> puts_to rb s (snd (put_string s rb))"
proof (induction s arbitrary: rb)
  case (Cons c s)
  have "puts_to rb [c] (snd (put_char c rb))" by (rule put_char_to [OF Cons.prems])
  moreover from this have "puts_to (snd (put_char c rb)) s (snd (put_string s (snd (put_char c rb))))"
    using Cons.prems puts_to_bound by (intro Cons.IH) fastforce
  ultimately show ?case using puts_to_trans [of rb "[c]"] by simp
qed (simp add: puts_to_refl)

lemma put_cstr_to: "rb_buf_idx rb < length (rb_buf rb) \<Longrightarrow> puts_to rb s (snd (put_cstr s rb))"
proof (induction s arbitrary: rb)
  case (Cons c s)
  show ?case
  proof (cases "rb_buf_idx rb + 1 \<ge> length (rb_buf rb)")
    case True
    then have "length (rb_buf rb) = Suc (rb_buf_idx rb)" using Cons.prems by linarith
    then show ?thesis using puts_to_at_end by (simp add: put_char_def)
  next
    case False
    have "puts_to rb [c] (snd (put_char c rb))" by (rule put_char_to [OF Cons.prems])
    moreover from this have "puts_to (snd (put_char c rb)) s (snd (put_cstr s (snd (put_char c rb))))"
      using Cons.prems puts_to_bound by (intro Cons.IH) fastforce
    moreover have "put_cstr (c # s) rb = put_cstr s (snd (put_char c rb))" using False by (simp add: put_char_def)
    ultimately show ?thesis using puts_to_trans [of rb "[c]"] by simp
  qed
qed (simp add: puts_to_refl)

definition request_GET :: "string \<Rightarrow> string \<Rightarrow> string \<Rightarrow> string" where
  "request_GET path host accept = ''GET '' @ path @ ''  HTTP/1.1'' @ CRLF @ ''Host: '' @ host @ CRLF @ ''User-Agent: Mozilla/4.0'' @ CRLF @
     ''Accept: '' @ accept @ CRLF @ ''Connection: close'' @ CRLF @ CRLF @ CRLF"

lemma build_request_puts:
  assumes "rb_buf rb \<noteq> []"
  shows "puts_to (rb\<lparr>rb_buf_idx := 0\<rparr>) (request_GET (rb_url_data rb) (rb_host_name rb) accept) (snd (build_request_GET accept rb))"
proof -
  let ?r0 = "rb\<lparr>rb_buf_idx := 0\<rparr>"
  define r1 where "r1 = snd (put_cstr ''GET '' ?r0)"
  define r2 where "r2 = snd (put_string (rb_url_data r1) r1)"
  define r3 where "r3 = snd (put_cstr (''  HTTP/1.1'' @ CRLF @ ''Host: '') r2)"
  define r4 where "r4 = snd (put_string (rb_host_name r3) r3)"
  define r5 where "r5 = snd (put_cstr (CRLF @ ''User-Agent: Mozilla/4.0'' @ CRLF @ ''Accept: '') r4)"
  define r6 where "r6 = snd (put_cstr accept r5)"
  define r7 where "r7 = snd (put_cstr (CRLF @ ''Connection: close'' @ CRLF @ CRLF @ CRLF) r6)"
  have b0: "rb_buf_idx ?r0 < length (rb_buf ?r0)" "rb_buf ?r0 \<noteq> []" using assms by simp_all
  have p1: "puts_to ?r0 ''GET '' r1" unfolding r1_def by (rule put_cstr_to [OF b0(1)])
  note b1 = puts_to_bound [OF p1 b0(2)]
  have p2: "puts_to r1 (rb_url_data r1) r2" unfolding r2_def by (rule put_string_to) (use b1 in blast)
  note b2 = puts_to_bound [OF p2 conjunct2 [OF b1]]
  have p3: "puts_to r2 (''  HTTP/1.1'' @ CRLF @ ''Host: '') r3" unfolding r3_def by (rule put_cstr_to) (use b2 in blast)
  note b3 = puts_to_bound [OF p3 conjunct2 [OF b2]]
  have p4: "puts_to r3 (rb_host_name r3) r4" unfolding r4_def by (rule put_string_to) (use b3 in blast)
  note b4 = puts_to_bound [OF p4 conjunct2 [OF b3]]
  have p5: "puts_to r4 (CRLF @ ''User-Agent: Mozilla/4.0'' @ CRLF @ ''Accept: '') r5" unfolding r5_def by (rule put_cstr_to) (use b4 in blast)
  note b5 = puts_to_bound [OF p5 conjunct2 [OF b4]]
  have p6: "puts_to r5 accept r6" unfolding r6_def by (rule put_cstr_to) (use b5 in blast)
  note b6 = puts_to_bound [OF p6 conjunct2 [OF b5]]
  have p7: "puts_to r6 (CRLF @ ''Connection: close'' @ CRLF @ CRLF @ CRLF) r7" unfolding r7_def by (rule put_cstr_to) (use b6 in blast)
  have u: "rb_url_data r1 = rb_url_data rb" using p1 by (cases rb; cases r1) (simp add: puts_to_def)
  have h: "rb_host_name r3 = rb_host_name rb"
    using puts_to_trans [OF puts_to_trans [OF p1 p2] p3] by (cases rb; cases r3) (simp add: puts_to_def)
  have "snd (build_request_GET accept rb) = r7"
    by (simp add: build_request_GET_def Let_def r1_def r2_def r3_def r4_def r5_def r6_def r7_def)
  then show ?thesis
    using puts_to_trans [OF puts_to_trans [OF puts_to_trans [OF puts_to_trans [OF puts_to_trans [OF puts_to_trans [OF p1 p2] p3] p4] p5] p6] p7]
    by (simp add: request_GET_def u h)
qed

text \<open>The request for a URL is what the buffer takes of the text of a GET request; it is reported as built even when the
  buffer was too small for it.\<close>

lemma http_request_text:
  assumes "rb_buf rb \<noteq> []"
  shows "fst (build_request_GET accept rb) \<and> req_text (snd (build_request_GET accept rb)) =
    take (length (rb_buf rb) - 1) (request_GET (rb_url_data rb) (rb_host_name rb) accept)"
  using build_request_puts [OF assms, of accept] by (simp add: puts_to_def req_text_def [of "rb\<lparr>rb_buf_idx := 0\<rparr>"] build_request_GET_def Let_def)

lemma http_request_text_witness:
  "req_text (snd (build_request_GET ''*/*'' (rbuf_new 9\<lparr>rb_url_data := ''/x'', rb_host_name := ''h''\<rparr>))) = ''GET /x  ''"
  using http_request_text [of "rbuf_new 9\<lparr>rb_url_data := ''/x'', rb_host_name := ''h''\<rparr>" "''*/*''"] by (simp add: rbuf_new_def request_GET_def)

section \<open>The response\<close>

text \<open>What is left of the stream of a socket: a read delivers some of it, nothing at its end or when it is asked for nothing.\<close>

definition serves :: "'w net \<Rightarrow> int \<Rightarrow> ('w \<Rightarrow> string) \<Rightarrow> bool" where
  "serves nt sock inp \<longleftrightarrow> (\<forall>w n. case nt_read nt sock n w of (ct, s, w1) \<Rightarrow>
     ct = int (length s) \<and> length s \<le> n \<and> s @ inp w1 = inp w \<and> (s = [] \<longrightarrow> inp w = [] \<or> n = 0))"

lemma response_loop_reads:
  assumes "serves nt sock inp"
  shows "i + rem = length m \<Longrightarrow> 0 < rem \<Longrightarrow> rem < fuel \<Longrightarrow> i = 0 \<or> m ! i = NUL \<Longrightarrow>
    \<exists>m1 w1. (let n = min (length (inp w)) (rem - 1) in response_loop nt sock fuel i rem m w = Some ((i + n \<noteq> 0, i + n, m1), w1) \<and>
      length m1 = length m \<and> take (i + n) m1 = take i m @ take n (inp w) \<and> (i + n = 0 \<or> m1 ! (i + n) = NUL))"
proof (induction fuel arbitrary: i rem m w)
  case (Suc fuel)
  obtain ct s w1 where r: "nt_read nt sock (rem - 1) w = (ct, s, w1)" by (cases "nt_read nt sock (rem - 1) w") auto
  have s: "ct = int (length s)" "length s \<le> rem - 1" "s @ inp w1 = inp w" "s = [] \<longrightarrow> inp w = [] \<or> rem - 1 = 0"
    using assms [unfolded serves_def, rule_format, of "rem - 1" w] r by auto
  show ?case
  proof (cases "s = []")
    case True
    then have "min (length (inp w)) (rem - 1) = 0" using s(4) by auto
    then show ?thesis using Suc.prems True s(1) r by (auto simp: Let_def)
  next
    case False
    define m2 where "m2 = (take i m @ s @ drop (i + length s) m)[i + length s := NUL]"
    have l: "i + length s < length m" using Suc.prems(1,2) s(2) by linarith
    have c: "mem_copy m i s = Some (take i m @ s @ drop (i + length s) m)" using l by (simp add: mem_copy_def)
    have e: "response_loop nt sock (Suc fuel) i rem m w = response_loop nt sock fuel (i + length s) (rem - length s) m2 w1"
      using False s(1,2) r c l Suc.prems(1,2) by (simp add: m2_def)
    have "\<exists>m1 w2. (let n = min (length (inp w1)) (rem - length s - 1) in
        response_loop nt sock fuel (i + length s) (rem - length s) m2 w1 = Some ((i + length s + n \<noteq> 0, i + length s + n, m1), w2) \<and>
        length m1 = length m2 \<and> take (i + length s + n) m1 = take (i + length s) m2 @ take n (inp w1) \<and> (i + length s + n = 0 \<or> m1 ! (i + length s + n) = NUL))"
      using Suc.prems False s(2) l by (intro Suc.IH) (auto simp: m2_def simp flip: length_greater_0_conv)
    then obtain m1 w2 where h: "(let n = min (length (inp w1)) (rem - length s - 1) in
        response_loop nt sock fuel (i + length s) (rem - length s) m2 w1 = Some ((i + length s + n \<noteq> 0, i + length s + n, m1), w2) \<and>
        length m1 = length m2 \<and> take (i + length s + n) m1 = take (i + length s) m2 @ take n (inp w1) \<and> (i + length s + n = 0 \<or> m1 ! (i + length s + n) = NUL))"
      by blast
    have n: "min (length (inp w)) (rem - 1) = length s + min (length (inp w1)) (rem - length s - 1)"
      using s(2) arg_cong [OF s(3), of length] by simp
    have t: "take (i + length s) m2 = take i m @ s" "length m2 = length m" using l by (simp_all add: m2_def)
    have "take (min (length (inp w)) (rem - 1)) (inp w) = s @ take (min (length (inp w1)) (rem - length s - 1)) (inp w1)"
    proof -
      have "take (length s + k) (inp w) = s @ take k (inp w1)" for k by (simp flip: s(3))
      then show ?thesis unfolding n .
    qed
    then show ?thesis using h unfolding e n by (auto simp: Let_def t add.assoc)
  qed
qed simp

lemma get_response_reads:
  assumes "serves nt sock inp" "m \<noteq> []"
  shows "\<exists>m1 w1. (let n = min (length (inp w)) (length m - 1) in get_response nt sock m w = Some ((n \<noteq> 0, n, m1), w1) \<and>
      length m1 = length m \<and> take n m1 = take n (inp w) \<and> (n = 0 \<or> m1 ! n = NUL))"
  using response_loop_reads [OF assms(1), of 0 "length m" m "Suc (length m)" w] assms(2) by (simp add: get_response_def)

lemma strstr_at_length: "strstr_at s t = Some k \<Longrightarrow> k + length t \<le> length s"
  by (induction s arbitrary: k) (auto split: if_splits dest: prefix_length_le)

lemma strstr_at_append: "strstr_at s t = Some k \<Longrightarrow> strstr_at (s @ u) t = Some k"
proof (induction s arbitrary: k)
  case Nil
  then show ?case by (cases u) (auto split: if_splits)
next
  case (Cons c s)
  from strstr_at_length [OF Cons.prems] have l: "length t \<le> length (c # s)" by simp
  have "prefix t ((c # s) @ u) \<longleftrightarrow> prefix t (c # s)"
  proof
    assume "prefix t ((c # s) @ u)"
    then have "t = take (length t) (c # s)" using l by (metis append_eq_conv_conj prefix_def take_append diff_is_0_eq' take0 append_Nil2)
    then show "prefix t (c # s)" by (metis take_is_prefix)
  qed (simp add: prefix_def, metis append_assoc append_Cons)
  then show ?case using Cons by (auto split: if_splits)
qed

lemma c_str_append: "no_nul a \<Longrightarrow> c_str (a @ b) = a @ c_str b"
  by (induction a) (simp_all add: c_str_def)

text \<open>C31: Fetching a document into the buffer of the caller: when the server accepts the request and answers with status 200, headers
  that fit the client's buffer, and a body, the caller gets as much of the body as the client's buffer had room for,
  terminated, in one piece however the network delivers it; it succeeds exactly if that fits the caller's buffer. Behind the last read of the
  answer the socket of the connection is shut down and then closed, once each, which is the last that happens to the network, and the client forgets it.\<close>

theorem http_fetch_delivers:
  assumes "snd (parse_url url rb) = rb1" "open_connection nt rb1 w = ((True, rb2), w1)"
    "send_request nt (snd (build_request_GET ''*/*'' rb2)) w1 = (True, w2)" "serves nt (rb_sock rb2) inp"
    "inp w2 = head @ body" "prefix ok_string head" "no_nul head" "strstr_at head (CRLF @ CRLF) = Some (length head - 4)"
    "length head < length (rb_buf rb)"
  shows "\<exists>buf1 rb6 n m w3. get_response nt (rb_sock rb2) (rb_buf (snd (build_request_GET ''*/*'' rb2))) w2 = Some ((True, n, m), w3) \<and>
    httpClient_getToBuffer nt url buf rb w =
      Some ((length (take (length (rb_buf rb) - 1 - length head) body) < length buf, buf1), rb6, nt_close nt (rb_sock rb2) (nt_shutdown nt (rb_sock rb2) w3)) \<and>
    rb_sock rb6 = -1 \<and>
    (if length (take (length (rb_buf rb) - 1 - length head) body) < length buf
     then (let got = take (length (rb_buf rb) - 1 - length head) body in take (length got) buf1 = got \<and> buf1 ! length got = NUL)
     else buf1 = buf)"
proof -
  define L where "L = length (rb_buf rb)"
  define got where "got = take (L - 1 - length head) body"
  define rb3 where "rb3 = snd (build_request_GET ''*/*'' rb2)"
  have p: "fst (parse_url url rb) = True" "rb_buf rb1 = rb_buf rb"
    using assms(1) by (auto simp: parse_url_def split: prod.splits)
  have o: "rb_buf rb2 = rb_buf rb1" using assms(2) by (auto simp: open_connection_def split: if_splits prod.splits)
  have ne: "rb_buf rb2 \<noteq> []" using assms(9) p(2) o by auto
  note q = build_request_puts [OF ne, of "''*/*''", folded rb3_def, unfolded puts_to_def]
  have b: "length (rb_buf rb3) = L" "rb_sock rb3 = rb_sock rb2"
  proof -
    show "length (rb_buf rb3) = L" using q by (simp add: L_def p(2) o)
    show "rb_sock rb3 = rb_sock rb2" using arg_cong [OF conjunct2 [OF conjunct2 [OF conjunct2 [OF q]]], of rb_sock] by simp
  qed
  define n where "n = length head + length got"
  have n: "n = min (length (inp w2)) (L - 1)" using assms(9) by (simp add: n_def got_def assms(5) L_def min_def)
  have t: "take n (inp w2) = head @ got" by (simp add: n_def got_def assms(5) min_def)
  have h4: "4 \<le> length head" using strstr_at_length [OF assms(8)] by (simp add: CRLF_def)
  have L: "rb_buf rb3 \<noteq> []" using ne b(1) o p(2) by (auto simp: L_def)
  obtain m1 w3 where r: "get_response nt (rb_sock rb3) (rb_buf rb3) w2 = Some ((n \<noteq> 0, n, m1), w3)" "length m1 = L" "take n m1 = head @ got" "n = 0 \<or> m1 ! n = NUL"
    using get_response_reads [OF assms(4) L, of w2] unfolding Let_def b(1,2) n [symmetric] t by blast
  have hd: "take (length head) m1 = head" "take (length got) (drop (length head) m1) = got" "n < L" "m1 ! n = NUL"
  proof -
    have "take (length head) (take n m1) = take (length head) (head @ got)" by (simp only: r(3))
    then show "take (length head) m1 = head" by (simp add: n_def min_def)
    have "drop (length head) (take n m1) = got" unfolding r(3) by simp
    then show "take (length got) (drop (length head) m1) = got" by (simp add: drop_take n_def)
    show "n < L" using n L b(1) by (cases L) auto
    show "m1 ! n = NUL" using r(4) h4 by (auto simp: n_def)
  qed
  define m2 where "m2 = m1[length head - 4 + 2 := NUL]"
  have m1: "m1 = head @ drop (length head) m1" using hd(1) by (metis append_take_drop_id)
  have "c_str m1 = head @ c_str (drop (length head) m1)" using m1 assms(7) c_str_append by metis
  then have f: "strstr_at (c_str m1) (CRLF @ CRLF) = Some (length head - 4)" using strstr_at_append [OF assms(8)] by simp
  have "take (length ok_string) m1 = ok_string" using assms(6) m1 by (auto simp: prefix_def) (metis append_eq_conv_conj append_assoc)
  then have k: "strneq (length ok_string) m1 ok_string" by (simp add: strneq_def)
  define rb5 where "rb5 = rb3\<lparr>rb_resp_idx := n, rb_buf := m2, rb_header := True, rb_body := Some (length head), rb_body_size := length got, rb_sock := -1\<rparr>"
  have s: "separate_header_and_body n m1 (rb3\<lparr>rb_resp_idx := n, rb_buf := m1\<rparr>) =
      ((True, m2), rb3\<lparr>rb_resp_idx := n, rb_buf := m1, rb_header := True, rb_body := Some (length head), rb_body_size := length got\<rparr>)"
    using h4 by (simp add: separate_header_and_body_def k f m2_def n_def)
  have nz: "n \<noteq> 0" using h4 unfolding n_def by linarith
  define w4 where "w4 = nt_close nt (rb_sock rb2) (nt_shutdown nt (rb_sock rb2) w3)"
  have w4: "fetch nt url ''*/*'' None rb w = Some ((Some (length head), None), rb5, w4)"
  proof -
    have "parse_url url rb = (True, rb1)" using assms(1) p(1) by (simp add: prod_eq_iff)
    moreover have "build_request_GET ''*/*'' rb2 = (True, rb3)" by (simp add: rb3_def build_request_GET_def Let_def)
    moreover have "send_request nt rb3 w1 = (True, w2)" using assms(3) by (simp add: rb3_def)
    ultimately show ?thesis using assms(2) s r(1) nz b(2) by (simp add: fetch_def close_connection_def rb5_def w4_def Let_def)
  qed
  have d: "take (length got) (drop (length head) m2) = got" using hd(2) h4 by (simp add: m2_def)
  have l: "length head + length got \<le> length m2" using hd(3) r(2) by (simp add: m2_def n_def)
  have "\<exists>buf1 rb6. httpClient_getToBuffer nt url buf rb w = Some ((length got < length buf, buf1), rb6, w4) \<and> rb_sock rb6 = -1 \<and>
      (if length got < length buf then (let g = got in take (length g) buf1 = g \<and> buf1 ! length g = NUL) else buf1 = buf)"
  proof -
    let ?buf = "if length got < length buf then (got @ drop (length got) buf)[length got := NUL] else buf"
    have "httpClient_getToBuffer nt url buf rb w = Some ((length got < length buf, ?buf), rb5, w4)"
      using d l by (simp add: httpClient_getToBuffer_def w4 rb5_def mem_copy_def Let_def)
    moreover have "rb_sock rb5 = -1" by (simp add: rb5_def)
    ultimately show ?thesis by (intro exI [of _ ?buf] exI [of _ rb5]) (simp add: Let_def)
  qed
  moreover have "get_response nt (rb_sock rb2) (rb_buf rb3) w2 = Some ((True, n, m1), w3)" using r(1) nz b(2) by simp
  ultimately show ?thesis unfolding got_def L_def w4_def rb3_def by blast
qed

text \<open>A network with one server, which sends a text at most three characters at a time.\<close>

definition test_net :: "string net" where
  "test_net = \<lparr>nt_getaddrinfo = (\<lambda>host service w. (Some [1], w)), nt_socket = (\<lambda>a w. (3, w)), nt_connect = (\<lambda>s a w. (True, w)),
     nt_write = (\<lambda>s txt w. (int (length txt), w)), nt_read = (\<lambda>s n w. (int (length (take (min 3 n) w)), take (min 3 n) w, drop (min 3 n) w)),
     nt_shutdown = (\<lambda>s w. w), nt_close = (\<lambda>s w. w)\<rparr>"

lemma test_net_serves: "serves test_net sock (\<lambda>w. w)"
  by (auto simp: serves_def test_net_def)

theorem http_fetch_delivers_witness:
  "\<exists>buf1 rb6 w4. httpClient_getToBuffer test_net ''http://h/x'' ''zzzzz'' (rbuf_new 200) (ok_string @ ''A: b'' @ CRLF @ CRLF @ ''hi'') =
      Some ((True, buf1), rb6, w4) \<and> take 2 buf1 = ''hi''"
proof -
  let ?rb1 = "(rbuf_new 200)\<lparr>rb_scheme := ''http'', rb_host_name := ''h'', rb_port := ''80'', rb_url_data := ''/x''\<rparr>"
  let ?rb2 = "?rb1\<lparr>rb_sock := 3\<rparr>" and ?head = "ok_string @ ''A: b'' @ CRLF @ CRLF"
  have u: "snd (parse_url ''http://h/x'' (rbuf_new 200)) = ?rb1"
    by (simp add: parse_url_def url_match_def match_scheme_def match_host_def match_port_def url_word_def is_digit_def Let_def rbuf_new_def)
  have o: "open_connection test_net ?rb1 w = ((True, ?rb2), w)" for w
    by (simp add: open_connection_def do_connect_def test_net_def)
  have b: "rb_buf ?rb2 \<noteq> []" by (simp add: rbuf_new_def)
  have "rb_buf_idx (snd (build_request_GET ''*/*'' ?rb2)) < length (rb_buf (snd (build_request_GET ''*/*'' ?rb2)))"
    using puts_to_bound [OF build_request_puts [OF b, of "''*/*''"]] b by simp
  then have s: "send_request test_net (snd (build_request_GET ''*/*'' ?rb2)) w = (True, w)" for w
    by (simp add: send_request_def test_net_def)
  have h: "strstr_at ?head (CRLF @ CRLF) = Some (length ?head - 4)" "no_nul ?head" "length ?head = 25"
    by (simp_all add: ok_string_def CRLF_def)
  have l: "length (rb_buf (rbuf_new 200)) = 200" by (simp add: rbuf_new_def)
  from http_fetch_delivers [OF u o s test_net_serves, of "ok_string @ ''A: b'' @ CRLF @ CRLF @ ''hi''" ?head "''hi''" "''zzzzz''"]
  show ?thesis using h by (auto simp: l Let_def prefix_def numeral_2_eq_2)
qed

section \<open>Failures\<close>

text \<open>C32: Failures of a fetch are clean: whenever it returns without success the caller's buffer is as it was, and it succeeds only
  when the connection was opened, the whole request was sent and the answer starts with status 200.\<close>

theorem http_fetch_failure:
  assumes "httpClient_getToBuffer nt url buf rb w = Some ((ok, buf1), rb6, w4)"
  shows "(\<not> ok \<longrightarrow> buf1 = buf) \<and>
    (ok \<longrightarrow> (\<exists>rb2 w1 w2 n m w3. open_connection nt (snd (parse_url url rb)) w = ((True, rb2), w1) \<and>
      send_request nt (snd (build_request_GET ''*/*'' rb2)) w1 = (True, w2) \<and>
      get_response nt (rb_sock (snd (build_request_GET ''*/*'' rb2))) (rb_buf (snd (build_request_GET ''*/*'' rb2))) w2 = Some ((True, n, m), w3) \<and>
      strneq (length ok_string) m ok_string))"
proof -
  obtain body b5 rb5 w5 where f: "fetch nt url ''*/*'' None rb w = Some ((body, b5), rb5, w5)"
    using assms by (auto simp: httpClient_getToBuffer_def split: bind_splits)
  have no: "\<not> ok \<longrightarrow> buf1 = buf"
    using assms by (auto simp: httpClient_getToBuffer_def f Let_def split: option.splits if_splits bind_splits)
  have "body \<noteq> None" if ok using assms that by (cases body) (simp_all add: httpClient_getToBuffer_def f)
  with f have "ok \<longrightarrow> (\<exists>rb2 w1 w2 n m w3. open_connection nt (snd (parse_url url rb)) w = ((True, rb2), w1) \<and>
      send_request nt (snd (build_request_GET ''*/*'' rb2)) w1 = (True, w2) \<and>
      get_response nt (rb_sock (snd (build_request_GET ''*/*'' rb2))) (rb_buf (snd (build_request_GET ''*/*'' rb2))) w2 = Some ((True, n, m), w3) \<and>
      strneq (length ok_string) m ok_string)"
    by (auto simp: fetch_def Let_def separate_header_and_body_def split: prod.splits if_splits bind_splits option.splits)
  with no show ?thesis by blast
qed

theorem http_fetch_failure_witness:
  "httpClient_getToBuffer (test_net\<lparr>nt_connect := \<lambda>s a w. (False, w)\<rparr>) ''http://h/x'' ''zzz'' (rbuf_new 50) ''data'' =
     Some ((False, ''zzz''), (rbuf_new 50)\<lparr>rb_scheme := ''http'', rb_host_name := ''h'', rb_port := ''80'', rb_url_data := ''/x''\<rparr>, ''data'')"
proof -
  let ?nt = "test_net\<lparr>nt_connect := \<lambda>s a w. (False, w)\<rparr>"
  have h: "httpClient_getToBuffer ?nt ''http://h/x'' ''zzz'' (rbuf_new 50) ''data'' =
     Some ((False, ''zzz''), (rbuf_new 50)\<lparr>rb_scheme := ''http'', rb_host_name := ''h'', rb_port := ''80'', rb_url_data := ''/x''\<rparr>, ''data'')"
    by (simp add: httpClient_getToBuffer_def fetch_def parse_url_def url_match_def match_scheme_def match_host_def match_port_def url_word_def
        is_digit_def Let_def rbuf_new_def open_connection_def do_connect_def test_net_def)
  show ?thesis using http_fetch_failure [OF h] h by simp
qed

section \<open>The client of the device\<close>

text \<open>What the handler keeps of the chunks: those that fit behind what is there.\<close>

fun kept :: "nat \<Rightarrow> nat \<Rightarrow> http_event list \<Rightarrow> string" where
  "kept sz pos [] = []"
| "kept sz pos (HTTP_EVENT_ON_DATA d # es) = (if pos + length d \<ge> sz then kept sz pos es else d @ kept sz (pos + length d) es)"
| "kept sz pos (e # es) = kept sz pos es"

lemma buffer_events:
  assumes "HTTP_EVENT_ON_FINISH \<notin> set es"
  shows "ud_buf_pos u < length (ud_buf u) \<Longrightarrow> \<exists>u1. run_events buffer_handler False es u = Some u1 \<and> length (ud_buf u1) = length (ud_buf u) \<and>
    ud_buf_pos u1 = ud_buf_pos u + length (kept (length (ud_buf u)) (ud_buf_pos u) es) \<and> ud_buf_pos u1 < length (ud_buf u1) \<and>
    take (ud_buf_pos u1) (ud_buf u1) = take (ud_buf_pos u) (ud_buf u) @ kept (length (ud_buf u)) (ud_buf_pos u) es"
  using assms
proof (induction es arbitrary: u)
  case (Cons e es)
  show ?case
  proof (cases "\<exists>d. e = HTTP_EVENT_ON_DATA d \<and> ud_buf_pos u + length d < length (ud_buf u)")
    case True
    then obtain d where d: "e = HTTP_EVENT_ON_DATA d" "ud_buf_pos u + length d < length (ud_buf u)" by blast
    define u1 where "u1 = u\<lparr>ud_buf := take (ud_buf_pos u) (ud_buf u) @ d @ drop (ud_buf_pos u + length d) (ud_buf u), ud_buf_pos := ud_buf_pos u + length d\<rparr>"
    have h: "buffer_handler e u = Some (True, u1)" using d by (simp add: buffer_handler_def mem_copy_def u1_def)
    have l: "length (ud_buf u1) = length (ud_buf u)" "ud_buf_pos u1 = ud_buf_pos u + length d"
      "take (ud_buf_pos u1) (ud_buf u1) = take (ud_buf_pos u) (ud_buf u) @ d" using d(2) by (simp_all add: u1_def)
    then show ?thesis using Cons.IH [of u1] Cons.prems d h by auto
  next
    case False
    then have "buffer_handler e u = Some (case e of HTTP_EVENT_ON_DATA d \<Rightarrow> False | _ \<Rightarrow> True, u)"
      and "kept (length (ud_buf u)) (ud_buf_pos u) (e # es) = kept (length (ud_buf u)) (ud_buf_pos u) es"
      using Cons.prems by (cases e; auto simp: buffer_handler_def)+
    then show ?thesis using Cons.IH [of u] Cons.prems by auto
  qed
qed simp

text \<open>Unless a chunk is left out the buffer holds the content; a chunk that does not fit is left out, and the transfer may
  still succeed with what comes behind it.\<close>

lemma esp_getToBuffer_keeps:
  assumes "buf \<noteq> []" "HTTP_EVENT_ON_FINISH \<notin> set es"
  shows "\<exists>buf1. esp_getToBuffer False (es @ [HTTP_EVENT_ON_FINISH]) performed buf = Some (performed, buf1) \<and>
    take (length (kept (length buf) 0 es)) buf1 = kept (length buf) 0 es \<and> buf1 ! length (kept (length buf) 0 es) = NUL \<and> length buf1 = length buf"
proof -
  have app: "run_events h False (xs @ ys) u = (case run_events h False xs u of None \<Rightarrow> None | Some u1 \<Rightarrow> run_events h False ys u1)" for h xs ys and u :: user_data
    by (induction xs arbitrary: u) (auto split: option.splits)
  obtain u1 where "run_events buffer_handler False es \<lparr>ud_buf = buf, ud_buf_pos = 0\<rparr> = Some u1" "length (ud_buf u1) = length buf"
    "ud_buf_pos u1 = length (kept (length buf) 0 es)" "ud_buf_pos u1 < length (ud_buf u1)" "take (ud_buf_pos u1) (ud_buf u1) = kept (length buf) 0 es"
    using buffer_events [OF assms(2), of "\<lparr>ud_buf = buf, ud_buf_pos = 0\<rparr>"] assms(1) by auto
  then show ?thesis by (simp add: esp_getToBuffer_def app buffer_handler_def)
qed

text \<open>A transfer that breaks off leaves the file open: the next download goes to that file.\<close>

lemma esp_download_continues_old_file:
  assumes "0 \<le> fd"
  shows "esp_downloadFile hf stops [HTTP_EVENT_ON_DATA d] performed dst (fd, w) = Some (performed, fd, hf_write hf fd d w)"
  using assms by (simp add: esp_downloadFile_def file_handler_def)

end
