(* ===== verification/Weather.thy ===== *)
theory Weather
  imports KvsContract CliDispatch HttpClient JsonBuilder
begin

text \<open>
  The weather component: reading an answer of the weather service (weather/openweathermap.cc), the table of past weather
  data with its image in the key-value store (weather/weather.cc, weather_data.hh), and the irrigation factor
  (weather/weather_irrigation.cc).

  A float is its 32 bits; \<open>atof\<close> converts a text to one. None stands for an access outside of a block and for a failed
  assertion.
\<close>

section \<open>Weather data\<close>

record weather_data =
  wd_humidity :: u32
  wd_temp :: u32
  wd_pressure :: u32
  wd_speed :: u32
  wd_deg :: u32
  wd_all :: u32

definition wd_new :: weather_data where
  "wd_new = \<lparr>wd_humidity = 0, wd_temp = 0, wd_pressure = 0, wd_speed = 0, wd_deg = 0, wd_all = 0\<rparr>"

text \<open>\<open>temp != 0\<close>, where the zeros of both signs are equal to 0.\<close>

definition wd_valid :: "weather_data \<Rightarrow> bool" where
  "wd_valid wd \<longleftrightarrow> wd_temp wd AND 0x7FFFFFFF \<noteq> 0"

text \<open>The text of to_json: \<open>show\<close> prints a float. A generator returns the length and what it wrote, here a length of 0 when
  the text did not fit.\<close>

definition wd_text :: "(u32 \<Rightarrow> string) \<Rightarrow> weather_data \<Rightarrow> string" where
  "wd_text show wd =
     (let dq = [CHR 0x22]; num = (\<lambda>v :: u32. print_nat (unat v))
      in ''{'' @ dq @ ''main'' @ dq @ '':{'' @ dq @ ''humidity'' @ dq @ '':'' @ num (wd_humidity wd) @ '','' @ dq @ ''temp'' @ dq @ '':'' @ show (wd_temp wd)
        @ '','' @ dq @ ''pressure'' @ dq @ '':'' @ num (wd_pressure wd) @ ''},'' @ dq @ ''wind'' @ dq @ '':{'' @ dq @ ''speed'' @ dq @ '':'' @ show (wd_speed wd)
        @ '','' @ dq @ ''deg'' @ dq @ '':'' @ num (wd_deg wd) @ ''},'' @ dq @ ''clouds'' @ dq @ '':{'' @ dq @ ''all'' @ dq @ '':'' @ num (wd_all wd) @ ''}}'')"

definition wd_to_json :: "(u32 \<Rightarrow> string) \<Rightarrow> weather_data \<Rightarrow> nat \<Rightarrow> nat \<times> char list" where
  "wd_to_json show wd dst_size =
     (let txt = wd_text show wd; n = length txt
      in (if n < dst_size then n else 0, if dst_size = 0 then [] else take (dst_size - 1) txt @ [NUL]))"

section \<open>The answer of the service\<close>

text \<open>The calls of takeValue of one object: key, type and destination.\<close>

datatype wd_type = WNum | WFloat

type_synonym wd_field = "string \<times> wd_type \<times> (u32 \<Rightarrow> weather_data \<Rightarrow> weather_data)"

definition main_fields :: "wd_field list" where
  "main_fields = [(''humidity'', WNum, \<lambda>v wd. wd\<lparr>wd_humidity := v\<rparr>), (''temp'', WFloat, \<lambda>v wd. wd\<lparr>wd_temp := v\<rparr>),
     (''pressure'', WNum, \<lambda>v wd. wd\<lparr>wd_pressure := v\<rparr>)]"

definition wind_fields :: "wd_field list" where
  "wind_fields = [(''speed'', WFloat, \<lambda>v wd. wd\<lparr>wd_speed := v\<rparr>), (''deg'', WNum, \<lambda>v wd. wd\<lparr>wd_deg := v\<rparr>)]"

definition clouds_fields :: "wd_field list" where
  "clouds_fields = [(''all'', WNum, \<lambda>v wd. wd\<lparr>wd_all := v\<rparr>)]"

definition get_wd_value :: "(string \<Rightarrow> u32) \<Rightarrow> wd_type \<Rightarrow> jsmn \<Rightarrow> jsmntok \<Rightarrow> u32 option option" where
  "get_wd_value atof ty = (case ty of WNum \<Rightarrow> get_value_num | WFloat \<Rightarrow> get_value_float atof)"

fun take_fields :: "(string \<Rightarrow> u32) \<Rightarrow> wd_field list \<Rightarrow> jsmn \<Rightarrow> int \<Rightarrow> weather_data \<Rightarrow> (bool \<times> int \<times> weather_data) option" where
  "take_fields atof [] c i wd = Some (False, i, wd)"
| "take_fields atof ((key, ty, put) # fs) c i wd = do {
     (r, i1) \<leftarrow> takeValue_key (get_wd_value atof ty) c i (Some key);
     (case r of Some v \<Rightarrow> Some (True, i1, put v wd) | None \<Rightarrow> take_fields atof fs c i1 wd) }"

text \<open>The loop over the members of an object.\<close>

fun object_loop :: "(string \<Rightarrow> u32) \<Rightarrow> wd_field list \<Rightarrow> nat \<Rightarrow> jsmn \<Rightarrow> int \<Rightarrow> weather_data \<Rightarrow> (int \<times> weather_data) option" where
  "object_loop atof fs 0 c i wd = Some (i, wd)"
| "object_loop atof fs (Suc n) c i wd =
     (if \<not> it_valid c i then Some (i, wd)
      else do {
        t \<leftarrow> tok_at c i;
        if tk_type t \<noteq> JSMN_STRING then None
        else do {
          (taken, i1, wd1) \<leftarrow> take_fields atof fs c i wd;
          i2 \<leftarrow> (if taken then Some i1 else skip_kv c i1);
          object_loop atof fs n c i2 wd1 } })"

definition process_object :: "(string \<Rightarrow> u32) \<Rightarrow> string \<Rightarrow> wd_field list \<Rightarrow> jsmn \<Rightarrow> int \<Rightarrow> weather_data \<Rightarrow> (bool \<times> int \<times> weather_data) option" where
  "process_object atof key fs c i wd = do {
     eq \<leftarrow> keyIsEqual_typed c i (Some key) JSMN_OBJECT;
     if \<not> eq then Some (False, i, wd)
     else do {
       t \<leftarrow> tok_at c (i + 1);
       (i1, wd1) \<leftarrow> object_loop atof fs (nat (tk_size t)) c (i + 2) wd;
       Some (True, i1, wd1) } }"

definition process_root_child :: "(string \<Rightarrow> u32) \<Rightarrow> jsmn \<Rightarrow> int \<Rightarrow> weather_data \<Rightarrow> (int \<times> weather_data) option" where
  "process_root_child atof c i wd = do {
     (m, i1, wd1) \<leftarrow> process_object atof ''main'' main_fields c i wd;
     if m then Some (i1, wd1)
     else do {
       (w, i2, wd2) \<leftarrow> process_object atof ''wind'' wind_fields c i1 wd1;
       if w then Some (i2, wd2)
       else do {
         (l, i3, wd3) \<leftarrow> process_object atof ''clouds'' clouds_fields c i2 wd2;
         if l then Some (i3, wd3)
         else do { i4 \<leftarrow> skip_kv c i3; Some (i4, wd3) } } } }"

fun root_loop :: "(string \<Rightarrow> u32) \<Rightarrow> nat \<Rightarrow> jsmn \<Rightarrow> int \<Rightarrow> weather_data \<Rightarrow> weather_data option" where
  "root_loop atof 0 c i wd = Some wd"
| "root_loop atof (Suc n) c i wd =
     (if \<not> it_valid c i then Some wd
      else do {
        t \<leftarrow> tok_at c i;
        if tk_type t \<noteq> JSMN_STRING then None
        else do { (i1, wd1) \<leftarrow> process_root_child atof c i wd; root_loop atof n c i1 wd1 } })"

definition weather_process_json ::
  "jsmn_parser \<Rightarrow> jsmntok list \<Rightarrow> (string \<Rightarrow> u32) \<Rightarrow> char list \<Rightarrow> weather_data \<Rightarrow> (bool \<times> weather_data) option" where
  "weather_process_json parse tok atof json wd = do {
     c \<leftarrow> jsmn_new parse (Some json) tok;
     if \<not> jsmn_ok c then Some (False, wd)
     else do {
       t \<leftarrow> tok_at c (it_begin c);
       if tk_type t = JSMN_OBJECT
       then do { wd1 \<leftarrow> root_loop atof (nat (tk_size t)) c (it_begin c + 1) wd; Some (True, wd1) }
       else Some (False, wd) } }"

text \<open>A client of the HTTP component on the state \<open>'n\<close>, and the provider of a URL. \<open>buf\<close> is the buffer of 750 characters.\<close>

type_synonym 'n http_client = "string \<Rightarrow> char list \<Rightarrow> 'n \<Rightarrow> ((bool \<times> char list) \<times> 'n) option"
type_synonym 'n weather_provider = "weather_data \<Rightarrow> 'n \<Rightarrow> ((bool \<times> weather_data) \<times> 'n) option"

definition fetch_owm_data ::
  "'n http_client \<Rightarrow> jsmn_parser \<Rightarrow> jsmntok list \<Rightarrow> (string \<Rightarrow> u32) \<Rightarrow> char list \<Rightarrow> string option \<Rightarrow> 'n weather_provider" where
  "fetch_owm_data http parse tok atof buf url wd n =
     (case url of
        None \<Rightarrow> Some ((False, wd), n)
      | Some u \<Rightarrow> do {
          ((ok, b), n1) \<leftarrow> http u buf n;
          if \<not> ok then Some ((False, wd), n1)
          else do { (r, wd1) \<leftarrow> weather_process_json parse tok atof b wd; Some ((r, wd1), n1) } })"

text \<open>The URL of the provider, or the one the build is configured with.\<close>

definition owm_get_url :: "string option \<Rightarrow> string \<Rightarrow> string" where
  "owm_get_url config url = (case config of Some u \<Rightarrow> if url = [] then u else url | None \<Rightarrow> url)"

definition owm_fetch_weather_data ::
  "'n http_client \<Rightarrow> jsmn_parser \<Rightarrow> jsmntok list \<Rightarrow> (string \<Rightarrow> u32) \<Rightarrow> char list \<Rightarrow> string option \<Rightarrow> string \<Rightarrow> 'n weather_provider" where
  "owm_fetch_weather_data http parse tok atof buf config url = fetch_owm_data http parse tok atof buf (Some (owm_get_url config url))"

section \<open>The table of past weather\<close>

record 'n weather =
  we_wp :: "'n weather_provider option"
  we_past :: "weather_data list list"

definition weather_new :: "'n weather_provider option \<Rightarrow> 'n weather" where
  "weather_new wp = \<lparr>we_wp = wp, we_past = replicate 7 (replicate 24 wd_new)\<rparr>"

definition set_weather_provider :: "'n weather_provider option \<Rightarrow> 'n weather \<Rightarrow> bool \<times> 'n weather" where
  "set_weather_provider wp we = (True, we\<lparr>we_wp := wp\<rparr>)"

definition get_past_weather_data :: "'n weather \<Rightarrow> nat \<Rightarrow> nat \<Rightarrow> weather_data option" where
  "get_past_weather_data we wday hour = (if wday < 7 \<and> hour < 24 then Some (we_past we ! wday ! hour) else None)"

definition past_put :: "nat \<Rightarrow> nat \<Rightarrow> weather_data \<Rightarrow> 'n weather \<Rightarrow> 'n weather" where
  "past_put wday hour wd we = we\<lparr>we_past := (we_past we)[wday := (we_past we ! wday)[hour := wd]]\<rparr>"

text \<open>localtime has no result when the year does not fit.\<close>

definition get_wday_hour :: "(nat \<times> nat) option \<Rightarrow> nat \<times> nat" where
  "get_wday_hour localtime = (case localtime of Some t \<Rightarrow> t | None \<Rightarrow> (0, 0))"

definition kvs_name :: string where
  "kvs_name = ''kvsWeather''"

definition weather_key :: "nat \<Rightarrow> nat \<Rightarrow> string" where
  "weather_key wday hour = ''pastwd'' @ print_nat wday @ print_nat hour"

text \<open>
  The 64 bytes of wd_store: the time, the version, \<open>pad\<close> for the seven bytes the compiler puts behind it, the data and the
  padding, all little-endian.
\<close>

definition wd_bytes :: "weather_data \<Rightarrow> u8 list" where
  "wd_bytes wd = le_bytes 4 (wd_humidity wd) @ le_bytes 4 (wd_temp wd) @ le_bytes 4 (wd_pressure wd) @ le_bytes 4 (wd_speed wd)
     @ le_bytes 4 (wd_deg wd) @ le_bytes 4 (wd_all wd)"

definition wd_store :: "u8 list \<Rightarrow> u64 \<Rightarrow> u8 \<Rightarrow> weather_data \<Rightarrow> u8 list" where
  "wd_store pad time version wd = le_bytes 8 time @ [version] @ pad @ wd_bytes wd @ replicate 24 0"

definition wds_time :: "u8 list \<Rightarrow> u64" where
  "wds_time b = of_le (take 8 b)"

definition wds_version :: "u8 list \<Rightarrow> u8" where
  "wds_version b = b ! 8"

definition wds_wd :: "u8 list \<Rightarrow> weather_data" where
  "wds_wd b = (let at = (\<lambda>i. of_le (take 4 (drop (16 + 4 * i) b)) :: u32)
     in \<lparr>wd_humidity = at 0, wd_temp = at 1, wd_pressure = at 2, wd_speed = at 3, wd_deg = at 4, wd_all = at 5\<rparr>)"

definition wd_current_version :: u8 where
  "wd_current_version = 1"

text \<open>The two loops of load_past_weather_data, over the list of their index pairs; \<open>wds\<close> is the variable they share.\<close>

definition week_slots :: "(nat \<times> nat) list" where
  "week_slots = concat (map (\<lambda>wday. map (Pair wday) [0..<24]) [0..<7])"

fun load_slots :: "('w, 'h) kvs_ops \<Rightarrow> 'h \<Rightarrow> u64 \<Rightarrow> (nat \<times> nat) list \<Rightarrow> u8 list \<Rightarrow> 'n weather \<Rightarrow> 'w \<Rightarrow> kvs_fail + 'n weather \<times> 'w" where
  "load_slots ops h tmin [] wds we w = Inr (we, w)"
| "load_slots ops h tmin ((wday, hour) # slots) wds we w =
     (case op_get_blob ops h (weather_key wday hour) wds w of
        Inl e \<Rightarrow> Inl e
      | Inr ((ok, wds1), w1) \<Rightarrow>
          load_slots ops h tmin slots wds1
            (if ok \<and> sint tmin \<le> sint (wds_time wds1) \<and> wd_current_version = wds_version wds1
             then past_put wday hour (wds_wd wds1) we else we) w1)"

text \<open>\<open>wds\<close> is the object before the first read, \<open>now\<close> the time.\<close>

definition load_past_weather_data ::
  "('w, 'h) kvs_ops \<Rightarrow> u8 list \<Rightarrow> u64 \<Rightarrow> 'n weather \<Rightarrow> 'w \<Rightarrow> kvs_fail + (bool \<times> 'n weather) \<times> 'w" where
  "load_past_weather_data ops wds now we w =
     (let tmin = now - 60 * 60 * 24 * 7
      in (case op_open ops kvs_name kvs_flag_READ w of
            (None, w1) \<Rightarrow> Inr ((True, we), w1)
          | (Some h, w1) \<Rightarrow>
              (case load_slots ops h tmin week_slots wds we w1 of
                 Inl e \<Rightarrow> Inl e
               | Inr (we1, w2) \<Rightarrow> Inr ((True, we1), op_close ops h w2))))"

text \<open>
  The provider writes into the entry of the table. \<open>localtime\<close> and \<open>now\<close> are the results of the two calls of time; the state
  of the provider is apart from the store.
\<close>

definition fetch_and_store_weather_data ::
  "('w, 'h) kvs_ops \<Rightarrow> u8 list \<Rightarrow> (nat \<times> nat) option \<Rightarrow> u64 \<Rightarrow> 'n weather \<Rightarrow> 'n \<Rightarrow> 'w \<Rightarrow> (kvs_fail + (bool \<times> 'n weather) \<times> 'n \<times> 'w) option" where
  "fetch_and_store_weather_data ops pad localtime now we n w =
     (case we_wp we of
        None \<Rightarrow> Some (Inr ((False, we), n, w))
      | Some wp \<Rightarrow>
          (case get_wday_hour localtime of (wday, hour) \<Rightarrow> do {
             ((ok, wd), n1) \<leftarrow> wp (we_past we ! wday ! hour) n;
             (let we1 = past_put wday hour wd we
              in if \<not> ok then Some (Inr ((False, we1), n1, w))
                 else (let wds = wd_store pad now wd_current_version wd
                   in (case op_open ops kvs_name kvs_flag_WRITE w of
                         (None, w1) \<Rightarrow> Some (Inr ((True, we1), n1, w1))
                       | (Some h, w1) \<Rightarrow>
                           (case op_set_blob ops h (weather_key wday hour) wds w1 of
                              Inl e \<Rightarrow> Some (Inl e)
                            | Inr (r, w2) \<Rightarrow> Some (Inr ((r, we1), n1, op_close ops h (snd (op_commit ops h w2)))))))) }))"

definition weather_to_json :: "'s sink \<Rightarrow> (nat \<Rightarrow> bool) \<Rightarrow> (u32 \<Rightarrow> string) \<Rightarrow> 'n weather \<Rightarrow> 's json_builder \<Rightarrow> jb_fail + bool \<times> 's json_builder" where
  "weather_to_json snk alloc show we b =
     (case alloc_bigger_buffer alloc 1024 b of
        Inl e \<Rightarrow> Inl e
      | Inr (_, b1) \<Rightarrow> read_json_arr2_from_function snk alloc (\<lambda>sz wday hour. wd_to_json show (we_past we ! wday ! hour) sz) 7 24 256 b1)"

section \<open>Irrigation\<close>

text \<open>The floats of the C++ program as a type of their own, with the operations used.\<close>

record 'f float_ops =
  f_zero :: 'f
  f_one :: 'f
  f_add :: "'f \<Rightarrow> 'f \<Rightarrow> 'f"
  f_div_int :: "'f \<Rightarrow> int \<Rightarrow> 'f"

text \<open>
  The loops of get_simple_irrigation_factor. The inner one has no condition, it only ends by returning, so the step
  of the outer one is never reached. \<open>n\<close> and \<open>acc\<close> are the count and the sum of the function.
\<close>

function irrigation_loop :: "'f float_ops \<Rightarrow> (weather_data \<Rightarrow> 'f) \<Rightarrow> 'n weather \<Rightarrow> nat \<Rightarrow> nat \<Rightarrow> int \<Rightarrow> int \<Rightarrow> 'f \<Rightarrow> 'f option" where
  "irrigation_loop fo get_factor we wday hour hours n acc =
     (if hours \<le> 0 then Some (if n \<noteq> 0 then f_div_int fo acc n else f_one fo)
      else if 9 \<le> hour \<and> hour \<le> 21
      then (case get_past_weather_data we wday hour of
              None \<Rightarrow> None
            | Some wd \<Rightarrow>
                if wd_valid wd
                then irrigation_loop fo get_factor we wday ((hour + 23) mod 24) (hours - 1) (n + 1) (f_add fo acc (get_factor wd))
                else irrigation_loop fo get_factor we wday ((hour + 23) mod 24) (hours - 1) n acc)
      else irrigation_loop fo get_factor we wday ((hour + 23) mod 24) (hours - 1) n acc)"
  by pat_completeness auto
termination by (relation "measure (\<lambda>(_, _, _, _, _, hours, _, _). nat hours)") auto

declare irrigation_loop.simps [simp del]

definition get_simple_irrigation_factor ::
  "'f float_ops \<Rightarrow> (nat \<times> nat) option \<Rightarrow> 'n weather \<Rightarrow> int \<Rightarrow> (weather_data \<Rightarrow> 'f) \<Rightarrow> 'f option" where
  "get_simple_irrigation_factor fo localtime we hours get_factor =
     (case get_wday_hour localtime of (wday, hour) \<Rightarrow>
        irrigation_loop fo get_factor we wday hour (if hours > 24 * 7 then 24 * 7 else hours) 0 (f_zero fo))"

end
