(* ===== verification/WeatherProps.thy ===== *)
theory WeatherProps
  imports Weather
begin

text \<open>
  The properties of the weather component: what an answer of the service changes, the round trip through the
  store, and what the irrigation factor is computed from.
\<close>

section \<open>Reading an answer\<close>

text \<open>The specification over the tree of the answer: each member of the objects main, wind and clouds sets the field of
  its name, when it is a number of less than 32 characters; everything else is left alone.\<close>

definition field_value :: "(string \<Rightarrow> u32) \<Rightarrow> wd_type \<Rightarrow> string \<Rightarrow> u32" where
  "field_value atof ty s = (case ty of WNum \<Rightarrow> word_of_int (atoi s) | WFloat \<Rightarrow> atof s)"

fun set_field :: "(string \<Rightarrow> u32) \<Rightarrow> wd_field list \<Rightarrow> string \<Rightarrow> string \<Rightarrow> weather_data \<Rightarrow> weather_data" where
  "set_field atof [] key s wd = wd"
| "set_field atof ((k, ty, put) # fs) key s wd = (if k = key then put (field_value atof ty s) wd else set_field atof fs key s wd)"

definition number_text :: "char list \<Rightarrow> jnode \<Rightarrow> string option" where
  "number_text m v = (case v of
     JLeaf t \<Rightarrow> if tk_type t = JSMN_PRIMITIVE \<and> length (tok_text m t) < 32 then Some (tok_text m t) else None
   | _ \<Rightarrow> None)"

primrec set_members :: "(string \<Rightarrow> u32) \<Rightarrow> wd_field list \<Rightarrow> char list \<Rightarrow> jmembers \<Rightarrow> weather_data \<Rightarrow> weather_data" where
  "set_members atof fs m JMNil wd = wd"
| "set_members atof fs m (JMCons k v ms) wd =
     set_members atof fs m ms (case number_text m v of None \<Rightarrow> wd | Some s \<Rightarrow> set_field atof fs (tok_text m k) s wd)"

definition fields_of :: "string \<Rightarrow> wd_field list" where
  "fields_of key = (if key = ''main'' then main_fields else if key = ''wind'' then wind_fields
     else if key = ''clouds'' then clouds_fields else [])"

primrec answer_data :: "(string \<Rightarrow> u32) \<Rightarrow> char list \<Rightarrow> jmembers \<Rightarrow> weather_data \<Rightarrow> weather_data" where
  "answer_data atof m JMNil wd = wd"
| "answer_data atof m (JMCons k v ms) wd =
     answer_data atof m ms (case v of JObj t sub \<Rightarrow> set_members atof (fields_of (tok_text m k)) m sub wd | _ \<Rightarrow> wd)"

text \<open>The primitive texts are those of the tokens.\<close>

lemma tk_len_text:
  assumes "spaced m [t]" "length m < 2 ^ 32"
  shows "tk_len t = length (tok_text m t)"
proof -
  have b: "0 \<le> tk_start t" "tk_start t \<le> tk_end t" "nat (tk_end t) < length m" using assms(1) by simp_all
  then have "int (nat (tk_end t)) < 2 ^ 32" using assms(2) by (simp add: less_trans)
  then have "tk_end t - tk_start t < 2 ^ 32" using b by simp
  then have "uint (word_of_int (tk_end t - tk_start t) :: u32) = tk_end t - tk_start t"
    unfolding uint_word_of_int using b by (intro mod_pos_pos_trivial) simp_all
  then have "int (tk_len t) = tk_end t - tk_start t" unfolding tk_len_def by simp
  then show ?thesis using tok_text_length [OF assms(1)] by simp
qed

lemma primitive_text_ok:
  assumes "spaced m [t]" "length m < 2 ^ 32"
  shows "primitive_text (con c m {}) t = Some (number_text m (JLeaf t))"
proof -
  note l = tk_len_text [OF assms]
  have n: "tk_len t = nat (tk_end t) - nat (tk_start t)" using l assms(1) by (auto simp: tok_text_def min_def)
  moreover have "nat (tk_start t) \<le> nat (tk_end t)" "nat (tk_end t) < length m" using assms(1) by (simp_all add: nat_mono)
  ultimately have "json_part (con c m {}) t = Some (tok_text m t)" using assms(1) by (simp add: json_part_def tok_text_def)
  then show ?thesis using assms(1) l by (auto simp: primitive_text_def copy_string_def number_text_def c_str_no_nul)
qed

lemma get_wd_value_ok:
  assumes "spaced m [t]" "length m < 2 ^ 32"
  shows "get_wd_value atof ty (con c m {}) t = Some (map_option (field_value atof ty) (number_text m (JLeaf t)))"
  using primitive_text_ok [OF assms, of c] unfolding get_wd_value_def field_value_def
  by (cases ty) (simp_all add: get_value_num_def get_value_float_def)

lemma get_wd_value_no:
  "tk_type t \<noteq> JSMN_PRIMITIVE \<Longrightarrow> get_wd_value atof ty c t = Some None"
  by (cases ty) (simp_all add: get_wd_value_def get_value_num_def get_value_float_def primitive_text_def)

lemma member_value:
  assumes "toks_at c i (node_toks v)" "node_wf v" "spaced m (leaves (node_toks v))" "length m < 2 ^ 32"
  shows "getValue (get_wd_value atof ty) (con c m {}) i = Some (map_option (field_value atof ty) (number_text m v))"
proof (cases v)
  case (JLeaf t)
  then have "spaced m [t]" using assms(2,3) by (simp add: leaves_def leaf_def)
  then show ?thesis using get_wd_value_ok [OF _ assms(4), of t atof ty c] assms(1) JLeaf by (simp add: getValue_def toks_at_Cons)
qed (use assms(1,2) in \<open>simp_all add: getValue_def toks_at_Cons get_wd_value_no number_text_def\<close>)

text \<open>Keys of fields are texts without terminator.\<close>

definition keys_ok :: "wd_field list \<Rightarrow> bool" where
  "keys_ok fs \<longleftrightarrow> (\<forall>(k, ty, put) \<in> set fs. no_nul k)"

lemma keys_ok_fields [simp]: "keys_ok main_fields" "keys_ok wind_fields" "keys_ok clouds_fields"
  by (simp_all add: keys_ok_def main_fields_def wind_fields_def clouds_fields_def)

lemma leaves_node_Cons: "leaf k \<Longrightarrow> leaves (k # ts) = k # leaves ts"
  by simp

definition taken :: "wd_field list \<Rightarrow> char list \<Rightarrow> jsmntok \<Rightarrow> jnode \<Rightarrow> bool" where
  "taken fs m k v \<longleftrightarrow> tok_text m k \<in> fst ` set fs \<and> number_text m v \<noteq> None"

lemma take_fields_ok:
  assumes "toks_at c i (k # node_toks v)" "node_wf v" "tk_type k = JSMN_STRING" "spaced m (k # leaves (node_toks v))" "length m < 2 ^ 32"
    and "keys_ok fs"
  shows "take_fields atof fs (con c m {}) i wd =
    (if taken fs m k v then Some (True, i + 2, set_field atof fs (tok_text m k) (the (number_text m v)) wd) else Some (False, i, wd))"
  using assms(6)
proof (induction fs)
  case (Cons f fs)
  obtain key ty put where f: "f = (key, ty, put)" by (cases f)
  have at: "tok_at c i = Some k" "toks_at c (i + 1) (node_toks v)" "tok_at (con c m {}) i = Some k" using assms(1) by (simp_all add: toks_at_Cons)
  have key: "keyIsEqual (con c m {}) i (Some key) = Some (tok_text m k = key)"
    using assms(3,4) at Cons.prems f by (intro keyIsEqual_text) (auto simp: keys_ok_def)
  have val: "getValue (get_wd_value atof ty) (con c m {}) (i + 1) = Some (map_option (field_value atof ty) (number_text m v))"
    using member_value [OF at(2) assms(2) _ assms(5)] assms(4) by simp
  have ih: "take_fields atof fs (con c m {}) i wd =
    (if taken fs m k v then Some (True, i + 2, set_field atof fs (tok_text m k) (the (number_text m v)) wd) else Some (False, i, wd))"
    using Cons.IH Cons.prems by (simp add: keys_ok_def)
  show ?case
  proof (cases "tok_text m k = key \<and> number_text m v \<noteq> None")
    case True
    then show ?thesis using key val by (auto simp: f takeValue_key_def getValue_key_def taken_def)
  next
    case False
    then have "takeValue_key (get_wd_value atof ty) (con c m {}) i (Some key) = Some (None, i)"
      using key val by (cases "number_text m v") (simp_all add: takeValue_key_def getValue_key_def)
    then show ?thesis using False ih by (auto simp: f taken_def)
  qed
qed (simp add: taken_def)

lemma set_field_not: "key \<notin> fst ` set fs \<Longrightarrow> set_field atof fs key s wd = wd"
  by (induction fs) auto

lemma number_text_one: "number_text m v \<noteq> None \<Longrightarrow> length (node_toks v) = 1"
  by (cases v) (simp_all add: number_text_def)

lemma object_loop_ok:
  assumes "toks_at c i (members_toks ms)" "members_wf ms" "spaced m (leaves (members_toks ms))" "length m < 2 ^ 32" "keys_ok fs"
  shows "object_loop atof fs (members_count ms) (con c m {}) i wd = Some (i + int (length (members_toks ms)), set_members atof fs m ms wd)"
  using assms(1-3)
proof (induction ms arbitrary: i wd rule: jmembers.induct [where ?P1.0 = "\<lambda>_. True" and ?P2.0 = "\<lambda>_. True"])
  case (JMCons k v ms)
  have k: "tk_type k = JSMN_STRING" "leaf k" "node_wf v" "members_wf ms" using JMCons.prems(2) by (simp_all add: leaf_def)
  have at: "toks_at c i (k # node_toks v)" "it_valid c i" "tok_at c i = Some k"
    "toks_at c (i + int (length (k # node_toks v))) (members_toks ms)"
    using JMCons.prems(1) by (simp_all add: toks_at_simps add.assoc)
  have sp: "spaced m (k # leaves (node_toks v))" "spaced m (leaves (members_toks ms))"
    using JMCons.prems(3) k(2) by (auto simp: spaced_append)
  note tf = take_fields_ok [OF at(1) k(3,1) sp(1) assms(4,5), of atof wd]
  have skip: "skip_kv (con c m {}) i = Some (i + int (length (k # node_toks v)))"
    using skip_member [OF k(3), of "con c m {}" i k] at(1) by (simp add: skip_kv_def)
  note ih = JMCons.IH [OF at(4) k(4) sp(2)]
  show ?case
  proof (cases "taken fs m k v")
    case True
    then obtain s where s: "number_text m v = Some s" by (auto simp: taken_def)
    then have "length (node_toks v) = 1" using number_text_one by auto
    then show ?thesis using True tf ih at k(1) s by (simp add: algebra_simps)
  next
    case False
    then have "(case number_text m v of None \<Rightarrow> wd | Some s \<Rightarrow> set_field atof fs (tok_text m k) s wd) = wd"
      by (auto simp: taken_def set_field_not split: option.splits)
    then show ?thesis using False tf ih at k(1) skip by (simp add: algebra_simps)
  qed
qed simp_all


section \<open>The objects of the answer\<close>

definition child_data :: "(string \<Rightarrow> u32) \<Rightarrow> char list \<Rightarrow> jsmntok \<Rightarrow> jnode \<Rightarrow> weather_data \<Rightarrow> weather_data" where
  "child_data atof m k v wd = (case v of JObj t sub \<Rightarrow> set_members atof (fields_of (tok_text m k)) m sub wd | _ \<Rightarrow> wd)"

lemma answer_data_Cons [simp]: "answer_data atof m (JMCons k v ms) wd = answer_data atof m ms (child_data atof m k v wd)"
  by (simp add: child_data_def)

lemma typed_key:
  assumes "toks_at c i (k # node_toks v)" "node_wf v" "tk_type k = JSMN_STRING" "spaced m (k # leaves (node_toks v))" "no_nul key"
  shows "keyIsEqual_typed (con c m {}) i (Some key) JSMN_OBJECT = Some ((\<exists>t sub. v = JObj t sub) \<and> tok_text m k = key)"
proof -
  have at: "tok_at c i = Some k" "tok_at c (i + 1) = Some (hd (node_toks v))"
    using assms(1) node_toks_Cons [of v] by (auto simp: toks_at_Cons)
  have key: "keyIsEqual (con c m {}) i (Some key) = Some (tok_text m k = key)"
    using assms at by (intro keyIsEqual_text) auto
  have "tk_type (hd (node_toks v)) = JSMN_OBJECT \<longleftrightarrow> (\<exists>t sub. v = JObj t sub)" using assms(2) by (cases v) auto
  then show ?thesis using at(2) key by (auto simp: keyIsEqual_typed_def)
qed

lemma process_object_ok:
  assumes "toks_at c i (k # node_toks v)" "node_wf v" "tk_type k = JSMN_STRING" "spaced m (k # leaves (node_toks v))"
    and "length m < 2 ^ 32" "no_nul key" "keys_ok fs"
  shows "process_object atof key fs (con c m {}) i wd =
    (case v of JObj t sub \<Rightarrow>
        if tok_text m k = key then Some (True, i + int (length (k # node_toks v)), set_members atof fs m sub wd) else Some (False, i, wd)
      | _ \<Rightarrow> Some (False, i, wd))"
proof (cases "(\<exists>t sub. v = JObj t sub) \<and> tok_text m k = key")
  case True
  then obtain t sub where v: "v = JObj t sub" by blast
  have lf: "\<not> leaf t" using assms(2) v by (simp add: leaf_def)
  have at: "tok_at c (i + 1) = Some t" "toks_at c (i + 2) (members_toks sub)" using assms(1) v by (simp_all add: toks_at_Cons add.assoc)
  have wf: "members_wf sub" "spaced m (leaves (members_toks sub))" "tk_size t = int (members_count sub)" using assms(2,4) v lf by simp_all
  from object_loop_ok [OF at(2) wf(1,2) assms(5,7), of atof wd] show ?thesis
    using typed_key [OF assms(1-4,6)] True v at(1) wf(3) by (simp add: process_object_def algebra_simps)
next
  case False
  then show ?thesis using typed_key [OF assms(1-4,6)] by (cases v) (auto simp: process_object_def)
qed

lemma set_members_none [simp]: "set_members atof [] m ms wd = wd"
  by (induction ms arbitrary: wd rule: jmembers.induct [where ?P1.0 = "\<lambda>_. True" and ?P2.0 = "\<lambda>_. True"]) (auto split: option.splits)

lemma root_child_ok:
  assumes "toks_at c i (k # node_toks v)" "node_wf v" "tk_type k = JSMN_STRING" "spaced m (k # leaves (node_toks v))" "length m < 2 ^ 32"
  shows "process_root_child atof (con c m {}) i wd = Some (i + int (length (k # node_toks v)), child_data atof m k v wd)"
proof -
  note po = process_object_ok [OF assms]
  have n: "no_nul ''main''" "no_nul ''wind''" "no_nul ''clouds''" by simp_all
  have skip: "skip_kv (con c m {}) i = Some (i + int (length (k # node_toks v)))"
    using skip_member [OF assms(2), of "con c m {}" i k] assms(1) by (simp add: skip_kv_def)
  show ?thesis
    by (cases v) (use skip po [OF n(1) keys_ok_fields(1)] po [OF n(2) keys_ok_fields(2)] po [OF n(3) keys_ok_fields(3)] in
      \<open>auto simp: process_root_child_def child_data_def fields_of_def\<close>)
qed

lemma root_loop_ok:
  assumes "toks_at c i (members_toks ms)" "members_wf ms" "spaced m (leaves (members_toks ms))" "length m < 2 ^ 32"
  shows "root_loop atof (members_count ms) (con c m {}) i wd = Some (answer_data atof m ms wd)"
  using assms(1-3)
proof (induction ms arbitrary: i wd rule: jmembers.induct [where ?P1.0 = "\<lambda>_. True" and ?P2.0 = "\<lambda>_. True"])
  case (JMCons k v ms)
  have k: "tk_type k = JSMN_STRING" "leaf k" "node_wf v" "members_wf ms" using JMCons.prems(2) by (simp_all add: leaf_def)
  have at: "toks_at c i (k # node_toks v)" "it_valid c i" "tok_at c i = Some k"
    "toks_at c (i + int (length (k # node_toks v))) (members_toks ms)"
    using JMCons.prems(1) by (simp_all add: toks_at_simps add.assoc)
  have sp: "spaced m (k # leaves (node_toks v))" "spaced m (leaves (members_toks ms))"
    using JMCons.prems(3) k(2) by (auto simp: spaced_append)
  show ?case using root_child_ok [OF at(1) k(3,1) sp(1) assms(4), of atof wd] JMCons.IH [OF at(4) k(4) sp(2)] at(2,3) k(1)
    by (simp add: algebra_simps del: answer_data.simps(2))
qed simp_all

text \<open>The parser found the tree of a root object in the text.\<close>

definition parsed_tree :: "jsmn_parser \<Rightarrow> jsmntok list \<Rightarrow> char list \<Rightarrow> jmembers \<Rightarrow> bool" where
  "parsed_tree parse tk m ms \<longleftrightarrow>
     (\<exists>root unused. parse (c_str m) tk = (int (Suc (length (members_toks ms))), root # members_toks ms @ unused) \<and>
        tk_type root = JSMN_OBJECT \<and> tk_size root = int (members_count ms)) \<and>
     members_wf ms \<and> spaced m (leaves (members_toks ms)) \<and> length m < 2 ^ 32"

lemma process_json_ok:
  assumes "parsed_tree parse tk m ms"
  shows "weather_process_json parse tk atof m wd = Some (True, answer_data atof m ms wd)"
proof -
  obtain root unused where r: "parse (c_str m) tk = (int (Suc (length (members_toks ms))), root # members_toks ms @ unused)"
    "tk_type root = JSMN_OBJECT" "tk_size root = int (members_count ms)" using assms by (auto simp: parsed_tree_def)
  let ?c = "\<lparr>js_json = Some m, js_tok = root # members_toks ms @ unused, js_nmb = Suc (length (members_toks ms))\<rparr>"
  have "jsmn_new parse (Some m) tk = Some ?c" using r by (simp add: jsmn_new_def do_parse_def nat_add_distrib)
  moreover have "jsmn_ok ?c" by (simp add: jsmn_ok_def)
  moreover have "toks_at ?c 1 (members_toks ms)" by (simp add: toks_at_def jsmn_wf_def)
  then have "root_loop atof (members_count ms) ?c 1 wd = Some (answer_data atof m ms wd)"
    using root_loop_ok [of ?c 1 ms m atof wd] assms by (simp add: parsed_tree_def)
  moreover have "tok_at ?c 0 = Some root" by (simp add: tok_at_def)
  ultimately show ?thesis using r(2,3) by (simp add: weather_process_json_def it_begin_def)
qed


text \<open>C33: An answer of the weather service sets exactly the members it has: when the client of the HTTP component delivers a
  text of which the parser finds the tree, every number of less than 32 characters under a known key of the objects main, wind and clouds is
  stored in its field, whatever else and in whatever order the answer holds; the fields it does not name keep the value they had in the entry, and
  without an answer the entry is as it was.\<close>

theorem weather_answer_read:
  assumes "http url buf n = Some ((ok, b), n1)" "ok \<longrightarrow> parsed_tree parse tk b ms"
  shows "fetch_owm_data http parse tk atof buf (Some url) wd n = Some ((ok, if ok then answer_data atof b ms wd else wd), n1)"
  using assms process_json_ok [of parse tk b ms atof wd] by (simp add: fetch_owm_data_def)

definition demo_answer :: string where
  "demo_answer = ''{_main_:{_temp_:2,_humidity_:75,_x_:[1]},_base_:7}''"

definition atok :: "jsmntype \<Rightarrow> int \<Rightarrow> int \<Rightarrow> int \<Rightarrow> jsmntok" where
  "atok ty s e n = \<lparr>tk_type = ty, tk_start = s, tk_end = e, tk_size = n\<rparr>"

definition demo_tree :: jmembers where
  "demo_tree = JMCons (atok JSMN_STRING 2 6 1) (JObj (atok JSMN_OBJECT 8 39 3)
       (JMCons (atok JSMN_STRING 10 14 1) (JLeaf (atok JSMN_PRIMITIVE 16 17 0))
       (JMCons (atok JSMN_STRING 19 27 1) (JLeaf (atok JSMN_PRIMITIVE 29 31 0))
       (JMCons (atok JSMN_STRING 33 34 1) (JArr (atok JSMN_ARRAY 36 39 1) (JCons (JLeaf (atok JSMN_PRIMITIVE 37 38 0)) JNil)) JMNil))))
     (JMCons (atok JSMN_STRING 42 46 1) (JLeaf (atok JSMN_PRIMITIVE 48 49 0)) JMNil)"

definition demo_answer_parse :: jsmn_parser where
  "demo_answer_parse s tk = (12, atok JSMN_OBJECT 0 50 2 # members_toks demo_tree @ tk)"

lemma demo_answer_parsed: "parsed_tree demo_answer_parse [] (demo_answer @ [NUL]) demo_tree"
  unfolding parsed_tree_def
proof (intro conjI)
  show "\<exists>root unused. demo_answer_parse (c_str (demo_answer @ [NUL])) [] = (int (Suc (length (members_toks demo_tree))), root # members_toks demo_tree @ unused) \<and>
      tk_type root = JSMN_OBJECT \<and> tk_size root = int (members_count demo_tree)"
    by (intro exI [of _ "atok JSMN_OBJECT 0 50 2"] exI [of _ "[]"]) (simp add: demo_answer_parse_def demo_tree_def atok_def)
  show "members_wf demo_tree" by (simp add: demo_tree_def atok_def)
  show "spaced (demo_answer @ [NUL]) (leaves (members_toks demo_tree))" by code_simp
  show "length (demo_answer @ [NUL]) < 2 ^ 32" by (simp add: demo_answer_def)
qed

theorem weather_answer_read_witness:
  "fetch_owm_data (\<lambda>u b n. Some ((True, demo_answer @ [NUL]), n)) demo_answer_parse [] (\<lambda>s. 0x43700000) (replicate 750 NUL) (Some ''http://h'')
     (wd_new\<lparr>wd_deg := 5\<rparr>) () = Some ((True, wd_new\<lparr>wd_deg := 5, wd_temp := 0x43700000, wd_humidity := 75\<rparr>), ())"
proof -
  have "answer_data (\<lambda>s. 0x43700000) (demo_answer @ [NUL]) demo_tree (wd_new\<lparr>wd_deg := 5\<rparr>) =
    wd_new\<lparr>wd_deg := 5, wd_temp := 0x43700000, wd_humidity := 75\<rparr>" by code_simp
  with weather_answer_read [of "\<lambda>u b n. Some ((True, demo_answer @ [NUL]), n)" "''http://h''" "replicate 750 NUL" "()" True "demo_answer @ [NUL]" "()"
      demo_answer_parse "[]" demo_tree "\<lambda>s. 0x43700000" "wd_new\<lparr>wd_deg := 5\<rparr>"] demo_answer_parsed
  show ?thesis by simp
qed

section \<open>The store\<close>

lemma of_le_4 [simp]: "of_le (le_bytes 4 (w :: u32)) = w"
  by (simp add: of_le_bytes take_bit_word_eq_self)

lemma wd_store_length: "length pad = 7 \<Longrightarrow> length (wd_store pad t v wd) = 64"
  by (simp add: wd_store_def wd_bytes_def)

lemma wd_store_read:
  assumes "length pad = 7"
  shows "wds_time (wd_store pad t v wd) = t" "wds_version (wd_store pad t v wd) = v" "wds_wd (wd_store pad t v wd) = wd"
proof -
  have d: "drop 16 (wd_store pad t v wd) = wd_bytes wd @ replicate 24 0" using assms by (simp add: wd_store_def)
  have "drop (16 + k) (wd_store pad t v wd) = drop k (wd_bytes wd @ replicate 24 0)" for k
    using d by (metis add.commute drop_drop)
  then show "wds_wd (wd_store pad t v wd) = wd" by (cases wd) (simp add: wds_wd_def Let_def wd_bytes_def)
  show "wds_time (wd_store pad t v wd) = t" by (simp add: wds_time_def wd_store_def)
  show "wds_version (wd_store pad t v wd) = v" by (simp add: wds_version_def wd_store_def nth_append)
qed

lemma print_nat_digit: "n < 10 \<Longrightarrow> print_nat n = [digit_char n]"
  by (subst print_nat.simps) simp

lemma weather_key_inj:
  assumes "d < 10" "d' < 10" "weather_key d h = weather_key d' h'"
  shows "d = d' \<and> h = h'"
proof -
  have e: "digit_char d = digit_char d'" "print_nat h = print_nat h'" using assms by (simp_all add: weather_key_def print_nat_digit)
  have "digit_val (digit_char d) = Some d" "digit_val (digit_char d') = Some d'" using assms(1,2) by simp_all
  then have "d = d'" using e(1) by (metis option.inject)
  moreover have "h = h'" using arg_cong [OF e(2), of "digits_val 10 0"] unfolding digits_print_nat .
  ultimately show ?thesis by simp
qed

lemma print_nat_two: "n < 100 \<Longrightarrow> length (print_nat n) \<le> 2"
  by (subst print_nat.simps) (auto simp: print_nat_digit)

lemma weather_key_ok:
  assumes "d < 7" "h < 24"
  shows "key_ok (weather_key d h)"
proof -
  have "no_nul (print_nat n)" for n using print_nat_digits [of n] digit_not by (auto simp: no_nul_def list_all_iff)
  then show ?thesis using print_nat_two [of h] print_nat_two [of d] assms by (simp add: key_ok_def weather_key_def MAX_KEY_LEN_def)
qed

text \<open>What the store has for an entry of the table at a time.\<close>

definition slot_of :: "kcontent \<Rightarrow> u64 \<Rightarrow> nat \<Rightarrow> nat \<Rightarrow> weather_data option" where
  "slot_of C now d h = (case bytes_of (C kvs_name (weather_key d h)) KVS_TYPE_BLOB of
     None \<Rightarrow> None
   | Some b \<Rightarrow> if length b = 64 \<and> sint (now - 604800) \<le> sint (wds_time b) \<and> wds_version b = wd_current_version then Some (wds_wd b) else None)"

definition past_wf :: "'n weather \<Rightarrow> bool" where
  "past_wf we \<longleftrightarrow> length (we_past we) = 7 \<and> (\<forall>r \<in> set (we_past we). length r = 24)"

lemma past_wf_new [simp]: "past_wf (weather_new wp)"
  by (simp add: past_wf_def weather_new_def)

lemma past_put_wf: "past_wf we \<Longrightarrow> d < 7 \<Longrightarrow> past_wf (past_put d h wd we)"
  by (auto simp: past_wf_def past_put_def dest!: set_update_memI subsetD [OF set_update_subset_insert])

lemma past_put_at:
  "past_wf we \<Longrightarrow> d < 7 \<Longrightarrow> h < 24 \<Longrightarrow> d' < 7 \<Longrightarrow> h' < 24 \<Longrightarrow>
    we_past (past_put d h wd we) ! d' ! h' = (if d' = d \<and> h' = h then wd else we_past we ! d' ! h')"
  by (auto simp: past_wf_def past_put_def nth_list_update)


text \<open>Loading some entries: those the store has are taken from it.\<close>

definition loaded :: "kcontent \<Rightarrow> u64 \<Rightarrow> (nat \<times> nat) set \<Rightarrow> 'n weather \<Rightarrow> 'n weather \<Rightarrow> bool" where
  "loaded C now S we we1 \<longleftrightarrow> past_wf we1 \<and> we_wp we1 = we_wp we \<and> (\<forall>d < 7. \<forall>h < 24. we_past we1 ! d ! h =
     (case (if (d, h) \<in> S then slot_of C now d h else None) of Some wd \<Rightarrow> wd | None \<Rightarrow> we_past we ! d ! h))"

context kvs_contract
begin

lemma weather_keys: "d < 7 \<Longrightarrow> h < 24 \<Longrightarrow> keys (weather_key d h)"
  using keys [OF weather_key_ok] by (simp add: weather_key_def)

lemma load_slots_ok:
  assumes "opened w hnd kvs_name wr C" "past_wf we" "length wds = 64" "\<forall>(d, h) \<in> set slots. d < 7 \<and> h < 24" "distinct slots"
  shows "\<exists>we1 w'. load_slots ops hnd (now - 604800) slots wds we w = Inr (we1, w') \<and> opened w' hnd kvs_name wr C \<and> loaded C now (set slots) we we1"
  using assms
proof (induction slots arbitrary: w wds we)
  case Nil
  then show ?case by (simp add: loaded_def)
next
  case (Cons s slots)
  obtain d h where s: "s = (d, h)" by (cases s)
  have b: "d < 7" "h < 24" "(d, h) \<notin> set slots" "distinct slots" "\<forall>(d, h) \<in> set slots. d < 7 \<and> h < 24" using Cons.prems(4,5) s by auto
  have "wds \<noteq> []" using Cons.prems(3) by auto
  from get_blob_any [OF Cons.prems(1) weather_keys [OF b(1,2)] this] obtain r wds1 w1 where
    g: "op_get_blob ops hnd (weather_key d h) wds w = Inr ((r, wds1), w1)" "opened w1 hnd kvs_name wr C" "length wds1 = 64"
      "r \<longrightarrow> C kvs_name (weather_key d h) = Some (kblob wds1)" using Cons.prems(3) by auto
  have r: "r" if "C kvs_name (weather_key d h) = Some (kblob x)" "length x = 64" for x
    using get_blob [OF Cons.prems(1) weather_keys [OF b(1,2)] that(1), of wds] g(1) Cons.prems(3) that(2) by simp
  let ?c = "r \<and> sint (now - 604800) \<le> sint (wds_time wds1) \<and> wd_current_version = wds_version wds1"
  let ?we = "if ?c then past_put d h (wds_wd wds1) we else we"
  have slot: "slot_of C now d h = (if ?c then Some (wds_wd wds1) else None)"
  proof (cases r)
    case True
    then show ?thesis using g(3,4) by (auto simp: slot_of_def kblob_def)
  next
    case False
    have "bytes_of v KVS_TYPE_BLOB = Some x \<Longrightarrow> v = Some (kblob x)" for v x
      by (auto simp: bytes_of_def kblob_def split: option.splits kval.splits if_splits)
    then show ?thesis using False r by (fastforce simp: slot_of_def split: option.splits)
  qed
  have wf: "past_wf ?we" using Cons.prems(2) b(1) by (simp add: past_put_wf)
  have put: "we_wp ?we = we_wp we" "\<And>d' h'. d' < 7 \<Longrightarrow> h' < 24 \<Longrightarrow> we_past ?we ! d' ! h' =
      (if d' = d \<and> h' = h \<and> ?c then wds_wd wds1 else we_past we ! d' ! h')"
    using past_put_at [OF Cons.prems(2) b(1,2)] by (simp_all add: past_put_def [of d h _ we, THEN arg_cong [of _ _ we_wp]] b(1,2))
  from Cons.IH [OF g(2) wf g(3) b(5,4)] obtain we1 w' where
    ih: "load_slots ops hnd (now - 604800) slots wds1 ?we w1 = Inr (we1, w')" "opened w' hnd kvs_name wr C" "loaded C now (set slots) ?we we1" by blast
  have "loaded C now (set (s # slots)) we we1"
    unfolding loaded_def
  proof (intro conjI allI impI)
    show "past_wf we1" "we_wp we1 = we_wp we" using ih(3) put(1) by (simp_all add: loaded_def)
    fix d' h' :: nat assume a: "d' < 7" "h' < 24"
    then have "we_past we1 ! d' ! h' = (case (if (d', h') \<in> set slots then slot_of C now d' h' else None) of Some wd \<Rightarrow> wd
        | None \<Rightarrow> if d' = d \<and> h' = h \<and> ?c then wds_wd wds1 else we_past we ! d' ! h')"
      using ih(3) unfolding loaded_def by (simp only: put(2) [OF a])
    then show "we_past we1 ! d' ! h' = (case (if (d', h') \<in> set (s # slots) then slot_of C now d' h' else None) of Some wd \<Rightarrow> wd
        | None \<Rightarrow> we_past we ! d' ! h')"
      using b(3) slot by (cases "(d', h') = (d, h)") (simp add: s, auto simp: s split: option.splits)
  qed
  then show ?case using ih(1,2) g(1) s by auto
qed

lemma week_slots_ok: "\<forall>(d, h) \<in> set week_slots. d < 7 \<and> h < 24" "distinct week_slots" "d < 7 \<Longrightarrow> h < 24 \<Longrightarrow> (d, h) \<in> set week_slots"
proof -
  show "distinct week_slots" by code_simp
qed (auto simp: week_slots_def image_iff)

lemma load_past_ok:
  assumes "idle w C" "past_wf we" "length wds = 64" "names kvs_name"
  shows "\<exists>we1 w'. load_past_weather_data ops wds now we w = Inr ((True, we1), w') \<and> idle w' C \<and> loaded C now UNIV we we1"
  using open_read [OF assms(1,4)]
proof (elim disjE exE conjE)
  fix w1 assume o: "op_open ops kvs_name kvs_flag_READ w = (None, w1)" "idle w1 C" "C kvs_name = Map.empty"
  then have "loaded C now UNIV we we" using assms(2) by (simp add: loaded_def slot_of_def bytes_of_def)
  then show ?thesis using o by (simp add: load_past_weather_data_def)
next
  fix hnd w1 assume o: "op_open ops kvs_name kvs_flag_READ w = (Some hnd, w1)" "opened w1 hnd kvs_name False C"
  from load_slots_ok [OF o(2) assms(2,3) week_slots_ok(1,2), of now] obtain we1 w' where
    l: "load_slots ops hnd (now - 604800) week_slots wds we w1 = Inr (we1, w')" "opened w' hnd kvs_name False C" "loaded C now (set week_slots) we we1"
    by blast
  then have "loaded C now UNIV we we1" using week_slots_ok(3) by (simp add: loaded_def)
  then show ?thesis using o(1) l close [OF l(2)] by (simp add: load_past_weather_data_def)
qed

lemma fetch_store_ok:
  assumes "idle w C" "we_wp we = Some wp" "d < 7" "h < 24" "wp (we_past we ! d ! h) n = Some ((True, wd), n1)" "length pad = 7" "names kvs_name" "64 < cap"
  shows "\<exists>w'. fetch_and_store_weather_data ops pad (Some (d, h)) now we n w = Some (Inr ((True, past_put d h wd we), n1, w')) \<and>
    idle w' (C(kvs_name := (C kvs_name)(weather_key d h \<mapsto> kblob (wd_store pad now wd_current_version wd))))"
proof -
  let ?b = "wd_store pad now wd_current_version wd"
  let ?C = "C(kvs_name := (C kvs_name)(weather_key d h \<mapsto> kblob ?b))"
  obtain hnd w1 where o: "op_open ops kvs_name kvs_flag_WRITE w = (Some hnd, w1)" "opened w1 hnd kvs_name True C" using open_write [OF assms(1,7)] by blast
  have "?b \<noteq> []" "length ?b < cap" using wd_store_length [OF assms(6), of now wd_current_version wd] assms(8) by auto
  from set_blob [OF o(2) weather_keys [OF assms(3,4)] this] obtain w2 where
    s: "op_set_blob ops hnd (weather_key d h) ?b w1 = Inr (True, w2)" "opened w2 hnd kvs_name True ?C" by blast
  from commit [OF s(2)] obtain w3 where c: "op_commit ops hnd w2 = (True, w3)" "opened w3 hnd kvs_name True ?C" by blast
  show ?thesis using assms(2,5) o(1) s(1) c(1) close [OF c(2)] by (simp add: fetch_and_store_weather_data_def get_wday_hour_def Let_def)
qed

lemma slot_stored:
  assumes "length pad = 7" "sint (now' - 604800) \<le> sint now" "d < 7" "d' < 7" "h < 24" "h' < 24"
  shows "slot_of (C(kvs_name := (C kvs_name)(weather_key d h \<mapsto> kblob (wd_store pad now wd_current_version wd)))) now' d' h' =
    (if d' = d \<and> h' = h then Some wd else slot_of C now' d' h')"
proof (cases "d' = d \<and> h' = h")
  case True
  then show ?thesis using assms(1,2) by (simp add: slot_of_def kblob_def wd_store_read wd_store_length)
next
  case False
  then have "weather_key d' h' \<noteq> weather_key d h" using weather_key_inj [of d' d h' h] assms(3,4) by auto
  then show ?thesis using False by (auto simp: slot_of_def)
qed

lemma weather_roundtrip:
  assumes "idle w C" "we_wp we = Some wp" "d < 7" "h < 24" "wp (we_past we ! d ! h) n = Some ((True, wd), n1)" "length pad = 7"
    and "past_wf we2" "length wds = 64" "sint (now' - 604800) \<le> sint now" "names kvs_name" "64 < cap"
  shows "\<exists>w1 we3 w2. fetch_and_store_weather_data ops pad (Some (d, h)) now we n w = Some (Inr ((True, past_put d h wd we), n1, w1)) \<and>
    load_past_weather_data ops wds now' we2 w1 = Inr ((True, we3), w2) \<and>
    (\<forall>d' < 7. \<forall>h' < 24. get_past_weather_data we3 d' h' = (if d' = d \<and> h' = h then Some wd
        else case slot_of C now' d' h' of Some x \<Rightarrow> Some x | None \<Rightarrow> get_past_weather_data we2 d' h'))"
proof -
  let ?C = "C(kvs_name := (C kvs_name)(weather_key d h \<mapsto> kblob (wd_store pad now wd_current_version wd)))"
  obtain w1 where w1: "fetch_and_store_weather_data ops pad (Some (d, h)) now we n w = Some (Inr ((True, past_put d h wd we), n1, w1))" "idle w1 ?C"
    using fetch_store_ok [OF assms(1-6,10,11), of now] by blast
  from load_past_ok [OF w1(2) assms(7,8,10), of now'] obtain we3 w2 where
    l: "load_past_weather_data ops wds now' we2 w1 = Inr ((True, we3), w2)" "loaded ?C now' UNIV we2 we3" by blast
  have "\<forall>d' < 7. \<forall>h' < 24. get_past_weather_data we3 d' h' = (if d' = d \<and> h' = h then Some wd
        else case slot_of C now' d' h' of Some x \<Rightarrow> Some x | None \<Rightarrow> get_past_weather_data we2 d' h')"
    using l(2) slot_stored [OF assms(6,9,3) _ assms(4), of _ _ C wd]
    by (auto simp: loaded_def get_past_weather_data_def split: option.splits)
  then show ?thesis using w1(1) l(1) by blast
qed

end


text \<open>C34: The table survives a restart: data that was fetched and stored is loaded again into any other object, for an entry not older
  than a week, and nothing else is: every other entry of the table is what the store had for it before, if that is a record of the current
  version not older than a week, and otherwise stays as it is. The store is the one of the host build; each entry has a key of its own.\<close>

theorem weather_store_roundtrip:
  assumes "kw_idle w C" "we_wp we = Some wp" "d < 7" "h < 24" "wp (we_past we ! d ! h) n = Some ((True, wd), n1)" "length pad = 7"
    and "past_wf we2" "length wds = 64" "sint (now' - 604800) \<le> sint now"
  shows "\<exists>w1 we3 w2. fetch_and_store_weather_data host_kvs pad (Some (d, h)) now we n w = Some (Inr ((True, past_put d h wd we), n1, w1)) \<and>
    load_past_weather_data host_kvs wds now' we2 w1 = Inr ((True, we3), w2) \<and>
    (\<forall>d' < 7. \<forall>h' < 24. get_past_weather_data we3 d' h' = (if d' = d \<and> h' = h then Some wd
        else case slot_of C now' d' h' of Some x \<Rightarrow> Some x | None \<Rightarrow> get_past_weather_data we2 d' h'))"
  by (rule host.weather_roundtrip [OF assms TrueI]) simp

theorem weather_store_roundtrip_witness:
  "\<exists>w1 we3 w2. fetch_and_store_weather_data host_kvs (replicate 7 0) (Some (2, 9)) 1000000
      (weather_new (Some (\<lambda>wd n. Some ((True, wd_new\<lparr>wd_all := 50\<rparr>), n)))) () kworld_init =
        Some (Inr ((True, past_put 2 9 (wd_new\<lparr>wd_all := 50\<rparr>) (weather_new (Some (\<lambda>wd n. Some ((True, wd_new\<lparr>wd_all := 50\<rparr>), n))))), (), w1)) \<and>
    load_past_weather_data host_kvs (replicate 64 0) 1600000 (weather_new None :: unit weather) w1 = Inr ((True, we3), w2) \<and>
    get_past_weather_data we3 2 9 = Some (wd_new\<lparr>wd_all := 50\<rparr>)"
proof -
  let ?we = "weather_new (Some (\<lambda>wd n. Some ((True, wd_new\<lparr>wd_all := 50\<rparr>), n))) :: unit weather"
  have "sint ((1600000 :: u64) - 604800) \<le> sint (1000000 :: u64)" by code_simp
  moreover have "we_wp ?we = Some (\<lambda>wd n. Some ((True, wd_new\<lparr>wd_all := 50\<rparr>), n))" by (simp add: weather_new_def)
  ultimately obtain w1 we3 w2 where
    r: "fetch_and_store_weather_data host_kvs (replicate 7 0) (Some (2, 9)) 1000000 ?we () kworld_init = Some (Inr ((True, past_put 2 9 (wd_new\<lparr>wd_all := 50\<rparr>) ?we), (), w1))"
    "load_past_weather_data host_kvs (replicate 64 0) 1600000 (weather_new None :: unit weather) w1 = Inr ((True, we3), w2)"
    and l: "\<forall>d' < 7. \<forall>h' < 24. get_past_weather_data we3 d' h' = (if d' = 2 \<and> h' = 9 then Some (wd_new\<lparr>wd_all := 50\<rparr>)
        else case slot_of (\<lambda>_. Map.empty) 1600000 d' h' of Some x \<Rightarrow> Some x | None \<Rightarrow> get_past_weather_data (weather_new None :: unit weather) d' h')"
    using weather_store_roundtrip [OF kw_idle_init, of ?we "\<lambda>wd n. Some ((True, wd_new\<lparr>wd_all := 50\<rparr>), n)" 2 9 "()" "wd_new\<lparr>wd_all := 50\<rparr>" "()"
      "replicate 7 0" "weather_new None" "replicate 64 0" 1600000 1000000] by auto
  have "get_past_weather_data we3 2 9 = Some (wd_new\<lparr>wd_all := 50\<rparr>)" using l [THEN spec, of 2, THEN mp, THEN spec, of 9] by simp
  with r show ?thesis by (intro exI conjI)
qed

section \<open>Irrigation\<close>

text \<open>The hours the loop visits, all of the current day of the week, and their data.\<close>

definition visited_hours :: "nat \<Rightarrow> nat \<Rightarrow> nat list" where
  "visited_hours hour k = map (\<lambda>i. (hour + 23 * i) mod 24) [0..<k]"

definition irrigation_data :: "'n weather \<Rightarrow> nat \<Rightarrow> nat list \<Rightarrow> weather_data list" where
  "irrigation_data we wday hs = filter wd_valid (map (\<lambda>hr. we_past we ! wday ! hr) (filter (\<lambda>hr. 9 \<le> hr \<and> hr \<le> 21) hs))"

lemma visited_Suc: "hour < 24 \<Longrightarrow> visited_hours hour (Suc k) = hour # visited_hours ((hour + 23) mod 24) k"
  unfolding visited_hours_def upt_conv_Cons [OF zero_less_Suc] list.map
  by (simp add: map_Suc_upt [symmetric] comp_def mod_add_left_eq add.assoc del: upt_Suc)

lemma irrigation_loop_ok:
  assumes "wday < 7" "hour < 24"
  shows "irrigation_loop fo gf we wday hour hours n acc =
    (let ds = irrigation_data we wday (visited_hours hour (nat hours)); c = n + int (length ds)
     in Some (if c \<noteq> 0 then f_div_int fo (foldl (\<lambda>s wd. f_add fo s (gf wd)) acc ds) c else f_one fo))"
  using assms(2)
proof (induction "nat hours" arbitrary: hour hours n acc)
  case 0
  then show ?case by (subst irrigation_loop.simps) (simp add: irrigation_data_def visited_hours_def)
next
  case (Suc k)
  have h: "hours > 0" "nat hours = Suc k" "k = nat (hours - 1)" "(hour + 23) mod 24 < 24" using Suc.hyps(2) by simp_all
  note ih = Suc.hyps(1) [OF h(3,4)]
  let ?vs = "visited_hours ((hour + 23) mod 24) (nat (hours - 1))" and ?wd = "we_past we ! wday ! hour"
  let ?in = "9 \<le> hour \<and> hour \<le> 21 \<and> wd_valid ?wd"
  have vs: "visited_hours hour (nat hours) = hour # ?vs" using visited_Suc [OF Suc.prems, of k] h(2,3) by simp
  have ds: "irrigation_data we wday (visited_hours hour (nat hours)) = (if ?in then ?wd # irrigation_data we wday ?vs else irrigation_data we wday ?vs)"
    unfolding vs by (simp add: irrigation_data_def)
  have "irrigation_loop fo gf we wday hour hours n acc =
    (if ?in then irrigation_loop fo gf we wday ((hour + 23) mod 24) (hours - 1) (n + 1) (f_add fo acc (gf ?wd))
     else irrigation_loop fo gf we wday ((hour + 23) mod 24) (hours - 1) n acc)"
    by (subst irrigation_loop.simps) (use h(1) assms(1) Suc.prems in \<open>simp add: get_past_weather_data_def\<close>)
  then show ?case unfolding ih ds Let_def by (cases ?in) (simp_all only: if_True if_False list.size foldl.simps, simp_all add: add.assoc)
qed


text \<open>In general the hours stay within the current day of the week, so what the table has for the other days does not matter, and beyond 24 hours the same
  entries are counted again.\<close>

lemma irrigation_factor_same_day:
  assumes "wday < 7" "hour < 24"
  shows "get_simple_irrigation_factor fo (Some (wday, hour)) we hours gf =
    (let ds = irrigation_data we wday (visited_hours hour (nat (min hours 168)))
     in Some (if ds = [] then f_one fo else f_div_int fo (foldl (\<lambda>s wd. f_add fo s (gf wd)) (f_zero fo) ds) (int (length ds))))"
proof -
  have "(if hours > 24 * 7 then 24 * 7 else hours) = min hours 168" by simp
  then show ?thesis unfolding get_simple_irrigation_factor_def get_wday_hour_def
    using irrigation_loop_ok [OF assms, of fo gf we "min hours 168" 0 "f_zero fo"] by (simp add: Let_def)
qed

lemma visited_today:
  assumes "k \<le> hour + 1" "hour < 24"
  shows "visited_hours hour k = rev [hour + 1 - k..<hour + 1]"
proof (rule nth_equalityI)
  show "length (visited_hours hour k) = length (rev [hour + 1 - k..<hour + 1])" using assms(1) by (simp add: visited_hours_def del: upt_Suc)
  fix i assume "i < length (visited_hours hour k)"
  then have i: "i < k" by (simp add: visited_hours_def)
  then have "hour + 23 * i = (hour - i) + 24 * i" "hour - i < 24" using assms by simp_all
  then have "(hour + 23 * i) mod 24 = hour - i" by (metis mod_mult_self2 mod_less)
  then show "visited_hours hour k ! i = rev [hour + 1 - k..<hour + 1] ! i" using i assms(1) by (simp add: visited_hours_def rev_nth del: upt_Suc)
qed

text \<open>C35: The irrigation factor always ends with a value, whatever number of hours it is asked for, also a negative one. For hours that do not reach back behind
  midnight it is the mean, as the adapter rates them, of the valid data of these hours between 9 and 21 o'clock, the latest first, and one if there is no such
  data. (What it does with hours of the days before is not what its documentation says, and not claimed here.)\<close>

theorem irrigation_factor_today:
  assumes "wday < 7" "hour < 24"
  shows "get_simple_irrigation_factor fo (Some (wday, hour)) we hours gf \<noteq> None \<and>
    (0 \<le> k \<and> k \<le> int hour + 1 \<longrightarrow>
      get_simple_irrigation_factor fo (Some (wday, hour)) we k gf =
        (let hs = filter (\<lambda>hr. 9 \<le> hr \<and> hr \<le> 21) (rev [hour + 1 - nat k..<hour + 1]); ds = filter wd_valid (map (\<lambda>hr. we_past we ! wday ! hr) hs)
         in Some (if ds = [] then f_one fo else f_div_int fo (foldl (\<lambda>s wd. f_add fo s (gf wd)) (f_zero fo) ds) (int (length ds)))))"
proof (intro conjI impI)
  show "get_simple_irrigation_factor fo (Some (wday, hour)) we hours gf \<noteq> None" by (simp add: irrigation_factor_same_day [OF assms] Let_def)
  assume k: "0 \<le> k \<and> k \<le> int hour + 1"
  then have "min k 168 = k" "nat k \<le> hour + 1" using assms(2) by auto
  then show "get_simple_irrigation_factor fo (Some (wday, hour)) we k gf =
        (let hs = filter (\<lambda>hr. 9 \<le> hr \<and> hr \<le> 21) (rev [hour + 1 - nat k..<hour + 1]); ds = filter wd_valid (map (\<lambda>hr. we_past we ! wday ! hr) hs)
         in Some (if ds = [] then f_one fo else f_div_int fo (foldl (\<lambda>s wd. f_add fo s (gf wd)) (f_zero fo) ds) (int (length ds))))"
    using visited_today [OF _ assms(2)] by (simp only: irrigation_factor_same_day [OF assms] irrigation_data_def Let_def)
qed

theorem irrigation_factor_today_witness:
  "get_simple_irrigation_factor \<lparr>f_zero = 0, f_one = 1, f_add = (+), f_div_int = (div)\<rparr> (Some (3, 10))
     (past_put 3 8 (wd_new\<lparr>wd_temp := 1\<rparr>) (past_put 3 9 (wd_new\<lparr>wd_temp := 5\<rparr>) (weather_new None :: unit weather))) 4 (\<lambda>wd. uint (wd_temp wd)) = Some (5 :: int)"
proof -
  let ?we = "past_put 3 8 (wd_new\<lparr>wd_temp := 1\<rparr>) (past_put 3 9 (wd_new\<lparr>wd_temp := 5\<rparr>) (weather_new None :: unit weather))"
  have "filter wd_valid (map (\<lambda>hr. we_past ?we ! 3 ! hr) (filter (\<lambda>hr. 9 \<le> hr \<and> hr \<le> 21) (rev [10 + 1 - nat 4..<10 + 1]))) = [wd_new\<lparr>wd_temp := 5\<rparr>]" by code_simp
  with irrigation_factor_today [of 3 10 "\<lparr>f_zero = 0, f_one = 1, f_add = (+), f_div_int = (div)\<rparr>" ?we 0 "\<lambda>wd. uint (wd_temp wd)" 4]
  show ?thesis by (simp add: Let_def)
qed

end
