(* ===== verification/Network.thy ===== *)
theory Network
  imports ConfigGlue
begin

text \<open>
  The network interfaces of the device and the choice between them: the WLAN station (net/esp32/wifistation.cc), the WLAN
  access point (net/esp32/wifi_ap.cc), the Ethernet (net/esp32/ethernet.cc), the state of the IP connection (net/ipnet.cc, net/esp32/ipnet.c) and
  net_connect/esp32/network_connection.cc.

  The functions of the SDK are a parameter on its state \<open>'e\<close>: those that report success, and those that create an object. The
  model keeps all calls in their order. None stands for an abort of the program, which is how
  ESP_ERROR_CHECK ends.
\<close>

section \<open>The library\<close>

datatype net_handler = HWifiSta | HGotIpSta | HLostIpSta | HWifiAp | HEth | HGotIpEth

datatype phy_kind = phy_lan87xx | phy_rtl8201 | phy_ip101

record ap_config =
  apc_ssid :: string
  apc_ssid_len :: u8
  apc_password :: string
  apc_open :: bool

datatype net_call = NetifInit | WifiInit | RegisterHandler net_handler | WifiSetStorage | WifiSetModeSta | WifiSetModeAp
  | WifiSetConfigSta string string | WifiSetConfigAp ap_config | WifiStart | WifiStop | WifiConnect | DestroyWifi nat
  | EthAttach nat nat | EthStart nat | EthStop nat | EthUninstall nat | NetifDestroy nat | GpioPower int

datatype net_obj = DefaultWifiSta | DefaultWifiAp | EthNetif | EthMac | EthPhy phy_kind | EthDriver nat nat

record 'e esp_net =
  en_call :: "net_call \<Rightarrow> 'e \<Rightarrow> bool \<times> 'e"
  en_create :: "net_obj \<Rightarrow> 'e \<Rightarrow> nat option \<times> 'e"

text \<open>What happens, in the order in which it does: calls and creations with their results, calls of registered functions
  and functions handed to the main loop.\<close>

datatype main_fun = ipnet_connected_fun | ipnet_disconnected_fun

datatype net_effect = NCall net_call bool | NCreate net_obj "nat option" | NCallback nat | NMainLoop main_fun | NHttpSetup

datatype nwConnection = nwNone | nwWlanSta | nwWlanAp | nwLan | nwLanOrWlanSta | nwLEN

record 'e netw =
  nx_lib :: 'e
  nx_trace :: "net_effect list"
  nx_sta :: "nat option"
  nx_retry_num :: int
  nx_ap :: "nat option"
  nx_connections_since_start :: int
  nx_current_connections :: int
  nx_eth_handle :: "nat option"
  nx_eth_netif :: "nat option"
  nx_mac :: "nat option"
  nx_phy :: "nat option"
  nx_create_phy :: "phy_kind option"
  nx_power_pin :: int
  nx_addr :: u32
  nx_gateway :: u32
  nx_netmask :: u32
  nx_gotIp_cb :: "nat option"
  nx_lostIp_cb :: "nat option"
  nx_CONNECTED_cb :: "nat option"
  nx_Is_connected :: bool
  nx_once :: bool
  nx_current :: nwConnection
  nx_default :: nwConnection
  nx_fallback :: nwConnection

definition netw_init :: "'e \<Rightarrow> 'e netw" where
  "netw_init e = \<lparr>nx_lib = e, nx_trace = [], nx_sta = None, nx_retry_num = 0, nx_ap = None, nx_connections_since_start = 0,
     nx_current_connections = 0, nx_eth_handle = None, nx_eth_netif = None, nx_mac = None, nx_phy = None, nx_create_phy = None, nx_power_pin = -1,
     nx_addr = 0, nx_gateway = 0, nx_netmask = 0, nx_gotIp_cb = None, nx_lostIp_cb = None, nx_CONNECTED_cb = None, nx_Is_connected = False,
     nx_once = False, nx_current = nwNone, nx_default = nwNone, nx_fallback = nwNone\<rparr>"

definition net_emit :: "net_effect \<Rightarrow> 'e netw \<Rightarrow> 'e netw" where
  "net_emit x w = w\<lparr>nx_trace := nx_trace w @ [x]\<rparr>"

definition lib_call :: "'e esp_net \<Rightarrow> net_call \<Rightarrow> 'e netw \<Rightarrow> bool \<times> 'e netw" where
  "lib_call en c w = (case en_call en c (nx_lib w) of (ok, e) \<Rightarrow> (ok, net_emit (NCall c ok) (w\<lparr>nx_lib := e\<rparr>)))"

definition lib_create :: "'e esp_net \<Rightarrow> net_obj \<Rightarrow> 'e netw \<Rightarrow> nat option \<times> 'e netw" where
  "lib_create en x w = (case en_create en x (nx_lib w) of (r, e) \<Rightarrow> (r, net_emit (NCreate x r) (w\<lparr>nx_lib := e\<rparr>)))"

text \<open>ESP_ERROR_CHECK of a call, and of several.\<close>

definition lib_check :: "'e esp_net \<Rightarrow> net_call \<Rightarrow> 'e netw \<Rightarrow> 'e netw option" where
  "lib_check en c w = (case lib_call en c w of (ok, w1) \<Rightarrow> if ok then Some w1 else None)"

fun lib_checks :: "'e esp_net \<Rightarrow> net_call list \<Rightarrow> 'e netw \<Rightarrow> 'e netw option" where
  "lib_checks en [] w = Some w"
| "lib_checks en (c # cs) w = do { w1 \<leftarrow> lib_check en c w; lib_checks en cs w1 }"

definition call_back :: "nat option \<Rightarrow> 'e netw \<Rightarrow> 'e netw" where
  "call_back cb w = (case cb of None \<Rightarrow> w | Some f \<Rightarrow> net_emit (NCallback f) w)"

section \<open>The WLAN station\<close>

text \<open>A text that is too long for the structure of the SDK is silently not used, and the station is not started.\<close>

definition user_set_station_config :: "'e esp_net \<Rightarrow> cfg_wlan \<Rightarrow> 'e netw \<Rightarrow> 'e netw option" where
  "user_set_station_config en c w =
     (if length (c_str (wl_SSID c)) > 31 \<or> length (c_str (wl_password c)) > 63 then Some w
      else lib_checks en [WifiSetConfigSta (c_str (wl_SSID c)) (c_str (wl_password c)), WifiStart] w)"

datatype wifi_event = WIFI_EVENT_STA_START | WIFI_EVENT_STA_DISCONNECTED | WIFI_EVENT_AP_STACONNECTED | WIFI_EVENT_AP_STADISCONNECTED | WIFI_EVENT_OTHER

definition sta_wifi_event_handler :: "'e esp_net \<Rightarrow> wifi_event \<Rightarrow> 'e netw \<Rightarrow> 'e netw" where
  "sta_wifi_event_handler en ev w =
     (case ev of
        WIFI_EVENT_STA_START \<Rightarrow> snd (lib_call en WifiConnect w)
      | WIFI_EVENT_STA_DISCONNECTED \<Rightarrow>
          (let w1 = snd (lib_call en WifiConnect (w\<lparr>nx_addr := 0\<rparr>)) in w1\<lparr>nx_retry_num := nx_retry_num w1 + 1\<rparr>)
      | _ \<Rightarrow> w)"

definition lost_ip_event_handler :: "'e netw \<Rightarrow> 'e netw" where
  "lost_ip_event_handler w = net_emit (NMainLoop ipnet_disconnected_fun) (call_back (nx_lostIp_cb w) w)"

text \<open>The same handler for WLAN and Ethernet, but for its log messages.\<close>

definition got_ip_event_handler :: "u32 \<Rightarrow> u32 \<Rightarrow> u32 \<Rightarrow> 'e netw \<Rightarrow> 'e netw" where
  "got_ip_event_handler ip gw netmask w =
     (let w1 = w\<lparr>nx_addr := ip, nx_gateway := gw, nx_netmask := netmask\<rparr>
      in net_emit (NMainLoop ipnet_connected_fun) (call_back (nx_gotIp_cb w1) w1))"

definition wifistation_setdown :: "'e esp_net \<Rightarrow> 'e netw \<Rightarrow> 'e netw" where
  "wifistation_setdown en w =
     (case nx_sta w of
        None \<Rightarrow> w
      | Some h \<Rightarrow> (snd (lib_call en (DestroyWifi h) (snd (lib_call en WifiStop w))))\<lparr>nx_sta := None\<rparr>)"

text \<open>The SDK aborts when the interface cannot be created.\<close>

definition wifistation_setup :: "'e esp_net \<Rightarrow> cfg_wlan \<Rightarrow> 'e netw \<Rightarrow> 'e netw option" where
  "wifistation_setup en c w =
     (let w0 = (if nx_sta w \<noteq> None then wifistation_setdown en w else w)
      in case lib_create en DefaultWifiSta w0 of
           (None, w1) \<Rightarrow> None
         | (Some h, w1) \<Rightarrow> do {
             w2 \<leftarrow> lib_checks en [WifiInit, RegisterHandler HWifiSta, RegisterHandler HGotIpSta, RegisterHandler HLostIpSta,
               WifiSetStorage, WifiSetModeSta] (w1\<lparr>nx_sta := Some h\<rparr>);
             user_set_station_config en c w2 })"

definition wifistation_is_active :: "'e netw \<Rightarrow> bool" where
  "wifistation_is_active w \<longleftrightarrow> nx_sta w \<noteq> None"

section \<open>The WLAN access point\<close>

definition ap_wifi_event_handler :: "wifi_event \<Rightarrow> 'e netw \<Rightarrow> 'e netw" where
  "ap_wifi_event_handler ev w =
     (if ev = WIFI_EVENT_AP_STACONNECTED
      then w\<lparr>nx_connections_since_start := nx_connections_since_start w + 1, nx_current_connections := nx_current_connections w + 1\<rparr>
      else if ev = WIFI_EVENT_AP_STADISCONNECTED then w\<lparr>nx_current_connections := nx_current_connections w - 1\<rparr>
      else w)"

definition wifiAp_setdown :: "'e esp_net \<Rightarrow> 'e netw \<Rightarrow> 'e netw" where
  "wifiAp_setdown en w =
     (case nx_ap w of
        None \<Rightarrow> w
      | Some h \<Rightarrow> (snd (lib_call en (DestroyWifi h) (snd (lib_call en WifiStop w))))\<lparr>nx_current_connections := 0, nx_ap := None\<rparr>)"

definition wifi_config :: "string \<Rightarrow> string \<Rightarrow> ap_config" where
  "wifi_config ssid passwd = \<lparr>apc_ssid = take 31 ssid, apc_ssid_len = word_of_nat (length ssid), apc_password = take 63 passwd,
     apc_open = (length passwd = 0)\<rparr>"

definition wifiAp_setup :: "'e esp_net \<Rightarrow> string \<Rightarrow> string \<Rightarrow> 'e netw \<Rightarrow> 'e netw option" where
  "wifiAp_setup en ssid passwd w =
     (let w0 = (if nx_ap w \<noteq> None then wifiAp_setdown en w else w)
      in case lib_create en DefaultWifiAp (w0\<lparr>nx_current_connections := 0, nx_connections_since_start := 0\<rparr>) of
           (None, w1) \<Rightarrow> None
         | (Some h, w1) \<Rightarrow>
             lib_checks en [WifiInit, RegisterHandler HWifiAp, WifiSetModeAp, WifiSetConfigAp (wifi_config ssid passwd), WifiStart]
               (w1\<lparr>nx_ap := Some h\<rparr>))"

definition wifiAp_is_active :: "'e netw \<Rightarrow> bool" where
  "wifiAp_is_active w \<longleftrightarrow> nx_ap w \<noteq> None"

section \<open>Ethernet\<close>

datatype eth_event = ETHERNET_EVENT_CONNECTED | ETHERNET_EVENT_DISCONNECTED | ETHERNET_EVENT_START | ETHERNET_EVENT_STOP | ETHERNET_EVENT_OTHER

definition eth_event_handler :: "eth_event \<Rightarrow> 'e netw \<Rightarrow> 'e netw" where
  "eth_event_handler ev w = (if ev = ETHERNET_EVENT_DISCONNECTED then call_back (nx_lostIp_cb w) w else w)"

definition ethernet_configure :: "u8 \<Rightarrow> int \<Rightarrow> 'e netw \<Rightarrow> 'e netw" where
  "ethernet_configure lan_phy lan_pwr_gpio w =
     w\<lparr>nx_create_phy := Some (if lan_phy = 2 then phy_rtl8201 else if lan_phy = 3 then phy_ip101 else phy_lan87xx), nx_power_pin := lan_pwr_gpio\<rparr>"

text \<open>The part of ethernet_setdown behind the driver.\<close>

definition ethernet_clear :: "'e esp_net \<Rightarrow> 'e netw \<Rightarrow> 'e netw" where
  "ethernet_clear en w =
     (let w1 = w\<lparr>nx_phy := None, nx_mac := None\<rparr>
      in case nx_eth_netif w1 of None \<Rightarrow> w1 | Some n \<Rightarrow> (snd (lib_call en (NetifDestroy n) w1))\<lparr>nx_eth_netif := None\<rparr>)"

definition ethernet_setdown :: "'e esp_net \<Rightarrow> 'e netw \<Rightarrow> bool \<times> 'e netw" where
  "ethernet_setdown en w =
     (case nx_eth_handle w of
        None \<Rightarrow> (True, ethernet_clear en w)
      | Some h \<Rightarrow>
          (case lib_call en (EthUninstall h) (snd (lib_call en (EthStop h) w)) of
             (ok, w1) \<Rightarrow> if ok then (True, ethernet_clear en (w1\<lparr>nx_eth_handle := None\<rparr>)) else (False, w1)))"

text \<open>A step of ethernet_setup that ends in \<open>goto error\<close> ends the sequence.\<close>

definition and_then :: "bool \<times> 's \<Rightarrow> ('s \<Rightarrow> bool \<times> 's) \<Rightarrow> bool \<times> 's" where
  "and_then r f = (case r of (ok, s) \<Rightarrow> if ok then f s else (False, s))"

definition create_into :: "'e esp_net \<Rightarrow> net_obj \<Rightarrow> (nat option \<Rightarrow> 'e netw \<Rightarrow> 'e netw) \<Rightarrow> 'e netw \<Rightarrow> bool \<times> 'e netw" where
  "create_into en x put w = (case lib_create en x w of (r, w1) \<Rightarrow> (r \<noteq> None, put r w1))"

text \<open>A driver that could not be installed leaves its handle as it was.\<close>

definition install_driver :: "'e esp_net \<Rightarrow> 'e netw \<Rightarrow> bool \<times> 'e netw" where
  "install_driver en w =
     (case lib_create en (EthDriver (the (nx_mac w)) (the (nx_phy w))) w of
        (None, w1) \<Rightarrow> (False, w1)
      | (Some h, w1) \<Rightarrow> (True, w1\<lparr>nx_eth_handle := Some h\<rparr>))"

definition power_phy :: "'e esp_net \<Rightarrow> 'e netw \<Rightarrow> 'e netw" where
  "power_phy en w = (if nx_power_pin w \<ge> 0 then snd (lib_call en (GpioPower (nx_power_pin w)) w) else w)"

definition ethernet_steps :: "'e esp_net \<Rightarrow> 'e netw \<Rightarrow> bool \<times> 'e netw" where
  "ethernet_steps en w =
     and_then (create_into en EthNetif (\<lambda>r w. w\<lparr>nx_eth_netif := r\<rparr>) w) (\<lambda>w.
     and_then (lib_call en (RegisterHandler HEth) w) (\<lambda>w.
     and_then (lib_call en (RegisterHandler HGotIpEth) w) (\<lambda>w.
     and_then (create_into en EthMac (\<lambda>r w. w\<lparr>nx_mac := r\<rparr>) (power_phy en w)) (\<lambda>w.
     and_then (create_into en (EthPhy (the (nx_create_phy w))) (\<lambda>r w. w\<lparr>nx_phy := r\<rparr>) w) (\<lambda>w.
     and_then (install_driver en w) (\<lambda>w.
     and_then (lib_call en (EthAttach (the (nx_eth_netif w)) (the (nx_eth_handle w))) w) (\<lambda>w.
       lib_call en (EthStart (the (nx_eth_handle w))) w)))))))"

definition ethernet_setup :: "'e esp_net \<Rightarrow> cfg_lan \<Rightarrow> 'e netw \<Rightarrow> bool \<times> 'e netw" where
  "ethernet_setup en c w =
     (let w0 = (if nx_eth_handle w \<noteq> None then snd (ethernet_setdown en w) else w)
      in case ethernet_steps en (ethernet_configure (la_phy c) (sint (la_pwr_gpio c)) w0) of
           (True, w1) \<Rightarrow> (True, w1)
         | (False, w1) \<Rightarrow> (False, snd (ethernet_setdown en w1)))"

section \<open>The state of the IP connection\<close>

definition ipnet_connected :: "'e netw \<Rightarrow> 'e netw" where
  "ipnet_connected w = (let w1 = w\<lparr>nx_Is_connected := True\<rparr> in call_back (nx_CONNECTED_cb w1) w1)"

text \<open>\<open>http\<close> tells whether the program has the HTTP server, which is taken down.\<close>

definition ipnet_disconnected :: "bool \<Rightarrow> 'e netw \<Rightarrow> 'e netw" where
  "ipnet_disconnected http w = (let w1 = w\<lparr>nx_Is_connected := False\<rparr> in if http then net_emit NHttpSetup w1 else w1)"

definition ipnet_isConnected :: "'e netw \<Rightarrow> bool" where
  "ipnet_isConnected w = nx_Is_connected w"

definition ipnet_cbRegister_gotIpAddr :: "nat option \<Rightarrow> 'e netw \<Rightarrow> 'e netw" where
  "ipnet_cbRegister_gotIpAddr cb w = w\<lparr>nx_gotIp_cb := cb\<rparr>"

definition ipnet_cbRegister_lostIpAddr :: "nat option \<Rightarrow> 'e netw \<Rightarrow> 'e netw" where
  "ipnet_cbRegister_lostIpAddr cb w = w\<lparr>nx_lostIp_cb := cb\<rparr>"

section \<open>Setting the interfaces up from the settings\<close>

text \<open>The environment of the program: the store, the table of settings and what the build is configured with. The state is that of
  the network and that of the store.\<close>

record ('w, 'h) net_env =
  ne_ops :: "('w, 'h) kvs_ops"
  ne_ns :: string
  ne_st :: settings
  ne_b :: build
  ne_wlan :: cfg_wlan
  ne_lan :: cfg_lan
  ne_USE_WLAN_AP :: bool
  ne_ap_ssid :: string
  ne_ap_password :: string

definition config_setup_wifiStation :: "('w, 'h) net_env \<Rightarrow> 'e esp_net \<Rightarrow> 'e netw \<times> 'w \<Rightarrow> ('e netw \<times> 'w) option" where
  "config_setup_wifiStation env en = (\<lambda>(x, w).
     (case config_read_wifiStation (ne_ops env) (ne_ns env) (ne_st env) (ne_b env) (ne_wlan env) w of
        Inl e \<Rightarrow> None
      | Inr (c, w1) \<Rightarrow> map_option (\<lambda>x1. (x1, w1)) (wifistation_setup en c x)))"

definition config_setup_ethernet :: "('w, 'h) net_env \<Rightarrow> 'e esp_net \<Rightarrow> 'e netw \<times> 'w \<Rightarrow> ('e netw \<times> 'w) option" where
  "config_setup_ethernet env en = (\<lambda>(x, w).
     (case config_read_ethernet (ne_ops env) (ne_ns env) (ne_st env) (ne_b env) (ne_lan env) w of
        Inl e \<Rightarrow> None
      | Inr (c, w1) \<Rightarrow> Some (snd (ethernet_setup en c x), w1)))"

definition config_setup_wifiAp :: "('w, 'h) net_env \<Rightarrow> 'e esp_net \<Rightarrow> 'e netw \<times> 'w \<Rightarrow> ('e netw \<times> 'w) option" where
  "config_setup_wifiAp env en = (\<lambda>(x, w). map_option (\<lambda>x1. (x1, w)) (wifiAp_setup en (ne_ap_ssid env) (ne_ap_password env) x))"

section \<open>Choosing the connection\<close>

text \<open>\<open>once || once++\<close>: the variable is set by the first call, whatever the initialization returns.\<close>

definition nwc_init :: "'e esp_net \<Rightarrow> 'e netw \<Rightarrow> bool \<times> 'e netw" where
  "nwc_init en w = (if nx_once w then (True, w) else lib_call en NetifInit (w\<lparr>nx_once := True\<rparr>))"

definition nwc_disconnect :: "'e esp_net \<Rightarrow> 'e netw \<Rightarrow> 'e netw option" where
  "nwc_disconnect en w =
     map_option (\<lambda>w1. w1\<lparr>nx_current := nwNone\<rparr>)
       (case nx_current w of
          nwNone \<Rightarrow> Some w
        | nwWlanAp \<Rightarrow> Some (wifiAp_setdown en w)
        | nwWlanSta \<Rightarrow> Some (wifistation_setdown en w)
        | nwLan \<Rightarrow> Some (snd (ethernet_setdown en w))
        | _ \<Rightarrow> None)"

definition nwc_connect :: "('w, 'h) net_env \<Rightarrow> 'e esp_net \<Rightarrow> nwConnection \<Rightarrow> bool \<Rightarrow> 'e netw \<times> 'w \<Rightarrow> (bool \<times> 'e netw \<times> 'w) option" where
  "nwc_connect env en nw force = (\<lambda>(x, w).
     if nx_current x \<noteq> nwNone \<and> \<not> force then Some (False, x, w)
     else (case nwc_init en x of
       (ok, x1) \<Rightarrow>
         if \<not> ok then Some (False, x1, w)
         else do {
           x2 \<leftarrow> nwc_disconnect en x1;
           (x3, w3) \<leftarrow> (case nw of
               nwNone \<Rightarrow> map_option (\<lambda>x3. (x3, w)) (nwc_disconnect en x2)
             | nwWlanAp \<Rightarrow> if ne_USE_WLAN_AP env then config_setup_wifiAp env en (x2, w) else None
             | nwWlanSta \<Rightarrow> if USE_WLAN (ne_b env) then config_setup_wifiStation env en (x2, w) else None
             | nwLan \<Rightarrow> if USE_LAN (ne_b env) then config_setup_ethernet env en (x2, w) else None
             | _ \<Rightarrow> None);
           Some (True, x3\<lparr>nx_current := nw\<rparr>, w3) }))"

definition nwc_connect_default :: "('w, 'h) net_env \<Rightarrow> 'e esp_net \<Rightarrow> nwConnection \<Rightarrow> 'e netw \<times> 'w \<Rightarrow> (bool \<times> 'e netw \<times> 'w) option" where
  "nwc_connect_default env en nw = (\<lambda>(x, w).
     if nw = nx_current x then Some (True, x, w)
     else do {
       (ok, x1, w1) \<leftarrow> nwc_connect env en nw True (x, w);
       if \<not> ok then Some (False, x1, w1) else Some (True, x1\<lparr>nx_default := nw\<rparr>, w1) })"

definition nwc_connect_fallback :: "('w, 'h) net_env \<Rightarrow> 'e esp_net \<Rightarrow> nwConnection \<Rightarrow> 'e netw \<times> 'w \<Rightarrow> (bool \<times> 'e netw \<times> 'w) option" where
  "nwc_connect_fallback env en nw = (\<lambda>(x, w).
     if nw = nx_current x then Some (True, x, w)
     else do {
       (ok, x1, w1) \<leftarrow> nwc_connect env en nw True (x, w);
       if \<not> ok then Some (False, x1, w1) else Some (True, x1\<lparr>nx_fallback := nw\<rparr>, w1) })"

section \<open>Runs\<close>

text \<open>The program chooses connections; the events of the interfaces and the functions of the main loop come in any order.\<close>

inductive nw_reachable :: "('w, 'h) net_env \<Rightarrow> 'e esp_net \<Rightarrow> 'e \<Rightarrow> 'w \<Rightarrow> 'e netw \<times> 'w \<Rightarrow> bool" for env en e0 w0 where
  begins: "nw_reachable env en e0 w0 (netw_init e0, w0)"
| connects: "nw_reachable env en e0 w0 s \<Longrightarrow> nwc_connect env en nw force s = Some (ok, s1) \<Longrightarrow> nw_reachable env en e0 w0 s1"
| defaults: "nw_reachable env en e0 w0 s \<Longrightarrow> nwc_connect_default env en nw s = Some (ok, s1) \<Longrightarrow> nw_reachable env en e0 w0 s1"
| falls_back: "nw_reachable env en e0 w0 s \<Longrightarrow> nwc_connect_fallback env en nw s = Some (ok, s1) \<Longrightarrow> nw_reachable env en e0 w0 s1"
| disconnects: "nw_reachable env en e0 w0 (x, w) \<Longrightarrow> nwc_disconnect en x = Some x1 \<Longrightarrow> nw_reachable env en e0 w0 (x1, w)"
| station_event: "nw_reachable env en e0 w0 (x, w) \<Longrightarrow> nw_reachable env en e0 w0 (sta_wifi_event_handler en ev x, w)"
| ap_event: "nw_reachable env en e0 w0 (x, w) \<Longrightarrow> nw_reachable env en e0 w0 (ap_wifi_event_handler ev x, w)"
| ethernet_event: "nw_reachable env en e0 w0 (x, w) \<Longrightarrow> nw_reachable env en e0 w0 (eth_event_handler ee x, w)"
| got_ip: "nw_reachable env en e0 w0 (x, w) \<Longrightarrow> nw_reachable env en e0 w0 (got_ip_event_handler ip gw netmask x, w)"
| lost_ip: "nw_reachable env en e0 w0 (x, w) \<Longrightarrow> nw_reachable env en e0 w0 (lost_ip_event_handler x, w)"
| is_up: "nw_reachable env en e0 w0 (x, w) \<Longrightarrow> nw_reachable env en e0 w0 (ipnet_connected x, w)"
| is_down: "nw_reachable env en e0 w0 (x, w) \<Longrightarrow> nw_reachable env en e0 w0 (ipnet_disconnected http x, w)"
| registers: "nw_reachable env en e0 w0 (x, w) \<Longrightarrow> nw_reachable env en e0 w0 (ipnet_cbRegister_gotIpAddr cb (ipnet_cbRegister_lostIpAddr cb2 x), w)"
| other: "nw_reachable env en e0 w0 (x, w) \<Longrightarrow> nw_reachable env en e0 w0 (x, w1)"

end
