(* ===== verification/NetworkProps.thy ===== *)
theory NetworkProps
  imports Network
begin

text \<open>The properties of the network: one interface at a time, and an Ethernet set-up that cleans up behind itself.\<close>

section \<open>What the operations keep\<close>

text \<open>The Ethernet driver that is installed could not be removed when that was tried.\<close>

definition uninstall_failed :: "'e netw \<Rightarrow> bool" where
  "uninstall_failed w \<longleftrightarrow> (\<exists>h. nx_eth_handle w = Some h \<and> NCall (EthUninstall h) False \<in> set (nx_trace w))"

definition keeps :: "'e netw \<Rightarrow> 'e netw \<Rightarrow> bool" where
  "keeps w w1 \<longleftrightarrow> nx_sta w1 = nx_sta w \<and> nx_ap w1 = nx_ap w \<and> nx_current w1 = nx_current w \<and> (nx_once w \<longrightarrow> nx_once w1)"

definition keeps_eth :: "'e netw \<Rightarrow> 'e netw \<Rightarrow> bool" where
  "keeps_eth w w1 \<longleftrightarrow> keeps w w1 \<and> nx_eth_handle w1 = nx_eth_handle w \<and> (uninstall_failed w \<longrightarrow> uninstall_failed w1)"

lemma uninstall_update [simp]: "uninstall_failed (w\<lparr>nx_sta := s\<rparr>) = uninstall_failed w" "uninstall_failed (w\<lparr>nx_ap := s\<rparr>) = uninstall_failed w"
  "uninstall_failed (w\<lparr>nx_current_connections := n\<rparr>) = uninstall_failed w"
  by (simp_all add: uninstall_failed_def)

lemma keeps_refl [simp]: "keeps w w" "keeps_eth w w"
  by (simp_all add: keeps_def keeps_eth_def)

lemma keeps_trans: "keeps a b \<Longrightarrow> keeps b c \<Longrightarrow> keeps a c"
  by (simp add: keeps_def)

lemma keeps_eth_trans: "keeps_eth a b \<Longrightarrow> keeps_eth b c \<Longrightarrow> keeps_eth a c"
  by (auto simp: keeps_eth_def intro: keeps_trans)

lemma keeps_eth_keeps: "keeps_eth a b \<Longrightarrow> keeps a b"
  by (simp add: keeps_eth_def)

lemma emit_keeps [simp]: "keeps_eth w (net_emit x w)"
  by (auto simp: keeps_eth_def keeps_def net_emit_def uninstall_failed_def)

lemma call_back_keeps [simp]: "keeps_eth w (call_back cb w)"
  by (simp add: call_back_def split: option.splits)

lemma lib_call_keeps [simp]: "keeps_eth w (snd (lib_call en c w))"
  by (auto simp: lib_call_def keeps_eth_def keeps_def net_emit_def uninstall_failed_def split: prod.splits)

lemma lib_create_keeps [simp]: "keeps_eth w (snd (lib_create en x w))"
  by (auto simp: lib_create_def keeps_eth_def keeps_def net_emit_def uninstall_failed_def split: prod.splits)

lemma lib_check_keeps: "lib_check en c w = Some w1 \<Longrightarrow> keeps_eth w w1"
  using lib_call_keeps [of w en c] by (cases "lib_call en c w") (auto simp: lib_check_def split: if_splits)

lemma lib_checks_keeps: "lib_checks en cs w = Some w1 \<Longrightarrow> keeps_eth w w1"
  by (induction cs arbitrary: w) (auto split: bind_splits intro: keeps_eth_trans lib_check_keeps)

section \<open>The interfaces\<close>

lemma station_down: "keeps_eth w ((wifistation_setdown en w)\<lparr>nx_sta := nx_sta w\<rparr>)" "nx_sta (wifistation_setdown en w) = None"
proof -
  have "keeps_eth w (snd (lib_call en c (snd (lib_call en d w))))" for c d
    using keeps_eth_trans [OF lib_call_keeps lib_call_keeps] .
  then show "keeps_eth w ((wifistation_setdown en w)\<lparr>nx_sta := nx_sta w\<rparr>)"
    by (auto simp: wifistation_setdown_def keeps_eth_def keeps_def split: option.splits)
  show "nx_sta (wifistation_setdown en w) = None" by (simp add: wifistation_setdown_def split: option.splits)
qed

lemma ap_down: "keeps_eth w ((wifiAp_setdown en w)\<lparr>nx_ap := nx_ap w\<rparr>)" "nx_ap (wifiAp_setdown en w) = None"
proof -
  have "keeps_eth w (snd (lib_call en c (snd (lib_call en d w))))" for c d
    using keeps_eth_trans [OF lib_call_keeps lib_call_keeps] .
  then show "keeps_eth w ((wifiAp_setdown en w)\<lparr>nx_ap := nx_ap w\<rparr>)"
    by (auto simp: wifiAp_setdown_def keeps_eth_def keeps_def split: option.splits)
  show "nx_ap (wifiAp_setdown en w) = None" by (simp add: wifiAp_setdown_def split: option.splits)
qed

text \<open>Removing the Ethernet: all of it is gone, unless the driver refuses.\<close>

definition eth_gone :: "'e netw \<Rightarrow> bool" where
  "eth_gone w \<longleftrightarrow> nx_eth_handle w = None \<and> nx_eth_netif w = None \<and> nx_mac w = None \<and> nx_phy w = None"

lemma lib_call_eth: "nx_eth_handle (snd (lib_call en c w)) = nx_eth_handle w" "nx_mac (snd (lib_call en c w)) = nx_mac w"
  "nx_phy (snd (lib_call en c w)) = nx_phy w"
  by (simp_all add: lib_call_def net_emit_def split: prod.splits)

lemma lib_call_failed: "lib_call en (EthUninstall h) w = (False, w1) \<Longrightarrow> nx_eth_handle w = Some h \<Longrightarrow> uninstall_failed w1"
  by (auto simp: lib_call_def net_emit_def uninstall_failed_def split: prod.splits)

lemma ethernet_down: "keeps w (snd (ethernet_setdown en w)) \<and>
    (if fst (ethernet_setdown en w) then eth_gone (snd (ethernet_setdown en w)) else uninstall_failed (snd (ethernet_setdown en w)))"
proof -
  have c: "keeps v (ethernet_clear en v) \<and> eth_gone (ethernet_clear en v)" if "nx_eth_handle v = None" for v
  proof -
    have "keeps (v\<lparr>nx_phy := None, nx_mac := None\<rparr>) (snd (lib_call en x (v\<lparr>nx_phy := None, nx_mac := None\<rparr>)))" for x
      by (rule keeps_eth_keeps [OF lib_call_keeps])
    then show ?thesis using that
      by (auto simp: ethernet_clear_def Let_def eth_gone_def lib_call_eth keeps_def uninstall_failed_def split: option.splits)
  qed
  show ?thesis
  proof (cases "nx_eth_handle w")
    case None
    then show ?thesis using c [of w] by (simp add: ethernet_setdown_def)
  next
    case (Some h)
    obtain ok w1 where u: "lib_call en (EthUninstall h) (snd (lib_call en (EthStop h) w)) = (ok, w1)" by fastforce
    have "keeps_eth w w1" using keeps_eth_trans [OF lib_call_keeps lib_call_keeps, of w en "EthUninstall h" en "EthStop h"] u by simp
    then have k: "keeps w w1" "keeps w (w1\<lparr>nx_eth_handle := None\<rparr>)" by (auto simp: keeps_eth_def keeps_def uninstall_failed_def)
    show ?thesis
    proof (cases ok)
      case True
      then show ?thesis using Some u c [of "w1\<lparr>nx_eth_handle := None\<rparr>"] keeps_trans [OF k(2)]
        by (simp add: ethernet_setdown_def)
    next
      case False
      then show ?thesis using Some u k(1) lib_call_failed [of en h "snd (lib_call en (EthStop h) w)" w1] by (simp add: ethernet_setdown_def lib_call_eth)
    qed
  qed
qed

lemma create_keeps: "(\<And>r w. keeps w (put r w)) \<Longrightarrow> keeps w (snd (create_into en x put w))"
  using keeps_eth_keeps [OF lib_create_keeps, of w en x] by (auto simp: create_into_def split: prod.splits intro: keeps_trans)

lemma and_then_keeps: "keeps w (snd r) \<Longrightarrow> (\<And>v. keeps v (snd (f v))) \<Longrightarrow> keeps w (snd (and_then r f))"
  by (auto simp: and_then_def split: prod.splits intro: keeps_trans)

lemma install_keeps: "keeps w (snd (install_driver en w))"
proof -
  have "keeps v (v\<lparr>nx_eth_handle := h\<rparr>)" for v h by (simp add: keeps_def uninstall_failed_def)
  moreover obtain r w1 where "lib_create en (EthDriver (the (nx_mac w)) (the (nx_phy w))) w = (r, w1)" by fastforce
  moreover then have "keeps w w1" using keeps_eth_keeps [OF lib_create_keeps, of w en "EthDriver (the (nx_mac w)) (the (nx_phy w))"] by simp
  ultimately show ?thesis by (auto simp: install_driver_def split: option.splits intro: keeps_trans)
qed

lemma power_keeps: "keeps w (power_phy en w)"
  using keeps_eth_keeps [OF lib_call_keeps] by (auto simp: power_phy_def)

lemma steps_keep: "keeps w (snd (ethernet_steps en w))"
proof -
  have p: "keeps w (w\<lparr>nx_eth_netif := r\<rparr>)" "keeps w (w\<lparr>nx_mac := r\<rparr>)" "keeps w (w\<lparr>nx_phy := r\<rparr>)" for w :: "'a netw" and r
    by (simp_all add: keeps_def uninstall_failed_def)
  have "keeps v (snd (create_into en EthMac (\<lambda>r w. w\<lparr>nx_mac := r\<rparr>) (power_phy en v)))" for v
    by (rule keeps_trans [OF power_keeps create_keeps [OF p(2)]])
  then show ?thesis unfolding ethernet_steps_def
    by (intro and_then_keeps create_keeps p install_keeps keeps_eth_keeps [OF lib_call_keeps])
qed

lemma ethernet_setup_keeps: "keeps w (snd (ethernet_setup en c w))"
proof -
  let ?w0 = "if nx_eth_handle w \<noteq> None then snd (ethernet_setdown en w) else w"
  let ?w1 = "ethernet_configure (la_phy c) (sint (la_pwr_gpio c)) ?w0"
  have "keeps ?w0 ?w1" by (simp add: keeps_def ethernet_configure_def uninstall_failed_def)
  moreover have "keeps w ?w0" using ethernet_down [of w en] by simp
  ultimately have k: "keeps w ?w1" by (rule keeps_trans [rotated])
  obtain ok w2 where s: "ethernet_steps en ?w1 = (ok, w2)" by fastforce
  then have "keeps w w2" using keeps_trans [OF k steps_keep, of en] by simp
  moreover have "keeps w2 (snd (ethernet_setdown en w2))" using ethernet_down [of w2 en] by simp
  ultimately show ?thesis using s by (auto simp: ethernet_setup_def Let_def split: bool.splits intro: keeps_trans)
qed


section \<open>One interface at a time\<close>

definition net_inv :: "'e netw \<Rightarrow> bool" where
  "net_inv w \<longleftrightarrow> (nx_sta w \<noteq> None \<longleftrightarrow> nx_current w = nwWlanSta) \<and> (nx_ap w \<noteq> None \<longleftrightarrow> nx_current w = nwWlanAp) \<and>
     (nx_eth_handle w \<noteq> None \<longrightarrow> nx_current w = nwLan \<or> uninstall_failed w) \<and> nx_current w \<in> {nwNone, nwWlanSta, nwWlanAp, nwLan}"

lemma update_inv [simp]: "uninstall_failed (w\<lparr>nx_current := c\<rparr>) = uninstall_failed w" "net_inv (w\<lparr>nx_default := d\<rparr>) = net_inv w"
  "net_inv (w\<lparr>nx_fallback := d\<rparr>) = net_inv w"
  by (simp_all add: net_inv_def uninstall_failed_def)

lemma net_inv_keeps: "net_inv w \<Longrightarrow> keeps_eth w w1 \<Longrightarrow> net_inv w1"
  by (auto simp: net_inv_def keeps_eth_def keeps_def)

definition all_down :: "'e netw \<Rightarrow> bool" where
  "all_down w \<longleftrightarrow> nx_sta w = None \<and> nx_ap w = None \<and> (nx_eth_handle w \<noteq> None \<longrightarrow> uninstall_failed w) \<and> nx_current w = nwNone"

lemma all_down_inv: "all_down w \<Longrightarrow> net_inv w"
  by (simp add: all_down_def net_inv_def)

lemma disconnect_down:
  assumes "net_inv w"
  shows "\<exists>w1. nwc_disconnect en w = Some w1 \<and> all_down w1"
proof -
  show ?thesis
  proof (cases "nx_current w")
    case nwWlanSta
    then show ?thesis using assms station_down(1) [of w en] station_down(2) [of en w] by (auto simp: nwc_disconnect_def net_inv_def all_down_def keeps_eth_def keeps_def uninstall_failed_def)
  next
    case nwWlanAp
    then show ?thesis using assms ap_down(1) [of w en] ap_down(2) [of en w] by (auto simp: nwc_disconnect_def net_inv_def all_down_def keeps_eth_def keeps_def uninstall_failed_def)
  next
    case nwLan
    then show ?thesis using assms ethernet_down [of w en]
      by (auto simp: nwc_disconnect_def net_inv_def all_down_def keeps_def eth_gone_def split: if_splits)
  qed (use assms in \<open>auto simp: nwc_disconnect_def net_inv_def all_down_def\<close>)
qed

lemma station_up:
  assumes "all_down w" "wifistation_setup en c w = Some w1"
  shows "net_inv (w1\<lparr>nx_current := nwWlanSta\<rparr>)"
proof -
  obtain h v where v: "lib_create en DefaultWifiSta w = (Some h, v)" using assms by (auto simp: wifistation_setup_def all_down_def split: prod.splits option.splits)
  obtain v1 where v1: "lib_checks en [WifiInit, RegisterHandler HWifiSta, RegisterHandler HGotIpSta, RegisterHandler HLostIpSta,
      WifiSetStorage, WifiSetModeSta] (v\<lparr>nx_sta := Some h\<rparr>) = Some v1" "user_set_station_config en c v1 = Some w1"
    using assms v by (auto simp: wifistation_setup_def all_down_def simp del: lib_checks.simps split: bind_splits)
  have "keeps_eth v1 w1" using v1(2) by (auto simp: user_set_station_config_def simp del: lib_checks.simps split: if_splits intro: lib_checks_keeps)
  with lib_checks_keeps [OF v1(1)] have "keeps_eth (v\<lparr>nx_sta := Some h\<rparr>) w1" by (rule keeps_eth_trans)
  moreover have "keeps_eth w v" using lib_create_keeps [of w en DefaultWifiSta] v by simp
  ultimately show ?thesis using assms(1) by (auto simp: net_inv_def all_down_def keeps_eth_def keeps_def uninstall_failed_def)
qed

lemma ap_up:
  assumes "all_down w" "wifiAp_setup en ssid pw w = Some w1"
  shows "net_inv (w1\<lparr>nx_current := nwWlanAp\<rparr>)"
proof -
  let ?w = "w\<lparr>nx_current_connections := 0, nx_connections_since_start := 0\<rparr>"
  obtain h v where v: "lib_create en DefaultWifiAp ?w = (Some h, v)" using assms by (auto simp: wifiAp_setup_def all_down_def split: prod.splits option.splits)
  have "lib_checks en [WifiInit, RegisterHandler HWifiAp, WifiSetModeAp, WifiSetConfigAp (wifi_config ssid pw), WifiStart] (v\<lparr>nx_ap := Some h\<rparr>) = Some w1"
    using assms v by (simp add: wifiAp_setup_def all_down_def del: lib_checks.simps)
  then have "keeps_eth (v\<lparr>nx_ap := Some h\<rparr>) w1" by (rule lib_checks_keeps)
  moreover have "keeps_eth ?w v" using lib_create_keeps [of ?w en DefaultWifiAp] v by simp
  ultimately show ?thesis using assms(1) by (auto simp: net_inv_def all_down_def keeps_eth_def keeps_def uninstall_failed_def)
qed

lemma lan_up: "all_down w \<Longrightarrow> net_inv ((snd (ethernet_setup en c w))\<lparr>nx_current := nwLan\<rparr>)"
  using ethernet_setup_keeps [of w en c] by (auto simp: net_inv_def all_down_def keeps_def uninstall_failed_def)

lemma connect_inv:
  assumes "net_inv (fst s)" "nwc_connect env en nw force s = Some (ok, s1)"
  shows "net_inv (fst s1) \<and> (ok \<longrightarrow> nx_current (fst s1) = nw) \<and> (\<not> ok \<longrightarrow> nx_current (fst s1) = nx_current (fst s))"
proof -
  obtain x w where s: "s = (x, w)" by (cases s)
  show ?thesis
  proof (cases "nx_current x \<noteq> nwNone \<and> \<not> force")
    case True
    then show ?thesis using assms s by (auto simp: nwc_connect_def)
  next
    case False
    obtain r x1 where i: "nwc_init en x = (r, x1)" by fastforce
    have k: "keeps_eth x x1" using i lib_call_keeps [of "x\<lparr>nx_once := True\<rparr>" en NetifInit]
      by (auto simp: nwc_init_def keeps_eth_def keeps_def uninstall_failed_def split: if_splits)
    then have inv1: "net_inv x1" using net_inv_keeps assms(1) s by auto
    show ?thesis
    proof (cases r)
      case False
      then show ?thesis using assms(2) s i inv1 k \<open>\<not> (nx_current x \<noteq> nwNone \<and> \<not> force)\<close> by (auto simp: nwc_connect_def keeps_eth_def keeps_def)
    next
      case True
      obtain x2 where x2: "nwc_disconnect en x1 = Some x2" "all_down x2" using disconnect_down [OF inv1] by blast
      obtain x3 where x3: "nwc_disconnect en x2 = Some x3" "all_down x3" using disconnect_down [OF all_down_inv [OF x2(2)]] by blast
      have "net_inv (x3\<lparr>nx_current := nwNone\<rparr>)" using x3(2) by (auto simp: net_inv_def all_down_def uninstall_failed_def)
      then show ?thesis using assms(2) s i True False x2(1) x3(1) station_up [OF x2(2)] ap_up [OF x2(2)] lan_up [OF x2(2)]
        by (cases nw) (auto simp: nwc_connect_def config_setup_wifiStation_def config_setup_ethernet_def config_setup_wifiAp_def
          split: if_splits sum.splits prod.splits bind_splits)
    qed
  qed
qed

lemma handlers_keep [simp]: "keeps_eth w (sta_wifi_event_handler en ev w)" "keeps_eth w (ap_wifi_event_handler ev w)" "keeps_eth w (eth_event_handler ee w)"
  "keeps_eth w (got_ip_event_handler ip gw nm w)" "keeps_eth w (lost_ip_event_handler w)" "keeps_eth w (ipnet_connected w)"
  "keeps_eth w (ipnet_disconnected http w)" "keeps_eth w (ipnet_cbRegister_gotIpAddr cb (ipnet_cbRegister_lostIpAddr cb2 w))"
proof -
  have up: "keeps_eth w v \<Longrightarrow> nx_sta v1 = nx_sta v \<Longrightarrow> nx_ap v1 = nx_ap v \<Longrightarrow> nx_current v1 = nx_current v \<Longrightarrow> nx_once v1 = nx_once v \<Longrightarrow>
      nx_eth_handle v1 = nx_eth_handle v \<Longrightarrow> nx_trace v1 = nx_trace v \<Longrightarrow> keeps_eth w v1" for v v1
    by (auto simp: keeps_eth_def keeps_def uninstall_failed_def)
  have a: "keeps_eth w (w\<lparr>nx_addr := 0\<rparr>)" by (rule up [OF keeps_refl(2)]) simp_all
  show "keeps_eth w (sta_wifi_event_handler en ev w)"
    using keeps_eth_trans [OF a lib_call_keeps, of en WifiConnect] by (auto simp: sta_wifi_event_handler_def Let_def split: wifi_event.splits intro: up)
  show "keeps_eth w (ap_wifi_event_handler ev w)" by (auto simp: ap_wifi_event_handler_def intro: up [OF keeps_refl(2)])
  show "keeps_eth w (eth_event_handler ee w)" by (simp add: eth_event_handler_def)
  show "keeps_eth w (got_ip_event_handler ip gw nm w)" unfolding got_ip_event_handler_def Let_def
    by (rule keeps_eth_trans [OF keeps_eth_trans [OF up [OF keeps_refl(2)] call_back_keeps] emit_keeps]) simp_all
  show "keeps_eth w (lost_ip_event_handler w)" unfolding lost_ip_event_handler_def
    by (rule keeps_eth_trans [OF call_back_keeps emit_keeps])
  show "keeps_eth w (ipnet_connected w)" unfolding ipnet_connected_def Let_def
    by (rule keeps_eth_trans [OF up [OF keeps_refl(2)] call_back_keeps]) simp_all
  have d: "keeps_eth w (w\<lparr>nx_Is_connected := False\<rparr>)" by (rule up [OF keeps_refl(2)]) simp_all
  show "keeps_eth w (ipnet_disconnected http w)" using d keeps_eth_trans [OF d emit_keeps] by (simp add: ipnet_disconnected_def Let_def)
  show "keeps_eth w (ipnet_cbRegister_gotIpAddr cb (ipnet_cbRegister_lostIpAddr cb2 w))"
    by (rule up [OF keeps_refl(2)]) (simp_all add: ipnet_cbRegister_gotIpAddr_def ipnet_cbRegister_lostIpAddr_def)
qed

lemma reachable_inv: "nw_reachable env en e0 w0 s \<Longrightarrow> net_inv (fst s)"
proof (induction rule: nw_reachable.induct)
  case begins
  then show ?case by (simp add: net_inv_def netw_init_def)
next
  case (connects s nw force ok s1)
  then show ?case using connect_inv by blast
next
  case (defaults s nw ok s1)
  then show ?case using defaults connect_inv [of s env en nw True]
    by (auto simp: nwc_connect_default_def split: if_splits bind_splits prod.splits)
next
  case (falls_back s nw ok s1)
  then show ?case using falls_back connect_inv [of s env en nw True]
    by (auto simp: nwc_connect_fallback_def split: if_splits bind_splits prod.splits)
next
  case (disconnects x w x1)
  then show ?case using disconnect_down [of x en] all_down_inv by fastforce
qed (auto intro: net_inv_keeps [OF _ handlers_keep(1)] net_inv_keeps [OF _ handlers_keep(2)] net_inv_keeps [OF _ handlers_keep(3)]
    net_inv_keeps [OF _ handlers_keep(4)] net_inv_keeps [OF _ handlers_keep(5)] net_inv_keeps [OF _ handlers_keep(6)] net_inv_keeps [OF _ handlers_keep(7)]
    net_inv_keeps [OF _ handlers_keep(8)])


text \<open>C36: At most one interface is up, whatever is connected in which order and whatever the calls of the SDK return: in every state
  that can be reached, the WLAN station is up exactly while it is the current connection, and so is the access point; an
  Ethernet driver is only installed while Ethernet is the current connection, unless this driver refused to be removed.\<close>

theorem nwc_one_interface:
  assumes "nw_reachable env en e0 w0 (x, w)"
  shows "(wifistation_is_active x \<longleftrightarrow> nx_current x = nwWlanSta) \<and> (wifiAp_is_active x \<longleftrightarrow> nx_current x = nwWlanAp) \<and>
    (nx_eth_handle x \<noteq> None \<longrightarrow> nx_current x = nwLan \<or> uninstall_failed x)"
  using reachable_inv [OF assms] by (simp add: net_inv_def wifistation_is_active_def wifiAp_is_active_def)

text \<open>A library whose calls all succeed but for a set, and which creates everything.\<close>

definition test_lib :: "net_call set \<Rightarrow> unit esp_net" where
  "test_lib bad = \<lparr>en_call = (\<lambda>c e. (c \<notin> bad, e)), en_create = (\<lambda>x e. (Some 1, e))\<rparr>"

definition ap_env :: "(unit, nat) net_env" where
  "ap_env = \<lparr>ne_ops = undefined, ne_ns = [], ne_st = undefined, ne_b = undefined, ne_wlan = undefined, ne_lan = undefined,
     ne_USE_WLAN_AP = True, ne_ap_ssid = ''home'', ne_ap_password = ''secret''\<rparr>"

theorem nwc_one_interface_witness:
  "\<exists>x. nwc_connect ap_env (test_lib {}) nwWlanAp False (netw_init (), ()) = Some (True, x, ()) \<and> wifiAp_is_active x \<and> \<not> wifistation_is_active x"
proof -
  have "\<exists>x. nwc_connect ap_env (test_lib {}) nwWlanAp False (netw_init (), ()) = Some (True, x, ()) \<and> nx_current x = nwWlanAp"
    by (simp add: nwc_connect_def nwc_init_def netw_init_def lib_call_def test_lib_def nwc_disconnect_def ap_env_def config_setup_wifiAp_def
        wifiAp_setup_def lib_create_def lib_check_def net_emit_def)
  then obtain x where x: "nwc_connect ap_env (test_lib {}) nwWlanAp False (netw_init (), ()) = Some (True, x, ())" "nx_current x = nwWlanAp" by blast
  have "nw_reachable ap_env (test_lib {}) () () (x, ())" by (rule nw_reachable.connects [OF nw_reachable.begins x(1)])
  from nwc_one_interface [OF this] x show ?thesis by auto
qed

section \<open>Setting up the Ethernet\<close>













text \<open>When the initialization of the network fails, connecting fails, but only once: the next attempt goes on without it.\<close>

lemma nwc_init_failure_forgotten:
  assumes "\<not> nx_once x" "en_call en NetifInit (nx_lib x) = (False, e)" "nx_current x = nwNone"
  shows "\<exists>x1. nwc_connect env en nw force (x, w) = Some (False, x1, w) \<and> nwc_init en x1 = (True, x1) \<and>
    (\<exists>x2. nwc_connect env en nwNone force (x1, w) = Some (True, x2, w) \<and> nx_trace x2 = nx_trace x @ [NCall NetifInit False])"
  using assms by (simp add: nwc_connect_def nwc_init_def lib_call_def net_emit_def nwc_disconnect_def)

end
