(* ===== verification/UartConsole.thy ===== *)
theory UartConsole
  imports TxtIo UoCallbacks ConfigGlue
begin

text \<open>
  The console of the device on its serial line (txtio/esp32/txtio_setup.cc): writing with translated line ends, the
  set-up of the driver and of the function pointers of the console, and printing published messages.

  The calls of the SDK are a record on the state \<open>'w\<close> of the line. None stands for an abort of the program and for reading a
  message that is no text as one.
\<close>

section \<open>Writing\<close>

abbreviation CR :: char where "CR \<equiv> CHR 0x0D"
abbreviation LF :: char where "LF \<equiv> CHR 0x0A"

type_synonym 'w writeFn = "string \<Rightarrow> 'w \<Rightarrow> int \<times> 'w"

record 'w con_port =
  cp_uart_write :: "'w writeFn"
  cp_write :: "'w writeFn"
  cp_putchar :: "char \<Rightarrow> 'w \<Rightarrow> int \<times> 'w"
  cp_getc :: "'w \<Rightarrow> int \<times> 'w"
  cp_driver_install :: "'w \<Rightarrow> bool \<times> 'w"
  cp_param_config :: "nat \<Rightarrow> 'w \<Rightarrow> bool \<times> 'w"

text \<open>
  The loop of priv_write: \<open>i\<close> is the index of the first of the characters that are left, \<open>prev_c\<close> and \<open>last_chunk\<close> are the
  previous character and the start of the chunk. A carriage return is skipped without becoming the previous
  character. The result False is the return of -1.
\<close>

fun priv_write_loop :: "'w writeFn \<Rightarrow> string \<Rightarrow> nat \<Rightarrow> string \<Rightarrow> char \<Rightarrow> nat \<Rightarrow> 'w \<Rightarrow> bool \<times> 'w" where
  "priv_write_loop wfn s i [] prev_c last_chunk w = (True, w)"
| "priv_write_loop wfn s i (c # cs) prev_c last_chunk w =
     (if c = CR \<or> (c = LF \<and> prev_c = CR) then priv_write_loop wfn s (i + 1) cs prev_c last_chunk w
      else if c = LF then
        (let chunk_len = i - last_chunk
         in case (if chunk_len > 0 then wfn (take chunk_len (drop last_chunk s)) w else (1, w)) of
              (r, w1) \<Rightarrow>
                if r < 1 then (False, w1)
                else (case wfn [CR, LF] w1 of (r2, w2) \<Rightarrow> if r2 < 1 then (False, w2) else priv_write_loop wfn s (i + 1) cs c (i + 1) w2))
      else if cs = [] then
        (let chunk_len = i - last_chunk + 1
         in case wfn (take chunk_len (drop last_chunk s)) w of (r, w1) \<Rightarrow> (r \<ge> 1, w1))
      else priv_write_loop wfn s (i + 1) cs c last_chunk w)"

definition priv_write :: "'w writeFn \<Rightarrow> string \<Rightarrow> 'w \<Rightarrow> int \<times> 'w" where
  "priv_write wfn s w = (case priv_write_loop wfn s 0 s NUL 0 w of (ok, w1) \<Rightarrow> (if ok then int (length s) else -1, w1))"

definition my_write :: "'w con_port \<Rightarrow> string \<Rightarrow> 'w \<Rightarrow> int \<times> 'w" where
  "my_write cp = priv_write (cp_uart_write cp)"

text \<open>\<open>cli_task\<close> tells whether the program is configured with a task of the console.\<close>

definition es_io_putc :: "bool \<Rightarrow> 'w con_port \<Rightarrow> char \<Rightarrow> 'w \<Rightarrow> int \<times> 'w" where
  "es_io_putc cli_task cp c = (if cli_task then my_write cp [c] else cp_putchar cp c)"

definition es_io_putc_crlf :: "bool \<Rightarrow> 'w con_port \<Rightarrow> char \<Rightarrow> 'w \<Rightarrow> int \<times> 'w" where
  "es_io_putc_crlf cli_task cp c w =
     (if c = CR then (1, w)
      else if c = LF then (case es_io_putc cli_task cp CR w of (r, w1) \<Rightarrow> if r < 0 then (-1, w1) else es_io_putc cli_task cp c w1)
      else es_io_putc cli_task cp c w)"

section \<open>Published messages\<close>

definition write_line :: "'w writeFn \<Rightarrow> uo_ptr option \<Rightarrow> 'w \<Rightarrow> 'w option" where
  "write_line wr p w = (case p of
     None \<Rightarrow> Some w
   | Some (PText t) \<Rightarrow> Some (snd (wr [CR, LF] (snd (wr t w))))
   | Some (PPin _) \<Rightarrow> None)"

definition con_pctChange_cb :: "bool \<Rightarrow> 'w con_port \<Rightarrow> uo_msg \<Rightarrow> 'w \<Rightarrow> 'w option" where
  "con_pctChange_cb cli_task cp msg w =
     (let wr = (if cli_task then cp_uart_write cp else cp_write cp)
      in do { w1 \<leftarrow> write_line wr (uoCb_txtFromMsg msg) w; write_line wr (uoCb_jsonFromMsg msg) w1 })"

section \<open>Set-up\<close>

record con_cfg =
  cf_flags :: uo_flags
  cf_verbose :: int
  cf_baud :: nat

text \<open>The variables of the program: the flag of the function, the pointers of the console, the level of the log and the
  table of subscriptions.\<close>

record ('w, 'c) con_state =
  cn_once :: bool
  cn_io :: "'w txtio"
  cn_verbose :: int
  cn_log_level :: int
  cn_uo :: "'c uo_state"

definition initialize_console :: "'w con_port \<Rightarrow> con_cfg \<Rightarrow> ('w, 'c) con_state \<Rightarrow> 'w \<Rightarrow> (('w, 'c) con_state \<times> 'w) option" where
  "initialize_console cp cfg s w =
     (if cn_once s then Some (s, w)
      else (case cp_driver_install cp w of (ok, w1) \<Rightarrow>
        if \<not> ok then None
        else (case cp_param_config cp (cf_baud cfg) w1 of (ok, w2) \<Rightarrow> if \<not> ok then None else Some (s\<lparr>cn_once := True\<rparr>, w2))))"

text \<open>The fourth event is gen_app_state_change; the result of the subscription is ignored.\<close>

definition con_flags :: "uo_flags \<Rightarrow> uo_flags" where
  "con_flags f = f\<lparr>evt_flags := evt_flags f OR EVT_pin_change OR EVT_ip_address_change OR 0x08 OR EVT_gen_app_error_message OR EVT_gen_app_log_message,
     fmt_flags := fmt_flags f OR FMT_json OR FMT_txt\<rparr>"

definition con_callback_subscribe :: "'c \<Rightarrow> uo_flags \<Rightarrow> 'c uo_state \<Rightarrow> 'c uo_state" where
  "con_callback_subscribe cb f st = snd (uoCb_subscribe st cb (con_flags f))"

definition txtio_mcu_setup :: "bool \<Rightarrow> 'w con_port \<Rightarrow> 'c \<Rightarrow> con_cfg \<Rightarrow> ('w, 'c) con_state \<Rightarrow> 'w \<Rightarrow> (('w, 'c) con_state \<times> 'w) option" where
  "txtio_mcu_setup cli_task cp cb cfg s w = do {
     (s1, w1) \<leftarrow> (if cli_task then initialize_console cp cfg s w else Some (s, w));
     let s2 = s1\<lparr>cn_io := \<lparr>io_putc_fun = Some (es_io_putc_crlf cli_task cp), io_getc_fun = Some (cp_getc cp)\<rparr>, cn_log_level := cf_verbose cfg\<rparr>;
     Some (s2\<lparr>cn_uo := con_callback_subscribe cb (cf_flags cfg) (cn_uo s2)\<rparr>, w1) }"

text \<open>The null pointer that txtio_setup looks for is not looked for behind it.\<close>

definition txtio_setup :: "bool \<Rightarrow> 'w con_port \<Rightarrow> 'c \<Rightarrow> con_cfg option \<Rightarrow> ('w, 'c) con_state \<Rightarrow> 'w \<Rightarrow> (('w, 'c) con_state \<times> 'w) option" where
  "txtio_setup cli_task cp cb co s w =
     (case co of
        None \<Rightarrow> None
      | Some cfg \<Rightarrow> txtio_mcu_setup cli_task cp cb cfg (s\<lparr>cn_verbose := cf_verbose cfg\<rparr>) w)"

text \<open>From the settings: the level is read, everything else is given. \<open>baud\<close> is the one the build is configured with.\<close>

definition config_setup_txtio ::
  "('k, 'h) kvs_ops \<Rightarrow> string \<Rightarrow> settings \<Rightarrow> build \<Rightarrow> nat \<Rightarrow> bool \<Rightarrow> 'w con_port \<Rightarrow> 'c \<Rightarrow> uo_flags \<Rightarrow> ('w, 'c) con_state \<Rightarrow> 'w \<Rightarrow> 'k \<Rightarrow>
     (('w, 'c) con_state \<times> 'w \<times> 'k) option" where
  "config_setup_txtio ops ns st b baud cli_task cp cb f s w k =
     (case config_read_txtio ops ns st b \<lparr>tx_verbose = 0\<rparr> k of
        Inl e \<Rightarrow> None
      | Inr (c, k1) \<Rightarrow>
          (let flags = f\<lparr>evt_flags := evt_flags f OR EVT_pin_change OR 0x08, fmt_flags := fmt_flags f OR FMT_json OR FMT_txt\<rparr>
           in map_option (\<lambda>(s1, w1). (s1, w1, k1))
             (txtio_setup cli_task cp cb (Some \<lparr>cf_flags = flags, cf_verbose = sint (tx_verbose c), cf_baud = baud\<rparr>) s w)))"

section \<open>Line ends\<close>

text \<open>The text on the line: each line feed as both characters, carriage returns left out.\<close>

definition crlf_char :: "char \<Rightarrow> string" where
  "crlf_char c = (if c = CR then [] else if c = LF then [CR, LF] else [c])"

definition crlf :: "string \<Rightarrow> string" where
  "crlf s = concat (map crlf_char s)"

lemma crlf_text_simps [simp]: "crlf [] = []" "crlf (c # s) = crlf_char c @ crlf s" "crlf (s @ t) = crlf s @ crlf t"
  by (simp_all add: crlf_def)

lemma crlf_id: "CR \<notin> set s \<Longrightarrow> LF \<notin> set s \<Longrightarrow> crlf s = s"
  by (induction s) (auto simp: crlf_char_def)

text \<open>A writer that takes every text that is not empty, and the line it leaves.\<close>

definition takes_all :: "'w writeFn \<Rightarrow> ('w \<Rightarrow> string) \<Rightarrow> bool" where
  "takes_all wfn line \<longleftrightarrow> (\<forall>s w. s \<noteq> [] \<longrightarrow> fst (wfn s w) \<ge> 1 \<and> line (snd (wfn s w)) = line w @ s)"

lemma takes_all_cases: "takes_all wfn line \<Longrightarrow> s \<noteq> [] \<Longrightarrow> \<exists>r w1. wfn s w = (r, w1) \<and> r \<ge> 1 \<and> line w1 = line w @ s"
  unfolding takes_all_def by (metis prod.collapse)

text \<open>
  The loop within a text without carriage returns; what is done ends with a chunk which
  has no line feed and is not written yet.
\<close>

lemma priv_write_loop_ok:
  assumes t: "takes_all wfn line"
  shows "CR \<notin> set (pre @ chunk @ cs) \<Longrightarrow> LF \<notin> set chunk \<Longrightarrow> prev \<noteq> CR \<Longrightarrow> cs = [] \<longrightarrow> chunk = [] \<Longrightarrow>
    \<exists>w1. priv_write_loop wfn (pre @ chunk @ cs) (length pre + length chunk) cs prev (length pre) w = (True, w1) \<and>
      line w1 = line w @ crlf (chunk @ cs)"
proof (induction cs arbitrary: pre chunk prev w)
  case (Cons c cs)
  have c: "c \<noteq> CR" using Cons.prems(1) by auto
  have len: "length pre + length chunk + 1 = length (pre @ chunk @ [c])" by simp
  show ?case
  proof (cases "c = LF")
    case True
    obtain r w1 where w1: "(if length chunk > 0 then wfn chunk w else (1, w)) = (r, w1)" "r \<ge> 1" "line w1 = line w @ chunk"
      using takes_all_cases [OF t, of chunk w] by (cases "chunk = []") auto
    obtain r2 w2 where w2: "wfn [CR, LF] w1 = (r2, w2)" "r2 \<ge> 1" "line w2 = line w1 @ [CR, LF]"
      using takes_all_cases [OF t, of "[CR, LF]" w1] by auto
    from Cons.IH [of "pre @ chunk @ [c]" "[]" c w2] Cons.prems(1) c obtain w3 where
      "priv_write_loop wfn (pre @ chunk @ c # cs) (length pre + length chunk + 1) cs c (length pre + length chunk + 1) w2 = (True, w3)"
      "line w3 = line w2 @ crlf cs" by auto
    then show ?thesis using True w1 w2 Cons.prems(2,3) crlf_id [of chunk] Cons.prems(1) by (cases "chunk = []") (auto simp: crlf_char_def Let_def)
  next
    case False
    show ?thesis
    proof (cases "cs = []")
      case True
      obtain r w1 where w1: "wfn (chunk @ [c]) w = (r, w1)" "r \<ge> 1" "line w1 = line w @ chunk @ [c]"
        using takes_all_cases [OF t, of "chunk @ [c]" w] by auto
      then show ?thesis using True False c crlf_id [of chunk] Cons.prems(1,2) by (simp add: crlf_char_def)
    next
      case cs: False
      from Cons.IH [of pre "chunk @ [c]" c w] Cons.prems(1,2) c False cs obtain w1 where
        "priv_write_loop wfn (pre @ chunk @ c # cs) (length pre + length chunk + 1) cs c (length pre) w = (True, w1)"
        "line w1 = line w @ crlf (chunk @ c # cs)" by auto
      then show ?thesis using False c cs by simp
    qed
  qed
qed simp

lemma priv_write_ok:
  assumes "takes_all wfn line" "CR \<notin> set s"
  shows "\<exists>w1. priv_write wfn s w = (int (length s), w1) \<and> line w1 = line w @ crlf s"
  using priv_write_loop_ok [OF assms(1), of "[]" "[]" s NUL w] assms(2) by (auto simp: priv_write_def)

text \<open>A carriage return that ends the text takes what is in front of it with it: none of the last line is written.\<close>

lemma priv_write_loses_line: "priv_write wfn [c, CR] w = (2, w)" if "c \<noteq> LF"
  using that by (simp add: priv_write_def)

lemma putc_crlf_ok:
  assumes "takes_all (cp_uart_write cp) line"
  shows "\<exists>r w1. es_io_putc_crlf True cp c w = (r, w1) \<and> r = 1 \<and> line w1 = line w @ crlf_char c"
proof (cases "c = CR")
  case True
  then show ?thesis by (simp add: es_io_putc_crlf_def crlf_char_def)
next
  case False
  have "es_io_putc True cp CR w = (1, w)" by (simp add: es_io_putc_def my_write_def priv_write_def)
  moreover have "\<exists>w1. es_io_putc True cp c w = (1, w1) \<and> line w1 = line w @ crlf_char c"
    using priv_write_ok [OF assms, of "[c]" w] False by (auto simp: es_io_putc_def my_write_def)
  ultimately show ?thesis using False by (auto simp: es_io_putc_crlf_def)
qed

end
