(* ===== verification/UartConsoleProps.thy ===== *)
theory UartConsoleProps
  imports UartConsole
begin

text \<open>The property of the console of the device: what is printed and what is published reaches its line.\<close>

lemma puts_crlf:
  assumes "takes_all (cp_uart_write cp) line"
  shows "\<exists>w1. puts_loop (es_io_putc_crlf True cp) s w = (0, w1) \<and> line w1 = line w @ crlf s"
proof (induction s arbitrary: w)
  case (Cons c s)
  obtain w1 where w1: "es_io_putc_crlf True cp c w = (1, w1)" "line w1 = line w @ crlf_char c"
    using putc_crlf_ok [OF assms, of c w] by auto
  from Cons.IH [of w1] w1 show ?case by auto
qed simp

lemma write_crlf:
  assumes "takes_all (cp_uart_write cp) line"
  shows "n \<le> length s \<Longrightarrow> \<exists>w1. write_loop (es_io_putc_crlf True cp) s n res w = Some ((res, 0), w1) \<and> line w1 = line w @ crlf (take n s)"
proof (induction s arbitrary: n w)
  case (Cons c s)
  show ?case
  proof (cases n)
    case (Suc k)
    obtain w1 where w1: "es_io_putc_crlf True cp c w = (1, w1)" "line w1 = line w @ crlf_char c"
      using putc_crlf_ok [OF assms, of c w] by auto
    from Cons.IH [of k w1] w1 Cons.prems Suc show ?thesis by auto
  qed simp
qed simp

lemma line_written:
  assumes "takes_all wr line" "t \<noteq> []"
  shows "\<exists>w1. write_line wr (Some (PText t)) w = Some w1 \<and> line w1 = line w @ t @ [CR, LF]"
proof -
  obtain r w1 where w1: "wr t w = (r, w1)" "line w1 = line w @ t" using takes_all_cases [OF assms] by blast
  obtain r2 w2 where "wr [CR, LF] w1 = (r2, w2)" "line w2 = line w1 @ [CR, LF]" using takes_all_cases [OF assms(1), of "[CR, LF]" w1] by auto
  with w1 show ?thesis by (simp add: write_line_def)
qed

text \<open>C38: After the set-up of the console on a line that takes all texts, what the program prints reaches the line with every
  line feed as carriage return and line feed and without other carriage returns, through io_puts as well as through
  io_write; and a message published as text, of an event the console subscribes to, is delivered to it, which puts it on a
  line of its own.\<close>

theorem console_prints:
  assumes "takes_all (cp_uart_write cp) line" "fst (cp_driver_install cp w)" "\<And>w. fst (cp_param_config cp (cf_baud cfg) w)"
    and "uo_inv (cn_uo s)" "fst (uoCb_subscribe (cn_uo s) cb (con_flags (cf_flags cfg)))"
    and "flags_match (con_flags (cf_flags cfg)) fl" "fmt_flags fl = FMT_txt" "msg \<noteq> []"
  shows "\<exists>s1 w1. txtio_setup True cp cb (Some cfg) s w = Some (s1, w1) \<and>
    (\<forall>t v. \<exists>v1. io_puts (cn_io s1) t v = (0, v1) \<and> line v1 = line v @ crlf t) \<and>
    (\<forall>t v. \<exists>v1. io_write (cn_io s1) t (length t) v = Some (int (length t), v1) \<and> line v1 = line v @ crlf t) \<and>
    (cb, PText msg, fl) \<in> set (uoCb_publish (cn_uo s1) (uoCb_filter (cn_uo s1) fl) (PText msg) fl) \<and>
    (\<forall>v. \<exists>v1. con_pctChange_cb True cp (PText msg, fl) v = Some v1 \<and> line v1 = line v @ msg @ [CR, LF])"
proof -
  obtain wa where wa: "cp_driver_install cp w = (True, wa)" using assms(2) by (metis prod.collapse)
  obtain wb where wb: "cp_param_config cp (cf_baud cfg) wa = (True, wb)" using assms(3) [of wa] by (metis prod.collapse)
  let ?uo = "con_callback_subscribe cb (cf_flags cfg) (cn_uo s)"
  let ?io = "\<lparr>io_putc_fun = Some (es_io_putc_crlf True cp), io_getc_fun = Some (cp_getc cp)\<rparr>"
  have su: "\<exists>s1 w1. txtio_setup True cp cb (Some cfg) s w = Some (s1, w1) \<and> cn_io s1 = ?io \<and> cn_uo s1 = ?uo"
    by (auto simp: txtio_setup_def txtio_mcu_setup_def initialize_console_def wa wb)
  then obtain s1 w1 where s1: "txtio_setup True cp cb (Some cfg) s w = Some (s1, w1)" "cn_io s1 = ?io" "cn_uo s1 = ?uo" by blast
  have puts: "\<forall>t v. \<exists>v1. io_puts (cn_io s1) t v = (0, v1) \<and> line v1 = line v @ crlf t"
    using puts_crlf [OF assms(1)] s1(2) by (simp add: io_puts_def)
  have wr: "\<forall>t v. \<exists>v1. io_write (cn_io s1) t (length t) v = Some (int (length t), v1) \<and> line v1 = line v @ crlf t"
  proof (intro allI)
    fix t v
    from write_crlf [OF assms(1), of "length t" t "int (length t)" v] show "\<exists>v1. io_write (cn_io s1) t (length t) v = Some (int (length t), v1) \<and> line v1 = line v @ crlf t"
      using s1(2) by (auto simp: io_write_def)
  qed
  have sub: "subscribed ?uo cb (con_flags (cf_flags cfg))" "uo_inv ?uo"
    using subscribe_result [OF assms(4) prod.collapse [symmetric], of cb "con_flags (cf_flags cfg)"] assms(5) by (auto simp: con_callback_subscribe_def)
  then have "(cb, PText msg, fl) \<in> set (uoCb_publish (cn_uo s1) (uoCb_filter (cn_uo s1) fl) (PText msg) fl)"
    using publish_filtered [OF sub(2), of fl "PText msg"] assms(6) s1(3) by auto
  moreover have "\<forall>v. \<exists>v1. con_pctChange_cb True cp (PText msg, fl) v = Some v1 \<and> line v1 = line v @ msg @ [CR, LF]"
  proof
    fix v
    obtain v1 where v1: "write_line (cp_uart_write cp) (Some (PText msg)) v = Some v1" "line v1 = line v @ msg @ [CR, LF]"
      using line_written [OF assms(1,8)] by blast
    have "uoCb_txtFromMsg (PText msg, fl) = Some (PText msg)" "uoCb_jsonFromMsg (PText msg, fl) = None"
      using assms(7) by (simp_all add: uoCb_txtFromMsg_def uoCb_jsonFromMsg_def FMT_txt_def FMT_json_def)
    then show "\<exists>v1. con_pctChange_cb True cp (PText msg, fl) v = Some v1 \<and> line v1 = line v @ msg @ [CR, LF]"
      using v1 by (simp add: con_pctChange_cb_def write_line_def [of _ None])
  qed
  ultimately show ?thesis using s1(1) puts wr by blast
qed

definition test_port :: "string con_port" where
  "test_port = \<lparr>cp_uart_write = (\<lambda>s w. (int (length s), w @ s)), cp_write = (\<lambda>s w. (0, w)), cp_putchar = (\<lambda>c w. (0, w)), cp_getc = (\<lambda>w. (-1, w)),
     cp_driver_install = (\<lambda>w. (True, w)), cp_param_config = (\<lambda>b w. (True, w))\<rparr>"

lemma test_port_takes_all: "takes_all (cp_uart_write test_port) id"
  by (simp add: takes_all_def test_port_def Suc_le_eq)

theorem console_prints_witness:
  "\<exists>s1 w1. txtio_setup True test_port (7 :: nat) (Some \<lparr>cf_flags = uo_flags0, cf_verbose = 3, cf_baud = 115200\<rparr>)
      \<lparr>cn_once = False, cn_io = \<lparr>io_putc_fun = None, io_getc_fun = None\<rparr>, cn_verbose = 0, cn_log_level = 0, cn_uo = uo_init\<rparr> [] = Some (s1, w1) \<and>
    snd (io_puts (cn_io s1) (''a'' @ [LF]) []) = ''a'' @ [CR, LF]"
proof -
  let ?cfg = "\<lparr>cf_flags = uo_flags0, cf_verbose = 3, cf_baud = 115200\<rparr>" and ?fl = "\<lparr>evt_flags = EVT_gen_app_log_message, fmt_flags = FMT_txt, tgt_flags = 0\<rparr>"
  let ?s = "\<lparr>cn_once = False, cn_io = \<lparr>io_putc_fun = None, io_getc_fun = None\<rparr>, cn_verbose = 0, cn_log_level = 0, cn_uo = uo_init :: nat uo_state\<rparr>"
  have p: "fst (cp_driver_install test_port [])" "\<And>w. fst (cp_param_config test_port (cf_baud ?cfg) w)" by (simp_all add: test_port_def)
  have "\<exists>i<cbs_size. \<not> uo_enable (uo_init :: nat uo_state) ! i" by (rule exI [of _ 0]) (simp add: uo_init_def cbs_size_def)
  then have u: "uo_inv (cn_uo ?s)" "fst (uoCb_subscribe (cn_uo ?s) 7 (con_flags (cf_flags ?cfg)))"
    using subscribe_fails [OF uo_inv_init, of "7 :: nat" "con_flags (cf_flags ?cfg)"] by (simp_all add: uo_inv_init)
  have f: "flags_match (con_flags (cf_flags ?cfg)) ?fl" "fmt_flags ?fl = FMT_txt" "''x'' \<noteq> []"
    by (simp_all add: flags_match_def con_flags_def uo_flags0_def EVT_pin_change_def EVT_ip_address_change_def EVT_gen_app_error_message_def
        EVT_gen_app_log_message_def FMT_txt_def FMT_json_def)
  from console_prints [OF test_port_takes_all p u f] obtain s1 w1 where
    "txtio_setup True test_port 7 (Some ?cfg) ?s [] = Some (s1, w1)"
    "\<forall>t v. \<exists>v1. io_puts (cn_io s1) t v = (0, v1) \<and> id v1 = id v @ crlf t" by blast
  then show ?thesis by (intro exI [of _ s1] exI [of _ w1]) (auto simp: crlf_char_def dest: spec [of _ "''a'' @ [LF]"])
qed

end
