(* ===== verification/MainLoop.thy ===== *)
theory MainLoop
  imports Main "HOL-Library.Monad_Syntax" "HOL-Library.Multiset"
begin

text \<open>
  The queue of functions to be called by the main task (main_loop/esp32/main_queue.cc), and the one of the host build, which
  calls them at once (main_loop/host/main_queue.cc).

  A function is a value of type \<open>'f\<close>, None a null pointer; the queue and the event group of the SDK are the list of
  the functions in it, at most as long as it was created for, and the result of setting the bits. None as a result stands for a failed
  assertion. Sending waits for at most ten ticks; the model has the result of a queue that stays full.
\<close>

record ('f, 'a) main_loop =
  ml_msgQueue :: "'f list option"
  ml_length :: nat
  ml_eventGroup :: bool
  ml_eventBit :: nat
  ml_app :: 'a

text \<open>\<open>created\<close> tells whether the SDK had memory for the queue.\<close>

definition mainLoop_setup :: "bool \<Rightarrow> nat \<Rightarrow> bool \<Rightarrow> nat \<Rightarrow> ('f, 'a) main_loop \<Rightarrow> (bool \<times> ('f, 'a) main_loop) option" where
  "mainLoop_setup created queue_length event_group event_bit s =
     (if ml_msgQueue s \<noteq> None then None
      else (let s1 = s\<lparr>ml_eventGroup := event_group, ml_eventBit := event_bit\<rparr>
        in Some (if created then (True, s1\<lparr>ml_msgQueue := Some [], ml_length := queue_length\<rparr>) else (False, s1))))"

text \<open>\<open>bits\<close> tells whether the bits that were set are still there when the call returns: a task that waits for
  them may have cleared them.\<close>

definition mainLoop_pushMessage :: "bool \<Rightarrow> 'f option \<Rightarrow> ('f, 'a) main_loop \<Rightarrow> (bool \<times> ('f, 'a) main_loop) option" where
  "mainLoop_pushMessage bits msg s =
     (case (ml_msgQueue s, msg) of
        (Some q, Some f) \<Rightarrow>
          Some (if \<not> length q < ml_length s then (False, s)
                else (\<not> (ml_eventGroup s \<and> \<not> bits), s\<lparr>ml_msgQueue := Some (q @ [f])\<rparr>))
      | _ \<Rightarrow> None)"

definition mainLoop_pushMessage_fromISR :: "bool \<Rightarrow> 'f option \<Rightarrow> ('f, 'a) main_loop \<Rightarrow> (bool \<times> ('f, 'a) main_loop) option" where
  "mainLoop_pushMessage_fromISR bits msg s =
     (case (ml_msgQueue s, msg) of
        (Some q, Some f) \<Rightarrow>
          Some (if \<not> length q < ml_length s then (False, s)
                else (\<not> (ml_eventGroup s \<and> \<not> bits), s\<lparr>ml_msgQueue := Some (f # q)\<rparr>))
      | _ \<Rightarrow> None)"

definition mainLoop_callFun :: "bool \<Rightarrow> 'f option \<Rightarrow> ('f, 'a) main_loop \<Rightarrow> (bool \<times> ('f, 'a) main_loop) option" where
  "mainLoop_callFun = mainLoop_pushMessage"

definition mainLoop_callFun_fromISR :: "bool \<Rightarrow> 'f option \<Rightarrow> ('f, 'a) main_loop \<Rightarrow> (bool \<times> ('f, 'a) main_loop) option" where
  "mainLoop_callFun_fromISR = mainLoop_pushMessage_fromISR"

text \<open>The timers of the SDK: creating, starting, stopping and deleting with their results; the callback of a timer.\<close>

record 't timers =
  tm_create :: "nat \<Rightarrow> bool \<Rightarrow> 't \<Rightarrow> nat option \<times> 't"
  tm_start :: "nat \<Rightarrow> 't \<Rightarrow> bool \<times> 't"
  tm_stop :: "nat \<Rightarrow> 't \<Rightarrow> bool \<times> 't"
  tm_delete :: "nat \<Rightarrow> 't \<Rightarrow> bool \<times> 't"

definition mainLoop_callFunByTimer :: "'t timers \<Rightarrow> nat \<Rightarrow> bool \<Rightarrow> 't \<Rightarrow> nat option \<times> 't" where
  "mainLoop_callFunByTimer tm delay_ms periodic t =
     (case tm_create tm delay_ms periodic t of
        (None, t1) \<Rightarrow> (None, t1)
      | (Some h, t1) \<Rightarrow> (case tm_start tm h t1 of (ok, t2) \<Rightarrow> (if ok then Some h else None, t2)))"

definition timer_callback :: "bool \<Rightarrow> 'f option \<Rightarrow> ('f, 'a) main_loop \<Rightarrow> ('f, 'a) main_loop option" where
  "timer_callback bits f s = map_option snd (mainLoop_callFun bits f s)"

definition mainLoop_stopFun :: "'t timers \<Rightarrow> nat option \<Rightarrow> bool \<Rightarrow> 't \<Rightarrow> bool \<times> 't" where
  "mainLoop_stopFun tm tmr delete_timer t =
     (case tmr of
        None \<Rightarrow> (False, t)
      | Some h \<Rightarrow>
          (case tm_stop tm h t of (hasStopped, t1) \<Rightarrow>
             if \<not> delete_timer \<or> \<not> hasStopped then (hasStopped, t1) else tm_delete tm h t1))"

text \<open>
  The loop of mainLoop_processMessages; \<open>run f\<close> is what the function does, which may push messages. It need not end when
  \<open>max_count\<close> is 0, so the turns are bounded: Some None is the result of a run that is not over then.
\<close>

fun process_loop :: "nat \<Rightarrow> ('f \<Rightarrow> ('f, 'a) main_loop \<Rightarrow> ('f, 'a) main_loop option) \<Rightarrow> nat \<Rightarrow> nat \<Rightarrow> ('f, 'a) main_loop \<Rightarrow> (nat \<times> ('f, 'a) main_loop) option option" where
  "process_loop 0 run max_count i s = Some None"
| "process_loop (Suc turns) run max_count i s =
     (if max_count = 0 \<or> i < max_count then
        (case ml_msgQueue s of
           None \<Rightarrow> None
         | Some [] \<Rightarrow> Some (Some (i, s))
         | Some (f # q) \<Rightarrow> do { s1 \<leftarrow> run f (s\<lparr>ml_msgQueue := Some q\<rparr>); process_loop turns run max_count (i + 1) s1 })
      else Some (Some (i, s)))"

definition mainLoop_processMessages ::
  "nat \<Rightarrow> ('f \<Rightarrow> ('f, 'a) main_loop \<Rightarrow> ('f, 'a) main_loop option) \<Rightarrow> nat \<Rightarrow> ('f, 'a) main_loop \<Rightarrow> (nat \<times> ('f, 'a) main_loop) option option" where
  "mainLoop_processMessages turns run max_count s = (if ml_msgQueue s = None then None else process_loop turns run max_count 0 s)"

text \<open>The host build.\<close>

definition host_mainLoop_callFun :: "('f \<Rightarrow> 'a \<Rightarrow> 'a) \<Rightarrow> 'f \<Rightarrow> 'a \<Rightarrow> bool \<times> 'a" where
  "host_mainLoop_callFun run f a = (True, run f a)"

section \<open>The order of the calls\<close>

text \<open>A push by a task or by an interrupt, with the result of setting the bits.\<close>

datatype 'f push = ByTask bool 'f | ByISR bool 'f

fun do_push :: "'f push \<Rightarrow> ('f, 'a) main_loop \<Rightarrow> (bool \<times> ('f, 'a) main_loop) option" where
  "do_push (ByTask bits f) s = mainLoop_callFun bits (Some f) s"
| "do_push (ByISR bits f) s = mainLoop_callFun_fromISR bits (Some f) s"

fun do_pushes :: "'f push list \<Rightarrow> ('f, 'a) main_loop \<Rightarrow> ('f, 'a) main_loop option" where
  "do_pushes [] s = Some s"
| "do_pushes (p # ps) s = do { (ok, s1) \<leftarrow> do_push p s; do_pushes ps s1 }"

text \<open>The functions of the interrupts and those of the tasks.\<close>

fun isr_funs :: "'f push list \<Rightarrow> 'f list" where
  "isr_funs [] = []"
| "isr_funs (ByISR b f # ps) = f # isr_funs ps"
| "isr_funs (ByTask b f # ps) = isr_funs ps"

fun task_funs :: "'f push list \<Rightarrow> 'f list" where
  "task_funs [] = []"
| "task_funs (ByISR b f # ps) = task_funs ps"
| "task_funs (ByTask b f # ps) = f # task_funs ps"

text \<open>The queue after a push, which is lost when the queue is full, and the functions that were accepted.\<close>

fun accept_push :: "nat \<Rightarrow> 'f push \<Rightarrow> 'f list \<Rightarrow> 'f list" where
  "accept_push cap (ByTask b f) q = (if length q < cap then q @ [f] else q)"
| "accept_push cap (ByISR b f) q = (if length q < cap then f # q else q)"

fun accepted :: "nat \<Rightarrow> 'f push list \<Rightarrow> 'f list \<Rightarrow> 'f list" where
  "accepted cap [] q = []"
| "accepted cap (p # ps) q = (if length q < cap then [case p of ByTask b f \<Rightarrow> f | ByISR b f \<Rightarrow> f] else []) @ accepted cap ps (accept_push cap p q)"

lemma accepted_mset: "mset (fold (accept_push cap) ps q) = mset q + mset (accepted cap ps q)"
proof (induction ps arbitrary: q)
  case (Cons p ps)
  then show ?case by (cases p) auto
qed simp

lemma pushes_queue:
  "ml_msgQueue s = Some q \<Longrightarrow> do_pushes ps s = Some (s\<lparr>ml_msgQueue := Some (fold (accept_push (ml_length s)) ps q)\<rparr>)"
proof (induction ps arbitrary: s q)
  case (Cons p ps)
  have "\<exists>ok. do_push p s = Some (ok, s\<lparr>ml_msgQueue := Some (accept_push (ml_length s) p q)\<rparr>)"
    using Cons.prems by (cases p; cases s)
      (auto simp: mainLoop_callFun_def mainLoop_callFun_fromISR_def mainLoop_pushMessage_def mainLoop_pushMessage_fromISR_def)
  then show ?case using Cons.IH [of "s\<lparr>ml_msgQueue := Some (accept_push (ml_length s) p q)\<rparr>"] by auto
qed simp

lemma pushes_order:
  "length q + length ps \<le> cap \<Longrightarrow> fold (accept_push cap) ps q = rev (isr_funs ps) @ q @ task_funs ps"
proof (induction ps arbitrary: q)
  case (Cons p ps)
  then show ?case by (cases p) auto
qed simp

text \<open>A function changes the state of the application and pushes messages; so may other tasks and interrupts while it runs. What is pushed
  depends on the state, which can carry anything.\<close>

definition app_fun :: "('f \<Rightarrow> 'a \<Rightarrow> 'a) \<Rightarrow> ('f \<Rightarrow> 'a \<Rightarrow> 'f push list) \<Rightarrow> 'f \<Rightarrow> ('f, 'a) main_loop \<Rightarrow> ('f, 'a) main_loop option" where
  "app_fun act pushes f s = do_pushes (pushes f (ml_app s)) (s\<lparr>ml_app := act f (ml_app s)\<rparr>)"

text \<open>The calls as they should be, at most \<open>n\<close> of them: always the first of the queue as it then is. The result is the functions called, in order, those
  accepted in the meantime, the queue, and the state.\<close>

fun calls_of :: "nat \<Rightarrow> ('f \<Rightarrow> 'a \<Rightarrow> 'a) \<Rightarrow> ('f \<Rightarrow> 'a \<Rightarrow> 'f push list) \<Rightarrow> nat \<Rightarrow> 'f list \<Rightarrow> 'a \<Rightarrow> 'f list \<times> 'f list \<times> 'f list \<times> 'a" where
  "calls_of cap act pushes 0 q a = ([], [], q, a)"
| "calls_of cap act pushes (Suc n) [] a = ([], [], [], a)"
| "calls_of cap act pushes (Suc n) (f # q) a =
     (case calls_of cap act pushes n (fold (accept_push cap) (pushes f a) q) (act f a) of
        (cs, acc, q1, a1) \<Rightarrow> (f # cs, accepted cap (pushes f a) q @ acc, q1, a1))"

lemma calls_mset: "calls_of cap act pushes n q a = (cs, acc, q1, a1) \<Longrightarrow> mset cs + mset q1 = mset q + mset acc"
proof (induction cap act pushes n q a arbitrary: cs acc q1 a1 rule: calls_of.induct)
  case (3 cap act pushes n f q a)
  obtain cs' acc' where c: "calls_of cap act pushes n (fold (accept_push cap) (pushes f a) q) (act f a) = (cs', acc', q1, a1)"
    "cs = f # cs'" "acc = accepted cap (pushes f a) q @ acc'" using 3(2) by (auto split: prod.splits)
  from 3(1) [OF c(1)] c(2,3) show ?case by (simp add: accepted_mset)
qed auto

lemma run_app:
  assumes "ml_msgQueue s = Some (f # q)"
  shows "app_fun act pushes f (s\<lparr>ml_msgQueue := Some q\<rparr>) =
    Some (s\<lparr>ml_msgQueue := Some (fold (accept_push (ml_length s)) (pushes f (ml_app s)) q), ml_app := act f (ml_app s)\<rparr>)"
  by (simp add: app_fun_def pushes_queue [where q = q])

lemma process_limited:
  "ml_msgQueue s = Some q \<Longrightarrow> max_count - i < turns \<Longrightarrow> i \<le> max_count \<Longrightarrow> 0 < max_count \<Longrightarrow>
    calls_of (ml_length s) act pushes (max_count - i) q (ml_app s) = (cs, acc, q1, a1) \<Longrightarrow>
    process_loop turns (app_fun act pushes) max_count i s = Some (Some (i + length cs, s\<lparr>ml_msgQueue := Some q1, ml_app := a1\<rparr>))"
proof (induction turns arbitrary: i s q cs acc)
  case (Suc turns)
  show ?case
  proof (cases "i < max_count")
    case False
    then show ?thesis using Suc.prems by (cases s) auto
  next
    case True
    then obtain k where k: "max_count - i = Suc k" "k = max_count - (i + 1)" by (cases "max_count - i") auto
    show ?thesis
    proof (cases q)
      case Nil
      then show ?thesis using Suc.prems True k(1) by (cases s) auto
    next
      case (Cons f q')
      let ?s = "s\<lparr>ml_msgQueue := Some (fold (accept_push (ml_length s)) (pushes f (ml_app s)) q'), ml_app := act f (ml_app s)\<rparr>"
      obtain cs' acc' where c: "calls_of (ml_length ?s) act pushes k (fold (accept_push (ml_length s)) (pushes f (ml_app s)) q') (ml_app ?s) = (cs', acc', q1, a1)"
        "cs = f # cs'" using Suc.prems(5) Cons k(1) by (auto split: prod.splits)
      have "process_loop turns (app_fun act pushes) max_count (i + 1) ?s = Some (Some (i + 1 + length cs', ?s\<lparr>ml_msgQueue := Some q1, ml_app := a1\<rparr>))"
        using Suc.prems True c(1) k by (intro Suc.IH) auto
      then show ?thesis using Suc.prems(1) Cons True c(2) run_app [of s f q' act pushes] by simp
    qed
  qed
qed simp

lemma process_unlimited:
  "ml_msgQueue s = Some q \<Longrightarrow> calls_of (ml_length s) act pushes n q (ml_app s) = (cs, acc, q1, a1) \<Longrightarrow>
    process_loop (Suc n) (app_fun act pushes) 0 i s =
      (if q1 = [] then Some (Some (i + length cs, s\<lparr>ml_msgQueue := Some q1, ml_app := a1\<rparr>)) else Some None)"
proof (induction n arbitrary: i s q cs acc)
  case 0
  then show ?case
  proof (cases q)
    case (Cons f q')
    then show ?thesis using 0 run_app [of s f q' act pushes] by auto
  qed (cases s; auto)
next
  case (Suc n)
  show ?case
  proof (cases q)
    case Nil
    then show ?thesis using Suc.prems by (cases s) auto
  next
    case (Cons f q')
    let ?s = "s\<lparr>ml_msgQueue := Some (fold (accept_push (ml_length s)) (pushes f (ml_app s)) q'), ml_app := act f (ml_app s)\<rparr>"
    obtain cs' acc' where c: "calls_of (ml_length ?s) act pushes n (fold (accept_push (ml_length s)) (pushes f (ml_app s)) q') (ml_app ?s) = (cs', acc', q1, a1)"
      "cs = f # cs'" using Suc.prems(2) Cons by (auto split: prod.splits)
    have "process_loop (Suc n) (app_fun act pushes) 0 (i + 1) ?s =
        (if q1 = [] then Some (Some (i + 1 + length cs', ?s\<lparr>ml_msgQueue := Some q1, ml_app := a1\<rparr>)) else Some None)"
      using c(1) by (intro Suc.IH) auto
    then show ?thesis using Suc.prems(1) Cons c(2) run_app [of s f q' act pushes] by (simp del: process_loop.simps add: process_loop.simps(2) [of "Suc n"])
  qed
qed

text \<open>C40: The main task calls what was accepted, once each, from the front of the queue. A push by a task goes to its end, one by an interrupt to its front, and one that
  finds it full is lost: with room for all, the functions of interrupts stand in front, the latest first, and those of tasks behind, in their order. The functions
  may push messages themselves, and other tasks and interrupts may while they run. With a limit, processing ends after at most that many turns and has called
  the first of the queue as it was at each turn, until the limit or an empty queue; the rest stays. Without a limit it ends when the queue is empty after some number
  of calls, and goes on otherwise (which functions that push again can keep up for ever). The number of calls is returned, and as a multiset the functions called
  and those still queued are those that were queued and those accepted in the meantime.\<close>

theorem main_loop_order:
  assumes "ml_msgQueue s = Some q0" "q = fold (accept_push (ml_length s)) ps q0"
    and "calls_of (ml_length s) act pushes n q (ml_app s) = (cs, acc, q1, a1)"
  shows "\<exists>s1. do_pushes ps s = Some s1 \<and>
    (length q0 + length ps \<le> ml_length s \<longrightarrow> q = rev (isr_funs ps) @ q0 @ task_funs ps) \<and>
    (0 < n \<longrightarrow> n < turns \<longrightarrow> mainLoop_processMessages turns (app_fun act pushes) n s1 =
       Some (Some (length cs, s\<lparr>ml_msgQueue := Some q1, ml_app := a1\<rparr>))) \<and>
    mainLoop_processMessages (Suc n) (app_fun act pushes) 0 s1 =
       (if q1 = [] then Some (Some (length cs, s\<lparr>ml_msgQueue := Some [], ml_app := a1\<rparr>)) else Some None) \<and>
    mset cs + mset q1 = mset q + mset acc"
proof -
  let ?s = "s\<lparr>ml_msgQueue := Some q\<rparr>"
  have c: "calls_of (ml_length ?s) act pushes n q (ml_app ?s) = (cs, acc, q1, a1)" using assms(3) by simp
  have l: "0 < n \<longrightarrow> n < turns \<longrightarrow> process_loop turns (app_fun act pushes) n 0 ?s = Some (Some (length cs, s\<lparr>ml_msgQueue := Some q1, ml_app := a1\<rparr>))"
    using process_limited [of ?s q n 0 turns act pushes cs acc q1 a1] c by auto
  have u: "process_loop (Suc n) (app_fun act pushes) 0 0 ?s =
      (if q1 = [] then Some (Some (length cs, s\<lparr>ml_msgQueue := Some [], ml_app := a1\<rparr>)) else Some None)"
    using process_unlimited [of ?s q act pushes n cs acc q1 a1 0] c by auto
  show ?thesis
    by (rule exI [of _ ?s]) (use pushes_queue [OF assms(1), of ps] pushes_order [of q0 ps "ml_length s"] l u calls_mset [OF c] assms(2) in
      \<open>simp add: mainLoop_processMessages_def del: process_loop.simps\<close>)
qed

theorem main_loop_order_witness:
  "\<exists>s1. do_pushes [ByTask True CHR ''a'', ByTask False CHR ''b'', ByISR True CHR ''c'']
      \<lparr>ml_msgQueue = Some [], ml_length = 4, ml_eventGroup = True, ml_eventBit = 1, ml_app = []\<rparr> = Some s1 \<and>
    mainLoop_processMessages 5 (app_fun (\<lambda>f a. a @ [f]) (\<lambda>f a. if f = CHR ''a'' then [ByTask True CHR ''d''] else [])) 0 s1 =
      Some (Some (4, \<lparr>ml_msgQueue = Some [], ml_length = 4, ml_eventGroup = True, ml_eventBit = 1, ml_app = ''cabd''\<rparr>))"
proof -
  let ?s = "\<lparr>ml_msgQueue = Some [], ml_length = 4, ml_eventGroup = True, ml_eventBit = 1, ml_app = []\<rparr> :: (char, string) main_loop"
  let ?p = "\<lambda>f a :: string. if f = CHR ''a'' then [ByTask True CHR ''d''] else []"
  have q: "''cab'' = fold (accept_push (ml_length ?s)) [ByTask True CHR ''a'', ByTask False CHR ''b'', ByISR True CHR ''c''] []" by simp
  have c: "calls_of (ml_length ?s) (\<lambda>f a. a @ [f]) ?p 4 ''cab'' (ml_app ?s) = (''cabd'', ''d'', [], ''cabd'')" by (simp add: eval_nat_numeral)
  have "ml_msgQueue ?s = Some []" by simp
  from main_loop_order [OF this q c, of 5] obtain s1 where
    s1: "do_pushes [ByTask True CHR ''a'', ByTask False CHR ''b'', ByISR True CHR ''c''] ?s = Some s1"
    "mainLoop_processMessages (Suc 4) (app_fun (\<lambda>f a. a @ [f]) ?p) 0 s1 =
       (if [] = ([] :: string) then Some (Some (length ''cabd'', ?s\<lparr>ml_msgQueue := Some [], ml_app := ''cabd''\<rparr>)) else Some None)"
    by (elim exE conjE) (rule that)
  have "Suc 4 = (5 :: nat)" "length ''cabd'' = 4" by simp_all
  with s1 show ?thesis by (intro exI [of _ s1] conjI) simp_all
qed

end
