(* ===== verification/KvsNvs.thy ===== *)
theory KvsNvs
  imports KvsContract CString
begin

text \<open>
  The key-value store of the device (kvs/esp32/kvs_implementation.cc, kvs/esp32/kvs_templates.hh): the same interface over the
  non-volatile storage library of the SDK, which is a parameter.

  Integers are passed as their 64 bits with the code of their type; a text is a string without NUL, the library counts and writes its
  terminator. A call that returns an error has None or False as its result, and does not write the destination then.
\<close>

section \<open>The library\<close>

record 's nvs_api =
  nv_open :: "string \<Rightarrow> bool \<Rightarrow> 's \<Rightarrow> nat option \<times> 's"
  nv_commit :: "nat \<Rightarrow> 's \<Rightarrow> bool \<times> 's"
  nv_close :: "nat \<Rightarrow> 's \<Rightarrow> 's"
  nv_erase_key :: "nat \<Rightarrow> string \<Rightarrow> 's \<Rightarrow> bool \<times> 's"
  nv_set_int :: "u8 \<Rightarrow> nat \<Rightarrow> string \<Rightarrow> u64 \<Rightarrow> 's \<Rightarrow> bool \<times> 's"
  nv_get_int :: "u8 \<Rightarrow> nat \<Rightarrow> string \<Rightarrow> 's \<Rightarrow> u64 option \<times> 's"
  nv_set_str :: "nat \<Rightarrow> string \<Rightarrow> string \<Rightarrow> 's \<Rightarrow> bool \<times> 's"
  nv_get_str :: "nat \<Rightarrow> string \<Rightarrow> nat \<Rightarrow> 's \<Rightarrow> string option \<times> 's"
  nv_set_blob :: "nat \<Rightarrow> string \<Rightarrow> u8 list \<Rightarrow> 's \<Rightarrow> bool \<times> 's"
  nv_get_blob :: "nat \<Rightarrow> string \<Rightarrow> nat \<Rightarrow> 's \<Rightarrow> u8 list option \<times> 's"
  nv_entries :: "string \<Rightarrow> u8 \<Rightarrow> 's \<Rightarrow> (string \<times> u8) list"

text \<open>The state of the library and the handle in the one static struct that every handle of the interface points to; the pointer is the
  only value of type unit.\<close>

record 's nvs_world =
  nw_nvs :: 's
  nw_handle :: nat

definition on_nvs :: "('s \<Rightarrow> 'r \<times> 's) \<Rightarrow> 's nvs_world \<Rightarrow> 'r \<times> 's nvs_world" where
  "on_nvs f w = (case f (nw_nvs w) of (r, s) \<Rightarrow> (r, w\<lparr>nw_nvs := s\<rparr>))"

section \<open>The operations\<close>

definition nvs_kvs_open :: "'s nvs_api \<Rightarrow> string \<Rightarrow> nat \<Rightarrow> 's nvs_world \<Rightarrow> unit option \<times> 's nvs_world" where
  "nvs_kvs_open api name flags w =
     (case nv_open api name (flags AND kvs_flag_WRITE \<noteq> 0) (nw_nvs w) of
        (None, s) \<Rightarrow> (None, w\<lparr>nw_nvs := s\<rparr>)
      | (Some h, s) \<Rightarrow> (Some (), w\<lparr>nw_nvs := s, nw_handle := h\<rparr>))"

definition nvs_kvs_commit :: "'s nvs_api \<Rightarrow> unit \<Rightarrow> 's nvs_world \<Rightarrow> bool \<times> 's nvs_world" where
  "nvs_kvs_commit api h w = on_nvs (nv_commit api (nw_handle w)) w"

definition nvs_kvs_close :: "'s nvs_api \<Rightarrow> unit \<Rightarrow> 's nvs_world \<Rightarrow> 's nvs_world" where
  "nvs_kvs_close api h w = w\<lparr>nw_nvs := nv_close api (nw_handle w) (nw_nvs w)\<rparr>"

definition nvs_kvs_erase_key :: "'s nvs_api \<Rightarrow> unit \<Rightarrow> string \<Rightarrow> 's nvs_world \<Rightarrow> bool \<times> 's nvs_world" where
  "nvs_kvs_erase_key api h key w = on_nvs (nv_erase_key api (nw_handle w) key) w"

definition nvs_kvs_write_str :: "'s nvs_api \<Rightarrow> unit \<Rightarrow> string \<Rightarrow> string \<Rightarrow> 's nvs_world \<Rightarrow> bool \<times> 's nvs_world" where
  "nvs_kvs_write_str api h key src w = on_nvs (nv_set_str api (nw_handle w) key src) w"

definition nvs_kvs_write_blob :: "'s nvs_api \<Rightarrow> unit \<Rightarrow> string \<Rightarrow> u8 list \<Rightarrow> 's nvs_world \<Rightarrow> bool \<times> 's nvs_world" where
  "nvs_kvs_write_blob api h key src w = on_nvs (nv_set_blob api (nw_handle w) key src) w"

text \<open>The destination is a memory block; the size that was read counts the terminator.\<close>

definition nvs_kvs_read_str :: "'s nvs_api \<Rightarrow> unit \<Rightarrow> string \<Rightarrow> char list \<Rightarrow> 's nvs_world \<Rightarrow> (int \<times> char list) \<times> 's nvs_world" where
  "nvs_kvs_read_str api h key dst w =
     (case on_nvs (nv_get_str api (nw_handle w) key (length dst)) w of
        (Some s, w1) \<Rightarrow> ((int (Suc (length s)), s @ NUL # drop (Suc (length s)) dst), w1)
      | (None, w1) \<Rightarrow> ((-1, dst), w1))"

definition nvs_kvs_read_blob :: "'s nvs_api \<Rightarrow> unit \<Rightarrow> string \<Rightarrow> u8 list \<Rightarrow> 's nvs_world \<Rightarrow> (int \<times> u8 list) \<times> 's nvs_world" where
  "nvs_kvs_read_blob api h key dst w =
     (case on_nvs (nv_get_blob api (nw_handle w) key (length dst)) w of
        (Some b, w1) \<Rightarrow> ((int (length b), b @ drop (length b) dst), w1)
      | (None, w1) \<Rightarrow> ((-1, dst), w1))"

definition nvs_kvs_set_str :: "'s nvs_api \<Rightarrow> unit \<Rightarrow> string \<Rightarrow> string \<Rightarrow> 's nvs_world \<Rightarrow> bool \<times> 's nvs_world" where
  "nvs_kvs_set_str = nvs_kvs_write_str"

definition nvs_kvs_get_str :: "'s nvs_api \<Rightarrow> unit \<Rightarrow> string \<Rightarrow> char list \<Rightarrow> 's nvs_world \<Rightarrow> (bool \<times> char list) \<times> 's nvs_world" where
  "nvs_kvs_get_str api h key dst w =
     (case nvs_kvs_read_str api h key dst w of ((n, d), w1) \<Rightarrow> ((0 \<le> n \<and> n \<le> int (length dst), d), w1))"

definition nvs_kvs_set_blob :: "'s nvs_api \<Rightarrow> unit \<Rightarrow> string \<Rightarrow> u8 list \<Rightarrow> 's nvs_world \<Rightarrow> bool \<times> 's nvs_world" where
  "nvs_kvs_set_blob = nvs_kvs_write_blob"

definition nvs_kvs_get_blob :: "'s nvs_api \<Rightarrow> unit \<Rightarrow> string \<Rightarrow> u8 list \<Rightarrow> 's nvs_world \<Rightarrow> (bool \<times> u8 list) \<times> 's nvs_world" where
  "nvs_kvs_get_blob api h key dst w =
     (case nvs_kvs_read_blob api h key dst w of ((n, d), w1) \<Rightarrow> ((0 \<le> n \<and> int (length dst) = n, d), w1))"

text \<open>The functions the macros make, for an integer type.\<close>

definition nvs_kvs_set_dt :: "'s nvs_api \<Rightarrow> u8 \<Rightarrow> unit \<Rightarrow> string \<Rightarrow> u64 \<Rightarrow> 's nvs_world \<Rightarrow> bool \<times> 's nvs_world" where
  "nvs_kvs_set_dt api ty h key v w = on_nvs (nv_set_int api ty (nw_handle w) key v) w"

definition nvs_kvs_get_dt :: "'s nvs_api \<Rightarrow> u8 \<Rightarrow> unit \<Rightarrow> string \<Rightarrow> u64 \<Rightarrow> 's nvs_world \<Rightarrow> (u64 \<times> bool) \<times> 's nvs_world" where
  "nvs_kvs_get_dt api ty h key dflt w =
     (case on_nvs (nv_get_int api ty (nw_handle w) key) w of
        (Some t, w1) \<Rightarrow> ((t, True), w1)
      | (None, w1) \<Rightarrow> ((dflt, False), w1))"

definition nvs_kvs :: "'s nvs_api \<Rightarrow> ('s nvs_world, unit) kvs_ops" where
  "nvs_kvs api = \<lparr>
     op_open = nvs_kvs_open api, op_commit = nvs_kvs_commit api, op_close = nvs_kvs_close api,
     op_erase_key = \<lambda>h key w. Inr (nvs_kvs_erase_key api h key w),
     op_set_str = \<lambda>h key s w. Inr (nvs_kvs_set_str api h key s w),
     op_get_str = \<lambda>h key d w. Inr (nvs_kvs_get_str api h key d w),
     op_set_blob = \<lambda>h key b w. Inr (nvs_kvs_set_blob api h key b w),
     op_get_blob = \<lambda>h key d w. Inr (nvs_kvs_get_blob api h key d w),
     op_set_i8 = \<lambda>h key v w. Inr (nvs_kvs_set_dt api KVS_TYPE_i8 h key (ucast v) w),
     op_get_i8 = \<lambda>h key v w. Inr (map_prod (map_prod ucast id) id (nvs_kvs_get_dt api KVS_TYPE_i8 h key (ucast v) w)),
     op_set_u32 = \<lambda>h key v w. Inr (nvs_kvs_set_dt api KVS_TYPE_u32 h key (ucast v) w),
     op_get_u32 = \<lambda>h key v w. Inr (map_prod (map_prod ucast id) id (nvs_kvs_get_dt api KVS_TYPE_u32 h key (ucast v) w))\<rparr>"

text \<open>Visiting the entries, with or without a comparison, and with a callback or counting only. A callback that is done leaves the
  iterator as it is.\<close>

fun nvs_foreach_loop ::
  "(string \<Rightarrow> bool) option \<Rightarrow> (string \<Rightarrow> u8 \<Rightarrow> 'c \<Rightarrow> kvs_cbr \<times> 'c) \<Rightarrow> (string \<times> u8) list \<Rightarrow> 'c \<Rightarrow> nat \<Rightarrow> nat \<times> 'c" where
  "nvs_foreach_loop cmp cb [] c n = (n, c)"
| "nvs_foreach_loop cmp cb ((key, ty) # es) c n =
     (if (case cmp of None \<Rightarrow> False | Some f \<Rightarrow> \<not> f key) then nvs_foreach_loop cmp cb es c n
      else (case cb key ty c of
              (kvsCb_match, c1) \<Rightarrow> nvs_foreach_loop cmp cb es c1 (n + 1)
            | (kvsCb_done, c1) \<Rightarrow> (n + 1, c1)
            | (kvsCb_noMatch, c1) \<Rightarrow> nvs_foreach_loop cmp cb es c1 n))"

fun nvs_count_loop :: "(string \<Rightarrow> bool) option \<Rightarrow> (string \<times> u8) list \<Rightarrow> nat \<Rightarrow> nat" where
  "nvs_count_loop cmp [] n = n"
| "nvs_count_loop cmp ((key, ty) # es) n =
     (if (case cmp of None \<Rightarrow> False | Some f \<Rightarrow> \<not> f key) then nvs_count_loop cmp es n else nvs_count_loop cmp es (n + 1))"

definition nvs_kvs_foreach ::
  "'s nvs_api \<Rightarrow> string \<Rightarrow> u8 \<Rightarrow> (string \<Rightarrow> bool) option \<Rightarrow> (string \<Rightarrow> u8 \<Rightarrow> 'c \<Rightarrow> kvs_cbr \<times> 'c) \<Rightarrow> 'c \<Rightarrow> 's nvs_world \<Rightarrow> nat \<times> 'c" where
  "nvs_kvs_foreach api ns ty cmp cb c w = nvs_foreach_loop cmp cb (nv_entries api ns ty (nw_nvs w)) c 0"

definition nvs_kvs_count :: "'s nvs_api \<Rightarrow> string \<Rightarrow> u8 \<Rightarrow> (string \<Rightarrow> bool) option \<Rightarrow> 's nvs_world \<Rightarrow> nat" where
  "nvs_kvs_count api ns ty cmp w = nvs_count_loop cmp (nv_entries api ns ty (nw_nvs w)) 0"

definition nvs_kvs_foreach_key ::
  "'s nvs_api \<Rightarrow> string \<Rightarrow> u8 \<Rightarrow> string \<Rightarrow> (string \<Rightarrow> u8 \<Rightarrow> 'c \<Rightarrow> kvs_cbr \<times> 'c) \<Rightarrow> 'c \<Rightarrow> 's nvs_world \<Rightarrow> nat \<times> 'c" where
  "nvs_kvs_foreach_key api ns ty key_match cb c w = nvs_kvs_foreach api ns ty (Some (\<lambda>k. csu_startsWith k key_match)) cb c w"

text \<open>Setting the library up: the results of its calls in order; None is an abort.\<close>

datatype nvs_err = ESP_OK | NVS_NO_FREE_PAGES | NVS_NEW_VERSION_FOUND | NVS_OTHER

definition nvs_kvs_setup :: "('s \<Rightarrow> nvs_err \<times> 's) \<Rightarrow> ('s \<Rightarrow> nvs_err \<times> 's) \<Rightarrow> 's \<Rightarrow> 's option" where
  "nvs_kvs_setup flash_init flash_erase s =
     (case flash_init s of (ec, s1) \<Rightarrow>
        if ec \<noteq> ESP_OK then
          (if ec = NVS_NO_FREE_PAGES \<or> ec = NVS_NEW_VERSION_FOUND then
             (case flash_erase s1 of (e2, s2) \<Rightarrow>
                if e2 \<noteq> ESP_OK then None
                else (case flash_init s2 of (e3, s3) \<Rightarrow> if e3 \<noteq> ESP_OK then None else Some s3))
           else Some s1)
        else Some s1)"

text \<open>Any other error is passed over: the program goes on without the library.\<close>

lemma setup_ignores_error: "nvs_kvs_setup (\<lambda>s. (NVS_OTHER, s)) flash_erase s = Some s"
  by (simp add: nvs_kvs_setup_def)

lemma foreach_matches:
  "(\<And>k ty c. cb k ty c = (kvsCb_match, c)) \<Longrightarrow> nvs_foreach_loop cmp cb es c n = (nvs_count_loop cmp es n, c)"
  by (induction es arbitrary: n) auto

text \<open>Counting is visiting with a callback that always matches.\<close>

lemma nvs_count_foreach: "nvs_kvs_count api ns ty cmp w = fst (nvs_kvs_foreach api ns ty cmp (\<lambda>_ _ c. (kvsCb_match, c)) () w)"
  by (simp add: nvs_kvs_count_def nvs_kvs_foreach_def foreach_matches)

end
