(* ===== verification/KvsNvsProps.thy ===== *)
theory KvsNvsProps
  imports KvsNvs ConfigKvs "HOL-Library.AList"
begin

text \<open>
  The store of the device keeps the contract of the store interface, as far as the library does what its documentation says.

  The documentation is stated on what a state of the library means: the content of its name spaces, and the open handles with
  their name space and whether they may write. It is that of a partition with room for the values.
\<close>

section \<open>The documented behaviour of the library\<close>

definition nvs_name :: "string \<Rightarrow> bool" where
  "nvs_name n \<longleftrightarrow> n \<noteq> [] \<and> length n \<le> 15 \<and> no_nul n"

definition NVS_MAX :: nat where "NVS_MAX = 4000"

text \<open>Handles: opening delivers one that was not in use; a name space that does not exist cannot be opened for reading only.\<close>

definition nvs_sessions :: "'s nvs_api \<Rightarrow> ('s \<Rightarrow> kcontent) \<Rightarrow> ('s \<Rightarrow> nat \<Rightarrow> (string \<times> bool) option) \<Rightarrow> bool" where
  "nvs_sessions api content hands \<longleftrightarrow>
     (\<forall>s n. nvs_name n \<longrightarrow> (\<exists>h s'. nv_open api n True s = (Some h, s') \<and> hands s h = None \<and> content s' = content s \<and> hands s' = (hands s)(h \<mapsto> (n, True)))) \<and>
     (\<forall>s n. nvs_name n \<longrightarrow> (case nv_open api n False s of
         (None, s') \<Rightarrow> content s' = content s \<and> hands s' = hands s \<and> content s n = Map.empty
       | (Some h, s') \<Rightarrow> hands s h = None \<and> content s' = content s \<and> hands s' = (hands s)(h \<mapsto> (n, False)))) \<and>
     (\<forall>s h. hands s h \<noteq> None \<longrightarrow> (\<exists>s'. nv_commit api h s = (True, s') \<and> content s' = content s \<and> hands s' = hands s) \<and>
        content (nv_close api h s) = content s \<and> hands (nv_close api h s) = (hands s)(h := None))"

text \<open>Writing replaces the value and its type; erasing tells whether there was a value.\<close>

definition nvs_stores :: "('s \<Rightarrow> kcontent) \<Rightarrow> ('s \<Rightarrow> nat \<Rightarrow> (string \<times> bool) option) \<Rightarrow> string \<Rightarrow> string \<Rightarrow> kval option \<Rightarrow> bool \<Rightarrow> 's \<Rightarrow> bool \<times> 's \<Rightarrow> bool" where
  "nvs_stores content hands n k v r s p \<longleftrightarrow>
     fst p = r \<and> content (snd p) = (content s)(n := (content s n)(k := v)) \<and> hands (snd p) = hands s"

definition nvs_writes :: "'s nvs_api \<Rightarrow> ('s \<Rightarrow> kcontent) \<Rightarrow> ('s \<Rightarrow> nat \<Rightarrow> (string \<times> bool) option) \<Rightarrow> bool" where
  "nvs_writes api content hands \<longleftrightarrow> (\<forall>s h n k. hands s h = Some (n, True) \<longrightarrow> nvs_name k \<longrightarrow>
     nvs_stores content hands n k None (content s n k \<noteq> None) s (nv_erase_key api h k s) \<and>
     (\<forall>ty v. nvs_stores content hands n k (Some (KInt ty v)) True s (nv_set_int api ty h k v s)) \<and>
     (\<forall>t. no_nul t \<longrightarrow> length t < NVS_MAX \<longrightarrow> nvs_stores content hands n k (Some (kstr t)) True s (nv_set_str api h k t s)) \<and>
     (\<forall>b. b \<noteq> [] \<longrightarrow> length b < NVS_MAX \<longrightarrow> nvs_stores content hands n k (Some (kblob b)) True s (nv_set_blob api h k b s)))"

text \<open>Reading delivers a value of the type asked for, if it and its terminator fit, and is an error otherwise.\<close>

definition nvs_delivers :: "('s \<Rightarrow> kcontent) \<Rightarrow> ('s \<Rightarrow> nat \<Rightarrow> (string \<times> bool) option) \<Rightarrow> 'r \<Rightarrow> 's \<Rightarrow> 'r \<times> 's \<Rightarrow> bool" where
  "nvs_delivers content hands r s p \<longleftrightarrow> fst p = r \<and> content (snd p) = content s \<and> hands (snd p) = hands s"

definition nvs_reads :: "'s nvs_api \<Rightarrow> ('s \<Rightarrow> kcontent) \<Rightarrow> ('s \<Rightarrow> nat \<Rightarrow> (string \<times> bool) option) \<Rightarrow> bool" where
  "nvs_reads api content hands \<longleftrightarrow> (\<forall>s h n wr k. hands s h = Some (n, wr) \<longrightarrow> nvs_name k \<longrightarrow>
     (\<forall>ty. nvs_delivers content hands (int_of (content s n k) ty) s (nv_get_int api ty h k s)) \<and>
     (\<forall>len. nvs_delivers content hands (case bytes_of (content s n k) KVS_TYPE_STR of
         None \<Rightarrow> None | Some b \<Rightarrow> if Suc (length b) \<le> len then Some (map char_of_byte b) else None) s (nv_get_str api h k len s)) \<and>
     (\<forall>len. nvs_delivers content hands (case bytes_of (content s n k) KVS_TYPE_BLOB of
         None \<Rightarrow> None | Some b \<Rightarrow> if length b \<le> len then Some b else None) s (nv_get_blob api h k len s)))"

definition nvs_documented :: "'s nvs_api \<Rightarrow> ('s \<Rightarrow> kcontent) \<Rightarrow> ('s \<Rightarrow> nat \<Rightarrow> (string \<times> bool) option) \<Rightarrow> bool" where
  "nvs_documented api content hands \<longleftrightarrow> nvs_sessions api content hands \<and> nvs_writes api content hands \<and> nvs_reads api content hands"

section \<open>The contract\<close>

text \<open>A session of the interface is open when the static handle is one of the library.\<close>

definition nvs_idle :: "('s \<Rightarrow> kcontent) \<Rightarrow> 's nvs_world \<Rightarrow> kcontent \<Rightarrow> bool" where
  "nvs_idle content w C \<longleftrightarrow> content (nw_nvs w) = C"

definition nvs_opened :: "('s \<Rightarrow> kcontent) \<Rightarrow> ('s \<Rightarrow> nat \<Rightarrow> (string \<times> bool) option) \<Rightarrow> 's nvs_world \<Rightarrow> unit \<Rightarrow> string \<Rightarrow> bool \<Rightarrow> kcontent \<Rightarrow> bool" where
  "nvs_opened content hands w h n wr C \<longleftrightarrow> hands (nw_nvs w) (nw_handle w) = Some (n, wr) \<and> content (nw_nvs w) = C"

lemma on_nvs_stored:
  assumes "nvs_stores content hands n k v r (nw_nvs w) (f (nw_nvs w))" "nvs_opened content hands w h n True C"
  shows "\<exists>w'. on_nvs f w = (r, w') \<and> nvs_opened content hands w' h n True (C(n := (C n)(k := v)))"
  using assms by (cases "f (nw_nvs w)") (auto simp: nvs_stores_def nvs_opened_def on_nvs_def)

lemma on_nvs_delivered:
  assumes "nvs_delivers content hands r (nw_nvs w) (f (nw_nvs w))" "nvs_opened content hands w h n wr C"
  shows "\<exists>w'. on_nvs f w = (r, w') \<and> nvs_opened content hands w' h n wr C"
  using assms by (cases "f (nw_nvs w)") (auto simp: nvs_delivers_def nvs_opened_def on_nvs_def)

lemma bytes_of_kstr: "bytes_of (Some (kstr s)) KVS_TYPE_STR = Some (map byte_of_char s)"
  by (simp add: kstr_def)

lemma bytes_of_blob: "bytes_of v KVS_TYPE_BLOB = Some b \<Longrightarrow> v = Some (kblob b)"
  by (auto simp: bytes_of_def kblob_def split: option.splits kval.splits if_splits)

lemma key_ok_name: "key_ok k \<Longrightarrow> k \<noteq> [] \<Longrightarrow> nvs_name k"
  by (simp add: key_ok_def nvs_name_def MAX_KEY_LEN_def)

lemmas nvs_op_defs = nvs_kvs_open_def nvs_kvs_commit_def nvs_kvs_close_def nvs_kvs_erase_key_def nvs_kvs_set_str_def nvs_kvs_write_str_def
  nvs_kvs_set_blob_def nvs_kvs_write_blob_def nvs_kvs_set_dt_def nvs_kvs_get_dt_def nvs_kvs_get_str_def nvs_kvs_read_str_def
  nvs_kvs_get_blob_def nvs_kvs_read_blob_def

lemma nvs_written:
  assumes "nvs_documented api content hands" "nvs_opened content hands w h n True C" "nvs_name k"
  shows "\<exists>w'. nvs_kvs_erase_key api h k w = (C n k \<noteq> None, w') \<and> nvs_opened content hands w' h n True (C(n := (C n)(k := None)))"
    and "\<exists>w'. nvs_kvs_set_dt api ty h k v w = (True, w') \<and> nvs_opened content hands w' h n True (C(n := (C n)(k \<mapsto> KInt ty v)))"
    and "no_nul t \<Longrightarrow> length t < NVS_MAX \<Longrightarrow>
      \<exists>w'. nvs_kvs_set_str api h k t w = (True, w') \<and> nvs_opened content hands w' h n True (C(n := (C n)(k \<mapsto> kstr t)))"
    and "b \<noteq> [] \<Longrightarrow> length b < NVS_MAX \<Longrightarrow>
      \<exists>w'. nvs_kvs_set_blob api h k b w = (True, w') \<and> nvs_opened content hands w' h n True (C(n := (C n)(k \<mapsto> kblob b)))"
proof -
  have o: "hands (nw_nvs w) (nw_handle w) = Some (n, True)" and c: "content (nw_nvs w) = C" using assms(2) by (simp_all add: nvs_opened_def)
  have d: "nvs_writes api content hands" using assms(1) by (simp add: nvs_documented_def)
  note d = d [unfolded nvs_writes_def, rule_format, OF o assms(3)]
  show "\<exists>w'. nvs_kvs_erase_key api h k w = (C n k \<noteq> None, w') \<and> nvs_opened content hands w' h n True (C(n := (C n)(k := None)))"
    unfolding nvs_op_defs using d by (intro on_nvs_stored [OF _ assms(2)]) (simp add: c)
  show "\<exists>w'. nvs_kvs_set_dt api ty h k v w = (True, w') \<and> nvs_opened content hands w' h n True (C(n := (C n)(k \<mapsto> KInt ty v)))"
    unfolding nvs_op_defs using d by (intro on_nvs_stored [OF _ assms(2)]) simp
  show "no_nul t \<Longrightarrow> length t < NVS_MAX \<Longrightarrow>
      \<exists>w'. nvs_kvs_set_str api h k t w = (True, w') \<and> nvs_opened content hands w' h n True (C(n := (C n)(k \<mapsto> kstr t)))"
    unfolding nvs_op_defs using d by (intro on_nvs_stored [OF _ assms(2)]) simp
  show "b \<noteq> [] \<Longrightarrow> length b < NVS_MAX \<Longrightarrow>
      \<exists>w'. nvs_kvs_set_blob api h k b w = (True, w') \<and> nvs_opened content hands w' h n True (C(n := (C n)(k \<mapsto> kblob b)))"
    unfolding nvs_op_defs using d by (intro on_nvs_stored [OF _ assms(2)]) simp
qed

text \<open>What the readers make of a value.\<close>

definition nvs_str_read :: "kval option \<Rightarrow> char list \<Rightarrow> bool \<times> char list" where
  "nvs_str_read v d = (case bytes_of v KVS_TYPE_STR of
     None \<Rightarrow> (False, d)
   | Some b \<Rightarrow> if Suc (length b) \<le> length d then (True, map char_of_byte b @ NUL # drop (Suc (length b)) d) else (False, d))"

definition nvs_blob_read :: "kval option \<Rightarrow> u8 list \<Rightarrow> bool \<times> u8 list" where
  "nvs_blob_read v d = (case bytes_of v KVS_TYPE_BLOB of
     None \<Rightarrow> (False, d)
   | Some b \<Rightarrow> if length b \<le> length d then (length b = length d, b @ drop (length b) d) else (False, d))"

lemma nvs_read:
  assumes "nvs_documented api content hands" "nvs_opened content hands w h n wr C" "nvs_name k"
  shows "\<exists>w'. nvs_kvs_get_dt api ty h k v w = ((case int_of (C n k) ty of Some x \<Rightarrow> x | None \<Rightarrow> v, int_of (C n k) ty \<noteq> None), w') \<and>
      nvs_opened content hands w' h n wr C"
    and "\<exists>w'. nvs_kvs_get_str api h k d w = (nvs_str_read (C n k) d, w') \<and> nvs_opened content hands w' h n wr C"
    and "\<exists>w'. nvs_kvs_get_blob api h k b w = (nvs_blob_read (C n k) b, w') \<and> nvs_opened content hands w' h n wr C"
proof -
  have o: "hands (nw_nvs w) (nw_handle w) = Some (n, wr)" and c: "content (nw_nvs w) = C" using assms(2) by (simp_all add: nvs_opened_def)
  have d: "nvs_reads api content hands" using assms(1) by (simp add: nvs_documented_def)
  note d = d [unfolded nvs_reads_def, rule_format, OF o assms(3), unfolded c]
  show "\<exists>w'. nvs_kvs_get_dt api ty h k v w = ((case int_of (C n k) ty of Some x \<Rightarrow> x | None \<Rightarrow> v, int_of (C n k) ty \<noteq> None), w') \<and>
      nvs_opened content hands w' h n wr C"
    using on_nvs_delivered [of content hands _ w "nv_get_int api ty (nw_handle w) k", OF _ assms(2)] d
    by (fastforce simp: nvs_kvs_get_dt_def split: option.splits)
  show "\<exists>w'. nvs_kvs_get_str api h k d w = (nvs_str_read (C n k) d, w') \<and> nvs_opened content hands w' h n wr C"
    using on_nvs_delivered [of content hands _ w "nv_get_str api (nw_handle w) k (length d)", OF _ assms(2)] d
    by (fastforce simp: nvs_kvs_get_str_def nvs_kvs_read_str_def nvs_str_read_def split: option.splits)
  show "\<exists>w'. nvs_kvs_get_blob api h k b w = (nvs_blob_read (C n k) b, w') \<and> nvs_opened content hands w' h n wr C"
    using on_nvs_delivered [of content hands _ w "nv_get_blob api (nw_handle w) k (length b)", OF _ assms(2)] d
    by (fastforce simp: nvs_kvs_get_blob_def nvs_kvs_read_blob_def nvs_blob_read_def split: option.splits)
qed

lemma nvs_session:
  assumes "nvs_documented api content hands" "nvs_name n"
  shows "\<exists>h w'. nvs_kvs_open api n kvs_flag_WRITE w = (Some h, w') \<and> nvs_opened content hands w' h n True (content (nw_nvs w))"
    and "(\<exists>w'. nvs_kvs_open api n kvs_flag_READ w = (None, w') \<and> nvs_idle content w' (content (nw_nvs w)) \<and> content (nw_nvs w) n = Map.empty) \<or>
      (\<exists>h w'. nvs_kvs_open api n kvs_flag_READ w = (Some h, w') \<and> nvs_opened content hands w' h n False (content (nw_nvs w)))"
proof -
  have d: "nvs_sessions api content hands" using assms(1) by (simp add: nvs_documented_def)
  have fl: "kvs_flag_WRITE AND kvs_flag_WRITE \<noteq> 0" "kvs_flag_READ AND kvs_flag_WRITE = 0"
    by (simp_all add: kvs_flag_WRITE_def kvs_flag_READ_def)
  from d assms(2) obtain h s' where "nv_open api n True (nw_nvs w) = (Some h, s')" "content s' = content (nw_nvs w)" "hands s' = (hands (nw_nvs w))(h \<mapsto> (n, True))"
    unfolding nvs_sessions_def by blast
  then show "\<exists>h w'. nvs_kvs_open api n kvs_flag_WRITE w = (Some h, w') \<and> nvs_opened content hands w' h n True (content (nw_nvs w))"
    using fl(1) by (simp add: nvs_kvs_open_def nvs_opened_def)
  have "case nv_open api n False (nw_nvs w) of
      (None, s') \<Rightarrow> content s' = content (nw_nvs w) \<and> hands s' = hands (nw_nvs w) \<and> content (nw_nvs w) n = Map.empty
    | (Some h, s') \<Rightarrow> hands (nw_nvs w) h = None \<and> content s' = content (nw_nvs w) \<and> hands s' = (hands (nw_nvs w))(h \<mapsto> (n, False))"
    using d [unfolded nvs_sessions_def, THEN conjunct2, THEN conjunct1, rule_format, OF assms(2), of "nw_nvs w"] .
  then show "(\<exists>w'. nvs_kvs_open api n kvs_flag_READ w = (None, w') \<and> nvs_idle content w' (content (nw_nvs w)) \<and> content (nw_nvs w) n = Map.empty) \<or>
      (\<exists>h w'. nvs_kvs_open api n kvs_flag_READ w = (Some h, w') \<and> nvs_opened content hands w' h n False (content (nw_nvs w)))"
    using fl(2) by (cases "nv_open api n False (nw_nvs w)") (auto simp: nvs_kvs_open_def nvs_opened_def nvs_idle_def split: option.splits)
qed

lemma nvs_session_end:
  assumes "nvs_documented api content hands" "nvs_opened content hands w h n wr C"
  shows "\<exists>w'. nvs_kvs_commit api h w = (True, w') \<and> nvs_opened content hands w' h n wr C"
    and "nvs_idle content (nvs_kvs_close api h w) C"
proof -
  have o: "hands (nw_nvs w) (nw_handle w) \<noteq> None" using assms(2) by (simp add: nvs_opened_def)
  have d: "nvs_sessions api content hands" using assms(1) by (simp add: nvs_documented_def)
  note d = d [unfolded nvs_sessions_def, THEN conjunct2, THEN conjunct2, rule_format, OF o]
  show "\<exists>w'. nvs_kvs_commit api h w = (True, w') \<and> nvs_opened content hands w' h n wr C"
    using d assms(2) by (auto simp: nvs_kvs_commit_def on_nvs_def nvs_opened_def)
  show "nvs_idle content (nvs_kvs_close api h w) C" using d assms(2) by (simp add: nvs_kvs_close_def nvs_idle_def nvs_opened_def)
qed

text \<open>The static struct is shared by all sessions: opening a second name space turns the first session, too, into one on it, and the
  handle the first had is lost.\<close>

lemma nvs_second_open_redirects:
  assumes "nvs_documented api content hands" "nvs_name n" "nvs_name m" "nvs_name k"
  shows "\<exists>h1 w1 h2 w2 w3. nvs_kvs_open api n kvs_flag_WRITE w = (Some h1, w1) \<and> nvs_kvs_open api m kvs_flag_WRITE w1 = (Some h2, w2) \<and>
    nvs_kvs_set_dt api ty h1 k v w2 = (True, w3) \<and>
    content (nw_nvs w3) = (content (nw_nvs w))(m := (content (nw_nvs w) m)(k \<mapsto> KInt ty v))"
proof -
  obtain h1 w1 where w1: "nvs_kvs_open api n kvs_flag_WRITE w = (Some h1, w1)" "nvs_opened content hands w1 h1 n True (content (nw_nvs w))"
    using nvs_session(1) [OF assms(1,2)] by blast
  obtain h2 w2 where w2: "nvs_kvs_open api m kvs_flag_WRITE w1 = (Some h2, w2)" "nvs_opened content hands w2 h1 m True (content (nw_nvs w1))"
    using nvs_session(1) [OF assms(1,3)] by (auto simp: nvs_opened_def)
  obtain w3 where "nvs_kvs_set_dt api ty h1 k v w2 = (True, w3)"
    "nvs_opened content hands w3 h1 m True ((content (nw_nvs w1))(m := (content (nw_nvs w1) m)(k \<mapsto> KInt ty v)))"
    using nvs_written(2) [OF assms(1) w2(2) assms(4)] by blast
  with w1 w2(1) show ?thesis by (auto simp: nvs_opened_def)
qed

text \<open>C6: The store of the device keeps the contract of the store interface, over a library that does what is documented: opening,
  committing and closing sessions, and the readers and writers of 8-bit and 32-bit integers, texts and blobs are lookup, update and
  deletion on the content of the name space of the session, for names and keys of 1 to 14 characters and values of less than 4000
  bytes. So what is proved of a client from the contract holds on the device as it does on the host.\<close>

theorem nvs_keeps_contract:
  assumes "nvs_documented api content hands"
  shows "kvs_contract (nvs_kvs api) (nvs_idle content) (nvs_opened content hands) nvs_name (\<lambda>k. key_ok k \<and> k \<noteq> []) NVS_MAX"
proof (unfold_locales, goal_cases)
  case (1 k) then show ?case by simp
next
  case (2 w C n) then show ?case using nvs_session(1) [OF assms, of n w] by (simp add: nvs_kvs_def nvs_idle_def)
next
  case (3 w C n) then show ?case using nvs_session(2) [OF assms, of n w] by (simp add: nvs_kvs_def nvs_idle_def)
next
  case (4 w h n wr C) then show ?case using nvs_session_end(1) [OF assms] by (simp add: nvs_kvs_def)
next
  case (5 w h n wr C) then show ?case using nvs_session_end(2) [OF assms] by (simp add: nvs_kvs_def)
next
  case (6 w h n C k) then show ?case using nvs_written(1) [OF assms 6(1) key_ok_name] by (simp add: nvs_kvs_def)
next
  case (7 w h n C k v8) then show ?case using nvs_written(2) [OF assms 7(1) key_ok_name] by (simp add: nvs_kvs_def)
next
  case (8 w h n C k v32) then show ?case using nvs_written(2) [OF assms 8(1) key_ok_name] by (simp add: nvs_kvs_def)
next
  case (9 w h n wr C k v8)
  then obtain w' where "nvs_kvs_get_dt api KVS_TYPE_i8 h k (ucast v8) w = ((case int_of (C n k) KVS_TYPE_i8 of Some x \<Rightarrow> x | None \<Rightarrow> ucast v8,
      int_of (C n k) KVS_TYPE_i8 \<noteq> None), w')" "nvs_opened content hands w' h n wr C"
    using nvs_read(1) [OF assms 9(1) key_ok_name, where ty = KVS_TYPE_i8 and v = "ucast v8"] by auto
  then show ?case by (auto simp: nvs_kvs_def split: option.split)
next
  case (10 w h n wr C k v32)
  then obtain w' where "nvs_kvs_get_dt api KVS_TYPE_u32 h k (ucast v32) w = ((case int_of (C n k) KVS_TYPE_u32 of Some x \<Rightarrow> x | None \<Rightarrow> ucast v32,
      int_of (C n k) KVS_TYPE_u32 \<noteq> None), w')" "nvs_opened content hands w' h n wr C"
    using nvs_read(1) [OF assms 10(1) key_ok_name, where ty = KVS_TYPE_u32 and v = "ucast v32"] by auto
  then show ?case by (auto simp: nvs_kvs_def split: option.split)
next
  case (11 w h n C k s) then show ?case using nvs_written(3) [OF assms 11(1) key_ok_name] by (simp add: nvs_kvs_def)
next
  case (12 w h n wr C k s d)
  then have "nvs_name k" using key_ok_name by blast
  from nvs_read(2) [OF assms 12(1) this, where d = d] 12 show ?case by (auto simp: nvs_kvs_def nvs_str_read_def bytes_of_kstr)
next
  case (13 w h n wr C k d)
  then have "nvs_name k" using key_ok_name by blast
  from nvs_read(2) [OF assms 13(1) this, where d = d] 13 show ?case by (auto simp: nvs_kvs_def nvs_str_read_def)
next
  case (14 w h n C k b) then show ?case using nvs_written(4) [OF assms 14(1) key_ok_name] by (simp add: nvs_kvs_def)
next
  case (15 w h n wr C k b db)
  then have "nvs_name k" using key_ok_name by blast
  from nvs_read(3) [OF assms 15(1) this, where b = db] 15 show ?case by (auto simp: nvs_kvs_def nvs_blob_read_def kblob_def)
next
  case (16 w h n wr C k db)
  then have "nvs_name k" using key_ok_name by blast
  then obtain w' where "nvs_kvs_get_blob api h k db w = (nvs_blob_read (C n k) db, w')" "nvs_opened content hands w' h n wr C"
    using nvs_read(3) [OF assms 16(1)] by blast
  moreover have "length (snd (nvs_blob_read v db)) = length db \<and> (fst (nvs_blob_read v db) \<longrightarrow> v = Some (kblob (snd (nvs_blob_read v db))))" for v
    using bytes_of_blob [of v] by (auto simp: nvs_blob_read_def split: option.split)
  ultimately show ?case by (cases "nvs_blob_read (C n k) db") (auto simp: nvs_kvs_def dest: meta_spec [where x = "C n k"])
qed

section \<open>A library in memory\<close>

record mem_nvs =
  mn_spaces :: "(string \<times> (string \<times> kval) list) list"
  mn_hands :: "(nat \<times> string \<times> bool) list"

definition mem_space :: "mem_nvs \<Rightarrow> string \<Rightarrow> (string \<times> kval) list" where
  "mem_space s n = (case map_of (mn_spaces s) n of None \<Rightarrow> [] | Some al \<Rightarrow> al)"

definition mem_content :: "mem_nvs \<Rightarrow> kcontent" where
  "mem_content s n = map_of (mem_space s n)"

definition mem_hands :: "mem_nvs \<Rightarrow> nat \<Rightarrow> (string \<times> bool) option" where
  "mem_hands s = map_of (mn_hands s)"

definition mem_name :: "mem_nvs \<Rightarrow> nat \<Rightarrow> string" where
  "mem_name s h = (case mem_hands s h of Some (n, wr) \<Rightarrow> n | None \<Rightarrow> [])"

definition mem_put :: "nat \<Rightarrow> ((string \<times> kval) list \<Rightarrow> (string \<times> kval) list) \<Rightarrow> mem_nvs \<Rightarrow> mem_nvs" where
  "mem_put h f s = s\<lparr>mn_spaces := (mem_name s h, f (mem_space s (mem_name s h))) # mn_spaces s\<rparr>"

definition mem_fresh :: "mem_nvs \<Rightarrow> nat" where
  "mem_fresh s = Suc (foldr max (map fst (mn_hands s)) 0)"

definition mem_get :: "(kval option \<Rightarrow> 'r) \<Rightarrow> nat \<Rightarrow> string \<Rightarrow> mem_nvs \<Rightarrow> 'r \<times> mem_nvs" where
  "mem_get f h k s = (f (map_of (mem_space s (mem_name s h)) k), s)"

definition mem_api :: "mem_nvs nvs_api" where
  "mem_api = \<lparr>
     nv_open = \<lambda>n wr s. (if \<not> wr \<and> map_of (mn_spaces s) n = None then (None, s)
        else (Some (mem_fresh s), s\<lparr>mn_hands := (mem_fresh s, n, wr) # mn_hands s\<rparr>)),
     nv_commit = \<lambda>h s. (True, s), nv_close = \<lambda>h s. s\<lparr>mn_hands := AList.delete h (mn_hands s)\<rparr>,
     nv_erase_key = \<lambda>h k s. (map_of (mem_space s (mem_name s h)) k \<noteq> None, mem_put h (AList.delete k) s),
     nv_set_int = \<lambda>ty h k v s. (True, mem_put h ((#) (k, KInt ty v)) s),
     nv_get_int = \<lambda>ty. mem_get (\<lambda>v. int_of v ty),
     nv_set_str = \<lambda>h k t s. (True, mem_put h ((#) (k, kstr t)) s),
     nv_get_str = \<lambda>h k len. mem_get (\<lambda>v. case bytes_of v KVS_TYPE_STR of
         None \<Rightarrow> None | Some b \<Rightarrow> if Suc (length b) \<le> len then Some (map char_of_byte b) else None) h k,
     nv_set_blob = \<lambda>h k b s. (True, mem_put h ((#) (k, kblob b)) s),
     nv_get_blob = \<lambda>h k len. mem_get (\<lambda>v. case bytes_of v KVS_TYPE_BLOB of
         None \<Rightarrow> None | Some b \<Rightarrow> if length b \<le> len then Some b else None) h k,
     nv_entries = \<lambda>n ty s. []\<rparr>"

lemma mem_fresh_free: "mem_hands s (mem_fresh s) = None"
proof -
  have "x \<in> set xs \<Longrightarrow> x \<le> foldr max xs (0 :: nat)" for x xs by (induction xs) auto
  then have "\<forall>x \<in> set (map fst (mn_hands s)). x < mem_fresh s" by (simp add: mem_fresh_def less_Suc_eq_le)
  then show ?thesis by (fastforce simp: mem_hands_def map_of_eq_None_iff)
qed

lemma mem_put_content:
  assumes "mem_hands s h = Some (n, wr)"
  shows "mem_content (mem_put h ((#) (k, v)) s) = (mem_content s)(n := (mem_content s n)(k \<mapsto> v))"
    and "mem_content (mem_put h (AList.delete k) s) = (mem_content s)(n := (mem_content s n)(k := None))"
    and "mem_hands (mem_put h f s) = mem_hands s"
  using assms by (auto simp: mem_content_def mem_put_def mem_space_def mem_name_def mem_hands_def delete_conv' fun_eq_iff)

lemma mem_documented: "nvs_documented mem_api mem_content mem_hands"
proof -
  have "nvs_sessions mem_api mem_content mem_hands"
    using mem_fresh_free by (auto simp: nvs_sessions_def mem_api_def mem_content_def mem_space_def mem_hands_def delete_conv')
  moreover have "nvs_writes mem_api mem_content mem_hands"
    by (auto simp: nvs_writes_def nvs_stores_def mem_api_def mem_put_content) (auto simp: mem_content_def mem_name_def)
  moreover have "nvs_reads mem_api mem_content mem_hands"
    by (auto simp: nvs_reads_def nvs_delivers_def mem_api_def mem_get_def mem_content_def mem_name_def)
  ultimately show ?thesis by (simp add: nvs_documented_def)
qed

theorem nvs_keeps_contract_witness:
  "\<exists>w1 w2. config_save_item_s (nvs_kvs mem_api) ''cfg'' ''C_KEY'' ''abc'' \<lparr>nw_nvs = \<lparr>mn_spaces = [], mn_hands = []\<rparr>, nw_handle = 0\<rparr> = Inr (True, w1) \<and>
    config_read_item_s (nvs_kvs mem_api) ''cfg'' ''C_KEY'' ''xxxx'' None w1 = Inr (Some ''abc'', w2)"
proof -
  let ?w = "\<lparr>nw_nvs = \<lparr>mn_spaces = [], mn_hands = []\<rparr>, nw_handle = 0\<rparr>"
  have "nvs_idle mem_content ?w (mem_content (nw_nvs ?w))" by (simp add: nvs_idle_def)
  from kvs_contract.save_read_s [OF nvs_keeps_contract [OF mem_documented] this, of "''C_KEY''" "''abc''" "''xxxx''" "''cfg''" None]
  show ?thesis by (auto simp: key_ok_def MAX_KEY_LEN_def NVS_MAX_def nvs_name_def)
qed

end
