(* ===== verification/Ntp.thy ===== *)
theory Ntp
  imports CStd "HOL-Library.Monad_Syntax"
begin

text \<open>
  Setting up the time servers (net/esp32/ntp.cc): the text of the settings is a list of servers separated by commas, each the word for the
  gateway, an address or a name; the word for DHCP ends it.

  The calls of the SNTP client are kept in a trace. An address text is converted by a function of the SDK that can fail, in which case the
  address is what was on the stack: None. The number of servers of the SDK is a parameter.
\<close>

datatype 'a sntp_call =
    SntpStop
  | SntpPoll
  | SntpDhcp bool
  | SntpAddr nat "'a option"
  | SntpGateway nat
  | SntpName nat string
  | SntpInit

section \<open>The code\<close>

text \<open>strchr for a comma in an array with a terminator, from an index; None stands for a null pointer.\<close>

fun find_comma :: "char list \<Rightarrow> nat \<Rightarrow> nat option" where
  "find_comma [] i = None"
| "find_comma (c # cs) i = (if c = NUL then None else if c = CHR '','' then Some i else find_comma cs (i + 1))"

text \<open>The loop that separates, as often as there is a pointer left: the assigned pointers and the array.\<close>

fun split_servers :: "nat \<Rightarrow> nat \<Rightarrow> char list \<Rightarrow> nat option list \<times> char list" where
  "split_servers 0 start servers = ([], servers)"
| "split_servers (Suc m) start servers =
     (case find_comma (drop start servers) start of
        Some p \<Rightarrow> (case split_servers m (p + 1) (servers[p := NUL]) of (seps, servers1) \<Rightarrow> (Some p # seps, servers1))
      | None \<Rightarrow> ([None], servers))"

text \<open>One server; True ends the loop. \<open>dhcp_opt\<close> tells whether servers from DHCP are configured in the SDK.\<close>

definition set_server :: "(string \<Rightarrow> 'a option) \<Rightarrow> bool \<Rightarrow> nat \<Rightarrow> string \<Rightarrow> bool \<times> 'a sntp_call list" where
  "set_server aton dhcp_opt n server =
     (if dhcp_opt \<and> server = ''dhcp'' then (True, [SntpDhcp True])
      else (False, (if dhcp_opt then [SntpDhcp False] else []) @
        (if server = ''gateway'' then [SntpGateway n]
         else if server \<noteq> [] \<and> hd server \<in> set ''0123456789'' then [SntpAddr n (aton server)]
         else [SntpName n server])))"

text \<open>The loop over the servers from number \<open>n\<close> on; reading a pointer that was not assigned is None.\<close>

fun server_loop :: "(string \<Rightarrow> 'a option) \<Rightarrow> bool \<Rightarrow> nat \<Rightarrow> nat \<Rightarrow> nat option list \<Rightarrow> char list \<Rightarrow> nat \<Rightarrow> 'a sntp_call list option" where
  "server_loop aton dhcp_opt 0 n seps servers server = Some []"
| "server_loop aton dhcp_opt (Suc m) n seps servers server =
     (if n \<noteq> 0 \<and> length seps < n then None
      else (case (if n \<noteq> 0 then map_option Suc (seps ! (n - 1)) else Some server) of
              None \<Rightarrow> Some []
            | Some p \<Rightarrow>
                (case set_server aton dhcp_opt n (c_str (drop p servers)) of (stop, calls) \<Rightarrow>
                   if stop then Some calls
                   else do { rest \<leftarrow> server_loop aton dhcp_opt m (n + 1) seps servers p; Some (calls @ rest) })))"

text \<open>With a single server the text of the settings is used as it is.\<close>

definition set_server_by_config :: "(string \<Rightarrow> 'a option) \<Rightarrow> bool \<Rightarrow> nat \<Rightarrow> char list \<Rightarrow> 'a sntp_call list option" where
  "set_server_by_config aton dhcp_opt max_servers cfg_server =
     (if max_servers > 1 then
        (case split_servers (max_servers - 1) 0 cfg_server of (seps, servers) \<Rightarrow> server_loop aton dhcp_opt max_servers 0 seps servers 0)
      else if max_servers = 1 then Some (snd (set_server aton dhcp_opt 0 (c_str cfg_server)))
      else Some [])"

definition ntp_setup :: "(string \<Rightarrow> 'a option) \<Rightarrow> bool \<Rightarrow> nat \<Rightarrow> char list \<Rightarrow> 'a sntp_call list option" where
  "ntp_setup aton dhcp_opt max_servers cfg_server =
     map_option (\<lambda>calls. [SntpStop, SntpPoll] @ calls @ [SntpInit]) (set_server_by_config aton dhcp_opt max_servers cfg_server)"

section \<open>The reference\<close>

text \<open>The pieces of a text between commas, at most as many as given, the last one with all that is left.\<close>

fun pieces :: "nat \<Rightarrow> string \<Rightarrow> string list" where
  "pieces 0 s = []"
| "pieces (Suc 0) s = [s]"
| "pieces (Suc (Suc m)) s =
     (if CHR '','' \<in> set s then takeWhile (\<lambda>c. c \<noteq> CHR '','') s # pieces (Suc m) (tl (dropWhile (\<lambda>c. c \<noteq> CHR '','') s)) else [s])"

text \<open>The servers in their order, up to the word for DHCP.\<close>

fun set_servers :: "(string \<Rightarrow> 'a option) \<Rightarrow> bool \<Rightarrow> nat \<Rightarrow> string list \<Rightarrow> 'a sntp_call list" where
  "set_servers aton dhcp_opt n [] = []"
| "set_servers aton dhcp_opt n (s # ss) =
     (case set_server aton dhcp_opt n s of (stop, calls) \<Rightarrow> calls @ (if stop then [] else set_servers aton dhcp_opt (n + 1) ss))"

section \<open>Separating\<close>

lemma find_comma_text:
  "no_nul s \<Longrightarrow> find_comma (s @ NUL # post) i =
    (if CHR '','' \<in> set s then Some (i + length (takeWhile (\<lambda>c. c \<noteq> CHR '','') s)) else None)"
  by (induction s arbitrary: i) auto

text \<open>The pointers and the array after separating: the texts at the start and behind the pointers are the pieces, and what is in front of the start
  is not changed.\<close>

lemma split_pieces:
  "no_nul s \<Longrightarrow> \<exists>ps s1. split_servers m (length pre) (pre @ s @ NUL # post) = (map Some ps @ (if length ps < m then [None] else []), pre @ s1 @ NUL # post) \<and>
    length ps \<le> m \<and> length s1 = length s \<and> map (\<lambda>p. c_str (drop p (pre @ s1 @ NUL # post))) (length pre # map Suc ps) = pieces (Suc m) s"
proof (induction m arbitrary: pre s)
  case 0
  then show ?case by (intro exI [of _ "[]"] exI [of _ s]) (simp add: c_str_append_nul)
next
  case (Suc m)
  let ?c = "CHR '',''" and ?t = "takeWhile (\<lambda>c. c \<noteq> CHR '','') s" and ?d = "dropWhile (\<lambda>c. c \<noteq> CHR '','') s"
  show ?case
  proof (cases "?c \<in> set s")
    case False
    then show ?thesis using Suc.prems
      by (intro exI [of _ "[]"] exI [of _ s]) (simp add: find_comma_text c_str_append_nul)
  next
    case True
    then have d: "?d \<noteq> []" by (auto simp: dropWhile_eq_Nil_conv)
    then have "hd ?d = ?c" using hd_dropWhile [OF d] by simp
    with d obtain r where r: "?d = ?c # r" by (cases ?d) auto
    have s: "s = ?t @ ?c # r" using r takeWhile_dropWhile_id [of "\<lambda>c. c \<noteq> ?c" s] by simp
    have nn: "no_nul ?t" "no_nul r" using Suc.prems s by (metis no_nul_append no_nul_Cons)+
    let ?pre = "pre @ ?t @ [NUL]"
    have upd: "(pre @ s @ NUL # post)[length pre + length ?t := NUL] = ?pre @ r @ NUL # post"
      by (subst s) (simp add: list_update_append)
    from Suc.IH [OF nn(2), of ?pre] obtain ps s1 where
      ih: "split_servers m (length ?pre) (?pre @ r @ NUL # post) = (map Some ps @ (if length ps < m then [None] else []), ?pre @ s1 @ NUL # post)"
        "length ps \<le> m" "length s1 = length r" "map (\<lambda>p. c_str (drop p (?pre @ s1 @ NUL # post))) (length ?pre # map Suc ps) = pieces (Suc m) r" by blast
    have "pieces (Suc (Suc m)) s = ?t # pieces (Suc m) r" using True r by simp
    moreover have "c_str (drop (length pre) (pre @ (?t @ NUL # s1) @ NUL # post)) = ?t" using c_str_append_nul [OF nn(1)] by simp
    moreover have "length (?t @ NUL # s1) = length s" using ih(3) by (subst (2) s) simp
    moreover have "split_servers (Suc m) (length pre) (pre @ s @ NUL # post) =
        (map Some ((length pre + length ?t) # ps) @ (if length ((length pre + length ?t) # ps) < Suc m then [None] else []), pre @ (?t @ NUL # s1) @ NUL # post)"
      using ih(1) True Suc.prems upd by (simp add: find_comma_text)
    ultimately show ?thesis using ih(2,4)
      by (intro exI [of _ "(length pre + length ?t) # ps"] exI [of _ "?t @ NUL # s1"]) simp
  qed
qed

text \<open>The loop over the servers visits the texts behind the pointers.\<close>

lemma server_loop_pieces:
  "length ps \<le> m \<Longrightarrow> seps = before @ map Some ps @ (if length ps < m then [None] else []) \<Longrightarrow> length before = n \<Longrightarrow>
    server_loop aton dhcp_opt m (Suc n) seps servers cur =
      Some (set_servers aton dhcp_opt (Suc n) (map (\<lambda>p. c_str (drop p servers)) (map Suc ps)))"
proof (induction m arbitrary: ps before n cur)
  case (Suc m)
  show ?case
  proof (cases ps)
    case Nil
    then show ?thesis using Suc.prems by (simp add: nth_append)
  next
    case (Cons p ps')
    have "server_loop aton dhcp_opt m (Suc (Suc n)) seps servers (Suc p) =
      Some (set_servers aton dhcp_opt (Suc (Suc n)) (map (\<lambda>p. c_str (drop p servers)) (map Suc ps')))"
      by (rule Suc.IH [of ps' "before @ [Some p]"]) (use Suc.prems Cons in auto)
    moreover have "seps ! n = Some p" "\<not> length seps < Suc n" using Suc.prems Cons by (simp_all add: nth_append)
    ultimately show ?thesis using Cons by (simp split: prod.split)
  qed
qed simp

lemma set_server_by_config_pieces:
  assumes "no_nul s" "0 < max_servers"
  shows "set_server_by_config aton dhcp_opt max_servers (s @ NUL # post) = Some (set_servers aton dhcp_opt 0 (pieces max_servers s))"
proof (cases "max_servers = 1")
  case True
  have "pieces 1 s = [s]" by simp
  then show ?thesis unfolding True by (cases "set_server aton dhcp_opt 0 s") (simp add: set_server_by_config_def c_str_append_nul [OF assms(1)])
next
  case False
  with assms(2) obtain m where m: "max_servers = Suc (Suc m)" using that [of "max_servers - 2"] by linarith
  from split_pieces [OF assms(1), of "Suc m" "[]" post] obtain ps s1 where
    sp: "split_servers (Suc m) 0 (s @ NUL # post) = (map Some ps @ (if length ps < Suc m then [None] else []), s1 @ NUL # post)" "length ps \<le> Suc m"
      "map (\<lambda>p. c_str (drop p (s1 @ NUL # post))) (0 # map Suc ps) = pieces (Suc (Suc m)) s" by auto
  have "server_loop aton dhcp_opt (Suc m) (Suc 0) (map Some ps @ (if length ps < Suc m then [None] else [])) (s1 @ NUL # post) 0 =
    Some (set_servers aton dhcp_opt (Suc 0) (map (\<lambda>p. c_str (drop p (s1 @ NUL # post))) (map Suc ps)))"
    by (rule server_loop_pieces [of _ _ _ "[]"]) (use sp(2) in auto)
  moreover have "set_server_by_config aton dhcp_opt max_servers (s @ NUL # post) =
    server_loop aton dhcp_opt (Suc (Suc m)) 0 (map Some ps @ (if length ps < Suc m then [None] else [])) (s1 @ NUL # post) 0"
    using sp(1) m by (simp add: set_server_by_config_def)
  ultimately show ?thesis unfolding m sp(3) [symmetric] server_loop.simps(2) [of _ _ "Suc m"]
    by (cases "set_server aton dhcp_opt 0 (c_str (s1 @ NUL # post))") simp
qed

lemma pieces_no_comma: "CHR '','' \<notin> set s \<Longrightarrow> pieces (Suc m) s = [s]"
  by (cases m) auto

lemma pieces_limit: "length (pieces m s) \<le> m"
proof (induction m s rule: pieces.induct)
  case (3 m s)
  then show ?case by (cases "CHR '','' \<in> set s") auto
qed simp_all

lemma pieces_join: "concat (map (\<lambda>x. x @ '','') (butlast (pieces (Suc m) s))) @ last (pieces (Suc m) s) = s"
proof (induction "Suc m" s arbitrary: m rule: pieces.induct)
  case (3 m s)
  show ?case
  proof (cases "CHR '','' \<in> set s")
    case True
    let ?t = "takeWhile (\<lambda>c. c \<noteq> CHR '','') s" and ?d = "dropWhile (\<lambda>c. c \<noteq> CHR '','') s"
    have d: "?d \<noteq> []" using True by (auto simp: dropWhile_eq_Nil_conv)
    have "?d = CHR '','' # tl ?d" using d hd_dropWhile [OF d] by (cases ?d) auto
    then have s: "?t @ CHR '','' # tl ?d = s" using takeWhile_dropWhile_id [of "\<lambda>c. c \<noteq> CHR '',''" s] by simp
    have "pieces (Suc m) (tl ?d) \<noteq> []" by (cases m) auto
    then show ?thesis using 3(1) [OF True] True s by simp
  qed simp
qed simp

text \<open>C39: Setting up the time servers never reads a pointer that was not set, and configures exactly the pieces of the text between its
  commas: for every text that has its terminator and every number of servers, the client is stopped, server 0, 1, 2 and so on are set
  to the gateway, to an address or to a name, by the piece, up to the word for DHCP, which switches that on, and the client is
  started. There are not more pieces than servers, the pieces joined by commas are the text, and a text without a comma is one piece.\<close>

theorem ntp_servers_configured:
  assumes "no_nul s" "0 < max_servers"
  shows "ntp_setup aton dhcp_opt max_servers (s @ NUL # post) =
      Some ([SntpStop, SntpPoll] @ set_servers aton dhcp_opt 0 (pieces max_servers s) @ [SntpInit]) \<and>
    length (pieces max_servers s) \<le> max_servers \<and>
      concat (map (\<lambda>x. x @ '','') (butlast (pieces max_servers s))) @ last (pieces max_servers s) = s \<and>
      (CHR '','' \<notin> set s \<longrightarrow> pieces max_servers s = [s])"
proof -
  obtain m where m: "max_servers = Suc m" using assms(2) by (cases max_servers) auto
  show ?thesis using set_server_by_config_pieces [OF assms] pieces_limit [of max_servers s] pieces_join [of m s] pieces_no_comma [of s m] m
    by (simp add: ntp_setup_def)
qed

theorem ntp_servers_configured_witness:
  "ntp_setup (\<lambda>t. None :: nat option) True 3 (''gateway,pool.ntp.org,dhcp'' @ [NUL]) =
    Some [SntpStop, SntpPoll, SntpDhcp False, SntpGateway 0, SntpDhcp False, SntpName 1 ''pool.ntp.org'', SntpDhcp True, SntpInit]"
  using ntp_servers_configured [of "''gateway,pool.ntp.org,dhcp''" 3 "\<lambda>t. None :: nat option" True "[]"]
  by (simp add: eval_nat_numeral set_server_def)

text \<open>With more commas than servers the last name keeps its commas; a name that starts with a digit is taken for an address, and one that is not
  an address leaves the variable unset.\<close>

lemma ntp_last_keeps_commas:
  "ntp_setup aton False 2 (''a,b,c'' @ [NUL]) = Some [SntpStop, SntpPoll, SntpName 0 ''a'', SntpName 1 ''b,c'', SntpInit]"
  using set_server_by_config_pieces [of "''a,b,c''" 2 aton False "[]"] by (simp add: ntp_setup_def eval_nat_numeral set_server_def)

lemma ntp_digit_name:
  assumes "aton ''0.pool.ntp.org'' = None"
  shows "ntp_setup aton False 1 (''0.pool.ntp.org'' @ [NUL]) = Some [SntpStop, SntpPoll, SntpAddr 0 None, SntpInit]"
  using set_server_by_config_pieces [of "''0.pool.ntp.org''" 1 aton False "[]"] assms by (simp add: ntp_setup_def set_server_def)

end
