(* ===== verification/Services.thy ===== *)
theory Services
  imports CStd
begin

text \<open>
  Small services of the firmware: polling for times (utils_time/periodic.c, utils_time/include/utils_time/time_out_secs.hh), the host clock
  (utils_time/host/ut_run_time.cc), binary coded decimals (utils_misc/bcd.c), files (storage/host/storage.cc, storage/esp32/storage.c) and the
  firmware update over the air (firmware_update/esp32/ota.cc).
\<close>

section \<open>Periods\<close>

text \<open>\<open>now\<close> is the run time at the call, in the unit of the interval; the state is the one behind the pointer.\<close>

definition periodic_ts :: "u32 \<Rightarrow> u32 \<Rightarrow> u32 \<Rightarrow> bool \<times> u32" where
  "periodic_ts now interval_ts st =
     (if st = 0 then (False, now + interval_ts)
      else if st < now then (True, now + interval_ts)
      else (False, st))"

definition periodic :: "u32 \<Rightarrow> u32 \<Rightarrow> u32 \<Rightarrow> bool \<times> u32" where
  "periodic now interval st =
     (if st = 0 then (False, now + interval)
      else if st < now then (True, now + interval)
      else (False, st))"

lemma periodic_same: "periodic_ts = periodic"
  by (simp add: fun_eq_iff periodic_ts_def periodic_def)

text \<open>Polling at a list of times: the times at which a poll was true.\<close>

fun polls :: "u32 \<Rightarrow> u32 list \<Rightarrow> u32 \<Rightarrow> u32 list" where
  "polls interval [] st = []"
| "polls interval (t # ts) st = (case periodic t interval st of (b, st1) \<Rightarrow> (if b then [t] else []) @ polls interval ts st1)"

text \<open>The reference on numbers: the first poll starts the interval at \<open>start\<close>, a poll is true when more than the interval went by since.\<close>

fun polls_ref :: "nat \<Rightarrow> nat list \<Rightarrow> nat \<Rightarrow> nat list" where
  "polls_ref i [] start = []"
| "polls_ref i (t # ts) start = (if start + i < t then t # polls_ref i ts t else polls_ref i ts start)"

lemma polls_running:
  assumes "0 < unat interval"
  shows "\<forall>t \<in> set ts. unat t + unat interval < 2 ^ 32 \<Longrightarrow> start + unat interval < 2 ^ 32 \<Longrightarrow> unat st = start + unat interval \<Longrightarrow>
    map unat (polls interval ts st) = polls_ref (unat interval) (map unat ts) start"
proof (induction ts arbitrary: start st)
  case (Cons t ts)
  have a: "unat (t + interval) = unat t + unat interval" using Cons.prems(1) by (simp add: unat_word_ariths)
  have "st \<noteq> 0" using assms Cons.prems(3) by auto
  then show ?case
    using Cons.IH [of "unat t" "t + interval"] Cons.IH [of start st] Cons.prems a by (auto simp: periodic_def word_less_nat_alt)
qed simp

text \<open>Without overflow the polls after the first are those of the reference.\<close>

lemma polls_reference:
  assumes "0 < unat interval" "\<forall>t \<in> set (t0 # ts). unat t + unat interval < 2 ^ 32"
  shows "map unat (polls interval (t0 # ts) 0) = polls_ref (unat interval) (map unat ts) (unat t0)"
proof -
  have "unat (t0 + interval) = unat t0 + unat interval" using assms(2) by (simp add: unat_word_ariths)
  then show ?thesis using polls_running [OF assms(1), of ts "unat t0" "t0 + interval"] assms(2) by (simp add: periodic_def)
qed

text \<open>When the sum overflows the state is in the past and every poll is true at once.\<close>

lemma periodic_overflow: "periodic (- 5) 10 (- 6) = (True, 5) \<and> periodic (- 4) 10 5 = (True, 6)"
  by (simp add: periodic_def word_less_def)

section \<open>A time-out in seconds\<close>

text \<open>The sum of the run time and the seconds has 32 bits, on the host in the type of the sum, on the device in the type of the variable.\<close>

record time_out_secs =
  to_end_time :: u32

definition to_isTimeoutRunning :: "u32 \<Rightarrow> time_out_secs \<Rightarrow> bool" where
  "to_isTimeoutRunning now t = (if to_end_time t = 0 then False else if to_end_time t < now then False else True)"

definition to_isTimeoutReached :: "u32 \<Rightarrow> time_out_secs \<Rightarrow> bool \<times> time_out_secs" where
  "to_isTimeoutReached now t =
     (if to_end_time t = 0 then (False, t) else if to_end_time t < now then (True, t\<lparr>to_end_time := 0\<rparr>) else (False, t))"

definition to_clear :: "time_out_secs \<Rightarrow> time_out_secs" where
  "to_clear t = t\<lparr>to_end_time := 0\<rparr>"

definition to_set :: "u32 \<Rightarrow> u32 \<Rightarrow> time_out_secs \<Rightarrow> time_out_secs" where
  "to_set now secs t = t\<lparr>to_end_time := now + secs\<rparr>"

definition to_new :: "time_out_secs" where "to_new = \<lparr>to_end_time = 0\<rparr>"

definition to_new_secs :: "u32 \<Rightarrow> u32 \<Rightarrow> time_out_secs" where "to_new_secs now secs = \<lparr>to_end_time = now + secs\<rparr>"

text \<open>A time-out that was set runs until its time, is reached once after it, and then neither runs nor is reached until it is set again.\<close>

lemma time_out_once:
  assumes "to_end_time t \<noteq> 0"
  shows "to_isTimeoutRunning now t \<longleftrightarrow> \<not> fst (to_isTimeoutReached now t)"
    and "fst (to_isTimeoutReached now t) \<Longrightarrow> \<not> to_isTimeoutRunning now' (snd (to_isTimeoutReached now t)) \<and>
      \<not> fst (to_isTimeoutReached now' (snd (to_isTimeoutReached now t)))"
  using assms by (auto simp: to_isTimeoutRunning_def to_isTimeoutReached_def split: if_splits)

text \<open>Set without overflow it is reached when more than its seconds went by.\<close>

lemma time_out_set:
  assumes "0 < unat now + unat secs" "unat now + unat secs < 2 ^ 32"
  shows "fst (to_isTimeoutReached now' (to_set now secs t)) \<longleftrightarrow> unat now + unat secs < unat now'"
proof -
  have e: "unat (now + secs) = unat now + unat secs" using assms(2) by (simp add: unat_word_ariths)
  then have "now + secs \<noteq> 0" using assms(1) by (metis unat_0 less_irrefl)
  then show ?thesis using e by (simp add: to_isTimeoutReached_def to_set_def word_less_nat_alt)
qed

section \<open>The clock of the host\<close>

record host_clock =
  hc_start_ts :: u64
  hc_slept_ts :: u64

text \<open>The time of the monotonic clock in tenths of a second.\<close>

definition get_ts :: "u64 \<Rightarrow> u64 \<Rightarrow> u64" where
  "get_ts tv_sec tv_nsec = (tv_nsec div 1000000 + tv_sec * 1000) div 100"

definition clock_init :: "u64 \<Rightarrow> u64 \<Rightarrow> host_clock" where
  "clock_init tv_sec tv_nsec = \<lparr>hc_start_ts = get_ts tv_sec tv_nsec, hc_slept_ts = 0\<rparr>"

definition run_time_ts :: "host_clock \<Rightarrow> u64 \<Rightarrow> u64 \<Rightarrow> u32" where
  "run_time_ts c tv_sec tv_nsec = ucast (get_ts tv_sec tv_nsec - hc_start_ts c + hc_slept_ts c)"

definition run_time_s :: "host_clock \<Rightarrow> u64 \<Rightarrow> u64 \<Rightarrow> u32" where
  "run_time_s c tv_sec tv_nsec = ucast ((ucast (run_time_ts c tv_sec tv_nsec) :: u64) div 10)"

definition ut_sleep_ts :: "u32 \<Rightarrow> host_clock \<Rightarrow> host_clock" where
  "ut_sleep_ts tsecs c = c\<lparr>hc_slept_ts := hc_slept_ts c + ucast tsecs\<rparr>"

definition ut_sleep :: "u32 \<Rightarrow> host_clock \<Rightarrow> host_clock" where
  "ut_sleep secs c = c\<lparr>hc_slept_ts := hc_slept_ts c + 10 * ucast secs\<rparr>"

text \<open>Sleeping advances the clock without taking time.\<close>

lemma ucast_add_32: "(ucast (a + ucast n :: u64) :: u32) = ucast a + n"
proof (transfer, simp add: take_bit_eq_mod mod_simps mod_mod_cancel, goal_cases)
  case (1 a n)
  have "a mod 18446744073709551616 mod 4294967296 = a mod 4294967296" by (rule mod_mod_cancel) simp
  then show ?case by (metis mod_add_left_eq)
qed

lemma sleep_advances: "run_time_ts (ut_sleep_ts n c) s ns = run_time_ts c s ns + n"
  by (simp add: run_time_ts_def ut_sleep_ts_def add.assoc [symmetric] ucast_add_32)

section \<open>Binary coded decimals\<close>

definition bcd2dec :: "u8 \<Rightarrow> u8" where
  "bcd2dec bcd = drop_bit 4 bcd * 10 + (if bcd AND 0x0F = 0x0f then 9 else bcd AND 0x0F)"

definition dec2bcd :: "u8 \<Rightarrow> u8" where
  "dec2bcd dec = (0xf0 AND push_bit 4 (dec div 10)) OR (0xf AND dec mod 10)"

definition dec2bcd_special :: "u8 \<Rightarrow> u8" where
  "dec2bcd_special dec =
     (0xf0 AND push_bit 4 (if dec div 10 = 9 then 0xf else dec div 10)) OR (0xf AND (if dec mod 10 = 9 then 0xf else dec mod 10))"

text \<open>Two digits are read back from both codes, except for 90 to 99 in the special one, whose first digit is not decoded.\<close>

lemma bcd_read_back:
  "\<forall>n \<in> set [0..<100]. bcd2dec (dec2bcd (word_of_nat n)) = word_of_nat n"
  by code_simp

lemma bcd_special_read_back:
  "\<forall>n \<in> set [0..<100]. (bcd2dec (dec2bcd_special (word_of_nat n)) = word_of_nat n) = (n < 90)"
  by code_simp

section \<open>Files\<close>

text \<open>
  The files by their complete paths, and how many bytes a write takes and whether opening, reading and removing work, which is up to
  the system. A file is truncated by opening it for writing.
\<close>

record stor_sys =
  ss_open_w :: "string \<Rightarrow> bool"
  ss_write :: "string \<Rightarrow> nat \<Rightarrow> int"
  ss_read_ok :: "string \<Rightarrow> bool"
  ss_unlink_ok :: "string \<Rightarrow> bool"

type_synonym stor_files = "string \<Rightarrow> u8 list option"

definition stor_put :: "stor_sys \<Rightarrow> string \<Rightarrow> u8 list \<Rightarrow> stor_files \<Rightarrow> stor_files" where
  "stor_put sy path src fs = fs(path \<mapsto> take (nat (ss_write sy path (length src))) src)"

definition stor_unlink :: "stor_sys \<Rightarrow> string \<Rightarrow> stor_files \<Rightarrow> bool \<times> stor_files" where
  "stor_unlink sy path fs = (if fs path = None \<or> \<not> ss_unlink_ok sy path then (False, fs) else (True, fs(path := None)))"

text \<open>On the host; None is the null path.\<close>

definition host_stor_fileWrite :: "stor_sys \<Rightarrow> string option \<Rightarrow> u8 list \<Rightarrow> stor_files \<Rightarrow> bool \<times> stor_files" where
  "host_stor_fileWrite sy po src fs =
     (case po of
        None \<Rightarrow> (False, fs)
      | Some path \<Rightarrow> if \<not> ss_open_w sy path then (False, fs) else (True, stor_put sy path src fs))"

definition host_stor_fileRead :: "stor_sys \<Rightarrow> string option \<Rightarrow> u8 list \<Rightarrow> stor_files \<Rightarrow> bool \<times> u8 list" where
  "host_stor_fileRead sy po dst fs =
     (case po of
        None \<Rightarrow> (False, dst)
      | Some path \<Rightarrow>
          (case fs path of
             None \<Rightarrow> (False, dst)
           | Some d \<Rightarrow> if \<not> ss_read_ok sy path then (False, dst) else (True, take (length dst) d @ drop (length d) dst)))"

definition host_stor_fileDelete :: "stor_sys \<Rightarrow> string \<Rightarrow> stor_files \<Rightarrow> bool \<times> stor_files" where
  "host_stor_fileDelete sy path fs = stor_unlink sy path fs"

text \<open>On the device, under a base path.\<close>

definition complete_path :: "string \<Rightarrow> string" where
  "complete_path path = ''/spiffs/'' @ path"

definition esp_stor_fileWrite :: "stor_sys \<Rightarrow> string \<Rightarrow> u8 list \<Rightarrow> stor_files \<Rightarrow> bool \<times> stor_files" where
  "esp_stor_fileWrite sy path src fs =
     (if \<not> ss_open_w sy (complete_path path) then (False, fs) else (True, stor_put sy (complete_path path) src fs))"

definition esp_stor_fileRead :: "stor_sys \<Rightarrow> string \<Rightarrow> u8 list \<Rightarrow> stor_files \<Rightarrow> bool \<times> u8 list" where
  "esp_stor_fileRead sy path dst fs =
     (case fs (complete_path path) of
        None \<Rightarrow> (False, dst)
      | Some d \<Rightarrow> (True, if ss_read_ok sy (complete_path path) then take (length dst) d @ drop (length d) dst else dst))"

definition esp_stor_fileDelete :: "stor_sys \<Rightarrow> string \<Rightarrow> stor_files \<Rightarrow> bool \<times> stor_files" where
  "esp_stor_fileDelete sy path fs = (True, snd (stor_unlink sy (complete_path path) fs))"

text \<open>What was written completely is read back by a reader of the same length, on both.\<close>

lemma stor_roundtrip:
  assumes "ss_open_w sy p" "ss_write sy p (length src) = int (length src)" "ss_read_ok sy p" "length dst = length src"
  shows "p = path \<Longrightarrow> \<exists>fs1. host_stor_fileWrite sy (Some path) src fs = (True, fs1) \<and> host_stor_fileRead sy (Some path) dst fs1 = (True, src)"
    and "p = complete_path path \<Longrightarrow> \<exists>fs1. esp_stor_fileWrite sy path src fs = (True, fs1) \<and> esp_stor_fileRead sy path dst fs1 = (True, src)"
  using assms by (auto simp: host_stor_fileWrite_def host_stor_fileRead_def esp_stor_fileWrite_def esp_stor_fileRead_def stor_put_def)

text \<open>A write that fails is a success, and leaves an empty file; deleting a file that does not exist is a success on the device only.\<close>

lemma stor_write_unchecked:
  assumes "ss_open_w sy path" "ss_write sy path (length src) = -1"
  shows "host_stor_fileWrite sy (Some path) src fs = (True, fs(path \<mapsto> []))"
  using assms by (simp add: host_stor_fileWrite_def stor_put_def)

lemma stor_delete_missing:
  assumes "fs path = None" "fs (complete_path path) = None"
  shows "host_stor_fileDelete sy path fs = (False, fs) \<and> esp_stor_fileDelete sy path fs = (True, fs)"
  using assms by (simp add: host_stor_fileDelete_def esp_stor_fileDelete_def stor_unlink_def)

section \<open>Firmware update over the air\<close>

text \<open>The initial state is the first of the enumeration. The update by the SDK is its result; a task that cannot be created does not run.\<close>

datatype esp_ota_state = ota_NONE | ota_RUN | ota_FAIL | ota_DONE

record esp_ota =
  eo_state :: esp_ota_state
  eo_tasks :: "string list"

definition ota_getState :: "esp_ota \<Rightarrow> esp_ota_state" where
  "ota_getState o1 = eo_state o1"

definition our_ota_doUpdate :: "bool \<Rightarrow> string \<Rightarrow> esp_ota \<Rightarrow> bool \<times> esp_ota" where
  "our_ota_doUpdate created firmware_url o1 = (False, if created then o1\<lparr>eo_tasks := eo_tasks o1 @ [firmware_url]\<rparr> else o1)"

definition ota_doUpdate :: "bool \<Rightarrow> string \<Rightarrow> esp_ota \<Rightarrow> bool \<times> esp_ota" where
  "ota_doUpdate = our_ota_doUpdate"

text \<open>The task in its two steps, with the update between them.\<close>

definition esp_ota_task_start :: "esp_ota \<Rightarrow> esp_ota" where
  "esp_ota_task_start o1 = o1\<lparr>eo_state := ota_RUN\<rparr>"

definition esp_ota_task_end :: "(string \<Rightarrow> bool) \<Rightarrow> string \<Rightarrow> esp_ota \<Rightarrow> esp_ota" where
  "esp_ota_task_end https_ota url o1 = o1\<lparr>eo_state := (if https_ota url then ota_DONE else ota_FAIL), eo_tasks := remove1 url (eo_tasks o1)\<rparr>"

text \<open>The result of starting an update is a failure always; the state tells the outcome of the task that ended last.\<close>

lemma ota_update_outcome:
  "fst (ota_doUpdate created url o1) = False"
  "ota_getState (esp_ota_task_end https_ota url (esp_ota_task_start o1)) = (if https_ota url then ota_DONE else ota_FAIL)"
  by (simp_all add: ota_doUpdate_def our_ota_doUpdate_def esp_ota_task_end_def ota_getState_def)

end
