(* ===== verification/Stm32Locks.thy ===== *)
theory Stm32Locks
  imports Main
begin

text \<open>
  Locking on the serial line to the STM32: the mutexes (utils_misc/esp32/mutex.cc, utils_misc/include/utils_misc/mutex.hh), the thread safe
  wrapper of the line (stm32/stm32_uart_ts.hh), and which locks the functions of stm32/esp32/stm32_uart.cc, stm32_bootloader.cc and
  stm32_flash.cc hold at each access to the line.

  What is passed and returned is left to the other theories of this component: a call is here the sequence of its lock operations and
  accesses. Where it depends on results, the number of turns of a loop and how far a call comes are arguments.
\<close>

section \<open>Mutexes\<close>

text \<open>A recursive mutex is owned by a task, as often as it has taken it. Taking a mutex of another task blocks: None.\<close>

type_synonym rec_mutex = "(nat \<times> nat) option"

definition mutex_lock :: "nat \<Rightarrow> rec_mutex \<Rightarrow> rec_mutex option" where
  "mutex_lock t m = (case m of None \<Rightarrow> Some (Some (t, 1)) | Some (u, n) \<Rightarrow> if u = t then Some (Some (t, n + 1)) else None)"

definition mutex_try_lock :: "nat \<Rightarrow> rec_mutex \<Rightarrow> bool \<times> rec_mutex" where
  "mutex_try_lock t m = (case mutex_lock t m of Some m1 \<Rightarrow> (True, m1) | None \<Rightarrow> (False, m))"

definition mutex_unlock :: "nat \<Rightarrow> rec_mutex \<Rightarrow> rec_mutex" where
  "mutex_unlock t m = (case m of
     Some (u, n) \<Rightarrow> if u \<noteq> t then m else if n = 1 then None else Some (t, n - 1)
   | None \<Rightarrow> None)"

text \<open>The mutex of builds without thread safety.\<close>

definition dummy_lock :: "nat \<Rightarrow> rec_mutex \<Rightarrow> rec_mutex option" where
  "dummy_lock t m = Some m"

definition dummy_try_lock :: "nat \<Rightarrow> rec_mutex \<Rightarrow> bool \<times> rec_mutex" where
  "dummy_try_lock t m = (True, m)"

definition dummy_unlock :: "nat \<Rightarrow> rec_mutex \<Rightarrow> rec_mutex" where
  "dummy_unlock t m = m"

lemma try_lock_unlock: "mutex_try_lock t m = (True, m1) \<Longrightarrow> m \<noteq> Some (t, 0) \<Longrightarrow> mutex_unlock t m1 = m"
  by (auto simp: mutex_try_lock_def mutex_lock_def mutex_unlock_def split: option.splits if_splits)

section \<open>Calls\<close>

datatype mtx = MRead | MWrite

text \<open>
  The accesses: sending and receiving with the check of the mode in front, receiving an event, replacing the driver with its queue
  and mode, setting the pins and their configuration, looking at the pointer of the queue, sending a wake-up to the queue behind that pointer, and looking
  at the mode alone.
\<close>

datatype access = AWrite | ARead | AQueue | ADriver | APins | AQueuePtr | AWake | AMode

text \<open>What the accesses share, and what each reads and writes of it, as the functions do that make the access. \<open>OQueue\<close> is the queue as an object that
  is created and deleted: sending to it and receiving from it are synchronised by the kernel and count as its use, a read; so does any use of the installed driver.
  Sending changes the outgoing direction of the line, receiving the incoming one.\<close>

datatype shared_obj = OTx | ORx | OPins | OMode | OQueuePtr | OQueue | ODriver

fun acc_reads :: "access \<Rightarrow> shared_obj set" where
  "acc_reads AWrite = {OMode, ODriver}"
| "acc_reads ARead = {OMode, ODriver}"
| "acc_reads AQueue = {OQueuePtr, OQueue, ODriver}"
| "acc_reads ADriver = {OMode, OPins}"
| "acc_reads APins = {OPins}"
| "acc_reads AQueuePtr = {OQueuePtr}"
| "acc_reads AWake = {OQueuePtr, OQueue}"
| "acc_reads AMode = {OMode}"

fun acc_writes :: "access \<Rightarrow> shared_obj set" where
  "acc_writes AWrite = {OTx}"
| "acc_writes ARead = {ORx}"
| "acc_writes AQueue = {ORx}"
| "acc_writes ADriver = {OMode, OQueuePtr, OQueue, ODriver, OTx, ORx}"
| "acc_writes APins = {OPins}"
| "acc_writes AQueuePtr = {}"
| "acc_writes AWake = {}"
| "acc_writes AMode = {}"

text \<open>Two accesses conflict when one writes what the other one reads or writes. This is about the shared objects only, not about mutexes.\<close>

definition conflict :: "access \<Rightarrow> access \<Rightarrow> bool" where
  "conflict a b \<longleftrightarrow> acc_writes a \<inter> (acc_reads b \<union> acc_writes b) \<noteq> {} \<or> acc_writes b \<inter> (acc_reads a \<union> acc_writes a) \<noteq> {}"

datatype lprog = Acc access | WithLock mtx "lprog list"

text \<open>The wrapper.\<close>

definition ts_stm32_write :: "lprog list" where "ts_stm32_write = [WithLock MWrite [Acc AWrite]]"
definition ts_stm32_read :: "lprog list" where "ts_stm32_read = [WithLock MRead [Acc ARead]]"
definition ts_stm32_getc :: "lprog list" where "ts_stm32_getc = [WithLock MRead [Acc ARead]]"
definition ts_stm32_write_bl :: "lprog list" where "ts_stm32_write_bl = [WithLock MWrite [Acc AWrite]]"
definition ts_stm32_read_bl :: "lprog list" where "ts_stm32_read_bl = [WithLock MRead [Acc ARead]]"
definition ts_stm32_isFirmwareRunning :: "lprog list" where "ts_stm32_isFirmwareRunning = [Acc AMode]"

text \<open>The wake-up looks at the pointer of the queue and, when it is not null (\<open>q\<close>), sends to the queue behind the pointer as it then is.
  The guard wakes the reader of events up before it takes the mutex.\<close>

definition lk_wake_up_queue :: "bool \<Rightarrow> lprog list" where
  "lk_wake_up_queue q = Acc AQueuePtr # (if q then [Acc AWake] else [])"

definition wake_up_lock_guard :: "bool \<Rightarrow> mtx \<Rightarrow> lprog list \<Rightarrow> lprog list" where
  "wake_up_lock_guard q m body = lk_wake_up_queue q @ [WithLock m body]"

text \<open>The line of the device: each turn of the loop of p_stm32_read_line looks at the pointer of the queue and takes the lock then; \<open>reads\<close> tells
  for each turn whether it reads from the line, too.\<close>

definition lk_read_line :: "bool list \<Rightarrow> lprog list" where
  "lk_read_line reads = concat (map (\<lambda>r. [Acc AQueuePtr, WithLock MRead ([Acc AQueue] @ (if r then [Acc ARead] else []))]) reads)"

text \<open>The truth values \<open>q\<close> say for each guard in turn whether its wake-up found a queue.\<close>

definition lk_reset :: "bool \<Rightarrow> bool \<Rightarrow> lprog list" where
  "lk_reset enabled q = (if enabled then wake_up_lock_guard q MRead [WithLock MWrite [Acc APins, Acc APins]] else [])"

definition lk_configSerial :: "bool \<Rightarrow> lprog list" where
  "lk_configSerial q = wake_up_lock_guard q MRead [WithLock MWrite [Acc ADriver]]"

definition lk_runBootLoader :: "bool \<Rightarrow> bool \<Rightarrow> bool \<Rightarrow> bool \<Rightarrow> lprog list" where
  "lk_runBootLoader enabled q1 q2 q3 = wake_up_lock_guard q1 MRead [WithLock MWrite ([Acc APins] @ lk_reset enabled q2 @ lk_configSerial q3)]"

definition lk_runFirmware :: "bool \<Rightarrow> bool \<Rightarrow> bool \<Rightarrow> bool \<Rightarrow> lprog list" where
  "lk_runFirmware enabled q1 q2 q3 = wake_up_lock_guard q1 MRead [WithLock MWrite ([Acc APins] @ lk_reset enabled q2 @ lk_configSerial q3)]"

definition lk_setup :: "bool \<Rightarrow> bool \<Rightarrow> lprog list" where
  "lk_setup q1 q2 = wake_up_lock_guard q1 MRead [WithLock MWrite ([Acc APins, Acc APins] @ lk_configSerial q2)]"

text \<open>The client of the boot loader on the wrapper; \<open>k\<close> is the number of turns of stm32Bl_recv.\<close>

definition lk_send :: "nat \<Rightarrow> lprog list" where
  "lk_send n = concat (replicate n ts_stm32_write_bl)"

definition lk_recv :: "nat \<Rightarrow> lprog list" where
  "lk_recv k = [WithLock MRead (concat (replicate k ts_stm32_read_bl))]"

definition both_locks :: "lprog list \<Rightarrow> lprog list" where
  "both_locks body = [WithLock MRead [WithLock MWrite body]]"

definition lk_doStart :: "nat \<Rightarrow> lprog list" where
  "lk_doStart k = both_locks (lk_send 1 @ lk_recv k)"

definition lk_getId :: "nat \<Rightarrow> lprog list" where
  "lk_getId k = both_locks (lk_send 1 @ lk_recv k)"

definition lk_get :: "nat \<Rightarrow> lprog list" where
  "lk_get k = both_locks (lk_send 1 @ lk_recv k)"

text \<open>\<open>stage\<close> is the number of answers that were right.\<close>

definition lk_doWriteMemory :: "nat \<Rightarrow> nat \<Rightarrow> nat \<Rightarrow> nat \<Rightarrow> lprog list" where
  "lk_doWriteMemory stage k1 k2 k3 = both_locks (lk_send 1 @ lk_recv k1 @
     (if stage = 0 then [] else lk_send 1 @ lk_recv k2 @
       (if stage = 1 then [] else lk_send 3 @ lk_recv k3)))"

definition lk_doEraseFlash :: "nat \<Rightarrow> nat \<Rightarrow> nat \<Rightarrow> nat \<Rightarrow> lprog list" where
  "lk_doEraseFlash stage page_count k1 k2 = both_locks (lk_send 1 @ lk_recv k1 @
     (if stage = 0 then [] else lk_send 1 @ lk_send page_count @ lk_send 1 @ lk_recv k2))"

definition lk_doExtEraseFlash :: "bool \<Rightarrow> nat \<Rightarrow> nat \<Rightarrow> nat \<Rightarrow> nat \<Rightarrow> lprog list" where
  "lk_doExtEraseFlash acked page_count k1 k2 k3 = both_locks (lk_send 1 @ lk_recv k1 @ lk_recv k2 @
     (if acked then lk_send 1 @ lk_send page_count @ lk_send 1 @ lk_recv k3 else []))"

definition lk_eraseFlashByFileSize :: "nat \<Rightarrow> nat \<Rightarrow> nat \<Rightarrow> nat \<Rightarrow> lprog list" where
  "lk_eraseFlashByFileSize stage page_count k1 k2 = both_locks (lk_doEraseFlash stage page_count k1 k2)"

text \<open>\<open>erase\<close> is None when the file cannot be opened; \<open>writes\<close> are the chunks that are written.\<close>

definition lk_writeMemoryFromBinFile :: "(nat \<times> nat \<times> nat \<times> nat) option \<Rightarrow> (nat \<times> nat \<times> nat \<times> nat) list \<Rightarrow> lprog list" where
  "lk_writeMemoryFromBinFile erase writes = both_locks
     (case erase of
        None \<Rightarrow> []
      | Some (stage, page_count, k1, k2) \<Rightarrow> lk_eraseFlashByFileSize stage page_count k1 k2 @
          concat (map (\<lambda>(stage, k1, k2, k3). lk_doWriteMemory stage k1 k2 k3) writes))"

text \<open>\<open>write\<close> is None when the boot loader does not answer the start.\<close>

definition lk_firmwareUpdate ::
  "bool \<Rightarrow> (nat \<Rightarrow> bool) \<Rightarrow> nat \<Rightarrow> ((nat \<times> nat \<times> nat \<times> nat) option \<times> (nat \<times> nat \<times> nat \<times> nat) list) option \<Rightarrow> lprog list" where
  "lk_firmwareUpdate enabled q k write = wake_up_lock_guard (q 0) MRead (wake_up_lock_guard (q 1) MWrite
     (lk_runBootLoader enabled (q 2) (q 3) (q 4) @ lk_doStart k @
      (case write of None \<Rightarrow> [] | Some (erase, writes) \<Rightarrow> lk_writeMemoryFromBinFile erase writes) @
      lk_runFirmware enabled (q 5) (q 6) (q 7)))"

text \<open>The calls a task may make.\<close>

inductive stm32_call :: "lprog list \<Rightarrow> bool" where
  "stm32_call ts_stm32_write"
| "stm32_call ts_stm32_read"
| "stm32_call ts_stm32_getc"
| "stm32_call ts_stm32_write_bl"
| "stm32_call ts_stm32_read_bl"
| "stm32_call ts_stm32_isFirmwareRunning"
| "stm32_call (lk_read_line reads)"
| "stm32_call (lk_reset en q)"
| "stm32_call (lk_configSerial q)"
| "stm32_call (lk_runBootLoader en q1 q2 q3)"
| "stm32_call (lk_runFirmware en q1 q2 q3)"
| "stm32_call (lk_setup q1 q2)"
| "stm32_call (lk_recv k)"
| "stm32_call (lk_doStart k)"
| "stm32_call (lk_getId k)"
| "stm32_call (lk_get k)"
| "stm32_call (lk_doWriteMemory stage k1 k2 k3)"
| "stm32_call (lk_doEraseFlash stage n k1 k2)"
| "stm32_call (lk_doExtEraseFlash acked n k1 k2 k3)"
| "stm32_call (lk_eraseFlashByFileSize stage n k1 k2)"
| "stm32_call (lk_writeMemoryFromBinFile erase writes)"
| "stm32_call (lk_firmwareUpdate en qs k write)"

section \<open>Tasks\<close>

datatype lact = LAcc access | LTake mtx | LGive mtx

fun flat :: "lprog \<Rightarrow> lact list" where
  "flat (Acc a) = [LAcc a]"
| "flat (WithLock m ps) = LTake m # concat (map flat ps) @ [LGive m]"

definition flats :: "lprog list \<Rightarrow> lact list" where
  "flats ps = concat (map flat ps)"

text \<open>The mutexes and what each task has still to do.\<close>

record lk_state =
  lk_mx :: "mtx \<Rightarrow> rec_mutex"
  lk_todo :: "nat \<Rightarrow> lact list"

text \<open>A step of task \<open>t\<close>, with the access it does.\<close>

inductive lk_step :: "nat \<Rightarrow> access option \<Rightarrow> lk_state \<Rightarrow> lk_state \<Rightarrow> bool" where
  "lk_todo s t = LAcc a # as \<Longrightarrow> lk_step t (Some a) s (s\<lparr>lk_todo := (lk_todo s)(t := as)\<rparr>)"
| "lk_todo s t = LTake m # as \<Longrightarrow> mutex_lock t (lk_mx s m) = Some x \<Longrightarrow>
    lk_step t None s (s\<lparr>lk_mx := (lk_mx s)(m := x), lk_todo := (lk_todo s)(t := as)\<rparr>)"
| "lk_todo s t = LGive m # as \<Longrightarrow>
    lk_step t None s (s\<lparr>lk_mx := (lk_mx s)(m := mutex_unlock t (lk_mx s m)), lk_todo := (lk_todo s)(t := as)\<rparr>)"

text \<open>The states that tasks reach which make any sequences of calls, with their accesses in order.\<close>

definition lk_init :: "(nat \<Rightarrow> lprog list list) \<Rightarrow> lk_state" where
  "lk_init calls = \<lparr>lk_mx = (\<lambda>_. None), lk_todo = (\<lambda>t. flats (concat (calls t)))\<rparr>"

inductive lk_reach :: "(nat \<Rightarrow> lprog list list) \<Rightarrow> (nat \<times> access) list \<Rightarrow> lk_state \<Rightarrow> bool" for calls where
  "lk_reach calls [] (lk_init calls)"
| "lk_reach calls tr s \<Longrightarrow> lk_step t a s s' \<Longrightarrow> lk_reach calls (tr @ (case a of None \<Rightarrow> [] | Some x \<Rightarrow> [(t, x)])) s'"

section \<open>The discipline\<close>

text \<open>The mutexes that are held at every access of a kind. Nothing is held at the looks at the pointer of the queue and at the mode, and at the wake-up.\<close>

fun guards :: "access \<Rightarrow> mtx set" where
  "guards AWrite = {MWrite}"
| "guards ARead = {MRead}"
| "guards AQueue = {MRead}"
| "guards ADriver = {MRead, MWrite}"
| "guards APins = {MRead, MWrite}"
| "guards AQueuePtr = {}"
| "guards AWake = {}"
| "guards AMode = {}"

text \<open>Every conflict is under a common mutex but those of the three unguarded accesses, which conflict with replacing the driver only.\<close>

definition unguarded :: "access set" where
  "unguarded = {AQueuePtr, AWake, AMode}"

lemma conflict_guarded: "conflict a b \<Longrightarrow> guards a \<inter> guards b \<noteq> {} \<or> a \<in> unguarded \<and> b = ADriver \<or> a = ADriver \<and> b \<in> unguarded"
  by (cases a; cases b) (auto simp: conflict_def unguarded_def)

lemma unguarded_conflict: "a \<in> unguarded \<Longrightarrow> conflict a ADriver"
  by (auto simp: conflict_def unguarded_def)

text \<open>The mutex for reading is not taken by who holds the one for writing only.\<close>

definition in_order :: "mtx \<Rightarrow> mtx set \<Rightarrow> bool" where
  "in_order m H \<longleftrightarrow> (m = MRead \<longrightarrow> MWrite \<in> H \<longrightarrow> MRead \<in> H)"

fun disc :: "mtx set \<Rightarrow> lprog \<Rightarrow> bool" where
  "disc H (Acc a) = (guards a \<subseteq> H)"
| "disc H (WithLock m ps) = (in_order m H \<and> (\<forall>p \<in> set ps. disc (insert m H) p))"

definition discs :: "mtx set \<Rightarrow> lprog list \<Rightarrow> bool" where
  "discs H ps \<longleftrightarrow> (\<forall>p \<in> set ps. disc H p)"

lemma discs_simps [simp]:
  "discs H []" "discs H (p # ps) \<longleftrightarrow> disc H p \<and> discs H ps" "discs H (ps @ qs) \<longleftrightarrow> discs H ps \<and> discs H qs"
  "discs H (concat pss) \<longleftrightarrow> (\<forall>ps \<in> set pss. discs H ps)" "disc H (WithLock m ps) \<longleftrightarrow> in_order m H \<and> discs (insert m H) ps"
  "discs H (replicate n p) \<longleftrightarrow> n = 0 \<or> disc H p"
  by (auto simp: discs_def)

declare disc.simps(2) [simp del]

text \<open>Nothing but writing, or something that takes the mutex for reading first, is called without a mutex.\<close>

lemma both_discs: "in_order MRead H \<Longrightarrow> discs {MRead, MWrite} body \<Longrightarrow> discs H (both_locks body)"
proof -
  assume "in_order MRead H" "discs {MRead, MWrite} body"
  moreover have "insert MWrite (insert MRead H) = {MRead, MWrite}" using mtx.exhaust by blast
  ultimately show ?thesis by (simp add: both_locks_def in_order_def)
qed

lemma guard_discs: "in_order MRead H \<Longrightarrow> discs {MRead, MWrite} body \<Longrightarrow> discs H (wake_up_lock_guard q MRead [WithLock MWrite body])"
  using both_discs [of H body] by (simp add: wake_up_lock_guard_def lk_wake_up_queue_def both_locks_def)

lemma line_discs: "discs H ts_stm32_write" "discs H ts_stm32_write_bl" "in_order MRead H \<Longrightarrow> discs H ts_stm32_read"
  "in_order MRead H \<Longrightarrow> discs H ts_stm32_getc" "in_order MRead H \<Longrightarrow> discs H ts_stm32_read_bl" "discs H ts_stm32_isFirmwareRunning"
  "in_order MRead H \<Longrightarrow> discs H (lk_read_line reads)" "discs H (lk_send n)" "in_order MRead H \<Longrightarrow> discs H (lk_recv k)"
  by (auto simp: ts_stm32_write_def ts_stm32_write_bl_def ts_stm32_read_def ts_stm32_getc_def ts_stm32_read_bl_def ts_stm32_isFirmwareRunning_def
      lk_read_line_def lk_send_def lk_recv_def in_order_def)

lemma order_both: "in_order m {MRead, MWrite}"
  by (simp add: in_order_def)

lemma reset_discs: "in_order MRead H \<Longrightarrow> discs H (lk_reset en q)"
  using guard_discs [of H "[Acc APins, Acc APins]"] by (simp add: lk_reset_def)

lemma config_discs: "in_order MRead H \<Longrightarrow> discs H (lk_configSerial q)"
  using guard_discs [of H "[Acc ADriver]"] by (simp add: lk_configSerial_def)

lemma run_discs: "in_order MRead H \<Longrightarrow> discs H (lk_runBootLoader en q1 q2 q3)" "in_order MRead H \<Longrightarrow> discs H (lk_runFirmware en q1 q2 q3)" "in_order MRead H \<Longrightarrow> discs H (lk_setup q1 q2)"
  unfolding lk_runBootLoader_def lk_runFirmware_def lk_setup_def
  by (auto intro!: guard_discs reset_discs config_discs order_both)

lemma boot_discs: "in_order MRead H \<Longrightarrow> discs H (lk_doStart k)" "in_order MRead H \<Longrightarrow> discs H (lk_getId k)" "in_order MRead H \<Longrightarrow> discs H (lk_get k)"
  "in_order MRead H \<Longrightarrow> discs H (lk_doWriteMemory stage k1 k2 k3)" "in_order MRead H \<Longrightarrow> discs H (lk_doEraseFlash stage n k1 k2)"
  "in_order MRead H \<Longrightarrow> discs H (lk_doExtEraseFlash acked n k1 k2 k3)"
  unfolding lk_doStart_def lk_getId_def lk_get_def lk_doWriteMemory_def lk_doEraseFlash_def lk_doExtEraseFlash_def
  by (auto intro!: both_discs line_discs order_both)

lemma file_discs: "in_order MRead H \<Longrightarrow> discs H (lk_eraseFlashByFileSize stage n k1 k2)" "in_order MRead H \<Longrightarrow> discs H (lk_writeMemoryFromBinFile erase writes)"
proof -
  have e: "discs {MRead, MWrite} (lk_eraseFlashByFileSize stage n k1 k2)" "in_order MRead H \<Longrightarrow> discs H (lk_eraseFlashByFileSize stage n k1 k2)" for stage n k1 k2
    unfolding lk_eraseFlashByFileSize_def by (auto intro!: both_discs boot_discs order_both)
  show "in_order MRead H \<Longrightarrow> discs H (lk_eraseFlashByFileSize stage n k1 k2)" by (rule e)
  show "in_order MRead H \<Longrightarrow> discs H (lk_writeMemoryFromBinFile erase writes)"
    unfolding lk_writeMemoryFromBinFile_def by (auto intro!: both_discs e(1) boot_discs order_both split: option.split)
qed

lemma update_discs: "in_order MRead H \<Longrightarrow> discs H (lk_firmwareUpdate en qs k write)"
proof -
  assume o: "in_order MRead H"
  have "insert MWrite (insert MRead H) = {MRead, MWrite}" using mtx.exhaust by blast
  moreover have "discs {MRead, MWrite} (lk_runBootLoader en q1 q2 q3 @ lk_doStart k @
      (case write of None \<Rightarrow> [] | Some (erase, writes) \<Rightarrow> lk_writeMemoryFromBinFile erase writes) @ lk_runFirmware en q4 q5 q6)" for q1 q2 q3 q4 q5 q6
    by (auto intro!: run_discs boot_discs file_discs order_both split: option.split)
  ultimately show ?thesis using o by (simp add: lk_firmwareUpdate_def wake_up_lock_guard_def lk_wake_up_queue_def in_order_def)
qed

lemma call_discs: "stm32_call ps \<Longrightarrow> discs {} ps"
  by (induction rule: stm32_call.induct)
    (auto simp: in_order_def intro!: line_discs reset_discs config_discs run_discs boot_discs file_discs update_discs)

section \<open>The invariant\<close>

text \<open>The mutexes a task holds, the latest first, fit to what it still has to do.\<close>

fun bal :: "mtx list \<Rightarrow> lact list \<Rightarrow> bool" where
  "bal st [] = (st = [])"
| "bal st (LAcc a # as) = (guards a \<subseteq> set st \<and> bal st as)"
| "bal st (LTake m # as) = (in_order m (set st) \<and> bal (m # st) as)"
| "bal st (LGive m # as) = (case st of [] \<Rightarrow> False | x # st' \<Rightarrow> x = m \<and> bal st' as)"

lemma flat_bal: "disc (set st) p \<Longrightarrow> bal st as \<Longrightarrow> bal st (flat p @ as)"
proof (induction p arbitrary: st as)
  case (WithLock m ps)
  have "bal (m # st) (concat (map flat qs) @ LGive m # as)" if "set qs \<subseteq> set ps" for qs
    using that
  proof (induction qs)
    case (Cons q qs)
    then show ?case using WithLock.IH [of q "m # st"] WithLock.prems(1) by (simp add: discs_def)
  qed (simp add: WithLock.prems(2))
  then show ?case using WithLock.prems(1) by simp
qed simp

lemma flats_bal: "discs {} ps \<Longrightarrow> bal [] (flats ps)"
proof (induction ps)
  case (Cons p ps)
  then show ?case using flat_bal [of "[]" p "flats ps"] by (simp add: flats_def)
qed (simp add: flats_def)

definition owned :: "(nat \<Rightarrow> mtx list) \<Rightarrow> mtx \<Rightarrow> rec_mutex \<Rightarrow> bool" where
  "owned stk m x \<longleftrightarrow> (case x of
     None \<Rightarrow> \<forall>t. m \<notin> set (stk t)
   | Some (u, n) \<Rightarrow> 0 < n \<and> n = count_list (stk u) m \<and> (\<forall>t. t \<noteq> u \<longrightarrow> m \<notin> set (stk t)))"

definition lk_inv :: "lk_state \<Rightarrow> bool" where
  "lk_inv s \<longleftrightarrow> (\<exists>stk. (\<forall>t. bal (stk t) (lk_todo s t)) \<and> (\<forall>m. owned stk m (lk_mx s m)))"

lemma owned_holder: "owned stk m x \<Longrightarrow> m \<in> set (stk t) \<Longrightarrow> \<exists>n. x = Some (t, n)"
proof (cases x)
  case (Some a)
  moreover obtain u n where "a = (u, n)" by (cases a)
  moreover assume "owned stk m x" "m \<in> set (stk t)"
  ultimately show ?thesis by (cases "t = u") (auto simp: owned_def)
qed (simp add: owned_def)

lemma owned_lock:
  assumes "owned stk m x" "mutex_lock t x = Some y"
  shows "owned (stk(t := m # stk t)) m y" "m' \<noteq> m \<Longrightarrow> owned stk m' z \<Longrightarrow> owned (stk(t := m # stk t)) m' z"
  using assms by (auto simp: owned_def mutex_lock_def split: option.splits if_splits)

lemma owned_unlock:
  assumes "owned stk m x" "stk t = m # st"
  shows "owned (stk(t := st)) m (mutex_unlock t x)" "m' \<noteq> m \<Longrightarrow> owned stk m' z \<Longrightarrow> owned (stk(t := st)) m' z"
proof -
  obtain n where n: "x = Some (t, n)" using owned_holder [OF assms(1), of t] assms(2) by auto
  then have c: "n = Suc (count_list st m)" "\<forall>u. u \<noteq> t \<longrightarrow> m \<notin> set (stk u)" using assms by (auto simp: owned_def)
  then show "owned (stk(t := st)) m (mutex_unlock t x)" using n count_list_0_iff [of st m] by (auto simp: owned_def mutex_unlock_def)
  show "m' \<noteq> m \<Longrightarrow> owned stk m' z \<Longrightarrow> owned (stk(t := st)) m' z" using assms(2) by (auto simp: owned_def split: option.splits; metis list.set_intros(2))
qed

lemma step_inv: "lk_step t a s s' \<Longrightarrow> lk_inv s \<Longrightarrow> lk_inv s'"
proof (induction rule: lk_step.induct)
  case (1 s t a as)
  then obtain stk where stk: "\<forall>t. bal (stk t) (lk_todo s t)" "\<forall>m. owned stk m (lk_mx s m)" by (auto simp: lk_inv_def)
  with 1(1) have "bal (stk t) as" by (metis bal.simps(2))
  then show ?case using stk by (auto simp: lk_inv_def)
next
  case (2 s t m as x)
  then obtain stk where stk: "\<forall>t. bal (stk t) (lk_todo s t)" "\<forall>m. owned stk m (lk_mx s m)" by (auto simp: lk_inv_def)
  let ?stk = "stk(t := m # stk t)"
  have "bal (m # stk t) as" using stk(1) 2(1) by (metis bal.simps(3))
  then have "\<forall>u. bal (?stk u) (((lk_todo s)(t := as)) u)" using stk(1) by simp
  moreover have "\<forall>m'. owned ?stk m' (((lk_mx s)(m := x)) m')"
    using owned_lock [OF stk(2) [rule_format] 2(2)] stk(2) by simp
  ultimately show ?case unfolding lk_inv_def by (intro exI [of _ ?stk]) simp
next
  case (3 s t m as)
  then obtain stk where stk: "\<forall>t. bal (stk t) (lk_todo s t)" "\<forall>m. owned stk m (lk_mx s m)" by (auto simp: lk_inv_def)
  have "bal (stk t) (LGive m # as)" using stk(1) 3(1) by metis
  then obtain st where st: "stk t = m # st" "bal st as" by (auto split: list.splits)
  let ?stk = "stk(t := st)"
  have "\<forall>u. bal (?stk u) (((lk_todo s)(t := as)) u)" using stk(1) st(2) by simp
  moreover have "\<forall>m'. owned ?stk m' (((lk_mx s)(m := mutex_unlock t (lk_mx s m))) m')"
    using owned_unlock [where x = "lk_mx s m", OF stk(2) [rule_format] st(1)] stk(2) by simp
  ultimately show ?case unfolding lk_inv_def by (intro exI [of _ ?stk]) simp
qed

lemma reach_inv:
  assumes "\<forall>t. \<forall>c \<in> set (calls t). stm32_call c"
  shows "lk_reach calls tr s \<Longrightarrow> lk_inv s"
proof (induction rule: lk_reach.induct)
  case 1
  have "\<forall>t. bal [] (flats (concat (calls t)))" using assms call_discs by (intro allI flats_bal) auto
  then show ?case by (auto simp: lk_inv_def lk_init_def owned_def intro: exI [of _ "\<lambda>_. []"])
next
  case (2 tr s t a s')
  then show ?case using step_inv by blast
qed

end
