(* ===== verification/Stm32LockProps.thy ===== *)
theory Stm32LockProps
  imports Stm32Locks "HOL-Library.Monad_Syntax"
begin

text \<open>The properties of the locking on the serial line: exactly which accesses race, and no deadlock.\<close>

lemma reach_acc_holds:
  assumes "lk_inv s" "lk_todo s t = LAcc a # as" "m \<in> guards a"
  shows "\<exists>n. lk_mx s m = Some (t, n)"
proof -
  obtain stk where stk: "\<forall>t. bal (stk t) (lk_todo s t)" "\<forall>m. owned stk m (lk_mx s m)" using assms(1) by (auto simp: lk_inv_def)
  then have "m \<in> set (stk t)" using assms(2,3) by (metis bal.simps(2) subsetD)
  then show ?thesis using owned_holder [OF stk(2) [rule_format]] by blast
qed

section \<open>No deadlock\<close>

lemma can_step:
  assumes "lk_todo s t \<noteq> []" "\<And>m as. lk_todo s t = LTake m # as \<Longrightarrow> mutex_lock t (lk_mx s m) \<noteq> None"
  shows "\<exists>a s'. lk_step t a s s'"
proof (cases "lk_todo s t")
  case (Cons x as)
  then show ?thesis using assms(2) by (cases x) (blast intro: lk_step.intros)+
qed (simp add: assms(1))

text \<open>A task that cannot go on waits for a mutex of another task. The one that holds the mutex for writing has that for reading if it needs
  it, so it can go on; when nobody holds that, the one that holds the mutex for reading can.\<close>

lemma blocked:
  assumes "lk_todo s t \<noteq> []" "\<And>a s'. \<not> lk_step t a s s'"
  shows "\<exists>m as u n. lk_todo s t = LTake m # as \<and> lk_mx s m = Some (u, n) \<and> u \<noteq> t"
proof -
  obtain m as where "lk_todo s t = LTake m # as" "mutex_lock t (lk_mx s m) = None" using can_step [OF assms(1)] assms(2) by blast
  then show ?thesis by (auto simp: mutex_lock_def split: option.splits if_splits)
qed

lemma inv_step:
  assumes "lk_inv s" "lk_todo s t \<noteq> []"
  shows "\<exists>u a s'. lk_step u a s s'"
proof (rule ccontr)
  assume no: "\<not> (\<exists>u a s'. lk_step u a s s')"
  obtain stk where stk: "\<forall>t. bal (stk t) (lk_todo s t)" "\<forall>m. owned stk m (lk_mx s m)" using assms(1) by (auto simp: lk_inv_def)
  have holder: "m \<in> set (stk u)" if "lk_mx s m = Some (u, n)" for m u n
    using stk(2) [rule_format, of m] that count_list_0_iff [of "stk u" m] by (auto simp: owned_def)
  have waits: "\<exists>m' as v k. lk_todo s u = LTake m' # as \<and> lk_mx s m' = Some (v, k) \<and> v \<noteq> u \<and> in_order m' (set (stk u))"
    if "m \<in> set (stk u)" for m u
  proof -
    have "lk_todo s u \<noteq> []" using stk(1) that by (metis bal.simps(1) empty_iff list.set(1))
    then obtain m' as v k where w: "lk_todo s u = LTake m' # as" "lk_mx s m' = Some (v, k)" "v \<noteq> u" using blocked no by blast
    moreover have "in_order m' (set (stk u))" using stk(1) w(1) by (metis bal.simps(3))
    ultimately show ?thesis by blast
  qed
  have W: "lk_mx s MWrite = None"
  proof (rule ccontr)
    assume "lk_mx s MWrite \<noteq> None"
    then obtain u n where u: "lk_mx s MWrite = Some (u, n)" by auto
    from waits [OF holder [OF u]] obtain m' v k where w: "lk_mx s m' = Some (v, k)" "v \<noteq> u" "in_order m' (set (stk u))" by blast
    then have "m' = MRead" using u by (cases m') auto
    then have "MRead \<in> set (stk u)" using w(3) holder [OF u] by (simp add: in_order_def)
    then show False using owned_holder [OF stk(2) [rule_format]] w(1,2) \<open>m' = MRead\<close> by fastforce
  qed
  have R: "lk_mx s MRead = None"
  proof (rule ccontr)
    assume "lk_mx s MRead \<noteq> None"
    then obtain u n where u: "lk_mx s MRead = Some (u, n)" by auto
    from waits [OF holder [OF u]] obtain m' v k where "lk_mx s m' = Some (v, k)" "v \<noteq> u" by blast
    then show False using u W by (cases m') auto
  qed
  obtain m as u n where "lk_mx s m = Some (u, n)" using blocked [OF assms(2)] no by blast
  then show False using W R by (cases m) auto
qed

text \<open>C15: There is no deadlock on the line: in every state that the tasks reach, by any sequences of calls and any interleaving, some task
  can go on unless all of them have finished, and then both mutexes are free. The mutexes are recursive, so calls within calls do not block
  themselves.\<close>

theorem stm32_no_deadlock:
  assumes "\<forall>t. \<forall>c \<in> set (calls t). stm32_call c" "lk_reach calls tr s"
  shows "if \<exists>t. lk_todo s t \<noteq> [] then \<exists>t a s'. lk_step t a s s' else \<forall>m. lk_mx s m = None"
proof -
  have i: "lk_inv s" using reach_inv [OF assms] .
  then obtain stk where stk: "\<forall>t. bal (stk t) (lk_todo s t)" "\<forall>m. owned stk m (lk_mx s m)" by (auto simp: lk_inv_def)
  have "lk_mx s m = None" if "\<forall>t. lk_todo s t = []" for m
  proof -
    have e: "stk t = []" for t using stk(1) that by (metis bal.simps(1))
    then show ?thesis using stk(2) [rule_format, of m] by (auto simp: owned_def split: option.splits)
  qed
  then show ?thesis using inv_step [OF i] by auto
qed

section \<open>Runs\<close>

text \<open>The step of a task as a function, and a run by a schedule of tasks.\<close>

definition lk_next :: "nat \<Rightarrow> lk_state \<Rightarrow> (access option \<times> lk_state) option" where
  "lk_next t s = (case lk_todo s t of
     [] \<Rightarrow> None
   | LAcc a # as \<Rightarrow> Some (Some a, s\<lparr>lk_todo := (lk_todo s)(t := as)\<rparr>)
   | LTake m # as \<Rightarrow> map_option (\<lambda>x. (None, s\<lparr>lk_mx := (lk_mx s)(m := x), lk_todo := (lk_todo s)(t := as)\<rparr>)) (mutex_lock t (lk_mx s m))
   | LGive m # as \<Rightarrow> Some (None, s\<lparr>lk_mx := (lk_mx s)(m := mutex_unlock t (lk_mx s m)), lk_todo := (lk_todo s)(t := as)\<rparr>))"

lemma lk_next_step: "lk_next t s = Some (a, s') \<Longrightarrow> lk_step t a s s'"
  by (auto simp: lk_next_def intro: lk_step.intros split: list.splits lact.splits)

fun lk_sched :: "nat list \<Rightarrow> lk_state \<Rightarrow> ((nat \<times> access) list \<times> lk_state) option" where
  "lk_sched [] s = Some ([], s)"
| "lk_sched (t # ts) s = do { (a, s1) \<leftarrow> lk_next t s; (tr, s2) \<leftarrow> lk_sched ts s1; Some ((case a of None \<Rightarrow> [] | Some x \<Rightarrow> [(t, x)]) @ tr, s2) }"

lemma lk_sched_reach: "lk_reach calls tr s \<Longrightarrow> lk_sched ts s = Some (tr', s') \<Longrightarrow> lk_reach calls (tr @ tr') s'"
proof (induction ts arbitrary: tr s tr')
  case (Cons t ts)
  then obtain a s1 tr1 where n: "lk_next t s = Some (a, s1)" "lk_sched ts s1 = Some (tr1, s')"
    "tr' = (case a of None \<Rightarrow> [] | Some x \<Rightarrow> [(t, x)]) @ tr1" by (auto split: bind_splits)
  then have "lk_reach calls (tr @ (case a of None \<Rightarrow> [] | Some x \<Rightarrow> [(t, x)])) s1" using Cons.prems(1) lk_reach.intros(2) lk_next_step by blast
  from Cons.IH [OF this n(2)] show ?case using n(3) by simp
qed simp

lemma lk_run: "lk_sched ts (lk_init calls) = Some (tr, s) \<Longrightarrow> lk_reach calls tr s"
  using lk_sched_reach [OF lk_reach.intros(1)] by fastforce

text \<open>Reading a line looks at the pointer of the queue before it takes the lock: between that and receiving from the queue another task can
  replace the driver, and with it the queue.\<close>

lemma read_line_after_driver:
  "\<exists>s. lk_reach (\<lambda>t. if t = 0 then [lk_runBootLoader False False False False] else if t = 1 then [lk_read_line [False]] else [])
     [(1, AQueuePtr), (0, AQueuePtr), (0, APins), (0, AQueuePtr), (0, ADriver), (1, AQueue)] s"
proof -
  have "\<exists>s. lk_sched (1 # replicate 12 0 @ [1, 1]) (lk_init (\<lambda>t. if t = 0 then [lk_runBootLoader False False False False] else if t = 1 then [lk_read_line [False]] else [])) =
      Some ([(1, AQueuePtr), (0, AQueuePtr), (0, APins), (0, AQueuePtr), (0, ADriver), (1, AQueue)], s)"
    by (simp add: lk_init_def flats_def lk_runBootLoader_def lk_reset_def lk_configSerial_def wake_up_lock_guard_def lk_wake_up_queue_def lk_read_line_def
        lk_next_def mutex_lock_def mutex_unlock_def eval_nat_numeral)
  then show ?thesis using lk_run by blast
qed

section \<open>Races\<close>

text \<open>Two tasks race when both have an access as their next action and these conflict.\<close>

definition races_in :: "lk_state \<Rightarrow> (access \<times> access) set" where
  "races_in s = {(a, b). \<exists>t u as bs. t \<noteq> u \<and> lk_todo s t = LAcc a # as \<and> lk_todo s u = LAcc b # bs \<and> conflict a b}"

lemma races_only_unguarded:
  assumes "lk_inv s"
  shows "races_in s \<subseteq> unguarded \<times> {ADriver} \<union> {ADriver} \<times> unguarded"
proof
  fix p assume "p \<in> races_in s"
  then obtain a b t u as bs where p: "p = (a, b)" "t \<noteq> u" "lk_todo s t = LAcc a # as" "lk_todo s u = LAcc b # bs" "conflict a b"
    by (auto simp: races_in_def)
  have "guards a \<inter> guards b = {}"
  proof (rule ccontr)
    assume "guards a \<inter> guards b \<noteq> {}"
    then obtain m where m: "m \<in> guards a" "m \<in> guards b" by blast
    then show False using reach_acc_holds [OF assms p(3) m(1)] reach_acc_holds [OF assms p(4) m(2)] p(2) by auto
  qed
  with conflict_guarded [OF p(5)] show "p \<in> unguarded \<times> {ADriver} \<union> {ADriver} \<times> unguarded" using p(1) by blast
qed

lemma conflict_sym: "conflict a b \<longleftrightarrow> conflict b a"
  by (auto simp: conflict_def)

lemma races_sym: "(a, b) \<in> races_in s \<Longrightarrow> (b, a) \<in> races_in s"
  unfolding races_in_def using iffD1 [OF conflict_sym] by (simp, metis)

text \<open>All the races there are: in any state that tasks reach by any sequences of calls.\<close>

definition line_races :: "(access \<times> access) set" where
  "line_races = {p. \<exists>calls tr s. (\<forall>t. \<forall>c \<in> set (calls t). stm32_call c) \<and> lk_reach calls tr s \<and> p \<in> races_in s}"

text \<open>Their examples: one task configures the line and is about to replace the driver, with both mutexes, and another one begins a reset or asks for the mode.\<close>

definition race_calls :: "access \<Rightarrow> nat \<Rightarrow> lprog list list" where
  "race_calls a t = (if t = 0 then [lk_configSerial False]
     else if t = 1 then [if a = AMode then ts_stm32_isFirmwareRunning else lk_reset True True] else [])"

lemma race_calls_ok: "\<forall>t. \<forall>c \<in> set (race_calls a t). stm32_call c"
  by (auto simp: race_calls_def intro: stm32_call.intros)

lemma race_reached:
  assumes "a \<in> unguarded"
  shows "\<exists>tr s. lk_reach (race_calls a) tr s \<and> (a, ADriver) \<in> races_in s"
proof -
  have "\<exists>tr s as bs. lk_sched ([0, 0, 0] @ (if a = AWake then [1] else [])) (lk_init (race_calls a)) = Some (tr, s) \<and>
      lk_todo s 1 = LAcc a # as \<and> lk_todo s 0 = LAcc ADriver # bs"
    using assms by (auto simp: unguarded_def lk_init_def flats_def race_calls_def lk_configSerial_def lk_reset_def wake_up_lock_guard_def
        lk_wake_up_queue_def ts_stm32_isFirmwareRunning_def lk_next_def mutex_lock_def)
  then show ?thesis using lk_run unguarded_conflict [OF assms] by (fastforce simp: races_in_def)
qed

text \<open>C14: The races on the line, exactly: whatever sequences of calls the tasks make - sending, receiving, reading lines, resets, changes of the mode,
  commands of the boot loader, or whole firmware updates - and however they are interleaved, two tasks are never about to make accesses of which one
  writes what the other uses, except that one of them replaces the driver, with both mutexes, while the other one, without a mutex, looks at the pointer of
  the queue (in the wake-up of a lock guard or in the loop that reads lines), sends the wake-up to the queue behind that pointer, or looks at the mode to say
  whether the firmware is running. These three races do occur. All sending, receiving, taking of events and setting of pins is free of them.\<close>

theorem stm32_races_exactly:
  "line_races = {AQueuePtr, AWake, AMode} \<times> {ADriver} \<union> {ADriver} \<times> {AQueuePtr, AWake, AMode}"
proof -
  have "line_races \<subseteq> unguarded \<times> {ADriver} \<union> {ADriver} \<times> unguarded"
    using races_only_unguarded reach_inv unfolding line_races_def by blast
  moreover have r: "(a, ADriver) \<in> line_races" if a: "a \<in> unguarded" for a
    using race_reached [OF a] race_calls_ok [of a] unfolding line_races_def by blast
  moreover have "(ADriver, a) \<in> line_races" if a: "a \<in> unguarded" for a
    using r [OF a] races_sym unfolding line_races_def by blast
  ultimately show ?thesis unfolding unguarded_def by blast
qed

text \<open>Receiving and sending by two tasks at the same time.\<close>

definition duplex :: "nat \<Rightarrow> lprog list list" where
  "duplex t = (if t = 0 then [ts_stm32_read] else if t = 1 then [ts_stm32_write] else [])"

lemma duplex_calls: "\<forall>t. \<forall>c \<in> set (duplex t). stm32_call c"
  by (auto simp: duplex_def intro: stm32_call.intros)

theorem stm32_no_deadlock_witness:
  "\<exists>t a s'. lk_step t a (lk_init duplex) s'"
proof -
  have "\<exists>t. lk_todo (lk_init duplex) t \<noteq> []" by (rule exI [of _ 0]) (simp add: lk_init_def flats_def duplex_def ts_stm32_read_def)
  then show ?thesis using stm32_no_deadlock [OF duplex_calls lk_reach.intros(1)] by simp
qed

end
