(* ===== verification/Spec2Isabelle.thy ===== *)
theory Spec2Isabelle
  imports KvsProps CliProps UoProps JsonProps Stm32Props Stm32Ota CliOutProps CliDispatchProps TcpCliProps HttpProps CStringProps Base64Props ConfigLogin TxtIoProps MqttProps HttpClientProps WeatherProps NetworkProps UartConsoleProps MainLoop KvsNvsProps Ntp Services Stm32LockProps
begin

text \<open>
  A verification library for components-mcu, the components a home automation firmware for the ESP32 is built from (C++ and C, most of
  them with a version for the device and one for the host).

  \<^bold>\<open>The program.\<close> Each directory under src/ is a component. Settings live in a key-value store (kvs), with a version in files on
  the host and one over the NVS library on the device; config_kvs keeps a table of settings that each component extends in its
  comp_glue.hh, and reads and saves items by it. Commands arrive as lines (cli: a line reader, an in-place tokenizer, and a dispatcher for
  command lines and for JSON over jsmn) from the serial console (txtio), from TCP clients (net), from the web (net_http_server) and from
  MQTT (net_mqtt_client). Answers and events leave through uout: writers for a target, a text builder and an incremental JSON builder, and
  a table of callbacks to which the consoles, web sockets and MQTT subscribe. main_loop runs functions of other tasks in the main task.
  net and net_connect bring interfaces up and down; stm32 programs an attached micro-controller through its boot loader; weather fetches,
  stores and evaluates weather data. The host application is not part of the sources.

  \<^bold>\<open>Conventions.\<close> Machine integers are words of their width, C strings are lists of characters (c_str cuts a buffer at its
  terminator), memory blocks are lists, and pointers into them indexes. State is passed explicitly. A result None or Inl is the end of
  the program at that point: a failed assertion, an abort, or an access outside of a block; that an operation is well behaved is always
  proved as "the result is Some/Inr". The SDK, lwIP, POSIX calls, memory allocation, clocks, float arithmetic and the JSMN parser (an
  empty submodule) are parameters: records of functions on an abstract state, or results that are arguments. Some records of effects
  (traces) list the calls made to them. Every operation runs alone, as under the lock it takes; for the serial line to the STM32, whose
  functions nest two locks, Stm32Locks models the locks themselves and the interleavings of any number of tasks.

  \<^bold>\<open>Theories.\<close> Prelude and CStd hold the vocabulary, list lemmas and C library functions. For each component there are one or
  more theories of definitions, and one of properties whose name ends in Props (small components keep both in one).

  Store. KvsNode (struct line_info), KvsStore (the operations on an open file) and KvsHandles (handle table, open and close) are
  kvs/host; KvsRefine, KvsMap, KvsPlace and KvsOps show that the file is the image of a map and every operation an update or a lookup of
  it. KvsContract states the interface (kvs_wrapper.h) as the record kvs_ops and the locale kvs_contract, and interprets it by the host
  store. KvsNvs is kvs/esp32; KvsNvsProps states the documented behaviour of NVS and derives the same contract. Lemmas of clients are
  proved in the locale and so hold for both: ConfigKvs (config_kvs.cc), SettingsProps, ConfigLogin and WeatherProps.

  Settings. Settings is the table with its registrations, ConfigGlue reading each component's configuration by it and printing items.
  SettingsProps: in every build the table registers each item once under a key and an option of its own; readings are
  what the store has; a password is not shown. ConfigLogin follows the credentials from the store to the answer of a request.

  Commands. CliLine refines a line editor; CliParse implements a grammar (a reference of lists); Jsmn and JsmnTree are the
  token iterator and the order of tokens it relies on; CliProcess and CliDispatch show which handlers are called with which parameters. TcpCliTask
  is the TCP console with its descriptors and subscription, UartConsole the serial console, TxtIo the printing functions below it.

  Output. JsonBuilder, JsonStream and JsonTree refine the incremental builder to a stream (no text lost or repeated) and then to the usual
  printer of a JSON value; UoutWriter are the writers, an interface locale json_sink among them; CliOut is the text output and the printer over both. UoCallbacks is the
  table of callbacks with its reachable states.

  Network. Network (interfaces as a step relation over handlers and set-ups, with the invariant that one interface at a time is up),
  Mqtt (the client library is a state machine whose protocol every run keeps), HttpServer (the base64 decoder of the SDK is a parameter), HttpClient, Ntp, Base64.

  Others. Stm32Uart, Stm32Boot, Stm32Frames (an upload is the exchange of the frames of a reference protocol; the locale serial_line is the line, the
  UART of the device provides it), Stm32Ota, and Stm32Locks (which races there are between accesses to the line, and that there is no deadlock); Weather; MainLoop; CString (owned strings over a heap); Services (times, BCD, files,
  firmware update).

  \<^bold>\<open>Bounds and fuel.\<close> Searches of the store take one more iteration than the file has bytes, at least one per node: KvsPlace and
  KvsOps show that this is enough, since each iteration moves on by a node. Parsing takes the length of the line, skipping a JSON value
  twice the number of tokens plus three, since each call consumes a token; receiving an HTTP response takes the size of the buffer plus one. That these suffice
  is part of the theorems, which state the result itself. The loop of the main queue need not end when functions push
  more functions: with a limit, any number of turns above it is enough, and without one the theorem says after which number of turns the loop has ended. Loops that need not end (content readers) are
  partial_function; that they do is proved for readers of finite content.

  \<^bold>\<open>Not modelled.\<close> net/esp32/tcp_server.cc (taken out of the build, superseded by the task), the calculation of sunrise and of plant
  transpiration, ftoa and stof (float arithmetic), printf-like formatting, log output, the mutexes of the consoles, functions that only forward
  to a method, tests and their runners, generated headers, web content, and settings of the build. PROJECT.json lists every component with what
  is left out of it.
\<close>

end
